(* ===== verification/Prelude.thy ===== *)
theory Prelude
  imports "HOL-Library.Word"
begin

text \<open>
  Shared vocabulary of the development.

  \<^item> Machine integers: a Rust \<^verbatim>\<open>u32\<close> / \<^verbatim>\<open>u64\<close> is a \<^verbatim>\<open>32 word\<close> / \<^verbatim>\<open>64 word\<close>, with the standard
    library's \<^verbatim>\<open>saturating_add\<close> and \<^verbatim>\<open>saturating_sub\<close> written out.
  \<^item> Text: a Rust \<^verbatim>\<open>str\<close> is the list of its Unicode scalar values (a \<^verbatim>\<open>nat list\<close>), with the
    operations of \<^verbatim>\<open>str\<close> the sources call (trimming, splitting, \<^verbatim>\<open>lines\<close>, prefix tests).
  \<^item> Results: \<^verbatim>\<open>Result<T, E>\<close> is the sum \<^verbatim>\<open>'e + 'a\<close>, the error on the left.
  \<^item> Generic list lemmas, and the collections that carry the component proofs.
\<close>

named_theorems sat_simps \<open>reading saturating arithmetic back as natural-number arithmetic\<close>
named_theorems str_simps \<open>evaluation of the string operations\<close>

type_synonym u8 = "8 word"
type_synonym u32 = "32 word"
type_synonym u64 = "64 word"

type_synonym uchar = nat
type_synonym ustring = "uchar list"

section \<open>Results\<close>

fun result_bind :: "'e + 'a \<Rightarrow> ('a \<Rightarrow> 'e + 'b) \<Rightarrow> 'e + 'b" where
  "result_bind (Inl e) f = Inl e"
| "result_bind (Inr a) f = f a"

text \<open>Collecting an iterator of results into one: the first error wins.\<close>

fun collect_results :: "('e + 'a) list \<Rightarrow> 'e + 'a list" where
  "collect_results [] = Inr []"
| "collect_results (Inl e # rs) = Inl e"
| "collect_results (Inr a # rs) = result_bind (collect_results rs) (\<lambda>as. Inr (a # as))"

lemma result_bind_Inr_iff: "result_bind r f = Inr b \<longleftrightarrow> (\<exists>a. r = Inr a \<and> f a = Inr b)"
  by (cases r) auto

lemma result_bind_Inl_iff:
  "result_bind r f = Inl e \<longleftrightarrow> r = Inl e \<or> (\<exists>a. r = Inr a \<and> f a = Inl e)"
  by (cases r) auto

lemma collect_results_Inr: "collect_results rs = Inr as \<longleftrightarrow> rs = map Inr as"
proof (induction rs arbitrary: as)
  case (Cons r rs)
  then show ?case by (cases r; cases as) (auto simp: result_bind_Inr_iff)
qed auto

section \<open>Saturating machine arithmetic\<close>

definition saturating_add :: "'a::len word \<Rightarrow> 'a word \<Rightarrow> 'a word" where
  "saturating_add a b = (if a \<le> a + b then a + b else - 1)"

definition saturating_sub :: "'a::len word \<Rightarrow> 'a word \<Rightarrow> 'a word" where
  "saturating_sub a b = (if b \<le> a then a - b else 0)"

text \<open>The largest value of the type, as a natural number.\<close>

abbreviation word_max :: "'a::len word itself \<Rightarrow> nat" where
  "word_max t \<equiv> 2 ^ LENGTH('a) - 1"

lemma unat_minus_one_word: "unat (- 1 :: 'a::len word) = 2 ^ LENGTH('a) - 1"
  by (simp add: unat_eq_nat_uint nat_diff_distrib nat_power_eq unsigned_minus_1_eq_mask mask_eq_exp_minus_1 flip: of_nat_diff)

lemma unat_le_max: "unat (a :: 'a::len word) \<le> 2 ^ LENGTH('a) - 1"
  using unsigned_less [of a, where ?'a = nat] by linarith

lemma unat_saturating_add [sat_simps]:
  fixes a b :: "'a::len word"
  shows "unat (saturating_add a b) = min (unat a + unat b) (2 ^ LENGTH('a) - 1)"
proof (cases "unat a + unat b < 2 ^ LENGTH('a)")
  case True
  then have "unat (a + b) = unat a + unat b" by (simp add: unat_add_lem)
  moreover from this have "a \<le> a + b" by (simp add: word_le_nat_alt)
  ultimately show ?thesis using True by (simp add: saturating_add_def)
next
  case False
  have "unat (a + b) = unat a + unat b - 2 ^ LENGTH('a)"
    using False by (simp add: unat_plus_if')
  then have "\<not> a \<le> a + b"
    using False unsigned_less [of a, where ?'a = nat] unsigned_less [of b, where ?'a = nat]
    unfolding word_le_nat_alt by linarith
  then show ?thesis using False by (simp add: saturating_add_def unat_minus_one_word)
qed

lemma unat_saturating_sub [sat_simps]: "unat (saturating_sub a b) = unat a - unat b"
  by (simp add: saturating_sub_def unat_sub word_le_nat_alt)

lemma saturating_add_assoc: "saturating_add (saturating_add a b) c = saturating_add a (saturating_add b c)"
  by (rule word_unat_eq_iff [THEN iffD2]) (simp add: sat_simps)

lemma saturating_add_commute: "saturating_add a b = saturating_add b a"
  by (rule word_unat_eq_iff [THEN iffD2]) (simp add: sat_simps add.commute)

lemma saturating_add_0 [simp]: "saturating_add a 0 = a" "saturating_add 0 a = a"
  by (simp_all add: saturating_add_def)

lemma saturating_add_mono: "a \<le> saturating_add a b"
  using unat_le_max [of a] by (simp add: word_le_nat_alt sat_simps)

text \<open>Clipping the summands changes nothing under an outer clip.\<close>

lemma min_min_add: "min (min a c + b) (c::nat) = min (a + b) c" "min (b + min a c) c = min (b + a) c"
  by (simp_all add: min_def)

section \<open>Text\<close>

text \<open>A string literal of the source, as scalar values.\<close>

definition lit :: "string \<Rightarrow> ustring" where
  "lit cs = map of_char cs"

lemma lit_eq_iff [simp]: "lit a = lit b \<longleftrightarrow> a = b"
  by (simp add: lit_def inj_map_eq_map inj_on_def)

lemma lit_Nil [simp]: "lit [] = []" by (simp add: lit_def)

lemma lit_Nil_iff [simp]: "lit a = [] \<longleftrightarrow> a = []" "[] = lit a \<longleftrightarrow> a = []"
  by (simp_all add: lit_def)

text \<open>\<^verbatim>\<open>char::is_whitespace\<close>: the Unicode property White\_Space.\<close>

definition is_whitespace :: "uchar \<Rightarrow> bool" where
  "is_whitespace c \<longleftrightarrow> 9 \<le> c \<and> c \<le> 13 \<or> c = 32 \<or> c = 133 \<or> c = 160 \<or> c = 5760
     \<or> 8192 \<le> c \<and> c \<le> 8202 \<or> c = 8232 \<or> c = 8233 \<or> c = 8239 \<or> c = 8287 \<or> c = 12288"

text \<open>\<^verbatim>\<open>char::is_control\<close>: the general category Cc.\<close>

definition is_control :: "uchar \<Rightarrow> bool" where
  "is_control c \<longleftrightarrow> c < 32 \<or> 127 \<le> c \<and> c < 160"

definition is_ascii_digit :: "uchar \<Rightarrow> bool" where
  "is_ascii_digit c \<longleftrightarrow> 48 \<le> c \<and> c \<le> 57"

definition to_ascii_lowercase :: "uchar \<Rightarrow> uchar" where
  "to_ascii_lowercase c = (if 65 \<le> c \<and> c \<le> 90 then c + 32 else c)"

text \<open>Length in bytes of the UTF-8 encoding (\<^verbatim>\<open>str::len\<close>).\<close>

definition len_utf8 :: "uchar \<Rightarrow> nat" where
  "len_utf8 c = (if c < 128 then 1 else if c < 2048 then 2 else if c < 65536 then 3 else 4)"

definition byte_len :: "ustring \<Rightarrow> nat" where
  "byte_len s = sum_list (map len_utf8 s)"

definition trim_start_matches :: "(uchar \<Rightarrow> bool) \<Rightarrow> ustring \<Rightarrow> ustring" where
  "trim_start_matches p s = dropWhile p s"

definition trim_end_matches :: "(uchar \<Rightarrow> bool) \<Rightarrow> ustring \<Rightarrow> ustring" where
  "trim_end_matches p s = rev (dropWhile p (rev s))"

definition trim_start :: "ustring \<Rightarrow> ustring" where
  "trim_start = trim_start_matches is_whitespace"

definition trim_end :: "ustring \<Rightarrow> ustring" where
  "trim_end = trim_end_matches is_whitespace"

definition trim :: "ustring \<Rightarrow> ustring" where
  "trim s = trim_start (trim_end s)"

fun strip_prefix :: "ustring \<Rightarrow> ustring \<Rightarrow> ustring option" where
  "strip_prefix [] s = Some s"
| "strip_prefix (p # ps) [] = None"
| "strip_prefix (p # ps) (c # cs) = (if p = c then strip_prefix ps cs else None)"

definition starts_with :: "ustring \<Rightarrow> ustring \<Rightarrow> bool" where
  "starts_with p s \<longleftrightarrow> strip_prefix p s \<noteq> None"

definition strip_suffix :: "ustring \<Rightarrow> ustring \<Rightarrow> ustring option" where
  "strip_suffix p s = map_option rev (strip_prefix (rev p) (rev s))"

fun contains_str :: "ustring \<Rightarrow> ustring \<Rightarrow> bool" where
  "contains_str p [] = (p = [])"
| "contains_str p (c # cs) = (starts_with p (c # cs) \<or> contains_str p cs)"

text \<open>\<^verbatim>\<open>str::split(char)\<close>, \<^verbatim>\<open>str::split_inclusive(char)\<close> and \<^verbatim>\<open>str::lines\<close>.\<close>

fun split_char :: "uchar \<Rightarrow> ustring \<Rightarrow> ustring list" where
  "split_char d [] = [[]]"
| "split_char d (c # cs) =
     (if c = d then [] # split_char d cs
      else (case split_char d cs of [] \<Rightarrow> [[c]] | l # ls \<Rightarrow> (c # l) # ls))"

fun split_inclusive :: "uchar \<Rightarrow> ustring \<Rightarrow> ustring list" where
  "split_inclusive d [] = []"
| "split_inclusive d (c # cs) =
     (if c = d then [c] # split_inclusive d cs
      else (case split_inclusive d cs of [] \<Rightarrow> [[c]] | l # ls \<Rightarrow> (c # l) # ls))"

definition strip_line_ending :: "ustring \<Rightarrow> ustring" where
  "strip_line_ending l =
     (case strip_suffix [10] l of
        None \<Rightarrow> l
      | Some l1 \<Rightarrow> (case strip_suffix [13] l1 of None \<Rightarrow> l1 | Some l2 \<Rightarrow> l2))"

definition str_lines :: "ustring \<Rightarrow> ustring list" where
  "str_lines s = map strip_line_ending (split_inclusive 10 s)"

fun join_str :: "ustring \<Rightarrow> ustring list \<Rightarrow> ustring" where
  "join_str sep [] = []"
| "join_str sep [x] = x"
| "join_str sep (x # y # ys) = x @ sep @ join_str sep (y # ys)"

declare lit_def [str_simps] is_whitespace_def [str_simps] is_control_def [str_simps]
  trim_def [str_simps] trim_start_def [str_simps] trim_end_def [str_simps]
  trim_start_matches_def [str_simps] trim_end_matches_def [str_simps]

subsection \<open>Facts about text\<close>

lemma strip_prefix_Some_iff: "strip_prefix p s = Some r \<longleftrightarrow> s = p @ r"
  by (induction p s arbitrary: r rule: strip_prefix.induct) auto

lemma strip_prefix_append [simp]: "strip_prefix p (p @ r) = Some r"
  by (simp add: strip_prefix_Some_iff)

lemma strip_prefix_None_iff: "strip_prefix p s = None \<longleftrightarrow> (\<forall>r. s \<noteq> p @ r)"
  by (metis not_None_eq strip_prefix_Some_iff)

lemma starts_with_iff: "starts_with p s \<longleftrightarrow> (\<exists>r. s = p @ r)"
  by (simp add: starts_with_def strip_prefix_None_iff)

lemma strip_suffix_Some_iff: "strip_suffix p s = Some r \<longleftrightarrow> s = r @ p"
  by (auto simp: strip_suffix_def strip_prefix_Some_iff) (metis rev_append rev_rev_ident)

lemma strip_suffix_append [simp]: "strip_suffix p (r @ p) = Some r"
  by (simp add: strip_suffix_Some_iff)

lemma strip_suffix_None_iff: "strip_suffix p s = None \<longleftrightarrow> (\<forall>r. s \<noteq> r @ p)"
  by (metis not_None_eq strip_suffix_Some_iff)

lemma concat_split_inclusive [simp]: "concat (split_inclusive d s) = s"
  by (induction s) (auto split: list.splits)

lemma split_inclusive_nonempty: "l \<in> set (split_inclusive d s) \<Longrightarrow> l \<noteq> []"
  by (induction s arbitrary: l) (auto split: list.splits if_splits)

lemma split_char_not_Nil [simp]: "split_char d s \<noteq> []"
  by (induction s) (auto split: list.splits)

lemma join_split_char: "join_str [d] (split_char d s) = s"
proof (induction s)
  case (Cons c cs)
  then show ?case by (cases "split_char d cs"; cases "tl (split_char d cs)") auto
qed simp

lemma split_char_no_sep: "l \<in> set (split_char d s) \<Longrightarrow> d \<notin> set l"
  by (induction s arbitrary: l) (auto split: list.splits if_splits)

lemma split_char_line: "d \<notin> set l \<Longrightarrow> split_char d (l @ d # s) = l # split_char d s"
  by (induction l) auto

lemma contains_str_set: "contains_str p s \<Longrightarrow> set p \<subseteq> set s"
proof (induction s)
  case (Cons c s)
  have "set p \<subseteq> set (c # s)" if "starts_with p (c # s)"
    using that by (metis set_append starts_with_iff sup_ge1)
  then show ?case using Cons by auto
qed simp

lemma dropWhile_idem [simp]: "dropWhile p (dropWhile p s) = dropWhile p s"
  by (induction s) auto

lemma trim_start_matches_idem: "trim_start_matches p (trim_start_matches p s) = trim_start_matches p s"
  by (simp add: trim_start_matches_def)

lemma trim_end_matches_idem: "trim_end_matches p (trim_end_matches p s) = trim_end_matches p s"
  by (simp add: trim_end_matches_def)

text \<open>Trimming both ends is order-independent, so \<^verbatim>\<open>trim\<close> is well defined by either order.\<close>

lemma trim_end_matches_snoc:
  "trim_end_matches p (s @ [c]) = (if p c then trim_end_matches p s else s @ [c])"
  by (simp add: trim_end_matches_def)

lemma trim_end_matches_Cons:
  "trim_end_matches p (c # s) =
     (if trim_end_matches p s = [] then (if p c then [] else [c]) else c # trim_end_matches p s)"
proof (induction s rule: rev_induct)
  case Nil
  then show ?case by (simp add: trim_end_matches_def)
next
  case (snoc x xs)
  then show ?case
    by (simp flip: append_Cons add: trim_end_matches_snoc)
qed

lemma trim_end_matches_Nil_iff: "trim_end_matches p s = [] \<longleftrightarrow> (\<forall>c\<in>set s. p c)"
  by (simp add: trim_end_matches_def)

lemma trim_matches_commute:
  "trim_start_matches p (trim_end_matches p s) = trim_end_matches p (trim_start_matches p s)"
proof (induction s)
  case (Cons c s)
  show ?case
  proof (cases "\<forall>x\<in>set s. p x")
    case True
    then have "trim_end_matches p (dropWhile p s) = []"
      by (auto simp: trim_end_matches_Nil_iff dest: set_dropWhileD)
    moreover have "trim_end_matches p s = []" using True by (simp add: trim_end_matches_Nil_iff)
    ultimately show ?thesis by (simp add: trim_end_matches_Cons trim_start_matches_def)
  next
    case False
    then have "trim_end_matches p s \<noteq> []" by (simp add: trim_end_matches_Nil_iff)
    with Cons show ?thesis by (simp add: trim_end_matches_Cons trim_start_matches_def)
  qed
qed (simp add: trim_start_matches_def trim_end_matches_def)

lemma trim_idem [simp]: "trim (trim s) = trim s"
  by (simp add: trim_def trim_start_def trim_end_def trim_matches_commute
      trim_end_matches_idem trim_start_matches_idem)

lemma trim_trim_end [simp]: "trim (trim_end s) = trim s"
  by (simp add: trim_def trim_end_def trim_end_matches_idem)

section \<open>Lists\<close>

text \<open>Removing the front of a \<^verbatim>\<open>Vec\<close> until it holds at most \<open>n\<close> elements.\<close>

definition keep_last :: "nat \<Rightarrow> 'a list \<Rightarrow> 'a list" where
  "keep_last n xs = drop (length xs - n) xs"

lemma length_keep_last [simp]: "length (keep_last n xs) = min n (length xs)"
  by (simp add: keep_last_def)

lemma keep_last_id: "length xs \<le> n \<Longrightarrow> keep_last n xs = xs"
  by (simp add: keep_last_def)

lemma last_keep_last: "0 < n \<Longrightarrow> xs \<noteq> [] \<Longrightarrow> last (keep_last n xs) = last xs"
  by (simp add: keep_last_def last_drop)

lemma keep_last_snoc: "0 < n \<Longrightarrow> keep_last n (xs @ [x]) = keep_last (n - 1) xs @ [x]"
  by (simp add: keep_last_def Suc_diff_le)

text \<open>Reading a list from a position: one element, and a run of elements.\<close>

lemma drop_step:
  assumes "drop c lines = x # r"
  shows "lines ! c = x" "drop (Suc c) lines = r" "length lines = Suc (c + length r)"
proof -
  have c: "c < length lines" using assms by (metis drop_eq_Nil list.distinct(1) not_le)
  show "lines ! c = x" using assms c by (metis Cons_nth_drop_Suc list.inject)
  show "drop (Suc c) lines = r" using assms c by (metis Cons_nth_drop_Suc list.inject)
  then show "length lines = Suc (c + length r)" using c length_drop [of "Suc c" lines] by simp
qed

lemma drop_append_run:
  assumes "drop c lines = xs @ r"
  shows "drop (c + length xs) lines = r"
  using assms by (metis add.commute append_eq_conv_conj drop_drop)

lemma in_set_map_filter: "y \<in> set (List.map_filter f xs) \<longleftrightarrow> (\<exists>x\<in>set xs. f x = Some y)"
  by (induction xs) (auto simp: List.map_filter_simps split: option.splits)

lemma find_Some_split:
  "find P xs = Some x \<longleftrightarrow> (\<exists>ys zs. xs = ys @ x # zs \<and> P x \<and> (\<forall>y\<in>set ys. \<not> P y))"
proof (induction xs)
  case (Cons a xs)
  show ?case
  proof (cases "P a")
    case True
    then show ?thesis by (auto simp: Cons_eq_append_conv)
  next
    case False
    then show ?thesis using Cons by (auto simp: Cons_eq_append_conv) (metis set_ConsD)+
  qed
qed simp

end
