(* ===== verification/Usage_Ledger.thy ===== *)
theory Usage_Ledger
  imports Prelude
begin

text \<open>
  The token ledger of \<^verbatim>\<open>ra-core/src/usage.rs\<close> with the unknown-field store and the schema
  versions of \<^verbatim>\<open>ra-core/src/compat.rs\<close>.

  A JSON value is opaque to this code (\<^verbatim>\<open>serde_json::Value\<close>), so it is the type parameter \<open>'v\<close>.
  Counters are 64-bit words, a \<^verbatim>\<open>Vec\<close> of entries is a list, a \<^verbatim>\<open>BTreeMap\<close> of unknown fields a map.
  The contract the budget code relies on (adding a ledger adds what it meters, up to the cap of
  the counter) is the locale \<open>spend_ledger\<close>, interpreted on the definitions of this theory.
\<close>

section \<open>Schema versions and unknown fields\<close>

datatype compatibility = Same | Older | Newer

definition compatibility :: "u32 \<Rightarrow> u32 \<Rightarrow> compatibility" where
  "compatibility self local = (if self = local then Same else if self < local then Older else Newer)"

definition needs_migration :: "compatibility \<Rightarrow> bool" where
  "needs_migration c \<longleftrightarrow> c = Older"

lemma needs_migration_iff: "needs_migration (compatibility v local) \<longleftrightarrow> v < local"
  by (auto simp: needs_migration_def compatibility_def)

type_synonym 'v unknown = "ustring \<rightharpoonup> 'v"

definition extend_from :: "'v unknown \<Rightarrow> 'v unknown \<Rightarrow> 'v unknown" where
  "extend_from self other = self ++ other"

section \<open>One request\<close>

definition REQUEST_USAGE_SCHEMA_VERSION :: u32 where "REQUEST_USAGE_SCHEMA_VERSION = 1"
definition USAGE_SCHEMA_VERSION :: u32 where "USAGE_SCHEMA_VERSION = 1"

record 'v request_usage =
  ru_schema_version :: u32
  ru_input_tokens :: u64
  ru_output_tokens :: u64
  ru_cached_input_tokens :: u64
  ru_cache_write_tokens :: u64
  ru_reasoning_tokens :: u64
  ru_unknown :: "'v unknown"

definition request_usage_new :: "u64 \<Rightarrow> u64 \<Rightarrow> 'v request_usage" where
  "request_usage_new input_tokens output_tokens =
     \<lparr> ru_schema_version = REQUEST_USAGE_SCHEMA_VERSION, ru_input_tokens = input_tokens,
       ru_output_tokens = output_tokens, ru_cached_input_tokens = 0, ru_cache_write_tokens = 0,
       ru_reasoning_tokens = 0, ru_unknown = Map.empty \<rparr>"

definition with_cached_input_tokens :: "'v request_usage \<Rightarrow> u64 \<Rightarrow> 'v request_usage" where
  "with_cached_input_tokens self tokens = self\<lparr>ru_cached_input_tokens := tokens\<rparr>"

definition with_cache_write_tokens :: "'v request_usage \<Rightarrow> u64 \<Rightarrow> 'v request_usage" where
  "with_cache_write_tokens self tokens = self\<lparr>ru_cache_write_tokens := tokens\<rparr>"

definition with_reasoning_tokens :: "'v request_usage \<Rightarrow> u64 \<Rightarrow> 'v request_usage" where
  "with_reasoning_tokens self tokens = self\<lparr>ru_reasoning_tokens := tokens\<rparr>"

definition request_total_tokens :: "'v request_usage \<Rightarrow> u64" where
  "request_total_tokens self = saturating_add (ru_input_tokens self) (ru_output_tokens self)"

section \<open>The ledger\<close>

record 'v usage =
  u_schema_version :: u32
  u_requests :: u64
  u_input_tokens :: u64
  u_output_tokens :: u64
  u_cached_input_tokens :: u64
  u_cache_write_tokens :: u64
  u_reasoning_tokens :: u64
  u_carried_total_tokens :: u64
  u_request_usage_entries :: "'v request_usage list"
  u_unknown :: "'v unknown"

definition usage_default :: "'v usage" where
  "usage_default =
     \<lparr> u_schema_version = USAGE_SCHEMA_VERSION, u_requests = 0, u_input_tokens = 0,
       u_output_tokens = 0, u_cached_input_tokens = 0, u_cache_write_tokens = 0,
       u_reasoning_tokens = 0, u_carried_total_tokens = 0, u_request_usage_entries = [],
       u_unknown = Map.empty \<rparr>"

definition from_request :: "'v request_usage \<Rightarrow> 'v usage" where
  "from_request request =
     \<lparr> u_schema_version = USAGE_SCHEMA_VERSION, u_requests = 1,
       u_input_tokens = ru_input_tokens request, u_output_tokens = ru_output_tokens request,
       u_cached_input_tokens = ru_cached_input_tokens request,
       u_cache_write_tokens = ru_cache_write_tokens request,
       u_reasoning_tokens = ru_reasoning_tokens request, u_carried_total_tokens = 0,
       u_request_usage_entries = [request],
       u_unknown = extend_from Map.empty (ru_unknown request) \<rparr>"

definition from_carried_total :: "u64 \<Rightarrow> 'v usage" where
  "from_carried_total total_tokens = usage_default\<lparr>u_carried_total_tokens := total_tokens\<rparr>"

definition usage_total_tokens :: "'v usage \<Rightarrow> u64" where
  "usage_total_tokens self =
     saturating_add (saturating_add (u_input_tokens self) (u_output_tokens self))
       (u_carried_total_tokens self)"

definition accumulate :: "'v usage \<Rightarrow> 'v usage \<Rightarrow> 'v usage" where
  "accumulate self delta = self
     \<lparr> u_requests := saturating_add (u_requests self) (u_requests delta),
       u_input_tokens := saturating_add (u_input_tokens self) (u_input_tokens delta),
       u_output_tokens := saturating_add (u_output_tokens self) (u_output_tokens delta),
       u_cached_input_tokens :=
         saturating_add (u_cached_input_tokens self) (u_cached_input_tokens delta),
       u_cache_write_tokens :=
         saturating_add (u_cache_write_tokens self) (u_cache_write_tokens delta),
       u_reasoning_tokens := saturating_add (u_reasoning_tokens self) (u_reasoning_tokens delta),
       u_carried_total_tokens :=
         saturating_add (u_carried_total_tokens self) (u_carried_total_tokens delta),
       u_request_usage_entries := u_request_usage_entries self @ u_request_usage_entries delta,
       u_unknown := extend_from (u_unknown self) (u_unknown delta) \<rparr>"

definition without_entries :: "'v usage \<Rightarrow> 'v usage" where
  "without_entries self = self\<lparr>u_request_usage_entries := []\<rparr>"

lemmas usage_ops = accumulate_def usage_default_def from_request_def from_carried_total_def
  without_entries_def extend_from_def

section \<open>The contract a spend meter relies on\<close>

locale spend_ledger =
  fixes add :: "'l \<Rightarrow> 'l \<Rightarrow> 'l" and empty :: 'l and meter :: "'l \<Rightarrow> nat" and cap :: nat
  assumes add_assoc: "add (add a b) c = add a (add b c)"
    and add_empty: "add a empty = a"
    and meter_empty: "meter empty = 0"
    and meter_add: "meter (add a b) = min (meter a + meter b) cap"
    and meter_cap: "meter a \<le> cap"
begin

lemma meter_mono: "meter a \<le> meter (add a b)"
  using meter_cap [of a] by (simp add: meter_add)

lemma meter_foldl: "meter (foldl add a ds) = min (meter a + sum_list (map meter ds)) cap"
proof (induction ds arbitrary: a)
  case Nil
  then show ?case using meter_cap [of a] by simp
next
  case (Cons d ds)
  then show ?case by (simp add: meter_add)
qed

lemma foldl_add: "foldl add (add a b) ds = add a (foldl add b ds)"
  by (induction ds arbitrary: b) (simp_all add: add_assoc)

text \<open>Recording a batch at once or one by one gives the same ledger.\<close>

lemma foldl_batch: "foldl add a (ds @ es) = add (foldl add a ds) (foldl add empty es)"
  using foldl_add [of "foldl add a ds" empty es] by (simp add: add_empty)

text \<open>Once the cap is metered it stays metered.\<close>

lemma meter_exhausted_stays: "limit \<le> meter a \<Longrightarrow> limit \<le> meter (foldl add a ds)"
  using meter_cap [of a] by (simp add: meter_foldl)

end

definition usage_meter :: "'v usage \<Rightarrow> nat" where
  "usage_meter u = unat (usage_total_tokens u)"

lemma usage_meter_eq:
  "usage_meter u = min (unat (u_input_tokens u) + unat (u_output_tokens u)
     + unat (u_carried_total_tokens u)) (2 ^ 64 - 1)"
  by (simp add: usage_meter_def usage_total_tokens_def sat_simps)

lemma map_add_assoc_ext: "extend_from (extend_from a b) c = extend_from a (extend_from b c)"
  by (simp add: extend_from_def)

interpretation ul: spend_ledger accumulate usage_default usage_meter "2 ^ 64 - 1"
proof unfold_locales
  fix a b c :: "'a usage"
  show "accumulate (accumulate a b) c = accumulate a (accumulate b c)"
    by (simp add: accumulate_def saturating_add_assoc map_add_assoc_ext)
  show "accumulate a usage_default = a"
    by (simp add: usage_ops)
  show "usage_meter (usage_default :: 'a usage) = 0"
    by (simp add: usage_meter_eq usage_default_def)
  show "usage_meter (accumulate a b) = min (usage_meter a + usage_meter b) (2 ^ 64 - 1)"
    by (simp add: usage_meter_eq accumulate_def sat_simps)
      (simp add: min_def)
  show "usage_meter a \<le> 2 ^ 64 - 1"
    by (simp add: usage_meter_eq)
qed

text \<open>The request counter obeys the same contract.\<close>

definition request_meter :: "'v usage \<Rightarrow> nat" where
  "request_meter u = unat (u_requests u)"

interpretation ur: spend_ledger accumulate usage_default request_meter "2 ^ 64 - 1"
proof unfold_locales
  fix a b :: "'a usage"
  show "request_meter (usage_default :: 'a usage) = 0"
    by (simp add: request_meter_def usage_default_def)
  show "request_meter (accumulate a b) = min (request_meter a + request_meter b) (2 ^ 64 - 1)"
    by (simp add: request_meter_def accumulate_def sat_simps)
  show "request_meter a \<le> 2 ^ 64 - 1"
    using unat_le_max [of "u_requests a"] by (simp add: request_meter_def)
qed (rule ul.add_assoc ul.add_empty)+

section \<open>Ledgers the code can build\<close>

text \<open>
  There is no constructor from bare aggregates: a ledger is the default, a request, a carried
  total (migration), or is obtained by accumulation and by dropping entries.
\<close>

inductive reachable_ledger :: "'v usage \<Rightarrow> bool" where
  ledger_default: "reachable_ledger usage_default"
| ledger_request: "reachable_ledger (from_request r)"
| ledger_carried: "reachable_ledger (from_carried_total t)"
| ledger_accumulate: "reachable_ledger a \<Longrightarrow> reachable_ledger b \<Longrightarrow> reachable_ledger (accumulate a b)"
| ledger_without_entries: "reachable_ledger a \<Longrightarrow> reachable_ledger (without_entries a)"

definition counter_covers :: "('v usage \<Rightarrow> u64) \<Rightarrow> ('v request_usage \<Rightarrow> u64) \<Rightarrow> 'v usage \<Rightarrow> bool" where
  "counter_covers tot part u \<longleftrightarrow>
     min (sum_list (map (unat \<circ> part) (u_request_usage_entries u))) (2 ^ 64 - 1) \<le> unat (tot u)"

text \<open>The retained detail never claims more than the totals, and never more requests.\<close>

definition usage_wf :: "'v usage \<Rightarrow> bool" where
  "usage_wf u \<longleftrightarrow>
     min (length (u_request_usage_entries u)) (2 ^ 64 - 1) \<le> unat (u_requests u)
     \<and> counter_covers u_input_tokens ru_input_tokens u
     \<and> counter_covers u_output_tokens ru_output_tokens u
     \<and> counter_covers u_cached_input_tokens ru_cached_input_tokens u
     \<and> counter_covers u_cache_write_tokens ru_cache_write_tokens u
     \<and> counter_covers u_reasoning_tokens ru_reasoning_tokens u"

lemma counter_covers_accumulate:
  assumes "counter_covers tot part a" "counter_covers tot part b"
    and "tot (accumulate a b) = saturating_add (tot a) (tot b)"
  shows "counter_covers tot part (accumulate a b)"
  using assms by (simp add: counter_covers_def sat_simps) (simp add: accumulate_def)

lemma usage_wf_accumulate: "usage_wf a \<Longrightarrow> usage_wf b \<Longrightarrow> usage_wf (accumulate a b)"
  unfolding usage_wf_def
  by (intro conjI; elim conjE)
    (simp add: accumulate_def sat_simps, (rule counter_covers_accumulate; simp add: accumulate_def)+)

lemma ledger_wf: "reachable_ledger u \<Longrightarrow> usage_wf u"
proof (induction rule: reachable_ledger.induct)
  case ledger_accumulate
  then show ?case by (simp add: usage_wf_accumulate)
qed (simp_all add: usage_wf_def counter_covers_def usage_ops unat_le_max [where ?'a = 64, simplified])

end
