(* ===== verification/Budget.thy ===== *)
theory Budget
  imports Usage_Ledger
begin

text \<open>
  Budgets: limits and turn accounting (\<^verbatim>\<open>ra-core/src/budget.rs\<close>), the run state's token ledger and
  the exhaustion verdict (\<^verbatim>\<open>ra-core/src/state/run.rs\<close>), the live spend shared along a chain of
  nested runs (\<^verbatim>\<open>ra-runtime/src/budget.rs\<close>) with its call sites in \<^verbatim>\<open>ra-runtime/src/runner.rs\<close>, and
  the weighted budget of an agent tree (\<^verbatim>\<open>ra-runtime/src/agent/control/budget.rs\<close>).

  Instants are natural numbers and the clock reading is an argument. The shared \<^verbatim>\<open>Arc<RunSpend>\<close>
  objects live in a store indexed by allocation order, so that updates through a child are seen
  through its parent. The floating-point type of the weighted budget is the parameter \<open>'f\<close> with
  its operations in a record.
\<close>

section \<open>Limits and turn accounting\<close>

datatype budget_kind = MaxTurns | Tokens | Cost | WallClock

record budget_limit =
  bl_max_turns :: "u32 option"
  bl_max_tokens :: "u64 option"
  bl_deadline :: "nat option"

definition budget_limit_new :: budget_limit where
  "budget_limit_new = \<lparr> bl_max_turns = None, bl_max_tokens = None, bl_deadline = None \<rparr>"

definition with_max_turns :: "budget_limit \<Rightarrow> u32 \<Rightarrow> budget_limit" where
  "with_max_turns self max_turns = self\<lparr>bl_max_turns := Some max_turns\<rparr>"

definition without_max_turns :: "budget_limit \<Rightarrow> budget_limit" where
  "without_max_turns self = self\<lparr>bl_max_turns := None\<rparr>"

definition with_max_tokens :: "budget_limit \<Rightarrow> u64 \<Rightarrow> budget_limit" where
  "with_max_tokens self max_tokens = self\<lparr>bl_max_tokens := Some max_tokens\<rparr>"

definition with_deadline :: "budget_limit \<Rightarrow> nat \<Rightarrow> budget_limit" where
  "with_deadline self deadline = self\<lparr>bl_deadline := Some deadline\<rparr>"

definition deadline_remaining :: "nat \<Rightarrow> nat \<Rightarrow> nat" where
  "deadline_remaining now deadline = deadline - now"

definition deadline_is_expired :: "nat \<Rightarrow> nat \<Rightarrow> bool" where
  "deadline_is_expired now deadline \<longleftrightarrow> deadline_remaining now deadline = 0"

definition remaining_wall_clock :: "nat \<Rightarrow> budget_limit \<Rightarrow> nat option" where
  "remaining_wall_clock now self = map_option (deadline_remaining now) (bl_deadline self)"

definition budget_validate :: "budget_limit \<Rightarrow> ustring + unit" where
  "budget_validate self =
     (if bl_max_tokens self = Some 0
      then Inl (lit ''`max_tokens` must be at least 1 when configured'') else Inr ())"

definition BUDGET_SNAPSHOT_SCHEMA_VERSION :: u32 where "BUDGET_SNAPSHOT_SCHEMA_VERSION = 1"

record 'v budget_snapshot =
  bs_schema_version :: u32
  bs_turns_used :: u32
  bs_legacy_tokens_used :: u64
  bs_unknown :: "'v unknown"

definition budget_snapshot_new :: "'v budget_snapshot" where
  "budget_snapshot_new = \<lparr> bs_schema_version = BUDGET_SNAPSHOT_SCHEMA_VERSION, bs_turns_used = 0,
     bs_legacy_tokens_used = 0, bs_unknown = Map.empty \<rparr>"

definition take_legacy_tokens_used :: "'v budget_snapshot \<Rightarrow> u64 \<times> 'v budget_snapshot" where
  "take_legacy_tokens_used self = (bs_legacy_tokens_used self, self\<lparr>bs_legacy_tokens_used := 0\<rparr>)"

definition snapshot_record_turn :: "'v budget_snapshot \<Rightarrow> 'v budget_snapshot" where
  "snapshot_record_turn self = self\<lparr>bs_turns_used := saturating_add (bs_turns_used self) 1\<rparr>"

definition remaining_turns :: "'v budget_snapshot \<Rightarrow> budget_limit \<Rightarrow> u32 option" where
  "remaining_turns self limit =
     map_option (\<lambda>maximum. saturating_sub maximum (bs_turns_used self)) (bl_max_turns limit)"

definition is_some_and :: "'a option \<Rightarrow> ('a \<Rightarrow> bool) \<Rightarrow> bool" where
  "is_some_and opt p = (case opt of None \<Rightarrow> False | Some a \<Rightarrow> p a)"

definition turns_exhausted :: "'v budget_snapshot \<Rightarrow> budget_limit \<Rightarrow> bool" where
  "turns_exhausted self limit = is_some_and (bl_max_turns limit) (\<lambda>maximum. maximum \<le> bs_turns_used self)"

section \<open>The run state's ledger\<close>

text \<open>The two carriers of spend in \<^verbatim>\<open>RunState\<close>; its other fields do not take part in the accounting.\<close>

record 'v run_accounts =
  ra_budget :: "'v budget_snapshot"
  ra_usage_totals :: "'v usage"

definition with_budget :: "'v run_accounts \<Rightarrow> 'v budget_snapshot \<Rightarrow> 'v run_accounts" where
  "with_budget self budget =
     (let (carried, budget) = take_legacy_tokens_used budget;
          self = (if 0 < carried
                  then self\<lparr>ra_usage_totals := accumulate (ra_usage_totals self) (from_carried_total carried)\<rparr>
                  else self)
      in self\<lparr>ra_budget := budget\<rparr>)"

definition state_record_usage :: "'v run_accounts \<Rightarrow> 'v usage \<Rightarrow> 'v run_accounts" where
  "state_record_usage self usage = self\<lparr>ra_usage_totals := accumulate (ra_usage_totals self) usage\<rparr>"

definition with_usage_totals :: "'v run_accounts \<Rightarrow> 'v usage \<Rightarrow> 'v run_accounts" where
  "with_usage_totals self usage_totals = self\<lparr>ra_usage_totals := usage_totals\<rparr>"

definition tokens_used :: "'v run_accounts \<Rightarrow> u64" where
  "tokens_used self = usage_total_tokens (ra_usage_totals self)"

definition remaining_tokens :: "'v run_accounts \<Rightarrow> budget_limit \<Rightarrow> u64 option" where
  "remaining_tokens self limit =
     map_option (\<lambda>maximum. saturating_sub maximum (tokens_used self)) (bl_max_tokens limit)"

definition state_exhausted_budget_kind :: "nat \<Rightarrow> 'v run_accounts \<Rightarrow> budget_limit \<Rightarrow> budget_kind option" where
  "state_exhausted_budget_kind now self limit =
     (if turns_exhausted (ra_budget self) limit then Some MaxTurns
      else if is_some_and (bl_max_tokens limit) (\<lambda>maximum. maximum \<le> tokens_used self) then Some Tokens
      else if is_some_and (bl_deadline limit) (deadline_is_expired now) then Some WallClock
      else None)"

section \<open>The weighted budget of an agent tree\<close>

record 'f f64_ops =
  f_of_u64 :: "u64 \<Rightarrow> 'f"
  f_add :: "'f \<Rightarrow> 'f \<Rightarrow> 'f"
  f_sub :: "'f \<Rightarrow> 'f \<Rightarrow> 'f"
  f_mul :: "'f \<Rightarrow> 'f \<Rightarrow> 'f"
  f_max :: "'f \<Rightarrow> 'f \<Rightarrow> 'f"
  f_le :: "'f \<Rightarrow> 'f \<Rightarrow> bool"
  f_is_finite :: "'f \<Rightarrow> bool"
  f_floor_to_u64 :: "'f \<Rightarrow> u64"
  f_zero :: 'f
  f_one :: 'f

record 'f rollout_budget_config =
  rc_limit_tokens :: u64
  rc_reminder_at_remaining_tokens :: "u64 list"
  rc_sampling_token_weight :: 'f
  rc_prefill_token_weight :: 'f

definition rollout_budget_config_new :: "'f f64_ops \<Rightarrow> u64 \<Rightarrow> u64 list \<Rightarrow> 'f rollout_budget_config" where
  "rollout_budget_config_new ops limit_tokens reminders =
     \<lparr> rc_limit_tokens = limit_tokens, rc_reminder_at_remaining_tokens = reminders,
       rc_sampling_token_weight = f_one ops, rc_prefill_token_weight = f_one ops \<rparr>"

datatype rollout_config_error =
  LimitNotPositive | ReminderOutOfRange | WeightInvalid ustring

text \<open>\<^verbatim>\<open>weight < 0.0\<close> is \<^verbatim>\<open>!(0.0 <= weight)\<close> on the finite weights that reach the comparison.\<close>

definition weight_check :: "'f f64_ops \<Rightarrow> ustring \<Rightarrow> 'f \<Rightarrow> rollout_config_error + unit" where
  "weight_check ops field weight =
     (if \<not> f_is_finite ops weight \<or> \<not> f_le ops (f_zero ops) weight
      then Inl (WeightInvalid field) else Inr ())"

definition rollout_config_validate :: "'f f64_ops \<Rightarrow> 'f rollout_budget_config \<Rightarrow> rollout_config_error + unit" where
  "rollout_config_validate ops self =
     (if rc_limit_tokens self = 0 then Inl LimitNotPositive
      else if \<exists>tokens \<in> set (rc_reminder_at_remaining_tokens self).
                tokens = 0 \<or> rc_limit_tokens self \<le> tokens
      then Inl ReminderOutOfRange
      else result_bind (weight_check ops (lit ''sampling_token_weight'') (rc_sampling_token_weight self))
             (\<lambda>_. weight_check ops (lit ''prefill_token_weight'') (rc_prefill_token_weight self)))"

record 'f rollout_budget =
  rb_config :: "'f rollout_budget_config"
  rb_weighted_tokens_used :: 'f

record rollout_budget_reminder =
  rr_remaining_tokens :: u64
  rr_reminder_index :: nat

definition rollout_budget_new :: "'f f64_ops \<Rightarrow> 'f rollout_budget_config \<Rightarrow> 'f rollout_budget" where
  "rollout_budget_new ops config = \<lparr> rb_config = config, rb_weighted_tokens_used = f_zero ops \<rparr>"

definition rollout_record_usage :: "'f f64_ops \<Rightarrow> 'f rollout_budget \<Rightarrow> 'v usage \<Rightarrow> 'f rollout_budget" where
  "rollout_record_usage ops self usage =
     (let non_cached_input = saturating_sub (u_input_tokens usage) (u_cached_input_tokens usage);
          units = f_add ops
            (f_mul ops (f_of_u64 ops (u_output_tokens usage)) (rc_sampling_token_weight (rb_config self)))
            (f_mul ops (f_of_u64 ops non_cached_input) (rc_prefill_token_weight (rb_config self)))
      in self\<lparr>rb_weighted_tokens_used := f_add ops (rb_weighted_tokens_used self) units\<rparr>)"

definition rollout_is_exhausted :: "'f f64_ops \<Rightarrow> 'f rollout_budget \<Rightarrow> bool" where
  "rollout_is_exhausted ops self =
     f_le ops (f_of_u64 ops (rc_limit_tokens (rb_config self))) (rb_weighted_tokens_used self)"

definition pending_reminder :: "'f f64_ops \<Rightarrow> 'f rollout_budget \<Rightarrow> nat option \<Rightarrow> rollout_budget_reminder option" where
  "pending_reminder ops self delivered =
     (let remaining = f_max ops (f_sub ops (f_of_u64 ops (rc_limit_tokens (rb_config self)))
            (rb_weighted_tokens_used self)) (f_zero ops);
          remaining_tokens = f_floor_to_u64 ops remaining;
          reminder_index = length (filter (\<lambda>threshold. remaining_tokens \<le> threshold)
            (rc_reminder_at_remaining_tokens (rb_config self)))
      in if is_some_and delivered (\<lambda>delivered. reminder_index \<le> delivered) then None
         else Some \<lparr> rr_remaining_tokens = remaining_tokens, rr_reminder_index = reminder_index \<rparr>)"

end
