(* ===== verification/Run_Spend.thy ===== *)
theory Run_Spend
  imports Budget
begin

text \<open>
  The live spend shared by a run and the nested runs it starts (\<^verbatim>\<open>ra-runtime/src/budget.rs\<close>) and the
  places of \<^verbatim>\<open>ra-runtime/src/runner.rs\<close> that record into it.

  \<^verbatim>\<open>Arc<RunSpend>\<close> is an index into the store: objects are appended when they are created and never
  removed, and the \<^verbatim>\<open>parent\<close> and \<^verbatim>\<open>budget_owner\<close> links, which the Rust code sets once at construction,
  point to earlier objects. The recursion along parents tests this order, which the invariant
  \<open>spend_wf\<close> shows always to hold.
\<close>

record 'v run_spend =
  rs_total :: "'v usage"
  rs_nested :: "'v usage"
  rs_parent :: "nat option"
  rs_budget_owner :: "nat option"
  rs_rollout_budget :: "nat option"

record ('v, 'f) spend_store =
  ss_runs :: "'v run_spend list"
  ss_budgets :: "'f rollout_budget list"

record nested_spend =
  ns_parent :: nat
  ns_shares_budget :: bool

definition run_spend_new ::
  "('v, 'f) spend_store \<Rightarrow> 'v usage \<Rightarrow> nested_spend option \<Rightarrow> nat option \<Rightarrow> nat \<times> ('v, 'f) spend_store" where
  "run_spend_new st ledger nested rollout_budget =
     (let (parent, budget_owner) =
            (case nested of
               Some nested \<Rightarrow>
                 (Some (ns_parent nested),
                  if ns_shares_budget nested
                  then Some (case rs_budget_owner (ss_runs st ! ns_parent nested) of
                               Some owner \<Rightarrow> owner | None \<Rightarrow> ns_parent nested)
                  else None)
             | None \<Rightarrow> (None, None))
      in (length (ss_runs st),
          st\<lparr>ss_runs := ss_runs st @ [\<lparr> rs_total = ledger, rs_nested = usage_default,
               rs_parent = parent, rs_budget_owner = budget_owner,
               rs_rollout_budget = rollout_budget \<rparr>]\<rparr>))"

text \<open>\<^verbatim>\<open>self.lock()\<close> with an update of the guarded value.\<close>

definition update_run :: "('v, 'f) spend_store \<Rightarrow> nat \<Rightarrow> ('v run_spend \<Rightarrow> 'v run_spend) \<Rightarrow> ('v, 'f) spend_store" where
  "update_run st i f = st\<lparr>ss_runs := (ss_runs st)[i := f (ss_runs st ! i)]\<rparr>"

definition charge_rollout :: "'f f64_ops \<Rightarrow> ('v, 'f) spend_store \<Rightarrow> nat option \<Rightarrow> 'v usage \<Rightarrow> ('v, 'f) spend_store" where
  "charge_rollout ops st budget usage =
     (case budget of
        Some b \<Rightarrow> st\<lparr>ss_budgets := (ss_budgets st)[b := rollout_record_usage ops (ss_budgets st ! b) usage]\<rparr>
      | None \<Rightarrow> st)"

function (sequential)
  spend_forward :: "'f f64_ops \<Rightarrow> ('v, 'f) spend_store \<Rightarrow> nat \<Rightarrow> 'v usage \<Rightarrow> ('v, 'f) spend_store" and
  record_nested :: "'f f64_ops \<Rightarrow> ('v, 'f) spend_store \<Rightarrow> nat \<Rightarrow> 'v usage \<Rightarrow> ('v, 'f) spend_store" where
  "spend_forward ops st i usage =
     (let st' = charge_rollout ops st (rs_rollout_budget (ss_runs st ! i)) usage
      in case rs_parent (ss_runs st ! i) of
           Some parent \<Rightarrow> if parent < i then record_nested ops st' parent usage else st'
         | None \<Rightarrow> st')"
| "record_nested ops st i usage =
     spend_forward ops
       (update_run st i (\<lambda>inner. inner\<lparr>rs_total := accumulate (rs_total inner) usage,
                                       rs_nested := accumulate (rs_nested inner) usage\<rparr>))
       i usage"
  by pat_completeness auto
termination
  by (relation "measure (\<lambda>x. case x of Inl (_, _, i, _) \<Rightarrow> 2 * i | Inr (_, _, i, _) \<Rightarrow> 2 * i + 1)") auto

declare spend_forward.simps [simp del] record_nested.simps [simp del]

definition record_own :: "'f f64_ops \<Rightarrow> ('v, 'f) spend_store \<Rightarrow> nat \<Rightarrow> 'v usage \<Rightarrow> ('v, 'f) spend_store" where
  "record_own ops st i usage =
     spend_forward ops
       (update_run st i (\<lambda>inner. inner\<lparr>rs_total := accumulate (rs_total inner) usage\<rparr>)) i usage"

definition take_nested :: "('v, 'f) spend_store \<Rightarrow> nat \<Rightarrow> 'v usage \<times> ('v, 'f) spend_store" where
  "take_nested st i =
     (rs_nested (ss_runs st ! i), update_run st i (\<lambda>inner. inner\<lparr>rs_nested := usage_default\<rparr>))"

definition budget_tokens :: "('v, 'f) spend_store \<Rightarrow> nat \<Rightarrow> u64" where
  "budget_tokens st i =
     usage_total_tokens (rs_total (ss_runs st !
       (case rs_budget_owner (ss_runs st ! i) of Some owner \<Rightarrow> owner | None \<Rightarrow> i)))"

definition run_usage :: "('v, 'f) spend_store \<Rightarrow> nat \<Rightarrow> 'v usage" where
  "run_usage st i = rs_total (ss_runs st ! i)"

text \<open>The \<^verbatim>\<open>while let Some(parent)\<close> walk of \<^verbatim>\<open>shared_usage\<close>.\<close>

function (sequential) outermost :: "('v, 'f) spend_store \<Rightarrow> nat \<Rightarrow> nat" where
  "outermost st i =
     (case rs_parent (ss_runs st ! i) of
        Some parent \<Rightarrow> if parent < i then outermost st parent else i
      | None \<Rightarrow> i)"
  by pat_completeness auto
termination
  by (relation "measure snd") auto

declare outermost.simps [simp del]

definition shared_usage :: "('v, 'f) spend_store \<Rightarrow> nat \<Rightarrow> 'v usage" where
  "shared_usage st i = rs_total (ss_runs st ! outermost st i)"

function (sequential) rollout_budget_exhausted :: "'f f64_ops \<Rightarrow> ('v, 'f) spend_store \<Rightarrow> nat \<Rightarrow> bool" where
  "rollout_budget_exhausted ops st i =
     (is_some_and (rs_rollout_budget (ss_runs st ! i)) (\<lambda>b. rollout_is_exhausted ops (ss_budgets st ! b))
      \<or> (case rs_parent (ss_runs st ! i) of
           Some parent \<Rightarrow> if parent < i then rollout_budget_exhausted ops st parent else False
         | None \<Rightarrow> False))"
  by pat_completeness auto
termination
  by (relation "measure (\<lambda>(_, _, i). i)") auto

declare rollout_budget_exhausted.simps [simp del]

definition exhausted_budget_kind ::
  "nat \<Rightarrow> 'v run_accounts \<Rightarrow> budget_limit \<Rightarrow> ('v, 'f) spend_store \<Rightarrow> nat \<Rightarrow> budget_kind option" where
  "exhausted_budget_kind now state limit st i =
     (let own = state_exhausted_budget_kind now state limit
      in if own = Some MaxTurns then own
         else if is_some_and (bl_max_tokens limit) (\<lambda>maximum. maximum \<le> budget_tokens st i) then Some Tokens
         else own)"

text \<open>The number the reminder text is formatted with.\<close>

definition budget_reminder :: "('v, 'f) spend_store \<Rightarrow> nat \<Rightarrow> budget_limit \<Rightarrow> u64 option" where
  "budget_reminder st i limit =
     map_option (\<lambda>maximum. saturating_sub maximum (budget_tokens st i)) (bl_max_tokens limit)"

section \<open>Call sites in the run loop\<close>

text \<open>
  \<open>w_accounts\<close> holds the \<^verbatim>\<open>RunState\<close> of each run and \<open>w_nested_usage\<close> the \<^verbatim>\<open>nested_usage\<close> of its
  loop's progress record, both indexed like the store. The rollout event channel
  is the list of usage records written to it, each with the turn index when it fits 32 bits.
\<close>

record ('v, 'f) run_world =
  w_store :: "('v, 'f) spend_store"
  w_accounts :: "'v run_accounts list"
  w_nested_usage :: "'v usage list"
  w_rollout :: "(nat \<times> 'v usage \<times> u32 option \<times> ustring option) list"

definition u32_try_from :: "nat \<Rightarrow> u32 option" where
  "u32_try_from n = (if n < 2 ^ 32 then Some (of_nat n) else None)"

definition record_spend ::
  "'f f64_ops \<Rightarrow> ('v, 'f) run_world \<Rightarrow> nat \<Rightarrow> 'v usage \<Rightarrow> ustring option \<Rightarrow> nat \<Rightarrow> bool \<Rightarrow> ('v, 'f) run_world" where
  "record_spend ops w i usage model reference_turn rollout = w
     \<lparr> w_accounts := (w_accounts w)[i := state_record_usage (w_accounts w ! i) usage],
       w_store := record_own ops (w_store w) i usage,
       w_rollout := (if rollout then w_rollout w @ [(i, usage, u32_try_from reference_turn, model)]
                     else w_rollout w) \<rparr>"

definition absorb_nested_spend ::
  "('v, 'f) run_world \<Rightarrow> nat \<Rightarrow> 'v usage option \<times> ('v, 'f) run_world" where
  "absorb_nested_spend w i =
     (let (nested, st) = take_nested (w_store w) i; w = w\<lparr>w_store := st\<rparr>
      in if u_requests nested = 0 \<and> usage_total_tokens nested = 0 then (None, w)
         else (Some nested, w
                \<lparr> w_accounts := (w_accounts w)[i := state_record_usage (w_accounts w ! i) nested],
                  w_nested_usage := (w_nested_usage w)[i := accumulate (w_nested_usage w ! i) nested] \<rparr>))"

section \<open>Who sees a call\<close>

text \<open>A run and the runs above it, innermost first.\<close>

function (sequential) parent_chain :: "'v run_spend list \<Rightarrow> nat \<Rightarrow> nat list" where
  "parent_chain rs i =
     i # (case rs_parent (rs ! i) of
            Some p \<Rightarrow> if p < i then parent_chain rs p else []
          | None \<Rightarrow> [])"
  by pat_completeness auto
termination
  by (relation "measure snd") auto

declare parent_chain.simps [simp del]

lemma parent_chain_le: "k \<in> set (parent_chain rs i) \<Longrightarrow> k \<le> i"
proof (induction i rule: less_induct)
  case (less i)
  then show ?case
    by (subst (asm) parent_chain.simps) (fastforce split: option.splits if_splits)
qed

lemma self_in_parent_chain [simp]: "i \<in> set (parent_chain rs i)"
  by (subst parent_chain.simps) simp

lemma parent_chain_tl:
  "set (tl (parent_chain rs i)) =
     (case rs_parent (rs ! i) of Some p \<Rightarrow> if p < i then set (parent_chain rs p) else {} | None \<Rightarrow> {})"
  by (subst parent_chain.simps) (simp split: option.splits)

lemma parent_chain_cong:
  assumes "\<And>k. k \<le> i \<Longrightarrow> rs_parent (rs ! k) = rs_parent (rs' ! k)"
  shows "parent_chain rs i = parent_chain rs' i"
  using assms
proof (induction i rule: less_induct)
  case (less i)
  then have "rs_parent (rs ! i) = rs_parent (rs' ! i)" by simp
  moreover have "parent_chain rs p = parent_chain rs' p" if "p < i" for p
    using less that by simp
  ultimately show ?case
    by (subst (1 2) parent_chain.simps) (simp split: option.splits)
qed

definition add_own :: "'v usage \<Rightarrow> 'v run_spend \<Rightarrow> 'v run_spend" where
  "add_own usage r = r\<lparr>rs_total := accumulate (rs_total r) usage\<rparr>"

definition add_nested :: "'v usage \<Rightarrow> 'v run_spend \<Rightarrow> 'v run_spend" where
  "add_nested usage r = r\<lparr>rs_total := accumulate (rs_total r) usage, rs_nested := accumulate (rs_nested r) usage\<rparr>"

lemma charge_rollout_runs [simp]: "ss_runs (charge_rollout ops st b usage) = ss_runs st"
  by (simp add: charge_rollout_def split: option.splits)

lemma update_run_runs [simp]: "ss_runs (update_run st i f) = (ss_runs st)[i := f (ss_runs st ! i)]"
  by (simp add: update_run_def)

lemma record_nested_eq: "record_nested ops st i usage = spend_forward ops (update_run st i (add_nested usage)) i usage"
  by (simp add: record_nested.simps add_nested_def [abs_def])

lemma record_own_eq: "record_own ops st i usage = spend_forward ops (update_run st i (add_own usage)) i usage"
  by (simp add: record_own_def add_own_def [abs_def])

lemma add_links [simp]:
  "rs_parent (add_own usage r) = rs_parent r" "rs_parent (add_nested usage r) = rs_parent r"
  "rs_budget_owner (add_own usage r) = rs_budget_owner r"
  "rs_budget_owner (add_nested usage r) = rs_budget_owner r"
  "rs_rollout_budget (add_own usage r) = rs_rollout_budget r"
  "rs_rollout_budget (add_nested usage r) = rs_rollout_budget r"
  by (simp_all add: add_own_def add_nested_def)

text \<open>
  Forwarding a call: every run above receives it as nested spend, every other run is untouched.
\<close>

definition runs_after_forward :: "'v usage \<Rightarrow> nat set \<Rightarrow> 'v run_spend list \<Rightarrow> 'v run_spend list" where
  "runs_after_forward usage A rs = map (\<lambda>k. if k \<in> A then add_nested usage (rs ! k) else rs ! k) [0..<length rs]"

lemma runs_after_forward_simps [simp]:
  "length (runs_after_forward usage A rs) = length rs"
  "k < length rs \<Longrightarrow> runs_after_forward usage A rs ! k = (if k \<in> A then add_nested usage (rs ! k) else rs ! k)"
  "runs_after_forward usage {} rs = rs"
  by (simp_all add: runs_after_forward_def map_nth)

lemma spend_forward_runs:
  "i < length (ss_runs st) \<Longrightarrow>
     ss_runs (spend_forward ops st i usage) =
       runs_after_forward usage (set (tl (parent_chain (ss_runs st) i))) (ss_runs st)"
proof (induction i arbitrary: st rule: less_induct)
  case (less i)
  define st' where "st' = charge_rollout ops st (rs_rollout_budget (ss_runs st ! i)) usage"
  have runs': "ss_runs st' = ss_runs st" by (simp add: st'_def)
  have fwd: "spend_forward ops st i usage =
      (case rs_parent (ss_runs st ! i) of
         Some p \<Rightarrow> if p < i then record_nested ops st' p usage else st' | None \<Rightarrow> st')"
    by (simp add: spend_forward.simps st'_def Let_def split: option.splits)
  show ?case
  proof (cases "\<exists>p. rs_parent (ss_runs st ! i) = Some p \<and> p < i")
    case True
    then obtain p where p: "rs_parent (ss_runs st ! i) = Some p" "p < i" by blast
    define rs where "rs = (ss_runs st)[p := add_nested usage (ss_runs st ! p)]"
    have "parent_chain rs p = parent_chain (ss_runs st) p"
      by (rule parent_chain_cong) (use p less.prems in \<open>simp add: rs_def nth_list_update\<close>)
    then have "ss_runs (record_nested ops st' p usage) =
        runs_after_forward usage (set (tl (parent_chain (ss_runs st) p))) rs"
      using less.IH [OF p(2), of "update_run st' p (add_nested usage)"] p less.prems
      by (simp add: record_nested_eq runs' rs_def)
    moreover have "p \<notin> set (tl (parent_chain (ss_runs st) p))"
      using parent_chain_le by (fastforce simp: parent_chain_tl split: option.splits if_splits)
    moreover have "set (parent_chain (ss_runs st) p) = insert p (set (tl (parent_chain (ss_runs st) p)))"
      by (subst parent_chain.simps) (simp add: parent_chain_tl split: option.splits)
    ultimately show ?thesis
      using p less.prems unfolding fwd
      by (intro nth_equalityI) (auto simp: parent_chain_tl [of _ i] rs_def nth_list_update)
  next
    case False
    then show ?thesis
      unfolding fwd by (simp add: runs' parent_chain_tl split: option.splits)
  qed
qed

lemma parent_chain_update:
  assumes "\<And>r. rs_parent (f r) = rs_parent r"
  shows "parent_chain (rs[j := f (rs ! j)]) i = parent_chain rs i"
  by (rule parent_chain_cong) (cases "j < length rs"; auto simp: assms nth_list_update list_update_beyond)

lemma record_own_runs:
  "i < length (ss_runs st) \<Longrightarrow>
     ss_runs (record_own ops st i usage) =
       runs_after_forward usage (set (tl (parent_chain (ss_runs st) i)))
         ((ss_runs st)[i := add_own usage (ss_runs st ! i)])"
  by (simp add: record_own_eq spend_forward_runs parent_chain_update)

section \<open>The run loop's accounting as a transition system\<close>

text \<open>
  A step starts a run on a restored state (nested under a running one or not), settles a model
  call a run paid for, or ends a run's loop by moving nested spend into its ledger.
\<close>

definition start_run ::
  "('v, 'f) run_world \<Rightarrow> 'v run_accounts \<Rightarrow> nested_spend option \<Rightarrow> nat option \<Rightarrow> ('v, 'f) run_world" where
  "start_run w state nested rollout_budget = w
     \<lparr> w_store := snd (run_spend_new (w_store w) (ra_usage_totals state) nested rollout_budget),
       w_accounts := w_accounts w @ [state],
       w_nested_usage := w_nested_usage w @ [usage_default] \<rparr>"

inductive spend_step :: "'f f64_ops \<Rightarrow> ('v, 'f) run_world \<Rightarrow> ('v, 'f) run_world \<Rightarrow> bool" for ops where
  start: "\<lbrakk>\<And>n. nested = Some n \<Longrightarrow> ns_parent n < length (ss_runs (w_store w))\<rbrakk>
    \<Longrightarrow> spend_step ops w (start_run w state nested rollout_budget)"
| call: "i < length (ss_runs (w_store w))
    \<Longrightarrow> spend_step ops w (record_spend ops w i usage model reference_turn rollout)"
| settle: "i < length (ss_runs (w_store w))
    \<Longrightarrow> spend_step ops w (snd (absorb_nested_spend w i))"

inductive spend_reachable :: "'f f64_ops \<Rightarrow> ('v, 'f) run_world \<Rightarrow> bool" for ops where
  init: "ss_runs (w_store w) = [] \<Longrightarrow> w_accounts w = [] \<Longrightarrow> w_nested_usage w = []
    \<Longrightarrow> spend_reachable ops w"
| step: "spend_reachable ops w \<Longrightarrow> spend_step ops w w' \<Longrightarrow> spend_reachable ops w'"

definition links_wf :: "('v, 'f) run_world \<Rightarrow> bool" where
  "links_wf w \<longleftrightarrow>
     length (w_accounts w) = length (ss_runs (w_store w))
     \<and> length (w_nested_usage w) = length (ss_runs (w_store w))
     \<and> (\<forall>i < length (ss_runs (w_store w)).
          (\<forall>p. rs_parent (ss_runs (w_store w) ! i) = Some p \<longrightarrow> p < i)
          \<and> (\<forall>p. rs_budget_owner (ss_runs (w_store w) ! i) = Some p \<longrightarrow> p < i))"

definition balanced :: "('v usage \<Rightarrow> nat) \<Rightarrow> ('v, 'f) run_world \<Rightarrow> bool" where
  "balanced meter w \<longleftrightarrow> (\<forall>i < length (ss_runs (w_store w)).
     meter (rs_total (ss_runs (w_store w) ! i)) =
       min (meter (ra_usage_totals (w_accounts w ! i)) + meter (rs_nested (ss_runs (w_store w) ! i))) (2 ^ 64 - 1))"

lemma links_wf_step: "spend_step ops w w' \<Longrightarrow> links_wf w \<Longrightarrow> links_wf w'"
proof (induction rule: spend_step.induct)
  case (start nested w state rollout_budget)
  show ?case
  proof (cases nested)
    case None
    then show ?thesis using start(2)
      by (simp add: links_wf_def start_run_def run_spend_new_def nth_append less_Suc_eq)
  next
    case (Some n)
    then have "ns_parent n < length (ss_runs (w_store w))" using start(1) by blast
    moreover from this have "p < length (ss_runs (w_store w))"
      if "rs_budget_owner (ss_runs (w_store w) ! ns_parent n) = Some p" for p
      using start(2) that unfolding links_wf_def by (meson less_trans)
    ultimately show ?thesis using start(2) Some
      by (auto simp: links_wf_def start_run_def run_spend_new_def nth_append less_Suc_eq split: option.splits)
  qed
next
  case (call i w usage model reference_turn rollout)
  then show ?case
    by (auto simp: links_wf_def record_spend_def record_own_runs nth_list_update split: if_splits)
next
  case (settle i w)
  then show ?case
    by (auto simp: links_wf_def absorb_nested_spend_def take_nested_def Let_def nth_list_update split: if_splits)
qed

text \<open>Each counter of the ledger balances, since each obeys the ledger contract.\<close>

context spend_ledger
begin

lemma meter_move: "meter a = min (meter b + meter c) cap \<Longrightarrow> meter a = min (meter (add b c) + meter empty) cap"
  by (simp add: meter_add meter_empty)

end

lemma balanced_step:
  assumes sl: "spend_ledger accumulate usage_default meter (2 ^ 64 - 1)"
    and zero: "\<And>u. u_requests u = 0 \<Longrightarrow> usage_total_tokens u = 0 \<Longrightarrow> meter u = 0"
    and step: "spend_step ops w w'" and wf: "links_wf w" and bal: "balanced meter w"
  shows "balanced meter w'"
  using step wf bal
proof (induction rule: spend_step.induct)
  case (start nested w state rollout_budget)
  then show ?case
    using spend_ledger.meter_empty [OF sl] spend_ledger.meter_cap [OF sl]
    by (auto simp: balanced_def links_wf_def start_run_def run_spend_new_def nth_append less_Suc_eq Let_def
        split: option.splits)
next
  case (call i w usage model reference_turn rollout)
  have own: "rs_total (add_own usage r) = accumulate (rs_total r) usage"
      "rs_nested (add_own usage r) = rs_nested r"
      "rs_total (add_nested usage r) = accumulate (rs_total r) usage"
      "rs_nested (add_nested usage r) = accumulate (rs_nested r) usage" for r
    by (simp_all add: add_own_def add_nested_def)
  have "i \<notin> set (tl (parent_chain (ss_runs (w_store w)) i))"
    using parent_chain_le by (fastforce simp: parent_chain_tl split: option.splits if_splits)
  with call show ?case
    unfolding balanced_def links_wf_def
    by (auto simp: record_spend_def record_own_runs nth_list_update state_record_usage_def own
        spend_ledger.meter_add [OF sl] min_min_add ac_simps)
next
  case (settle i w)
  then show ?case
    using zero [of "rs_nested (ss_runs (w_store w) ! i)"] spend_ledger.meter_empty [OF sl]
      spend_ledger.meter_move [OF sl]
    unfolding balanced_def links_wf_def
    by (auto simp: absorb_nested_spend_def take_nested_def Let_def nth_list_update state_record_usage_def)
qed

lemma spend_reachable_inv:
  assumes "spend_reachable ops w"
  shows "links_wf w \<and> balanced usage_meter w \<and> balanced request_meter w"
  using assms
proof (induction rule: spend_reachable.induct)
  case (init w)
  then show ?case by (simp add: links_wf_def balanced_def)
next
  case (step w w')
  have "balanced usage_meter w'"
    by (rule balanced_step [OF ul.spend_ledger_axioms _ step.hyps(2)])
      (simp add: usage_meter_def, simp_all add: step.IH)
  moreover have "balanced request_meter w'"
    by (rule balanced_step [OF ur.spend_ledger_axioms _ step.hyps(2)])
      (simp add: request_meter_def, simp_all add: step.IH)
  ultimately show ?case using step links_wf_step by blast
qed

section \<open>Properties\<close>

text \<open>
  C1. In every state the run loop can reach, and for every run: the live total (which budget checks
  and contexts read) meters exactly the run's ledger plus the nested spend not yet moved into it,
  up to saturation of the 64-bit counter; the same holds of the number of requests. So no call is
  lost or counted twice, however starts, calls and loop ends interleave.
\<close>

theorem live_total_is_ledger_plus_nested:
  assumes "spend_reachable ops w" "i < length (ss_runs (w_store w))"
  shows "usage_meter (run_usage (w_store w) i) =
           min (usage_meter (ra_usage_totals (w_accounts w ! i))
                + usage_meter (rs_nested (ss_runs (w_store w) ! i))) (2 ^ 64 - 1)
       \<and> request_meter (run_usage (w_store w) i) =
           min (request_meter (ra_usage_totals (w_accounts w ! i))
                + request_meter (rs_nested (ss_runs (w_store w) ! i))) (2 ^ 64 - 1)"
  using spend_reachable_inv [OF assms(1)] assms(2) by (simp add: balanced_def run_usage_def)

definition demo_ops :: "nat f64_ops" where
  "demo_ops = \<lparr> f_of_u64 = unat, f_add = (+), f_sub = (-), f_mul = (*), f_max = max, f_le = (\<le>),
     f_is_finite = (\<lambda>_. True), f_floor_to_u64 = of_nat, f_zero = 0, f_one = 1 \<rparr>"

definition demo_state :: "nat run_accounts" where
  "demo_state = \<lparr> ra_budget = budget_snapshot_new, ra_usage_totals = from_request (request_usage_new 5 2) \<rparr>"

definition demo_world0 :: "(nat, nat) run_world" where
  "demo_world0 = \<lparr> w_store = \<lparr> ss_runs = [], ss_budgets = [] \<rparr>, w_accounts = [], w_nested_usage = [], w_rollout = [] \<rparr>"

definition demo_world :: "(nat, nat) run_world" where
  "demo_world = record_spend demo_ops
     (start_run (start_run demo_world0 demo_state None None) demo_state
       (Some \<lparr> ns_parent = 0, ns_shares_budget = True \<rparr>) None)
     1 (from_request (request_usage_new 7 1)) None 0 False"

lemma demo_world_reachable: "spend_reachable demo_ops demo_world"
  unfolding demo_world_def
  by (intro spend_reachable.step [OF spend_reachable.step [OF spend_reachable.step
          [OF spend_reachable.init spend_step.start] spend_step.start] spend_step.call])
    (simp_all add: demo_world0_def start_run_def run_spend_new_def)

lemma demo_world_runs: "length (ss_runs (w_store demo_world)) = 2"
  by (simp add: demo_world_def record_spend_def record_own_runs demo_world0_def start_run_def run_spend_new_def)

theorem live_total_is_ledger_plus_nested_witness:
  "spend_reachable demo_ops demo_world \<and> 0 < length (ss_runs (w_store demo_world))
   \<and> usage_meter (run_usage (w_store demo_world) 0) =
       min (usage_meter (ra_usage_totals (w_accounts demo_world ! 0))
            + usage_meter (rs_nested (ss_runs (w_store demo_world) ! 0))) (2 ^ 64 - 1)"
  using live_total_is_ledger_plus_nested [OF demo_world_reachable, of 0] demo_world_reachable
  by (simp add: demo_world_runs)

text \<open>
  C23. A call recorded by run \<open>i\<close> is charged, at once, to the token ceiling of exactly those runs
  whose budget owner (the run itself unless it inherited a ceiling) is \<open>i\<close> or a run above \<open>i\<close>;
  every other run's metered spend is unchanged.
\<close>

theorem record_own_charges_the_chain:
  assumes "i < length (ss_runs st)" "j < length (ss_runs st)"
    and "owner = (case rs_budget_owner (ss_runs st ! j) of Some k \<Rightarrow> k | None \<Rightarrow> j)"
    and "owner < length (ss_runs st)"
  shows "unat (budget_tokens (record_own ops st i usage) j) =
     (if owner \<in> set (parent_chain (ss_runs st) i)
      then min (unat (budget_tokens st j) + usage_meter usage) (2 ^ 64 - 1)
      else unat (budget_tokens st j))"
proof -
  have chain: "set (parent_chain (ss_runs st) i) = insert i (set (tl (parent_chain (ss_runs st) i)))"
    by (subst parent_chain.simps) (simp add: parent_chain_tl split: option.splits)
  have notin: "i \<notin> set (tl (parent_chain (ss_runs st) i))"
    using parent_chain_le by (fastforce simp: parent_chain_tl split: option.splits if_splits)
  have tot: "rs_total (ss_runs (record_own ops st i usage) ! owner) =
      (if owner \<in> set (parent_chain (ss_runs st) i) then accumulate (rs_total (ss_runs st ! owner)) usage
       else rs_total (ss_runs st ! owner))"
    using assms notin
    by (auto simp: record_own_runs chain nth_list_update add_own_def add_nested_def)
  have own: "rs_budget_owner (ss_runs (record_own ops st i usage) ! j) = rs_budget_owner (ss_runs st ! j)"
    using assms by (auto simp: record_own_runs nth_list_update)
  show ?thesis
    using tot ul.meter_add [of "rs_total (ss_runs st ! owner)" usage]
    unfolding usage_meter_def budget_tokens_def own assms(3) [symmetric] by simp
qed

theorem record_own_charges_the_chain_witness:
  "unat (budget_tokens (record_own demo_ops (w_store demo_world) 1 (from_request (request_usage_new 7 1))) 1) =
     (if (case rs_budget_owner (ss_runs (w_store demo_world) ! 1) of Some k \<Rightarrow> k | None \<Rightarrow> 1)
           \<in> set (parent_chain (ss_runs (w_store demo_world)) 1)
      then min (unat (budget_tokens (w_store demo_world) 1)
             + usage_meter (from_request (request_usage_new 7 1 :: nat request_usage))) (2 ^ 64 - 1)
      else unat (budget_tokens (w_store demo_world) 1))"
proof -
  have "k < 1" if "rs_budget_owner (ss_runs (w_store demo_world) ! 1) = Some k" for k
    using spend_reachable_inv [OF demo_world_reachable] demo_world_runs that
    unfolding links_wf_def by (metis one_less_numeral_iff semiring_norm(76))
  then show ?thesis
    by (intro record_own_charges_the_chain [OF _ _ refl]) (auto simp: demo_world_runs split: option.splits)
qed

text \<open>
  C22. The loop's verdict never contradicts the run state's: the turn cap keeps its priority, a run
  that is out of budget on its own account stays out of budget, and a token ceiling reached by the
  shared spend ends the run even when its own ledger is below it.
\<close>

theorem exhausted_budget_kind_refines_state:
  "exhausted_budget_kind now state limit st i =
     (if turns_exhausted (ra_budget state) limit then Some MaxTurns
      else if is_some_and (bl_max_tokens limit)
                (\<lambda>maximum. maximum \<le> max (tokens_used state) (budget_tokens st i)) then Some Tokens
      else if is_some_and (bl_deadline limit) (\<lambda>deadline. deadline \<le> now) then Some WallClock
      else None)"
  by (cases "bl_max_tokens limit"; cases "bl_deadline limit")
    (auto simp: exhausted_budget_kind_def state_exhausted_budget_kind_def is_some_and_def Let_def
      deadline_is_expired_def deadline_remaining_def le_max_iff_disj)

end
