(* ===== verification/Tool_Identity.thy ===== *)
theory Tool_Identity
  imports Usage_Ledger
begin

text \<open>
  Routing identities of tools (\<^verbatim>\<open>ra-core/src/tool/origin.rs\<close>, \<^verbatim>\<open>ra-core/src/tool/namespace.rs\<close>), the
  action identities recorded per agent (\<^verbatim>\<open>ToolUse\<close> of \<^verbatim>\<open>ra-core/src/state/tool_use.rs\<close>), and the
  length-prefixed byte stream the turn digests hash.

  A key carries a schema version and retained unknown fields that take no part in equality, so
  equality is a definition of its own (\<open>lookup_eq\<close>, \<open>tool_use_eq\<close>), as it is in the source.
\<close>

section \<open>Namespaces and names\<close>

datatype tool_error =
  InvalidNamespace | InvalidToolName | ReservedNamespace | InvalidShape
| OriginNamespaceMismatch | QualifiedNameMismatch

definition label_ok :: "ustring \<Rightarrow> bool" where
  "label_ok s \<longleftrightarrow> s \<noteq> [] \<and> trim s = s \<and> \<not> list_ex is_control s"

definition validate_namespace :: "ustring \<Rightarrow> tool_error + unit" where
  "validate_namespace s =
     (if s = [] \<or> trim s \<noteq> s \<or> list_ex is_control s then Inl InvalidNamespace else Inr ())"

definition tool_namespace_new :: "ustring \<Rightarrow> tool_error + ustring" where
  "tool_namespace_new s = result_bind (validate_namespace s) (\<lambda>_. Inr s)"

definition validate_tool_name :: "ustring \<Rightarrow> tool_error + unit" where
  "validate_tool_name name =
     (if name = [] \<or> trim name \<noteq> name \<or> list_ex is_control name then Inl InvalidToolName else Inr ())"

section \<open>Lookup keys\<close>

datatype tool_lookup_kind = Bare | Namespaced | DeferredTopLevel | ToolSearch

definition TOOL_SEARCH_TOOL_NAME :: ustring where
  "TOOL_SEARCH_TOOL_NAME = lit ''tool_search''"

definition TOOL_LOOKUP_KEY_SCHEMA_VERSION :: u32 where "TOOL_LOOKUP_KEY_SCHEMA_VERSION = 1"
definition TOOL_ORIGIN_SCHEMA_VERSION :: u32 where "TOOL_ORIGIN_SCHEMA_VERSION = 1"

record 'v tool_lookup_key =
  lk_schema_version :: u32
  lk_kind :: tool_lookup_kind
  lk_name :: ustring
  lk_namespace :: "ustring option"
  lk_unknown :: "'v unknown"

definition lookup_key :: "tool_lookup_kind \<Rightarrow> ustring \<Rightarrow> ustring option \<Rightarrow> 'v tool_lookup_key" where
  "lookup_key kind name namespace =
     \<lparr> lk_schema_version = TOOL_LOOKUP_KEY_SCHEMA_VERSION, lk_kind = kind, lk_name = name,
       lk_namespace = namespace, lk_unknown = Map.empty \<rparr>"

definition bare :: "ustring \<Rightarrow> tool_error + 'v tool_lookup_key" where
  "bare name = result_bind (validate_tool_name name) (\<lambda>_. Inr (lookup_key Bare name None))"

definition namespaced :: "ustring \<Rightarrow> ustring \<Rightarrow> tool_error + 'v tool_lookup_key" where
  "namespaced namespace name =
     result_bind (validate_tool_name name)
       (\<lambda>_. if namespace = name then Inl ReservedNamespace
             else Inr (lookup_key Namespaced name (Some namespace)))"

definition deferred_top_level :: "ustring \<Rightarrow> tool_error + 'v tool_lookup_key" where
  "deferred_top_level name =
     result_bind (validate_tool_name name) (\<lambda>_. Inr (lookup_key DeferredTopLevel name None))"

definition tool_search :: "'v tool_lookup_key" where
  "tool_search = lookup_key ToolSearch TOOL_SEARCH_TOOL_NAME None"

definition for_call :: "ustring \<Rightarrow> ustring option \<Rightarrow> tool_error + 'v tool_lookup_key" where
  "for_call name namespace =
     (case namespace of
        Some ns \<Rightarrow> if ns = name then deferred_top_level name else namespaced ns name
      | None \<Rightarrow> bare name)"

definition lookup_identity :: "'v tool_lookup_key \<Rightarrow> tool_lookup_kind \<times> ustring \<times> ustring option" where
  "lookup_identity key = (lk_kind key, lk_name key, lk_namespace key)"

definition lookup_eq :: "'v tool_lookup_key \<Rightarrow> 'v tool_lookup_key \<Rightarrow> bool" where
  "lookup_eq a b \<longleftrightarrow> lookup_identity a = lookup_identity b"

text \<open>The label a key is shown to the model under.\<close>

definition surface_label :: "'v tool_lookup_key \<Rightarrow> ustring" where
  "surface_label key =
     (case lk_namespace key of Some ns \<Rightarrow> ns @ [46] @ lk_name key | None \<Rightarrow> lk_name key)"

definition collides_on_model_surface :: "'v tool_lookup_key \<Rightarrow> 'v tool_lookup_key \<Rightarrow> bool" where
  "collides_on_model_surface self other =
     (if lk_namespace self = None \<and> lk_namespace other = None
      then lk_name self = lk_name other \<and> lk_kind self = lk_kind other
      else surface_label self = surface_label other)"

text \<open>
  Deserialization. The derived reader of the wire struct yields the fields below, with the
  namespace already validated by its own reader; the hand-written part follows.
\<close>

definition deserialize_lookup_key :: "'v tool_lookup_key \<Rightarrow> tool_error + 'v tool_lookup_key" where
  "deserialize_lookup_key wire =
     result_bind
       (case (lk_kind wire, lk_namespace wire) of
          (Bare, None) \<Rightarrow> bare (lk_name wire)
        | (Namespaced, Some ns) \<Rightarrow> namespaced ns (lk_name wire)
        | (DeferredTopLevel, None) \<Rightarrow> deferred_top_level (lk_name wire)
        | (ToolSearch, None) \<Rightarrow>
            (if lk_name wire = TOOL_SEARCH_TOOL_NAME then Inr tool_search else Inl InvalidShape)
        | _ \<Rightarrow> Inl InvalidShape)
       (\<lambda>key. Inr (key\<lparr>lk_schema_version := lk_schema_version wire, lk_unknown := lk_unknown wire\<rparr>))"

definition validate_lookup_key :: "'v tool_lookup_key \<Rightarrow> tool_error + unit" where
  "validate_lookup_key key =
     result_bind (validate_tool_name (lk_name key)) (\<lambda>_.
       case (lk_kind key, lk_namespace key) of
         (Bare, None) \<Rightarrow> Inr ()
       | (DeferredTopLevel, None) \<Rightarrow> Inr ()
       | (ToolSearch, None) \<Rightarrow> (if lk_name key = TOOL_SEARCH_TOOL_NAME then Inr () else Inl InvalidShape)
       | (Namespaced, Some ns) \<Rightarrow>
           result_bind (validate_namespace ns)
             (\<lambda>_. if ns = lk_name key then Inl ReservedNamespace else Inr ())
       | _ \<Rightarrow> Inl InvalidShape)"

section \<open>Origins\<close>

record 'v tool_origin =
  to_schema_version :: u32
  to_namespace :: "ustring option"
  to_qualified_name :: ustring
  to_lookup_key :: "'v tool_lookup_key"
  to_unknown :: "'v unknown"

definition qualify :: "ustring \<Rightarrow> ustring option \<Rightarrow> ustring" where
  "qualify name namespace = (case namespace of None \<Rightarrow> name | Some ns \<Rightarrow> ns @ [46] @ name)"

definition from_lookup_key :: "'v tool_lookup_key \<Rightarrow> tool_error + 'v tool_origin" where
  "from_lookup_key key =
     result_bind (validate_lookup_key key) (\<lambda>_.
       Inr \<lparr> to_schema_version = TOOL_ORIGIN_SCHEMA_VERSION, to_namespace = lk_namespace key,
             to_qualified_name = qualify (lk_name key) (lk_namespace key), to_lookup_key = key,
             to_unknown = Map.empty \<rparr>)"

definition origin_tool_search :: "'v tool_origin" where
  "origin_tool_search =
     \<lparr> to_schema_version = TOOL_ORIGIN_SCHEMA_VERSION, to_namespace = None,
       to_qualified_name = TOOL_SEARCH_TOOL_NAME, to_lookup_key = tool_search, to_unknown = Map.empty \<rparr>"

definition origin_validate :: "'v tool_origin \<Rightarrow> tool_error + unit" where
  "origin_validate self =
     result_bind (validate_lookup_key (to_lookup_key self)) (\<lambda>_.
       if to_namespace self \<noteq> lk_namespace (to_lookup_key self) then Inl OriginNamespaceMismatch
       else if to_qualified_name self \<noteq> qualify (lk_name (to_lookup_key self)) (lk_namespace (to_lookup_key self))
       then Inl QualifiedNameMismatch
       else Inr ())"

definition deserialize_origin :: "'v tool_origin \<Rightarrow> tool_error + 'v tool_origin" where
  "deserialize_origin wire = result_bind (origin_validate wire) (\<lambda>_. Inr wire)"

section \<open>Action identities\<close>

datatype 'v tool_use =
  Tool "'v tool_lookup_key" | Hosted ustring | Handoff ustring | Mcp ustring ustring | Unresolved ustring

fun tool_use_eq :: "'v tool_use \<Rightarrow> 'v tool_use \<Rightarrow> bool" where
  "tool_use_eq (Tool a) (Tool b) = lookup_eq a b"
| "tool_use_eq (Hosted a) (Hosted b) = (a = b)"
| "tool_use_eq (Handoff a) (Handoff b) = (a = b)"
| "tool_use_eq (Mcp s t) (Mcp s' t') = (s = s' \<and> t = t')"
| "tool_use_eq (Unresolved a) (Unresolved b) = (a = b)"
| "tool_use_eq _ _ = False"

text \<open>The part of an identity that equality looks at, as a value; equality is its kernel.\<close>

datatype action_key =
  KTool tool_lookup_kind ustring "ustring option" | KHosted ustring | KHandoff ustring
| KMcp ustring ustring | KUnresolved ustring

fun key_of :: "'v tool_use \<Rightarrow> action_key" where
  "key_of (Tool k) = KTool (lk_kind k) (lk_name k) (lk_namespace k)"
| "key_of (Hosted n) = KHosted n"
| "key_of (Handoff a) = KHandoff a"
| "key_of (Mcp s t) = KMcp s t"
| "key_of (Unresolved n) = KUnresolved n"

lemma tool_use_eq_iff: "tool_use_eq a b \<longleftrightarrow> key_of a = key_of b"
  by (cases a; cases b) (auto simp: lookup_eq_def lookup_identity_def)

section \<open>Validity of keys\<close>

lemma validate_tool_name_Inr [simp]: "validate_tool_name s = Inr () \<longleftrightarrow> label_ok s"
  by (simp add: validate_tool_name_def label_ok_def)

lemma validate_namespace_Inr [simp]: "validate_namespace s = Inr () \<longleftrightarrow> label_ok s"
  by (simp add: validate_namespace_def label_ok_def)

lemma result_unit_bind: "result_bind r (\<lambda>_. f) = Inr b \<longleftrightarrow> r = Inr () \<and> f = Inr b"
  by (cases r) auto

definition key_ok :: "'v tool_lookup_key \<Rightarrow> bool" where
  "key_ok key \<longleftrightarrow> label_ok (lk_name key)
     \<and> (case lk_kind key of
          Bare \<Rightarrow> lk_namespace key = None
        | DeferredTopLevel \<Rightarrow> lk_namespace key = None
        | ToolSearch \<Rightarrow> lk_namespace key = None \<and> lk_name key = TOOL_SEARCH_TOOL_NAME
        | Namespaced \<Rightarrow> (\<exists>ns. lk_namespace key = Some ns \<and> label_ok ns \<and> ns \<noteq> lk_name key))"

lemma validate_lookup_key_iff: "validate_lookup_key key = Inr () \<longleftrightarrow> key_ok key"
  by (cases "lk_kind key"; cases "lk_namespace key")
    (auto simp: validate_lookup_key_def key_ok_def result_bind_Inr_iff)

lemma for_call_Inr_iff:
  "for_call name ns = Inr key \<longleftrightarrow>
     label_ok name \<and> key = (case ns of None \<Rightarrow> lookup_key Bare name None
       | Some n \<Rightarrow> if n = name then lookup_key DeferredTopLevel name None
                   else lookup_key Namespaced name (Some n))"
  by (auto simp: for_call_def bare_def namespaced_def deferred_top_level_def result_unit_bind
      split: option.splits)

lemma for_call_ok: "for_call name ns = Inr key \<Longrightarrow> pred_option label_ok ns \<Longrightarrow> key_ok key"
  by (auto simp: for_call_Inr_iff key_ok_def lookup_key_def split: option.splits if_splits)

lemma deserialize_lookup_key_iff:
  "(\<exists>key. deserialize_lookup_key wire = Inr key) \<longleftrightarrow>
     (case lk_kind wire of
        Bare \<Rightarrow> lk_namespace wire = None \<and> label_ok (lk_name wire)
      | DeferredTopLevel \<Rightarrow> lk_namespace wire = None \<and> label_ok (lk_name wire)
      | ToolSearch \<Rightarrow> lk_namespace wire = None \<and> lk_name wire = TOOL_SEARCH_TOOL_NAME
      | Namespaced \<Rightarrow> (\<exists>ns. lk_namespace wire = Some ns \<and> label_ok (lk_name wire) \<and> ns \<noteq> lk_name wire))"
  by (cases "lk_kind wire"; cases "lk_namespace wire")
    (auto simp: deserialize_lookup_key_def result_bind_Inr_iff bare_def namespaced_def deferred_top_level_def)

text \<open>A key that can be read back is read back unchanged.\<close>

lemma deserialize_lookup_key_same: "deserialize_lookup_key wire = Inr key \<Longrightarrow> key = wire"
  by (cases "lk_kind wire"; cases "lk_namespace wire"; cases wire)
    (auto simp: deserialize_lookup_key_def result_bind_Inr_iff bare_def namespaced_def
      deferred_top_level_def tool_search_def lookup_key_def split: if_splits)

text \<open>The namespace a provider call carries for a key: the reserved shape for deferred tools.\<close>

definition wire_namespace :: "'v tool_lookup_key \<Rightarrow> ustring option" where
  "wire_namespace key = (if lk_kind key = DeferredTopLevel then Some (lk_name key) else lk_namespace key)"

text \<open>
  C35. Routing is collision-free across the provider boundary: for every valid key other than the
  discovery entry, the name and namespace put on the wire are read back by \<^verbatim>\<open>for_call\<close> as a key
  with the same identity, and two keys whose wire shapes agree have the same identity.
\<close>

theorem for_call_round_trip:
  fixes key key' :: "'v tool_lookup_key"
  assumes "validate_lookup_key key = Inr ()" "lk_kind key \<noteq> ToolSearch"
    and "validate_lookup_key key' = Inr ()" "lk_kind key' \<noteq> ToolSearch"
  shows "(\<exists>back. for_call (lk_name key) (wire_namespace key) = Inr back \<and> lookup_eq back key)
     \<and> (lk_name key = lk_name key' \<and> wire_namespace key = wire_namespace key' \<longleftrightarrow> lookup_eq key key')"
proof -
  have "\<exists>back. for_call (lk_name key) (wire_namespace key) = Inr back \<and> lookup_eq back key"
    using assms(1,2)
    by (cases "lk_kind key")
      (auto simp: validate_lookup_key_iff key_ok_def for_call_Inr_iff wire_namespace_def lookup_key_def
        lookup_eq_def lookup_identity_def)
  moreover have "lk_name key = lk_name key' \<and> wire_namespace key = wire_namespace key' \<longleftrightarrow> lookup_eq key key'"
    using assms
    by (cases "lk_kind key"; cases "lk_kind key'")
      (auto simp: validate_lookup_key_iff key_ok_def wire_namespace_def lookup_eq_def lookup_identity_def)
  ultimately show ?thesis by blast
qed

theorem for_call_round_trip_witness:
  "(\<exists>back. for_call (lit ''read'') (Some (lit ''mcp.fs'')) = Inr back
      \<and> lookup_eq back (lookup_key Namespaced (lit ''read'') (Some (lit ''mcp.fs'')) :: nat tool_lookup_key))
   \<and> \<not> lookup_eq (lookup_key Namespaced (lit ''read'') (Some (lit ''mcp.fs'')) :: nat tool_lookup_key)
        (lookup_key DeferredTopLevel (lit ''read'') None)"
proof -
  have ok: "validate_lookup_key (lookup_key Namespaced (lit ''read'') (Some (lit ''mcp.fs'')) :: nat tool_lookup_key) = Inr ()"
      "validate_lookup_key (lookup_key DeferredTopLevel (lit ''read'') None :: nat tool_lookup_key) = Inr ()"
    by (simp_all add: validate_lookup_key_iff key_ok_def label_ok_def lookup_key_def str_simps)
  show ?thesis
    using for_call_round_trip [OF ok(1) _ ok(2)]
    by (simp add: lookup_key_def wire_namespace_def lookup_eq_def lookup_identity_def)
qed

end
