(* ===== verification/Turn_Digest.thy ===== *)
theory Turn_Digest
  imports Tool_Identity
begin

text \<open>
  The byte stream a turn digest hashes (\<^verbatim>\<open>update_digest\<close> and \<^verbatim>\<open>update_identity_digest\<close> of
  \<^verbatim>\<open>ra-core/src/state/tool_use.rs\<close>). Bytes are natural numbers below 256; text enters as UTF-8.
  SHA-256 itself is a third-party function and a parameter of the trackers, so what is shown here
  is that the message it is applied to determines the turn.
\<close>

section \<open>UTF-8 and big-endian lengths\<close>

definition utf8_char :: "uchar \<Rightarrow> nat list" where
  "utf8_char c =
     (if c < 128 then [c]
      else if c < 2048 then [192 + c div 64, 128 + c mod 64]
      else if c < 65536 then [224 + c div 4096, 128 + c div 64 mod 64, 128 + c mod 64]
      else [240 + c div 262144, 128 + c div 4096 mod 64, 128 + c div 64 mod 64, 128 + c mod 64])"

definition utf8 :: "ustring \<Rightarrow> nat list" where
  "utf8 s = concat (map utf8_char s)"

fun utf8_next :: "nat list \<Rightarrow> uchar \<times> nat list" where
  "utf8_next (a # r) =
     (if a < 128 then (a, r)
      else if a < 224 then (case r of b # r \<Rightarrow> ((a - 192) * 64 + (b - 128), r) | [] \<Rightarrow> (0, []))
      else if a < 240 then (case r of b # c # r \<Rightarrow> ((a - 224) * 4096 + (b - 128) * 64 + (c - 128), r) | _ \<Rightarrow> (0, []))
      else (case r of b # c # d # r \<Rightarrow>
              ((a - 240) * 262144 + (b - 128) * 4096 + (c - 128) * 64 + (d - 128), r) | _ \<Rightarrow> (0, [])))"
| "utf8_next [] = (0, [])"

lemma utf8_next_char: "utf8_next (utf8_char c @ r) = (c, r)"
proof -
  have 1: "c div 64 * 64 + c mod 64 = c" by simp
  have "c div 4096 * 64 + c div 64 mod 64 = c div 64"
    using div_mult_mod_eq [of "c div 64" 64] by (simp add: div_mult2_eq [symmetric])
  with 1 have 2: "c div 4096 * 4096 + c div 64 mod 64 * 64 + c mod 64 = c" by linarith
  have "c div 262144 * 64 + c div 4096 mod 64 = c div 4096"
    using div_mult_mod_eq [of "c div 4096" 64] by (simp add: div_mult2_eq [symmetric])
  with 2 have 3: "c div 262144 * 262144 + c div 4096 mod 64 * 4096 + c div 64 mod 64 * 64 + c mod 64 = c"
    by linarith
  show ?thesis
    using 1 2 3 by (auto simp: utf8_char_def)
qed

lemma utf8_inj: "utf8 s = utf8 t \<Longrightarrow> s = t"
proof (induction s arbitrary: t)
  case Nil
  then show ?case by (cases t) (auto simp: utf8_def utf8_char_def split: if_splits)
next
  case (Cons c s)
  then obtain d t' where t: "t = d # t'"
    by (cases t) (auto simp: utf8_def utf8_char_def split: if_splits)
  then have "utf8_char c @ utf8 s = utf8_char d @ utf8 t'" using Cons.prems by (simp add: utf8_def)
  then have "(c, utf8 s) = (d, utf8 t')" by (metis utf8_next_char)
  then show ?case using Cons.IH t by simp
qed

text \<open>\<^verbatim>\<open>(n as u64).to_be_bytes()\<close>.\<close>

definition be64 :: "nat \<Rightarrow> nat list" where
  "be64 n = map (\<lambda>i. n div 256 ^ i mod 256) [7, 6, 5, 4, 3, 2, 1, 0]"

definition un_be64 :: "nat list \<Rightarrow> nat" where
  "un_be64 bs = foldl (\<lambda>acc b. acc * 256 + b) 0 bs"

lemma length_be64 [simp]: "length (be64 n) = 8"
  by (simp add: be64_def)

lemma un_be64_be64: "n < 2 ^ 64 \<Longrightarrow> un_be64 (be64 n) = n"
proof -
  assume n: "n < 2 ^ 64"
  define d where "d i = n div 256 ^ i" for i :: nat
  have step: "d (Suc i) * 256 + d i mod 256 = d i" for i
    unfolding d_def using div_mult_mod_eq [of "n div 256 ^ i" 256]
    by (simp only: power_Suc2 div_mult2_eq)
  have "d 8 = 0" using n by (simp add: d_def)
  then have s7: "d 7 mod 256 = d 7" using step [of 7] by simp
  have s: "d 7 * 256 + d 6 mod 256 = d 6" "d 6 * 256 + d 5 mod 256 = d 5" "d 5 * 256 + d 4 mod 256 = d 4"
    "d 4 * 256 + d 3 mod 256 = d 3" "d 3 * 256 + d 2 mod 256 = d 2" "d 2 * 256 + d 1 mod 256 = d 1"
    "d 1 * 256 + d 0 mod 256 = d 0"
    using step [of 6] step [of 5] step [of 4] step [of 3] step [of 2] step [of 1] step [of 0]
    by (simp_all only: numeral_eq_Suc pred_numeral_simps numeral_One One_nat_def BitM.simps)
  have "un_be64 (map (\<lambda>i. d i mod 256) [7, 6, 5, 4, 3, 2, 1, 0]) = d 0"
    by (simp only: un_be64_def list.map foldl.simps mult_0 add_0 s7 s)
  then show ?thesis by (simp add: be64_def d_def)
qed

section \<open>Segments\<close>

definition update_digest :: "nat list \<Rightarrow> nat list \<Rightarrow> nat list" where
  "update_digest label data = be64 (length label) @ label @ be64 (length data) @ data"

abbreviation ascii :: "string \<Rightarrow> nat list" where
  "ascii s \<equiv> lit s"

lemma be64_prefix:
  assumes "n < 2 ^ 64" "m < 2 ^ 64" "be64 n @ x = be64 m @ y"
  shows "n = m \<and> x = y"
proof -
  from assms(3) have "be64 n = be64 m" "x = y" by (simp_all add: append_eq_append_conv)
  then show ?thesis using assms un_be64_be64 by metis
qed

lemma append_same_length: "length a = length b \<Longrightarrow> a @ x = b @ y \<Longrightarrow> a = b \<and> x = y"
  by (metis append_eq_append_conv)

lemma update_digest_prefix:
  assumes "length l < 2 ^ 64" "length l' < 2 ^ 64" "length d < 2 ^ 64" "length d' < 2 ^ 64"
    and "update_digest l d @ x = update_digest l' d' @ y"
  shows "l = l' \<and> d = d' \<and> x = y"
proof -
  have "length l = length l' \<and> l @ be64 (length d) @ d @ x = l' @ be64 (length d') @ d' @ y"
    using be64_prefix [OF assms(1,2)] assms(5) by (simp add: update_digest_def)
  then have "l = l'" and rest: "be64 (length d) @ d @ x = be64 (length d') @ d' @ y"
    by (blast dest: append_same_length)+
  moreover have "length d = length d' \<and> d @ x = d' @ y"
    by (rule be64_prefix [OF assms(3,4) rest])
  then have "d = d' \<and> x = y" by (blast dest: append_same_length)
  ultimately show ?thesis by blast
qed

type_synonym segment = "nat list \<times> nat list"

definition segment_ok :: "segment \<Rightarrow> bool" where
  "segment_ok s \<longleftrightarrow> length (fst s) < 2 ^ 64 \<and> length (snd s) < 2 ^ 64"

definition segment_bytes :: "segment list \<Rightarrow> nat list" where
  "segment_bytes ss = concat (map (\<lambda>(l, d). update_digest l d) ss)"

lemma update_digest_not_Nil [simp]: "update_digest l d \<noteq> []"
  by (metis append_is_Nil_conv length_be64 list.size(3) update_digest_def zero_neq_numeral)

lemma segment_bytes_inj:
  "\<lbrakk>list_all segment_ok ss; list_all segment_ok ts; segment_bytes ss = segment_bytes ts\<rbrakk> \<Longrightarrow> ss = ts"
proof (induction ss arbitrary: ts)
  case Nil
  then show ?case by (cases ts) (auto simp: segment_bytes_def)
next
  case (Cons s ss)
  obtain l d where s: "s = (l, d)" by (cases s)
  from Cons.prems s obtain l' d' ts' where ts: "ts = (l', d') # ts'"
    by (cases ts) (auto simp: segment_bytes_def)
  have "l = l' \<and> d = d' \<and> segment_bytes ss = segment_bytes ts'"
    using Cons.prems s ts
    by (intro update_digest_prefix) (auto simp: segment_ok_def segment_bytes_def)
  then show ?case using Cons s ts by simp
qed

section \<open>The identity portion\<close>

definition kind_label :: "tool_lookup_kind \<Rightarrow> nat list" where
  "kind_label kind = (case kind of Bare \<Rightarrow> ascii ''bare'' | Namespaced \<Rightarrow> ascii ''namespaced''
     | DeferredTopLevel \<Rightarrow> ascii ''deferred_top_level'' | ToolSearch \<Rightarrow> ascii ''tool_search'')"

fun identity_segments :: "'v tool_use \<Rightarrow> segment list" where
  "identity_segments (Tool key) =
     [(ascii ''type'', ascii ''tool''), (ascii ''kind'', kind_label (lk_kind key)),
      (ascii ''name'', utf8 (lk_name key)),
      (ascii ''namespace'', utf8 (case lk_namespace key of None \<Rightarrow> [] | Some ns \<Rightarrow> ns))]"
| "identity_segments (Hosted name) = [(ascii ''type'', ascii ''hosted''), (ascii ''name'', utf8 name)]"
| "identity_segments (Handoff agent) = [(ascii ''type'', ascii ''handoff''), (ascii ''agent'', utf8 agent)]"
| "identity_segments (Mcp server tool_name) =
     [(ascii ''type'', ascii ''mcp''), (ascii ''server'', utf8 server), (ascii ''tool_name'', utf8 tool_name)]"
| "identity_segments (Unresolved name) = [(ascii ''type'', ascii ''unresolved''), (ascii ''name'', utf8 name)]"

definition update_identity_digest :: "'v tool_use \<Rightarrow> nat list" where
  "update_identity_digest u = segment_bytes (identity_segments u)"

text \<open>Identities as they occur: local keys went through validation.\<close>

definition tool_use_ok :: "'v tool_use \<Rightarrow> bool" where
  "tool_use_ok u \<longleftrightarrow> (case u of Tool key \<Rightarrow> key_ok key | _ \<Rightarrow> True)"

lemma kind_label_inj [simp]: "kind_label a = kind_label b \<longleftrightarrow> a = b"
  by (cases a; cases b) (simp_all add: kind_label_def)

lemma namespace_of_kind:
  "\<lbrakk>key_ok a; key_ok b; lk_kind a = lk_kind b;
    (case lk_namespace a of None \<Rightarrow> [] | Some ns \<Rightarrow> ns) = (case lk_namespace b of None \<Rightarrow> [] | Some ns \<Rightarrow> ns)\<rbrakk>
   \<Longrightarrow> lk_namespace a = lk_namespace b"
  by (cases "lk_kind a") (auto simp: key_ok_def)

lemma identity_segments_prefix:
  assumes "tool_use_ok a" "tool_use_ok b" "identity_segments a @ x = identity_segments b @ y"
  shows "key_of a = key_of b \<and> x = y"
  using assms
  by (cases a; cases b) (auto simp: tool_use_ok_def dest!: utf8_inj intro: namespace_of_kind)

end
