(* ===== verification/Replay_Table.thy ===== *)
theory Replay_Table
  imports Prelude
begin

text \<open>
  The shape the call trail and the failure trail share: a list of entries, at most one per
  identity, in first-use order, into which a turn's calls are settled one after the other, with a
  replay flag and a per-entry window of calls already recorded. The locale \<open>replay_table\<close> states what
  one settlement does to an entry; both trackers interpret it, and the facts they need (one entry
  per identity, re-settling a turn changes nothing) are proved here once.
\<close>

section \<open>Find or append, then update\<close>

text \<open>\<^verbatim>\<open>entry_mut\<close> followed by a mutation through the returned reference.\<close>

fun upsert :: "('e \<Rightarrow> bool) \<Rightarrow> 'e \<Rightarrow> ('e \<Rightarrow> 'e) \<Rightarrow> 'e list \<Rightarrow> 'e list" where
  "upsert p fresh f [] = [f fresh]"
| "upsert p fresh f (e # es) = (if p e then f e # es else e # upsert p fresh f es)"

lemma upsert_map_key:
  assumes "\<And>e. key (f e) = key e"
  shows "map key (upsert p fresh f es) = (if \<exists>e\<in>set es. p e then map key es else map key es @ [key fresh])"
  by (induction es) (auto simp: assms)

lemma upsert_fresh: "\<not> (\<exists>e\<in>set es. p e) \<Longrightarrow> upsert p fresh f es = es @ [f fresh]"
  by (induction es) auto

lemma upsert_unique:
  assumes "distinct (map key es)" "k \<in> key ` set es"
  shows "upsert (\<lambda>e. key e = k) fresh f es = map (\<lambda>e. if key e = k then f e else e) es"
  using assms
proof (induction es)
  case (Cons e es)
  show ?case
  proof (cases "key e = k")
    case True
    then have "\<forall>x\<in>set es. key x \<noteq> k" using Cons.prems(1) by (auto simp: image_iff)
    then have "map (\<lambda>e. if key e = k then f e else e) es = es" by (simp add: map_idI)
    then show ?thesis using True by simp
  next
    case False
    then show ?thesis using Cons by auto
  qed
qed simp

text \<open>The readers' check: does some element equal an earlier one?\<close>

fun has_duplicate :: "('e \<Rightarrow> 'e \<Rightarrow> bool) \<Rightarrow> 'e list \<Rightarrow> 'e list \<Rightarrow> bool" where
  "has_duplicate same earlier [] = False"
| "has_duplicate same earlier (e # es) =
     (list_ex (\<lambda>x. same x e) earlier \<or> has_duplicate same (earlier @ [e]) es)"

lemma has_duplicate_iff:
  assumes "\<And>a b. same a b \<longleftrightarrow> key a = key b" "distinct (map key earlier)"
  shows "has_duplicate same earlier es \<longleftrightarrow> \<not> distinct (map key (earlier @ es))"
  using assms(2)
proof (induction es arbitrary: earlier)
  case (Cons e es)
  have ex: "list_ex (\<lambda>x. same x e) earlier \<longleftrightarrow> key e \<in> set (map key earlier)"
    by (auto simp: list_ex_iff assms(1) image_iff dest: sym)
  show ?case
  proof (cases "key e \<in> set (map key earlier)")
    case True
    then have "\<not> distinct (map key earlier @ key e # map key es)" by simp
    with True ex show ?thesis by simp
  next
    case False
    then have "distinct (map key (earlier @ [e]))" using Cons.prems by simp
    from Cons.IH [OF this] show ?thesis using False ex by simp
  qed
qed simp

section \<open>Settling a turn\<close>

text \<open>
  \<open>reset\<close> is applied to every entry when a turn begins, \<open>touch\<close> to the entry of every settled call,
  and \<open>rec\<close> only when the call is not a replay and is not in the entry's window (\<open>seen\<close>).
\<close>

locale replay_table =
  fixes key :: "'e \<Rightarrow> 'k" and akey :: "'a \<Rightarrow> 'k" and fresh :: "'a \<Rightarrow> 'e"
    and reset touch :: "'e \<Rightarrow> 'e" and seen :: "'a \<Rightarrow> 'e \<Rightarrow> bool" and rec :: "'a \<Rightarrow> 'e \<Rightarrow> 'e"
    and settle :: "bool \<Rightarrow> 'e list \<Rightarrow> 'a \<Rightarrow> 'e list"
  assumes settle_eq: "settle replay es a = upsert (\<lambda>e. key e = akey a) (fresh a)
        (\<lambda>e. if replay \<or> seen a (touch e) then touch e else rec a (touch e)) es"
    and key_fresh: "key (fresh a) = akey a"
    and key_reset: "key (reset e) = key e"
    and key_touch: "key (touch e) = key e"
    and key_rec: "key (rec a e) = key e"
    and reset_fresh: "reset (fresh a) = fresh a"
    and reset_reset: "reset (reset e) = reset e"
    and reset_touch: "reset (touch e) = reset e"
    and reset_rec: "reset (rec a e) = rec a (reset e)"
    and touch_rec: "touch (rec a e) = rec a (touch e)"
begin

lemma settle_keys:
  "map key (settle replay es a) = (if akey a \<in> key ` set es then map key es else map key es @ [akey a])"
  by (subst settle_eq, subst upsert_map_key) (auto simp: key_touch key_rec key_fresh image_iff dest: sym)

lemma settle_distinct: "distinct (map key es) \<Longrightarrow> distinct (map key (settle replay es a))"
  by (auto simp: settle_keys)

lemma foldl_settle_distinct: "distinct (map key es) \<Longrightarrow> distinct (map key (foldl (settle replay) es as))"
  by (induction as arbitrary: es) (auto simp: settle_distinct)

lemma foldl_settle_keys: "key ` set (foldl (settle replay) es as) = key ` set es \<union> akey ` set as"
proof (induction as arbitrary: es)
  case (Cons a as)
  have "key ` set (settle replay es a) = insert (akey a) (key ` set es)"
    using arg_cong [OF settle_keys [of replay es a], of set] by auto
  then show ?case using Cons by auto
qed simp

text \<open>How often a turn settles calls of one identity.\<close>

definition calls_of :: "'k \<Rightarrow> 'a list \<Rightarrow> nat" where
  "calls_of k as = length (filter (\<lambda>a. akey a = k) as)"

definition turn_counted :: "'a list \<Rightarrow> 'e \<Rightarrow> bool" where
  "turn_counted as e \<longleftrightarrow> (touch ^^ calls_of (key e) as) (reset e) = e"

lemma funpow_touch_rec: "(touch ^^ n) (rec a e) = rec a ((touch ^^ n) e)"
  by (induction n) (simp_all add: touch_rec)

lemma turn_counted_settle:
  assumes "distinct (map key es)" "akey ` set as \<subseteq> key ` set es" "\<forall>e\<in>set es. turn_counted as e"
  shows "\<forall>e\<in>set (settle replay es a). turn_counted (as @ [a]) e"
proof -
  have other: "turn_counted (as @ [a]) e" if "turn_counted as e" "key e \<noteq> akey a" for e
    using that by (simp add: turn_counted_def calls_of_def)
  have upd: "turn_counted (as @ [a]) (if replay \<or> seen a (touch e) then touch e else rec a (touch e))"
    if "turn_counted as e" "key e = akey a" for e
    using that
    by (auto simp: turn_counted_def calls_of_def key_touch key_rec reset_touch reset_rec funpow_touch_rec touch_rec)
  show ?thesis
  proof (cases "akey a \<in> key ` set es")
    case True
    define upd1 where "upd1 e = (if replay \<or> seen a (touch e) then touch e else rec a (touch e))" for e
    define g where "g e = (if key e = akey a then upd1 e else e)" for e
    have "settle replay es a = map g es"
      using True by (simp add: settle_eq upsert_unique [OF assms(1)] g_def upd1_def)
    moreover have "turn_counted (as @ [a]) (g e)" if "e \<in> set es" for e
      using assms(3) that other upd by (simp add: g_def upd1_def)
    ultimately show ?thesis by simp
  next
    case False
    then have "filter (\<lambda>x. akey x = akey a) as = []" and none: "\<not> (\<exists>e\<in>set es. key e = akey a)"
      using assms(2) by (auto simp: filter_empty_conv subset_iff) (metis imageI)+
    then have "turn_counted as (fresh a)"
      by (simp add: turn_counted_def calls_of_def key_fresh reset_fresh)
    then show ?thesis
      using none assms(3) other upd [of "fresh a"] by (auto simp: settle_eq upsert_fresh [OF none] key_fresh)
  qed
qed

lemma foldl_settle_counted:
  assumes "distinct (map key es)" "\<forall>e\<in>set es. reset e = e"
  shows "\<forall>e\<in>set (foldl (settle replay) es as). turn_counted as e"
proof (induction as rule: rev_induct)
  case Nil
  then show ?case using assms(2) by (simp add: turn_counted_def calls_of_def)
next
  case (snoc a as)
  then show ?case
    using turn_counted_settle [of "foldl (settle replay) es as" as replay a] foldl_settle_distinct [OF assms(1)]
    by (simp add: foldl_settle_keys)
qed

text \<open>A replay over a table that holds every identity only counts.\<close>

lemma foldl_settle_replay:
  assumes "distinct (map key es)" "akey ` set as \<subseteq> key ` set es"
  shows "foldl (settle True) es as = map (\<lambda>e. (touch ^^ calls_of (key e) as) e) es"
  using assms
proof (induction as arbitrary: es)
  case (Cons a as)
  have st: "settle True es a = map (\<lambda>e. if key e = akey a then touch e else e) es"
    using Cons.prems by (simp add: settle_eq upsert_unique)
  have ks: "map key (settle True es a) = map key es" by (auto simp: st key_touch)
  have "key ` set (settle True es a) = key ` set es"
    using arg_cong [OF ks, of set] by simp
  then have "foldl (settle True) (settle True es a) as
      = map (\<lambda>e. (touch ^^ calls_of (key e) as) e) (settle True es a)"
    using Cons.prems ks by (intro Cons.IH) auto
  then show ?case
    by (auto simp: st calls_of_def key_touch funpow_swap1)
qed (simp add: calls_of_def)

theorem settle_turn_idempotent:
  assumes "distinct (map key es)"
  shows "foldl (settle True) (map reset (foldl (settle replay) (map reset es) as)) as
       = foldl (settle replay) (map reset es) as"
proof -
  let ?E = "foldl (settle replay) (map reset es) as"
  have d: "distinct (map key (map reset es))" using assms by (simp add: comp_def key_reset)
  have dE: "distinct (map key (map reset ?E))"
    using foldl_settle_distinct [OF d, of replay as] by (simp add: comp_def key_reset)
  have sub: "akey ` set as \<subseteq> key ` set (map reset ?E)"
    using foldl_settle_keys [of replay "map reset es" as] by (simp add: image_image key_reset)
  have "\<forall>e\<in>set ?E. turn_counted as e"
    by (rule foldl_settle_counted [OF d]) (auto simp: reset_reset)
  then have "map (\<lambda>e. (touch ^^ calls_of (key e) as) (reset e)) ?E = ?E"
    by (simp add: map_idI turn_counted_def)
  then show ?thesis
    by (simp add: foldl_settle_replay [OF dE sub] comp_def key_reset)
qed

text \<open>The second tier: calls still in their entry's window are recognised one by one.\<close>

lemma settle_seen:
  assumes "distinct (map key es)" "e \<in> set es" "key e = akey a" "seen a (touch e)"
  shows "settle False es a = settle True es a"
proof -
  have uniq: "x = e" if "x \<in> set es" "key x = akey a" for x
    using assms that by (metis distinct_map inj_onD)
  have mem: "akey a \<in> key ` set es" using assms(2,3) by force
  show ?thesis
    unfolding settle_eq upsert_unique [OF assms(1) mem] using assms(4) uniq by (intro map_cong) auto
qed

end

section \<open>Bounded windows\<close>

text \<open>\<^verbatim>\<open>push\<close> followed by removing from the front while the window is over its limit.\<close>

definition push_window :: "nat \<Rightarrow> 'a list \<Rightarrow> 'a \<Rightarrow> 'a list" where
  "push_window limit xs x = keep_last limit (xs @ [x])"

lemma length_push_window: "length (push_window limit xs x) \<le> limit"
  by (simp add: push_window_def)

lemma keep_last_keep_last_snoc: "keep_last n (keep_last n xs @ [x]) = keep_last n (xs @ [x])"
proof (cases "length xs \<le> n")
  case True
  then show ?thesis by (simp add: keep_last_id)
next
  case False
  then show ?thesis by (simp add: keep_last_def Suc_diff_le)
qed

lemma foldl_push_window:
  "foldl (push_window limit) (keep_last limit xs) ys = keep_last limit (xs @ ys)"
proof (induction ys arbitrary: xs)
  case (Cons y ys)
  have "push_window limit (keep_last limit xs) y = keep_last limit (xs @ [y])"
    by (simp add: push_window_def keep_last_keep_last_snoc)
  then show ?case using Cons [of "xs @ [y]"] by simp
qed simp

lemma last_push_window: "0 < limit \<Longrightarrow> last (push_window limit xs x) = x"
  by (simp add: push_window_def last_keep_last)

section \<open>Runs at the end of a sequence\<close>

text \<open>How many elements at the end equal the last one.\<close>

definition tail_run :: "'a list \<Rightarrow> nat" where
  "tail_run xs = (if xs = [] then 0 else length (takeWhile (\<lambda>y. y = last xs) (rev xs)))"

lemma tail_run_Nil [simp]: "tail_run [] = 0" by (simp add: tail_run_def)

lemma tail_run_snoc:
  "tail_run (xs @ [x]) = (if xs \<noteq> [] \<and> last xs = x then Suc (tail_run xs) else 1)"
  by (cases xs rule: rev_cases) (auto simp: tail_run_def)

lemma tail_run_le: "tail_run xs \<le> length xs"
  by (metis length_rev length_takeWhile_le tail_run_def zero_le)

end
