(* ===== verification/Tool_Use.thy ===== *)
theory Tool_Use
  imports Turn_Digest Replay_Table "HOL-Library.List_Lexorder" "HOL-Library.Multiset"
begin

text \<open>
  The per-agent call trail of \<^verbatim>\<open>ra-core/src/state/tool_use.rs\<close>: argument fingerprints, the entry
  kept per identity with its bounded window and repeat streak, and \<^verbatim>\<open>record_turn\<close> with its two tiers
  of replay protection. SHA-256 over bytes and the rendering of a JSON value are third-party
  code: the hex digest is the parameter \<open>sha\<close> and the rendering the parameter \<open>render\<close>.
\<close>

section \<open>Argument fingerprints\<close>

text \<open>\<^verbatim>\<open>serde_json::Value\<close>; an object is the sequence its map iterates over. Numbers are opaque.\<close>

datatype 'n json =
  JNull | JBool bool | JNumber 'n | JString ustring | JArray "'n json list" | JObject "(ustring \<times> 'n json) list"

function (sequential) canonicalize :: "'n json \<Rightarrow> 'n json" where
  "canonicalize (JObject map1) = JObject (map (\<lambda>(key, nested). (key, canonicalize nested)) (sort_key fst map1))"
| "canonicalize (JArray items) = JArray (map canonicalize items)"
| "canonicalize other = other"
  by pat_completeness auto
termination
  by (relation "measure (size_json (\<lambda>_. 0))")
    (auto simp: size_list_estimation' less_Suc_eq_le elim!: size_list_estimation')

definition argument_fingerprint :: "(nat list \<Rightarrow> ustring) \<Rightarrow> ('n json \<Rightarrow> ustring) \<Rightarrow> 'n json \<Rightarrow> ustring" where
  "argument_fingerprint sha render arguments = sha (utf8 (render (canonicalize arguments)))"

text \<open>Two values that differ only in the order in which their objects list their (distinct) keys.\<close>

inductive same_json :: "'n json \<Rightarrow> 'n json \<Rightarrow> bool" where
  same_refl: "same_json v v"
| same_array: "list_all2 same_json xs ys \<Longrightarrow> same_json (JArray xs) (JArray ys)"
| same_object: "\<lbrakk>distinct (map fst kvs); mset kvs' = mset kvs; list_all2 (rel_prod (=) same_json) kvs' kws\<rbrakk>
    \<Longrightarrow> same_json (JObject kvs) (JObject kws)"

lemma sort_key_map_snd:
  "map (\<lambda>(k, v). (k, f v)) (sort_key fst kvs) = sort_key fst (map (\<lambda>(k, v). (k, f v)) kvs)"
proof -
  have ins: "map (\<lambda>(k, v). (k, f v)) (insort_key fst x ys) = insort_key fst (fst x, f (snd x)) (map (\<lambda>(k, v). (k, f v)) ys)" for x ys
    by (induction ys) (auto split: prod.splits)
  show ?thesis by (induction kvs) (auto simp: ins split: prod.splits)
qed

lemma sort_key_distinct_perm:
  assumes "distinct (map fst kvs)" "mset kvs' = mset kvs"
  shows "sort_key fst kvs' = sort_key fst kvs"
proof (rule map_sorted_distinct_set_unique [of fst])
  have keys: "mset (map fst kvs') = mset (map fst kvs)" using assms(2) by simp
  have sets: "set kvs' = set kvs" using assms(2) by (metis set_mset_mset)
  show "inj_on fst (set (sort_key fst kvs') \<union> set (sort_key fst kvs))"
    using assms(1) sets by (simp add: distinct_map)
  show "distinct (map fst (sort_key fst kvs'))" "distinct (map fst (sort_key fst kvs))"
    using assms keys by (metis mset_eq_imp_distinct_iff mset_map mset_sort)+
  show "set (sort_key fst kvs') = set (sort_key fst kvs)" using sets by simp
qed simp_all

lemma same_json_canonicalize: "same_json a b \<Longrightarrow> canonicalize a = canonicalize b"
proof (induction rule: same_json.induct)
  case (same_array xs ys)
  then have "map canonicalize xs = map canonicalize ys"
    by (auto simp: list_all2_conv_all_nth intro!: nth_equalityI)
  then show ?case by simp
next
  case (same_object kvs kvs' kws)
  then have "map (\<lambda>(k, v). (k, canonicalize v)) kvs' = map (\<lambda>(k, v). (k, canonicalize v)) kws"
    by (auto simp: list_all2_conv_all_nth rel_prod_sel intro!: nth_equalityI split: prod.splits) force+
  then show ?case
    using sort_key_distinct_perm [OF same_object(1,2)] by (simp add: sort_key_map_snd) (metis sort_key_map_snd)
qed simp

section \<open>Entries\<close>

definition TOOL_USE_SCHEMA_VERSION :: u32 where "TOOL_USE_SCHEMA_VERSION = 1"
definition TOOL_USE_RECENT_LIMIT :: nat where "TOOL_USE_RECENT_LIMIT = 8"

record 'v tool_use_attempt =
  at_identity :: "'v tool_use"
  at_call_id :: ustring
  at_fingerprint :: ustring

definition tool_use_attempt_new ::
  "(nat list \<Rightarrow> ustring) \<Rightarrow> ('n json \<Rightarrow> ustring) \<Rightarrow> 'v tool_use \<Rightarrow> ustring \<Rightarrow> 'n json \<Rightarrow> 'v tool_use_attempt" where
  "tool_use_attempt_new sha render identity call_id arguments =
     \<lparr> at_identity = identity, at_call_id = call_id,
       at_fingerprint = argument_fingerprint sha render arguments \<rparr>"

record 'v tool_use_record =
  tr_schema_version :: u32
  tr_call_id :: ustring
  tr_fingerprint :: ustring
  tr_unknown :: "'v unknown"

record 'v tool_use_entry =
  te_schema_version :: u32
  te_identity :: "'v tool_use"
  te_run_calls :: u32
  te_turn_calls :: u32
  te_repeat_streak :: u32
  te_recent :: "'v tool_use_record list"
  te_unknown :: "'v unknown"

definition tool_use_entry_new :: "'v tool_use \<Rightarrow> 'v tool_use_entry" where
  "tool_use_entry_new identity =
     \<lparr> te_schema_version = TOOL_USE_SCHEMA_VERSION, te_identity = identity, te_run_calls = 0,
       te_turn_calls = 0, te_repeat_streak = 0, te_recent = [], te_unknown = Map.empty \<rparr>"

definition last_fingerprint :: "'v tool_use_entry \<Rightarrow> ustring option" where
  "last_fingerprint self = (if te_recent self = [] then None else Some (tr_fingerprint (last (te_recent self))))"

definition already_recorded :: "'v tool_use_entry \<Rightarrow> ustring \<Rightarrow> bool" where
  "already_recorded self call_id \<longleftrightarrow> list_ex (\<lambda>r. tr_call_id r = call_id) (te_recent self)"

definition tool_use_record_new :: "ustring \<Rightarrow> ustring \<Rightarrow> 'v tool_use_record" where
  "tool_use_record_new call_id fingerprint =
     \<lparr> tr_schema_version = TOOL_USE_SCHEMA_VERSION, tr_call_id = call_id, tr_fingerprint = fingerprint,
       tr_unknown = Map.empty \<rparr>"

definition entry_record :: "'v tool_use_entry \<Rightarrow> ustring \<Rightarrow> ustring \<Rightarrow> 'v tool_use_entry" where
  "entry_record self call_id fingerprint = self
     \<lparr> te_repeat_streak := (if last_fingerprint self = Some fingerprint
         then saturating_add (te_repeat_streak self) 1 else 1),
       te_run_calls := saturating_add (te_run_calls self) 1,
       te_recent := push_window TOOL_USE_RECENT_LIMIT (te_recent self) (tool_use_record_new call_id fingerprint) \<rparr>"

section \<open>Agents\<close>

record 'v agent_tool_use =
  au_schema_version :: u32
  au_entries :: "'v tool_use_entry list"
  au_last_turn_fingerprint :: "ustring option"
  au_unknown :: "'v unknown"

definition agent_tool_use_new :: "'v agent_tool_use" where
  "agent_tool_use_new = \<lparr> au_schema_version = TOOL_USE_SCHEMA_VERSION, au_entries = [],
     au_last_turn_fingerprint = None, au_unknown = Map.empty \<rparr>"

definition agent_entry :: "'v agent_tool_use \<Rightarrow> 'v tool_use \<Rightarrow> 'v tool_use_entry option" where
  "agent_entry self identity = find (\<lambda>e. tool_use_eq (te_identity e) identity) (au_entries self)"

definition agent_run_calls :: "'v agent_tool_use \<Rightarrow> u32" where
  "agent_run_calls self = foldl (\<lambda>sum e. saturating_add sum (te_run_calls e)) 0 (au_entries self)"

definition agent_turn_calls :: "'v agent_tool_use \<Rightarrow> u32" where
  "agent_turn_calls self = foldl (\<lambda>sum e. saturating_add sum (te_turn_calls e)) 0 (au_entries self)"

definition agent_used_any_this_turn :: "'v agent_tool_use \<Rightarrow> bool" where
  "agent_used_any_this_turn self \<longleftrightarrow> list_ex (\<lambda>e. 0 < te_turn_calls e) (au_entries self)"

text \<open>\<^verbatim>\<open>entry_mut\<close> and the update made through it.\<close>

definition entry_mut ::
  "'v tool_use \<Rightarrow> ('v tool_use_entry \<Rightarrow> 'v tool_use_entry) \<Rightarrow> 'v tool_use_entry list \<Rightarrow> 'v tool_use_entry list" where
  "entry_mut identity f entries =
     upsert (\<lambda>e. tool_use_eq (te_identity e) identity) (tool_use_entry_new identity) f entries"

text \<open>The duplicate check of the hand-written reader; the derived part yields the fields.\<close>

definition deserialize_agent_tool_use :: "'v agent_tool_use \<Rightarrow> unit + 'v agent_tool_use" where
  "deserialize_agent_tool_use wire =
     (if has_duplicate (\<lambda>a b. tool_use_eq (te_identity a) (te_identity b)) [] (au_entries wire) then Inl () else Inr wire)"

section \<open>The tracker\<close>

record 'v tool_use_tracker =
  tt_schema_version :: u32
  tt_agents :: "ustring \<rightharpoonup> 'v agent_tool_use"
  tt_unknown :: "'v unknown"

definition tool_use_tracker_new :: "'v tool_use_tracker" where
  "tool_use_tracker_new = \<lparr> tt_schema_version = TOOL_USE_SCHEMA_VERSION, tt_agents = Map.empty, tt_unknown = Map.empty \<rparr>"

definition attempt_segments :: "'v tool_use_attempt \<Rightarrow> segment list" where
  "attempt_segments a = identity_segments (at_identity a)
     @ [(ascii ''call_id'', utf8 (at_call_id a)), (ascii ''arguments'', utf8 (at_fingerprint a))]"

definition fingerprint_turn :: "(nat list \<Rightarrow> ustring) \<Rightarrow> 'v tool_use_attempt list \<Rightarrow> ustring" where
  "fingerprint_turn sha attempts = sha (segment_bytes (concat (map attempt_segments attempts)))"

text \<open>The body of the loop over a turn's attempts.\<close>

definition settle_attempt :: "bool \<Rightarrow> 'v tool_use_entry list \<Rightarrow> 'v tool_use_attempt \<Rightarrow> 'v tool_use_entry list" where
  "settle_attempt replay entries attempt =
     entry_mut (at_identity attempt)
       (\<lambda>entry. let entry = entry\<lparr>te_turn_calls := saturating_add (te_turn_calls entry) 1\<rparr>
                in if replay \<or> already_recorded entry (at_call_id attempt) then entry
                   else entry_record entry (at_call_id attempt) (at_fingerprint attempt))
       entries"

definition record_turn ::
  "(nat list \<Rightarrow> ustring) \<Rightarrow> 'v tool_use_tracker \<Rightarrow> ustring \<Rightarrow> 'v tool_use_attempt list \<Rightarrow> 'v tool_use_tracker" where
  "record_turn sha self agent attempts =
     (let turn_fingerprint = fingerprint_turn sha attempts;
          agent_use = (case tt_agents self agent of Some u \<Rightarrow> u | None \<Rightarrow> agent_tool_use_new);
          entries = map (\<lambda>entry. entry\<lparr>te_turn_calls := 0\<rparr>) (au_entries agent_use);
          replay = (au_last_turn_fingerprint agent_use = Some turn_fingerprint);
          agent_use = agent_use\<lparr>au_entries := foldl (settle_attempt replay) entries attempts,
                                au_last_turn_fingerprint := Some turn_fingerprint\<rparr>
      in self\<lparr>tt_agents := (tt_agents self)(agent \<mapsto> agent_use)\<rparr>)"

definition used_any_this_turn :: "'v tool_use_tracker \<Rightarrow> ustring \<Rightarrow> bool" where
  "used_any_this_turn self agent =
     (case tt_agents self agent of None \<Rightarrow> False | Some u \<Rightarrow> agent_used_any_this_turn u)"

definition repeat_streak :: "'v tool_use_tracker \<Rightarrow> ustring \<Rightarrow> 'v tool_use \<Rightarrow> u32" where
  "repeat_streak self agent identity =
     (case Option.bind (tt_agents self agent) (\<lambda>u. agent_entry u identity) of
        None \<Rightarrow> 0 | Some e \<Rightarrow> te_repeat_streak e)"

section \<open>One entry per identity\<close>

abbreviation entry_key :: "'v tool_use_entry \<Rightarrow> action_key" where
  "entry_key e \<equiv> key_of (te_identity e)"

abbreviation reset_turn :: "'v tool_use_entry \<Rightarrow> 'v tool_use_entry" where
  "reset_turn e \<equiv> e\<lparr>te_turn_calls := 0\<rparr>"

abbreviation count_turn :: "'v tool_use_entry \<Rightarrow> 'v tool_use_entry" where
  "count_turn e \<equiv> e\<lparr>te_turn_calls := saturating_add (te_turn_calls e) 1\<rparr>"

interpretation tu: replay_table
  entry_key "\<lambda>a. key_of (at_identity a)" "\<lambda>a. tool_use_entry_new (at_identity a)"
  reset_turn count_turn
  "\<lambda>a e. already_recorded e (at_call_id a)" "\<lambda>a e. entry_record e (at_call_id a) (at_fingerprint a)"
  settle_attempt
  by unfold_locales
    (simp_all add: settle_attempt_def entry_mut_def tool_use_eq_iff Let_def tool_use_entry_new_def
      entry_record_def last_fingerprint_def)

definition tracker_wf :: "'v tool_use_tracker \<Rightarrow> bool" where
  "tracker_wf t \<longleftrightarrow> (\<forall>agent u. tt_agents t agent = Some u \<longrightarrow> distinct (map entry_key (au_entries u)))"

lemma tracker_wf_entries:
  "tracker_wf t \<Longrightarrow> distinct (map entry_key (au_entries
     (case tt_agents t agent of Some u \<Rightarrow> u | None \<Rightarrow> agent_tool_use_new)))"
  by (auto simp: tracker_wf_def agent_tool_use_new_def split: option.splits)

text \<open>
  C19. Two entries for one identity would split its counts. A saved agent record is accepted
  exactly when its entries have pairwise different identities, and \<^verbatim>\<open>record_turn\<close> keeps that form for
  every agent, whatever the turn.
\<close>

theorem one_entry_per_identity:
  "(deserialize_agent_tool_use wire = Inr wire \<longleftrightarrow> distinct (map (\<lambda>e. key_of (te_identity e)) (au_entries wire)))
   \<and> (tracker_wf t \<longrightarrow> tracker_wf (record_turn sha t agent attempts))"
proof (intro conjI impI)
  show "deserialize_agent_tool_use wire = Inr wire \<longleftrightarrow> distinct (map entry_key (au_entries wire))"
    using has_duplicate_iff [of "\<lambda>a b. tool_use_eq (te_identity a) (te_identity b)" entry_key "[]" "au_entries wire"]
    by (auto simp: deserialize_agent_tool_use_def tool_use_eq_iff)
  assume wf: "tracker_wf t"
  have "distinct (map entry_key (map reset_turn (au_entries
      (case tt_agents t agent of Some u \<Rightarrow> u | None \<Rightarrow> agent_tool_use_new))))"
    using tracker_wf_entries [OF wf, of agent] by (simp add: comp_def)
  from tu.foldl_settle_distinct [OF this] wf show "tracker_wf (record_turn sha t agent attempts)"
    by (simp add: tracker_wf_def record_turn_def Let_def)
qed

definition demo_attempt :: "string \<Rightarrow> nat tool_use_attempt" where
  "demo_attempt call = \<lparr> at_identity = Hosted (lit ''search''), at_call_id = lit call, at_fingerprint = lit ''f'' \<rparr>"

theorem one_entry_per_identity_witness:
  "tracker_wf (record_turn id (tool_use_tracker_new :: nat tool_use_tracker) (lit ''a'') [demo_attempt ''c1''])"
proof -
  have "tracker_wf (tool_use_tracker_new :: nat tool_use_tracker)"
    by (simp add: tracker_wf_def tool_use_tracker_new_def)
  then show ?thesis using one_entry_per_identity by blast
qed

section \<open>Replays\<close>

text \<open>
  C29. Recording the same turn twice changes nothing at all: settling a response again right after
  it was recorded leaves the tracker exactly as it was, however many calls the turn holds and even
  when they displaced one another from the retained window.
\<close>

theorem record_turn_idempotent:
  assumes "tracker_wf t"
  shows "record_turn sha (record_turn sha t agent attempts) agent attempts = record_turn sha t agent attempts"
  using tu.settle_turn_idempotent [OF tracker_wf_entries [OF assms]]
  by (simp add: record_turn_def Let_def)

theorem record_turn_idempotent_witness:
  "record_turn id (record_turn id (tool_use_tracker_new :: nat tool_use_tracker) (lit ''a'')
       (map (\<lambda>_. demo_attempt ''c1'') [1..10])) (lit ''a'') (map (\<lambda>_. demo_attempt ''c1'') [1..10])
   = record_turn id tool_use_tracker_new (lit ''a'') (map (\<lambda>_. demo_attempt ''c1'') [1..10])"
  by (rule record_turn_idempotent) (simp add: tracker_wf_def tool_use_tracker_new_def)

text \<open>What the message hashed for a turn depends on.\<close>

definition attempt_view :: "'v tool_use_attempt \<Rightarrow> action_key \<times> ustring \<times> ustring" where
  "attempt_view a = (key_of (at_identity a), at_call_id a, at_fingerprint a)"

definition attempt_ok :: "'v tool_use_attempt \<Rightarrow> bool" where
  "attempt_ok a \<longleftrightarrow> tool_use_ok (at_identity a) \<and> list_all segment_ok (attempt_segments a)"

lemma attempt_segments_prefix:
  assumes "tool_use_ok (at_identity a)" "tool_use_ok (at_identity b)"
    and "attempt_segments a @ x = attempt_segments b @ y"
  shows "attempt_view a = attempt_view b \<and> x = y"
  using identity_segments_prefix [OF assms(1,2)] assms(3)
  by (auto simp: attempt_segments_def attempt_view_def dest!: utf8_inj)

lemma identity_segments_not_Nil [simp]: "identity_segments u \<noteq> []"
  by (cases u) simp_all

lemma turn_segments_inj:
  "\<lbrakk>list_all attempt_ok as; list_all attempt_ok bs;
    concat (map attempt_segments as) = concat (map attempt_segments bs)\<rbrakk>
   \<Longrightarrow> map attempt_view as = map attempt_view bs"
proof (induction as arbitrary: bs)
  case Nil
  then show ?case by (cases bs) (auto simp: attempt_segments_def)
next
  case (Cons a as)
  then obtain b bs' where bs: "bs = b # bs'" by (cases bs) (auto simp: attempt_segments_def)
  then have "attempt_view a = attempt_view b \<and> concat (map attempt_segments as) = concat (map attempt_segments bs')"
    using Cons.prems by (intro attempt_segments_prefix) (auto simp: attempt_ok_def)
  then show ?case using Cons bs by simp
qed

text \<open>
  C28. The message hashed for a turn is unambiguous: two turns are fed to the digest as the same
  bytes only if they list the same identities, call ids and argument digests in the same order. So a
  turn is taken for a replay of another only if they agree in all of these, or the digest collides.
\<close>

theorem turn_message_unambiguous:
  assumes "list_all attempt_ok as" "list_all attempt_ok bs"
    and "fingerprint_turn sha as = fingerprint_turn sha bs"
    and "\<And>x y. \<lbrakk>x \<in> {segment_bytes (concat (map attempt_segments as)), segment_bytes (concat (map attempt_segments bs))};
                 y \<in> {segment_bytes (concat (map attempt_segments as)), segment_bytes (concat (map attempt_segments bs))};
                 sha x = sha y\<rbrakk> \<Longrightarrow> x = y"
  shows "map attempt_view as = map attempt_view bs"
proof -
  have ok: "list_all segment_ok (concat (map attempt_segments as))" "list_all segment_ok (concat (map attempt_segments bs))"
    using assms(1,2) by (auto simp: attempt_ok_def list_all_iff)
  have "segment_bytes (concat (map attempt_segments as)) = segment_bytes (concat (map attempt_segments bs))"
    using assms(3,4) unfolding fingerprint_turn_def by blast
  then show ?thesis
    using segment_bytes_inj [OF ok] turn_segments_inj [OF assms(1,2)] by blast
qed

theorem turn_message_unambiguous_witness:
  "\<not> fingerprint_turn id [demo_attempt ''c1''] = fingerprint_turn id [demo_attempt ''c2'']"
proof
  assume eq: "fingerprint_turn id [demo_attempt ''c1''] = fingerprint_turn id [demo_attempt ''c2'']"
  have "list_all attempt_ok [demo_attempt ''c1'']" "list_all attempt_ok [demo_attempt ''c2'']"
    by (simp_all add: demo_attempt_def attempt_ok_def tool_use_ok_def attempt_segments_def segment_ok_def
        utf8_def utf8_char_def lit_def)
  from turn_message_unambiguous [OF this eq] show False
    by (simp add: attempt_view_def demo_attempt_def)
qed

section \<open>What the counters mean\<close>

text \<open>
  Abstractly an entry remembers its identity's whole recorded call sequence; the stored counters
  and the window are a projection of it.
\<close>

definition entry_of_history :: "'v tool_use_entry \<Rightarrow> (ustring \<times> ustring) list \<Rightarrow> bool" where
  "entry_of_history e calls \<longleftrightarrow>
     unat (te_run_calls e) = min (length calls) (2 ^ 32 - 1)
     \<and> unat (te_repeat_streak e) = min (tail_run (map snd calls)) (2 ^ 32 - 1)
     \<and> te_recent e = keep_last TOOL_USE_RECENT_LIMIT (map (\<lambda>(c, f). tool_use_record_new c f) calls)"

lemma entry_of_history_new: "entry_of_history (tool_use_entry_new identity) []"
  by (simp add: entry_of_history_def tool_use_entry_new_def keep_last_def)

lemma last_fingerprint_history:
  "entry_of_history e calls \<Longrightarrow> last_fingerprint e = (if calls = [] then None else Some (snd (last calls)))"
  using last_keep_last [of TOOL_USE_RECENT_LIMIT "map (\<lambda>(c, f). tool_use_record_new c f) calls"]
  by (cases calls rule: rev_cases)
    (auto simp: entry_of_history_def last_fingerprint_def TOOL_USE_RECENT_LIMIT_def keep_last_def
      tool_use_record_new_def)

lemma entry_of_history_record:
  assumes "entry_of_history e calls"
  shows "entry_of_history (entry_record e c f) (calls @ [(c, f)])"
  using assms last_fingerprint_history [OF assms]
  by (auto simp: entry_of_history_def entry_record_def sat_simps tail_run_snoc last_map push_window_def
      keep_last_keep_last_snoc)

text \<open>
  C31. After any sequence of recorded calls of one identity: the run counter is their number, the
  repeat streak the number of calls at the end that carried the same arguments (both up to
  saturation of 32 bits), and the retained window the last eight calls.
\<close>

theorem entry_counts_the_history:
  "entry_of_history (foldl (\<lambda>e (c, f). entry_record e c f) (tool_use_entry_new identity) calls) calls"
proof (induction calls rule: rev_induct)
  case (snoc x xs)
  then show ?case by (cases x) (simp add: entry_of_history_record)
qed (simp add: entry_of_history_new)

text \<open>
  C40. Argument fingerprints do not depend on the order in which a provider lists object keys, at
  any depth: arguments that differ only in key order are the same call to the repeat detector.
\<close>

theorem fingerprint_ignores_key_order:
  assumes "same_json a b"
  shows "argument_fingerprint sha render a = argument_fingerprint sha render b"
  using same_json_canonicalize [OF assms] by (simp add: argument_fingerprint_def)

theorem fingerprint_ignores_key_order_witness:
  "argument_fingerprint id (\<lambda>_. []) (JObject [(lit ''b'', JNull), (lit ''a'', JBool True :: nat json)])
   = argument_fingerprint id (\<lambda>_. []) (JObject [(lit ''a'', JBool True :: nat json), (lit ''b'', JNull)])"
  by (rule fingerprint_ignores_key_order,
      rule same_object [where kvs' = "[(lit ''a'', JBool True), (lit ''b'', JNull)]"])
    (simp_all add: same_refl)

end
