(* ===== verification/Tool_Failure.thy ===== *)
theory Tool_Failure
  imports Tool_Use
begin

text \<open>
  The per-agent failure trail of \<^verbatim>\<open>ra-core/src/state/tool_failure.rs\<close> and the loop breakers of
  \<^verbatim>\<open>ra-runtime/src/circuit.rs\<close> that read it together with the call trail.
\<close>

section \<open>Outcomes\<close>

datatype outcome_kind = Succeeded | Failed ustring | Refused

record 'v tool_outcome =
  oc_identity :: "'v tool_use"
  oc_call_id :: ustring
  oc_input :: ustring
  oc_evidence :: ustring
  oc_kind :: outcome_kind

definition evidence_fingerprint :: "(nat list \<Rightarrow> ustring) \<Rightarrow> ('n json \<Rightarrow> ustring) \<Rightarrow> 'n json \<Rightarrow> ustring" where
  "evidence_fingerprint sha render observation = sha (utf8 (render (canonicalize observation)))"

definition outcome_succeeded ::
  "(nat list \<Rightarrow> ustring) \<Rightarrow> ('n json \<Rightarrow> ustring) \<Rightarrow> 'v tool_use \<Rightarrow> ustring \<Rightarrow> 'n json \<Rightarrow> 'n json \<Rightarrow> 'v tool_outcome" where
  "outcome_succeeded sha render identity call_id arguments observation =
     \<lparr> oc_identity = identity, oc_call_id = call_id, oc_input = argument_fingerprint sha render arguments,
       oc_evidence = evidence_fingerprint sha render observation, oc_kind = Succeeded \<rparr>"

definition outcome_failed ::
  "(nat list \<Rightarrow> ustring) \<Rightarrow> ('n json \<Rightarrow> ustring) \<Rightarrow> 'v tool_use \<Rightarrow> ustring \<Rightarrow> 'n json \<Rightarrow> 'n json \<Rightarrow> ustring \<Rightarrow> 'v tool_outcome" where
  "outcome_failed sha render identity call_id arguments observation code =
     (outcome_succeeded sha render identity call_id arguments observation)\<lparr>oc_kind := Failed code\<rparr>"

definition outcome_refused ::
  "(nat list \<Rightarrow> ustring) \<Rightarrow> ('n json \<Rightarrow> ustring) \<Rightarrow> 'v tool_use \<Rightarrow> ustring \<Rightarrow> 'n json \<Rightarrow> 'n json \<Rightarrow> 'v tool_outcome" where
  "outcome_refused sha render identity call_id arguments observation =
     (outcome_succeeded sha render identity call_id arguments observation)\<lparr>oc_kind := Refused\<rparr>"

definition failure_code :: "'v tool_outcome \<Rightarrow> ustring option" where
  "failure_code self = (case oc_kind self of Failed code \<Rightarrow> Some code | Succeeded \<Rightarrow> None | Refused \<Rightarrow> None)"

section \<open>Entries\<close>

definition TOOL_FAILURE_SCHEMA_VERSION :: u32 where "TOOL_FAILURE_SCHEMA_VERSION = 1"
definition TOOL_FAILURE_RECENT_LIMIT :: nat where "TOOL_FAILURE_RECENT_LIMIT = 8"

record 'v tool_failure_record =
  fr_schema_version :: u32
  fr_call_id :: ustring
  fr_input :: ustring
  fr_evidence :: ustring
  fr_code :: ustring
  fr_new_evidence :: bool
  fr_unknown :: "'v unknown"

record 'v tool_failure_entry =
  fe_schema_version :: u32
  fe_identity :: "'v tool_use"
  fe_run_failures :: u32
  fe_no_progress_streak :: u32
  fe_last_evidence :: "ustring option"
  fe_recent :: "'v tool_failure_record list"
  fe_recent_outcome_call_ids :: "ustring list"
  fe_unknown :: "'v unknown"

definition failure_entry_new :: "'v tool_use \<Rightarrow> 'v tool_failure_entry" where
  "failure_entry_new identity =
     \<lparr> fe_schema_version = TOOL_FAILURE_SCHEMA_VERSION, fe_identity = identity, fe_run_failures = 0,
       fe_no_progress_streak = 0, fe_last_evidence = None, fe_recent = [],
       fe_recent_outcome_call_ids = [], fe_unknown = Map.empty \<rparr>"

definition failure_already_recorded :: "'v tool_failure_entry \<Rightarrow> ustring \<Rightarrow> bool" where
  "failure_already_recorded self call_id \<longleftrightarrow>
     list_ex (\<lambda>recorded. recorded = call_id) (fe_recent_outcome_call_ids self)
     \<or> list_ex (\<lambda>r. fr_call_id r = call_id) (fe_recent self)"

definition clear_streak :: "'v tool_failure_entry \<Rightarrow> 'v tool_failure_entry" where
  "clear_streak self = self\<lparr>fe_no_progress_streak := 0, fe_last_evidence := None\<rparr>"

definition record_failure ::
  "'v tool_failure_entry \<Rightarrow> ustring \<Rightarrow> ustring \<Rightarrow> ustring \<Rightarrow> ustring \<Rightarrow> 'v tool_failure_entry" where
  "record_failure self call_id input evidence code =
     (let new_evidence = (fe_last_evidence self \<noteq> Some evidence)
      in self
         \<lparr> fe_no_progress_streak := (if new_evidence then 1 else saturating_add (fe_no_progress_streak self) 1),
           fe_run_failures := saturating_add (fe_run_failures self) 1,
           fe_last_evidence := Some evidence,
           fe_recent := push_window TOOL_FAILURE_RECENT_LIMIT (fe_recent self)
             \<lparr> fr_schema_version = TOOL_FAILURE_SCHEMA_VERSION, fr_call_id = call_id, fr_input = input,
               fr_evidence = evidence, fr_code = code, fr_new_evidence = new_evidence,
               fr_unknown = Map.empty \<rparr> \<rparr>)"

definition record_outcome_call_id :: "'v tool_failure_entry \<Rightarrow> ustring \<Rightarrow> 'v tool_failure_entry" where
  "record_outcome_call_id self call_id = self
     \<lparr>fe_recent_outcome_call_ids :=
        push_window TOOL_FAILURE_RECENT_LIMIT (fe_recent_outcome_call_ids self) call_id\<rparr>"

section \<open>Agents and the tracker\<close>

record 'v agent_tool_failures =
  af_schema_version :: u32
  af_entries :: "'v tool_failure_entry list"
  af_last_turn_fingerprint :: "ustring option"
  af_unknown :: "'v unknown"

definition agent_tool_failures_new :: "'v agent_tool_failures" where
  "agent_tool_failures_new = \<lparr> af_schema_version = TOOL_FAILURE_SCHEMA_VERSION, af_entries = [],
     af_last_turn_fingerprint = None, af_unknown = Map.empty \<rparr>"

definition failure_entry :: "'v agent_tool_failures \<Rightarrow> 'v tool_use \<Rightarrow> 'v tool_failure_entry option" where
  "failure_entry self identity = find (\<lambda>e. tool_use_eq (fe_identity e) identity) (af_entries self)"

definition agent_run_failures :: "'v agent_tool_failures \<Rightarrow> u32" where
  "agent_run_failures self = foldl (\<lambda>sum e. saturating_add sum (fe_run_failures e)) 0 (af_entries self)"

definition failure_entry_mut ::
  "'v tool_use \<Rightarrow> ('v tool_failure_entry \<Rightarrow> 'v tool_failure_entry) \<Rightarrow> 'v tool_failure_entry list \<Rightarrow> 'v tool_failure_entry list" where
  "failure_entry_mut identity f entries =
     upsert (\<lambda>e. tool_use_eq (fe_identity e) identity) (failure_entry_new identity) f entries"

definition deserialize_agent_tool_failures :: "'v agent_tool_failures \<Rightarrow> unit + 'v agent_tool_failures" where
  "deserialize_agent_tool_failures wire =
     (if has_duplicate (\<lambda>a b. tool_use_eq (fe_identity a) (fe_identity b)) [] (af_entries wire)
      then Inl () else Inr wire)"

record 'v tool_failure_tracker =
  tf_schema_version :: u32
  tf_agents :: "ustring \<rightharpoonup> 'v agent_tool_failures"
  tf_unknown :: "'v unknown"

definition tool_failure_tracker_new :: "'v tool_failure_tracker" where
  "tool_failure_tracker_new =
     \<lparr> tf_schema_version = TOOL_FAILURE_SCHEMA_VERSION, tf_agents = Map.empty, tf_unknown = Map.empty \<rparr>"

definition outcome_segments :: "'v tool_outcome \<Rightarrow> segment list" where
  "outcome_segments outcome = identity_segments (oc_identity outcome)
     @ [(ascii ''call_id'', utf8 (oc_call_id outcome)), (ascii ''input'', utf8 (oc_input outcome)),
        (ascii ''evidence'', utf8 (oc_evidence outcome)),
        (ascii ''kind'', case oc_kind outcome of Succeeded \<Rightarrow> ascii ''succeeded''
           | Failed _ \<Rightarrow> ascii ''failed'' | Refused \<Rightarrow> ascii ''refused''),
        (ascii ''code'', utf8 (case failure_code outcome of Some code \<Rightarrow> code | None \<Rightarrow> []))]"

definition fingerprint_outcomes :: "(nat list \<Rightarrow> ustring) \<Rightarrow> 'v tool_outcome list \<Rightarrow> ustring" where
  "fingerprint_outcomes sha outcomes = sha (segment_bytes (concat (map outcome_segments outcomes)))"

text \<open>The part of the loop body after the replay test.\<close>

definition record_outcome :: "'v tool_failure_entry \<Rightarrow> 'v tool_outcome \<Rightarrow> 'v tool_failure_entry" where
  "record_outcome entry outcome =
     record_outcome_call_id
       (case oc_kind outcome of
          Succeeded \<Rightarrow> clear_streak entry
        | Refused \<Rightarrow> clear_streak entry
        | Failed code \<Rightarrow> record_failure entry (oc_call_id outcome) (oc_input outcome) (oc_evidence outcome) code)
       (oc_call_id outcome)"

definition settle_outcome :: "bool \<Rightarrow> 'v tool_failure_entry list \<Rightarrow> 'v tool_outcome \<Rightarrow> 'v tool_failure_entry list" where
  "settle_outcome replay entries outcome =
     failure_entry_mut (oc_identity outcome)
       (\<lambda>entry. if replay \<or> failure_already_recorded entry (oc_call_id outcome) then entry
                else record_outcome entry outcome)
       entries"

definition failures_record_turn ::
  "(nat list \<Rightarrow> ustring) \<Rightarrow> 'v tool_failure_tracker \<Rightarrow> ustring \<Rightarrow> 'v tool_outcome list \<Rightarrow> 'v tool_failure_tracker" where
  "failures_record_turn sha self agent outcomes =
     (let turn_fingerprint = fingerprint_outcomes sha outcomes;
          agent_failures = (case tf_agents self agent of Some f \<Rightarrow> f | None \<Rightarrow> agent_tool_failures_new);
          replay = (af_last_turn_fingerprint agent_failures = Some turn_fingerprint);
          agent_failures = agent_failures
            \<lparr>af_entries := foldl (settle_outcome replay) (af_entries agent_failures) outcomes,
             af_last_turn_fingerprint := Some turn_fingerprint\<rparr>
      in self\<lparr>tf_agents := (tf_agents self)(agent \<mapsto> agent_failures)\<rparr>)"

definition no_progress_streak :: "'v tool_failure_tracker \<Rightarrow> ustring \<Rightarrow> 'v tool_use \<Rightarrow> u32" where
  "no_progress_streak self agent identity =
     (case Option.bind (tf_agents self agent) (\<lambda>f. failure_entry f identity) of
        None \<Rightarrow> 0 | Some e \<Rightarrow> fe_no_progress_streak e)"

section \<open>Loop breakers\<close>

text \<open>The two limits of \<^verbatim>\<open>ToolOptions\<close>; a \<^verbatim>\<open>NonZeroU32\<close> is a word that is not zero.\<close>

record tool_limits =
  tl_max_repeat_streak :: "u32 option"
  tl_max_no_progress_streak :: "u32 option"

definition DEFAULT_MAX_NO_PROGRESS_STREAK :: u32 where "DEFAULT_MAX_NO_PROGRESS_STREAK = 3"

definition tool_limits_default :: tool_limits where
  "tool_limits_default = \<lparr> tl_max_repeat_streak = None,
     tl_max_no_progress_streak = Some DEFAULT_MAX_NO_PROGRESS_STREAK \<rparr>"

definition limits_ok :: "tool_limits \<Rightarrow> bool" where
  "limits_ok options \<longleftrightarrow> tl_max_repeat_streak options \<noteq> Some 0 \<and> tl_max_no_progress_streak options \<noteq> Some 0"

record call_history =
  ch_repeat_streak :: u32
  ch_no_progress_streak :: u32

datatype tool_error_kind = RepeatedCall | NoProgress

text \<open>A refusal: its kind, the tool's name, the streak and the limit its text reports.\<close>

type_synonym refusal = "tool_error_kind \<times> ustring \<times> u32 \<times> u32"

definition admit_repeat :: "tool_limits \<Rightarrow> u32 \<Rightarrow> ustring \<Rightarrow> refusal option" where
  "admit_repeat options streak tool_name =
     (case tl_max_repeat_streak options of None \<Rightarrow> None
      | Some limit \<Rightarrow> if limit \<le> streak then Some (RepeatedCall, tool_name, streak, limit) else None)"

definition admit_progress :: "tool_limits \<Rightarrow> u32 \<Rightarrow> ustring \<Rightarrow> refusal option" where
  "admit_progress options streak tool_name =
     (case tl_max_no_progress_streak options of None \<Rightarrow> None
      | Some limit \<Rightarrow> if limit \<le> streak then Some (NoProgress, tool_name, streak, limit) else None)"

definition admit :: "tool_limits \<Rightarrow> call_history \<Rightarrow> ustring \<Rightarrow> refusal option" where
  "admit options history tool_name =
     (case admit_repeat options (ch_repeat_streak history) tool_name of
        Some r \<Rightarrow> Some r
      | None \<Rightarrow> admit_progress options (ch_no_progress_streak history) tool_name)"

section \<open>One entry per identity, and replays\<close>

abbreviation failure_key :: "'v tool_failure_entry \<Rightarrow> action_key" where
  "failure_key e \<equiv> key_of (fe_identity e)"

lemma fe_identity_simps [simp]:
  "fe_identity (record_outcome e oc) = fe_identity e"
  "fe_identity (failure_entry_new i) = i"
  by (simp_all add: record_outcome_def record_outcome_call_id_def clear_streak_def record_failure_def
      failure_entry_new_def Let_def split: outcome_kind.splits)

interpretation tf: replay_table
  failure_key "\<lambda>oc. key_of (oc_identity oc)" "\<lambda>oc. failure_entry_new (oc_identity oc)"
  "\<lambda>e. e" "\<lambda>e. e" "\<lambda>oc e. failure_already_recorded e (oc_call_id oc)" "\<lambda>oc e. record_outcome e oc"
  settle_outcome
  by unfold_locales (simp_all add: settle_outcome_def failure_entry_mut_def tool_use_eq_iff)

definition failures_wf :: "'v tool_failure_tracker \<Rightarrow> bool" where
  "failures_wf t \<longleftrightarrow> (\<forall>agent f. tf_agents t agent = Some f \<longrightarrow> distinct (map failure_key (af_entries f)))"

lemma failures_wf_entries:
  "failures_wf t \<Longrightarrow> distinct (map failure_key (af_entries
     (case tf_agents t agent of Some f \<Rightarrow> f | None \<Rightarrow> agent_tool_failures_new)))"
  by (auto simp: failures_wf_def agent_tool_failures_new_def split: option.splits)

text \<open>
  C20. Settling a turn's outcomes again right after they were recorded changes nothing, so a resumed
  interruption can neither double a failure streak nor clear one; and the tracker keeps one entry
  per identity.
\<close>

theorem failures_record_turn_idempotent:
  assumes "failures_wf t"
  shows "failures_record_turn sha (failures_record_turn sha t agent outcomes) agent outcomes
           = failures_record_turn sha t agent outcomes
       \<and> failures_wf (failures_record_turn sha t agent outcomes)"
  using tf.settle_turn_idempotent [OF failures_wf_entries [OF assms]]
    tf.foldl_settle_distinct [OF failures_wf_entries [OF assms]] assms
  by (simp add: failures_record_turn_def failures_wf_def Let_def)

definition demo_outcome :: "string \<Rightarrow> outcome_kind \<Rightarrow> nat tool_outcome" where
  "demo_outcome call kind = \<lparr> oc_identity = Hosted (lit ''search''), oc_call_id = lit call, oc_input = [],
     oc_evidence = lit ''e'', oc_kind = kind \<rparr>"

theorem failures_record_turn_idempotent_witness:
  "failures_record_turn id (failures_record_turn id (tool_failure_tracker_new :: nat tool_failure_tracker)
       (lit ''a'') [demo_outcome ''c1'' (Failed [])]) (lit ''a'') [demo_outcome ''c1'' (Failed [])]
   = failures_record_turn id tool_failure_tracker_new (lit ''a'') [demo_outcome ''c1'' (Failed [])]"
  by (rule failures_record_turn_idempotent [THEN conjunct1])
    (simp add: failures_wf_def tool_failure_tracker_new_def)

section \<open>What the streak means\<close>

text \<open>An outcome as the breaker sees it: the evidence of a failure, or nothing for a success or refusal.\<close>

definition outcome_evidence :: "'v tool_outcome \<Rightarrow> ustring option" where
  "outcome_evidence oc = (case oc_kind oc of Failed _ \<Rightarrow> Some (oc_evidence oc) | _ \<Rightarrow> None)"

text \<open>The failures at the end of a history that all showed the same evidence.\<close>

definition stuck_run :: "ustring option list \<Rightarrow> nat" where
  "stuck_run es = (if es = [] \<or> last es = None then 0 else tail_run es)"

lemma stuck_run_snoc:
  "stuck_run (es @ [x]) = (case x of None \<Rightarrow> 0
     | Some e \<Rightarrow> if es \<noteq> [] \<and> last es = Some e then Suc (stuck_run es) else 1)"
  by (auto simp: stuck_run_def tail_run_snoc split: option.splits)

definition failure_of_history :: "'v tool_failure_entry \<Rightarrow> 'v tool_outcome list \<Rightarrow> bool" where
  "failure_of_history e hist \<longleftrightarrow>
     unat (fe_no_progress_streak e) = min (stuck_run (map outcome_evidence hist)) (2 ^ 32 - 1)
     \<and> unat (fe_run_failures e) = min (length (filter (\<lambda>x. x \<noteq> None) (map outcome_evidence hist))) (2 ^ 32 - 1)
     \<and> fe_last_evidence e = (if hist = [] then None else outcome_evidence (last hist))
     \<and> fe_recent_outcome_call_ids e = keep_last TOOL_FAILURE_RECENT_LIMIT (map oc_call_id hist)
     \<and> length (fe_recent e) \<le> TOOL_FAILURE_RECENT_LIMIT"

lemma failure_of_history_record:
  assumes "failure_of_history e hist"
  shows "failure_of_history (record_outcome e oc) (hist @ [oc])"
proof (cases "oc_kind oc")
  case (Failed code)
  then have "outcome_evidence oc = Some (oc_evidence oc)" by (simp add: outcome_evidence_def)
  with Failed assms show ?thesis
    by (auto simp: failure_of_history_def record_outcome_def record_outcome_call_id_def record_failure_def
        Let_def sat_simps stuck_run_snoc last_map push_window_def keep_last_keep_last_snoc)
qed (use assms in \<open>auto simp: failure_of_history_def record_outcome_def record_outcome_call_id_def
      clear_streak_def stuck_run_snoc outcome_evidence_def push_window_def keep_last_keep_last_snoc\<close>)

lemma failure_of_history_foldl:
  "failure_of_history (foldl record_outcome (failure_entry_new identity) hist) hist"
proof (induction hist rule: rev_induct)
  case Nil
  then show ?case by (simp add: failure_of_history_def failure_entry_new_def stuck_run_def keep_last_def)
qed (simp add: failure_of_history_record)

text \<open>
  C19. The no-progress streak of an identity is the number of failures at the end of its recorded
  outcomes that all showed the same evidence, and zero right after a success or a refusal; the
  failure count is the number of failures (both up to saturation), and the call ids that protect
  against replays are those of the last eight outcomes.
\<close>

theorem failure_entry_counts_the_history:
  "failure_of_history (foldl record_outcome (failure_entry_new identity) hist) hist"
  by (rule failure_of_history_foldl)

text \<open>
  C30. The no-progress breaker fires exactly when at least the configured number of failures at the
  end of the identity's outcomes showed the same evidence, and it never latches: once the refusal it
  causes is recorded, the next call of that identity is admitted again.
\<close>

theorem no_progress_breaker_exact:
  assumes "tl_max_no_progress_streak options = Some limit" "limit \<noteq> 0"
  shows "(admit_progress options
            (fe_no_progress_streak (foldl record_outcome (failure_entry_new identity) hist)) name \<noteq> None
          \<longleftrightarrow> unat limit \<le> stuck_run (map outcome_evidence hist))
       \<and> (oc_kind refused = Refused \<longrightarrow> admit_progress options
            (fe_no_progress_streak (foldl record_outcome (failure_entry_new identity) (hist @ [refused]))) name = None)"
proof -
  have lim: "unat limit \<le> 2 ^ 32 - 1" using unat_le_max [of limit] by simp
  have fires: "admit_progress options (fe_no_progress_streak (foldl record_outcome (failure_entry_new identity) h)) name \<noteq> None
      \<longleftrightarrow> unat limit \<le> stuck_run (map outcome_evidence h)" for h :: "'a tool_outcome list"
    using failure_of_history_foldl [of identity h] lim assms(1)
    by (simp add: admit_progress_def failure_of_history_def word_le_nat_alt)
  have "unat limit \<noteq> 0" using assms(2) by (simp add: unat_eq_0)
  moreover have "stuck_run (map outcome_evidence (hist @ [refused])) = 0" if "oc_kind refused = Refused"
    using that by (simp add: stuck_run_snoc outcome_evidence_def)
  ultimately show ?thesis
    using fires [of hist] fires [of "hist @ [refused]"] by (metis le_zero_eq)
qed

theorem no_progress_breaker_exact_witness:
  "admit_progress tool_limits_default
     (fe_no_progress_streak (foldl record_outcome (failure_entry_new (Hosted (lit ''search'')))
        (replicate 3 (demo_outcome ''c'' (Failed []))))) (lit ''search'') \<noteq> None"
  using no_progress_breaker_exact [of tool_limits_default 3 "Hosted (lit ''search'')"
      "replicate 3 (demo_outcome ''c'' (Failed []))" "lit ''search''"]
  by (simp add: tool_limits_default_def DEFAULT_MAX_NO_PROGRESS_STREAK_def demo_outcome_def
      outcome_evidence_def stuck_run_def tail_run_def numeral_3_eq_3)

text \<open>
  An older call is recognised on its own while it is in its identity's window: settling an
  outcome whose call id the entry still retains leaves every entry unchanged, so replaying an old
  success cannot erase a newer failure streak.
\<close>

theorem retained_outcome_is_not_recorded_again:
  assumes "distinct (map (\<lambda>e. key_of (fe_identity e)) entries)" "e \<in> set entries"
    and "tool_use_eq (fe_identity e) (oc_identity oc)" "oc_call_id oc \<in> set (fe_recent_outcome_call_ids e)"
  shows "settle_outcome False entries oc = entries"
proof -
  have k: "failure_key e = key_of (oc_identity oc)" using assms(3) by (simp add: tool_use_eq_iff)
  have "failure_already_recorded e (oc_call_id oc)"
    using assms(4) by (auto simp: failure_already_recorded_def list_ex_iff)
  then have "settle_outcome False entries oc = settle_outcome True entries oc"
    by (rule tf.settle_seen [OF assms(1,2) k])
  also have "\<dots> = entries"
  proof -
    have "((\<lambda>e. e) ^^ n) x = x" for n and x :: "'a tool_failure_entry" by (induction n) auto
    then show ?thesis
      using tf.foldl_settle_replay [OF assms(1), of "[oc]"] assms(2) k by force
  qed
  finally show ?thesis .
qed

definition demo_failure_entry :: "nat tool_failure_entry" where
  "demo_failure_entry = record_outcome (failure_entry_new (Hosted (lit ''search''))) (demo_outcome ''c1'' (Failed []))"

theorem retained_outcome_is_not_recorded_again_witness:
  "settle_outcome False [demo_failure_entry] (demo_outcome ''c1'' Succeeded) = [demo_failure_entry]"
  by (rule retained_outcome_is_not_recorded_again [where e = demo_failure_entry])
    (simp_all add: demo_failure_entry_def demo_outcome_def record_outcome_def record_outcome_call_id_def
      record_failure_def failure_entry_new_def Let_def push_window_def keep_last_def TOOL_FAILURE_RECENT_LIMIT_def)

end
