(* ===== verification/Output_Reference.thy ===== *)
theory Output_Reference
  imports Usage_Ledger "HOL-Library.List_Lexorder"
begin

text \<open>
  The ledger of when tool outputs were last referenced
  (\<^verbatim>\<open>ra-core/src/state/tool_output_reference.rs\<close>). A \<^verbatim>\<open>BTreeSet\<close> is its sorted list of distinct
  elements, a \<^verbatim>\<open>BTreeMap\<close> a map; the record being read carries its entries in key order.
\<close>

definition TOOL_OUTPUT_REFERENCE_SCHEMA_VERSION :: u32 where "TOOL_OUTPUT_REFERENCE_SCHEMA_VERSION = 2"
definition TOOL_OUTPUT_REFERENCE_RECORD_SCHEMA_VERSION :: u32 where "TOOL_OUTPUT_REFERENCE_RECORD_SCHEMA_VERSION = 1"

record 'v reference_record =
  rf_schema_version :: u32
  rf_created_turn :: u64
  rf_last_referenced_turn :: u64
  rf_unknown :: "'v unknown"

definition produced_in :: "u64 \<Rightarrow> 'v reference_record" where
  "produced_in turn = \<lparr> rf_schema_version = TOOL_OUTPUT_REFERENCE_RECORD_SCHEMA_VERSION,
     rf_created_turn = turn, rf_last_referenced_turn = turn, rf_unknown = Map.empty \<rparr>"

record 'v reference_tracker =
  rt_schema_version :: u32
  rt_run_id :: ustring
  rt_last_completed_turn :: "u64 option"
  rt_records :: "ustring \<rightharpoonup> 'v reference_record"
  rt_unknown :: "'v unknown"

record 'v reference_tracker_wire =
  rw_schema_version :: u32
  rw_run_id :: ustring
  rw_last_completed_turn :: "u64 option"
  rw_records :: "(ustring \<times> 'v reference_record) list"
  rw_unknown :: "'v unknown"

datatype reference_error =
  ReferencedBeforeProduced ustring u64 u64
| CompletedBeforeReference u64 u64
| RegisteredInAnotherTurn ustring u64 u64
| TurnAlreadyPassed ustring u64 u64
| UnknownReference ustring
| ReferencePredatesOutput ustring u64 u64

definition reference_tracker_new :: "ustring \<Rightarrow> 'v reference_tracker" where
  "reference_tracker_new run_id = \<lparr> rt_schema_version = TOOL_OUTPUT_REFERENCE_SCHEMA_VERSION,
     rt_run_id = run_id, rt_last_completed_turn = None, rt_records = Map.empty, rt_unknown = Map.empty \<rparr>"

definition max_of :: "u64 list \<Rightarrow> u64 option" where
  "max_of xs = (if xs = [] then None else Some (Max (set xs)))"

definition deserialize_reference_tracker ::
  "'v reference_tracker_wire \<Rightarrow> reference_error + 'v reference_tracker" where
  "deserialize_reference_tracker wire =
     (case find (\<lambda>(_, record). rf_last_referenced_turn record < rf_created_turn record) (rw_records wire) of
        Some (call_id, record) \<Rightarrow>
          Inl (ReferencedBeforeProduced call_id (rf_last_referenced_turn record) (rf_created_turn record))
      | None \<Rightarrow>
          let record_high_water = max_of (map (\<lambda>(_, record). rf_last_referenced_turn record) (rw_records wire));
              last_completed_turn = (case rw_last_completed_turn wire of Some t \<Rightarrow> Some t | None \<Rightarrow> record_high_water);
              schema_version = (if rw_schema_version wire \<le> TOOL_OUTPUT_REFERENCE_SCHEMA_VERSION
                                then TOOL_OUTPUT_REFERENCE_SCHEMA_VERSION else rw_schema_version wire);
              tracker = \<lparr> rt_schema_version = schema_version, rt_run_id = rw_run_id wire,
                          rt_last_completed_turn = last_completed_turn,
                          rt_records = map_of (rw_records wire), rt_unknown = rw_unknown wire \<rparr>
          in case (last_completed_turn, record_high_water) of
               (Some completed, Some high) \<Rightarrow> if completed < high then Inl (CompletedBeforeReference completed high) else Inr tracker
             | _ \<Rightarrow> Inr tracker)"

definition btree_set :: "ustring list \<Rightarrow> ustring list" where
  "btree_set xs = sort (remdups xs)"

text \<open>The four checks of \<^verbatim>\<open>record_turn\<close>, in the order the code makes them.\<close>

fun check_new_outputs :: "'v reference_tracker \<Rightarrow> u64 \<Rightarrow> ustring list \<Rightarrow> reference_error + unit" where
  "check_new_outputs self turn [] = Inr ()"
| "check_new_outputs self turn (call_id # ids) =
     (case rt_records self call_id of
        Some record \<Rightarrow>
          if rf_created_turn record \<noteq> turn
          then Inl (RegisteredInAnotherTurn call_id (rf_created_turn record) turn)
          else check_new_outputs self turn ids
      | None \<Rightarrow> check_new_outputs self turn ids)"

definition check_turn_order :: "'v reference_tracker \<Rightarrow> u64 \<Rightarrow> ustring list \<Rightarrow> reference_error + unit" where
  "check_turn_order self turn new_outputs =
     (case rt_last_completed_turn self of
        Some highest \<Rightarrow>
          if turn < highest
          then (case find (\<lambda>call_id. rt_records self call_id = None) new_outputs of
                  Some call_id \<Rightarrow> Inl (TurnAlreadyPassed call_id turn highest)
                | None \<Rightarrow> Inr ())
          else Inr ()
      | None \<Rightarrow> Inr ())"

fun check_references ::
  "'v reference_tracker \<Rightarrow> u64 \<Rightarrow> ustring list \<Rightarrow> ustring list \<Rightarrow> reference_error + unit" where
  "check_references self turn new_outputs [] = Inr ()"
| "check_references self turn new_outputs (call_id # ids) =
     (let created_turn = (if call_id \<in> set new_outputs then Some turn
                          else map_option rf_created_turn (rt_records self call_id))
      in case created_turn of
           None \<Rightarrow> Inl (UnknownReference call_id)
         | Some created \<Rightarrow>
             if turn < created then Inl (ReferencePredatesOutput call_id turn created)
             else check_references self turn new_outputs ids)"

definition insert_output :: "u64 \<Rightarrow> (ustring \<rightharpoonup> 'v reference_record) \<Rightarrow> ustring \<Rightarrow> (ustring \<rightharpoonup> 'v reference_record)" where
  "insert_output turn records call_id =
     (case records call_id of Some _ \<Rightarrow> records | None \<Rightarrow> records(call_id \<mapsto> produced_in turn))"

definition touch_reference :: "u64 \<Rightarrow> (ustring \<rightharpoonup> 'v reference_record) \<Rightarrow> ustring \<Rightarrow> (ustring \<rightharpoonup> 'v reference_record)" where
  "touch_reference turn records call_id =
     (let record = (case records call_id of Some r \<Rightarrow> r | None \<Rightarrow> produced_in turn)
      in records(call_id \<mapsto> record\<lparr>rf_last_referenced_turn := max (rf_last_referenced_turn record) turn\<rparr>))"

definition record_references ::
  "'v reference_tracker \<Rightarrow> u64 \<Rightarrow> ustring list \<Rightarrow> ustring list \<Rightarrow> reference_error + 'v reference_tracker" where
  "record_references self turn new_outputs referenced_outputs =
     (let new_outputs = btree_set new_outputs; referenced_outputs = btree_set referenced_outputs
      in result_bind (check_new_outputs self turn new_outputs) (\<lambda>_.
         result_bind (check_turn_order self turn new_outputs) (\<lambda>_.
         result_bind (check_references self turn new_outputs referenced_outputs) (\<lambda>_.
         Inr (self
           \<lparr> rt_records := foldl (touch_reference turn)
               (foldl (insert_output turn) (rt_records self) new_outputs) referenced_outputs,
             rt_last_completed_turn := Some (case rt_last_completed_turn self of
               None \<Rightarrow> turn | Some completed \<Rightarrow> max completed turn) \<rparr>)))))"

definition last_referenced_turn :: "'v reference_tracker \<Rightarrow> ustring \<Rightarrow> u64 option" where
  "last_referenced_turn self call_id = map_option rf_last_referenced_turn (rt_records self call_id)"

definition checked_sub :: "u64 \<Rightarrow> u64 \<Rightarrow> u64 option" where
  "checked_sub a b = (if b \<le> a then Some (a - b) else None)"

definition is_unreferenced_for :: "'v reference_tracker \<Rightarrow> ustring \<Rightarrow> u64 \<Rightarrow> u64 \<Rightarrow> bool" where
  "is_unreferenced_for self call_id current_turn max_unreferenced_turns =
     (case Option.bind (last_referenced_turn self call_id)
            (\<lambda>seen. Option.bind (checked_sub current_turn seen) (\<lambda>d. checked_sub d 1)) of
        None \<Rightarrow> False
      | Some completed \<Rightarrow> max_unreferenced_turns \<le> completed)"

section \<open>The ledger invariant\<close>

text \<open>An output is referenced no earlier than it was made and no later than the last completed turn.\<close>

definition references_ok :: "'v reference_tracker \<Rightarrow> bool" where
  "references_ok t \<longleftrightarrow> (\<forall>call_id r. rt_records t call_id = Some r \<longrightarrow>
     rf_created_turn r \<le> rf_last_referenced_turn r
     \<and> (\<exists>hw. rt_last_completed_turn t = Some hw \<and> rf_last_referenced_turn r \<le> hw))"

lemma set_btree_set [simp]: "set (btree_set xs) = set xs"
  by (simp add: btree_set_def)

lemma distinct_btree_set: "distinct (btree_set xs)"
  by (simp add: btree_set_def)

lemma foldl_insert_output:
  "foldl (insert_output turn) records ids call_id =
     (case records call_id of Some r \<Rightarrow> Some r
      | None \<Rightarrow> if call_id \<in> set ids then Some (produced_in turn) else None)"
proof (induction ids arbitrary: records)
  case (Cons i ids)
  then show ?case by (auto simp: insert_output_def split: option.splits)
qed (simp split: option.split)

lemma foldl_touch_reference:
  "distinct ids \<Longrightarrow> foldl (touch_reference turn) records ids call_id =
     (if call_id \<in> set ids then
        (let r = (case records call_id of Some r \<Rightarrow> r | None \<Rightarrow> produced_in turn)
         in Some (r\<lparr>rf_last_referenced_turn := max (rf_last_referenced_turn r) turn\<rparr>))
      else records call_id)"
proof (induction ids arbitrary: records)
  case (Cons i ids)
  then show ?case by (auto simp: touch_reference_def Let_def)
qed simp

text \<open>What one output's record becomes in a recorded turn.\<close>

definition record_after :: "u64 \<Rightarrow> bool \<Rightarrow> bool \<Rightarrow> 'v reference_record option \<Rightarrow> 'v reference_record option" where
  "record_after turn is_new is_referenced old =
     (let made = (case old of Some r \<Rightarrow> Some r | None \<Rightarrow> if is_new \<or> is_referenced then Some (produced_in turn) else None)
      in if is_referenced
         then map_option (\<lambda>r. r\<lparr>rf_last_referenced_turn := max (rf_last_referenced_turn r) turn\<rparr>) made
         else made)"

lemma record_references_Inr:
  "record_references self turn new refs = Inr t \<longleftrightarrow>
     check_new_outputs self turn (btree_set new) = Inr ()
     \<and> check_turn_order self turn (btree_set new) = Inr ()
     \<and> check_references self turn (btree_set new) (btree_set refs) = Inr ()
     \<and> t = self\<lparr> rt_records := (\<lambda>call_id. record_after turn (call_id \<in> set new) (call_id \<in> set refs) (rt_records self call_id)),
               rt_last_completed_turn := Some (case rt_last_completed_turn self of
                 None \<Rightarrow> turn | Some completed \<Rightarrow> max completed turn) \<rparr>"
proof -
  have "foldl (touch_reference turn) (foldl (insert_output turn) (rt_records self) (btree_set new)) (btree_set refs)
      = (\<lambda>call_id. record_after turn (call_id \<in> set new) (call_id \<in> set refs) (rt_records self call_id))"
    by (rule ext)
      (simp add: foldl_touch_reference distinct_btree_set foldl_insert_output record_after_def Let_def split: option.split)
  then show ?thesis
    by (auto simp: record_references_def Let_def result_bind_Inr_iff)
qed

lemma check_references_Inr:
  "check_references self turn new ids = Inr () \<longleftrightarrow>
     (\<forall>call_id\<in>set ids. call_id \<in> set new
        \<or> (\<exists>r. rt_records self call_id = Some r \<and> rf_created_turn r \<le> turn))"
  by (induction ids) (auto simp: Let_def not_less split: option.splits)

lemma check_new_outputs_Inr:
  "check_new_outputs self turn ids = Inr () \<longleftrightarrow>
     (\<forall>call_id\<in>set ids. \<forall>r. rt_records self call_id = Some r \<longrightarrow> rf_created_turn r = turn)"
  by (induction ids) (auto split: option.splits)

lemma check_turn_order_Inr:
  "check_turn_order self turn new = Inr () \<longleftrightarrow>
     (\<forall>highest. rt_last_completed_turn self = Some highest \<and> turn < highest
        \<longrightarrow> (\<forall>call_id\<in>set new. rt_records self call_id \<noteq> None))"
proof (cases "find (\<lambda>call_id. rt_records self call_id = None) new")
  case None
  moreover from this have "\<forall>c\<in>set new. rt_records self c \<noteq> None" by (simp add: find_None_iff)
  ultimately show ?thesis by (simp add: check_turn_order_def split: option.splits)
next
  case (Some c)
  moreover from this have "c \<in> set new \<and> rt_records self c = None" by (auto simp: find_Some_iff)
  ultimately show ?thesis by (auto simp: check_turn_order_def split: option.splits)
qed

lemma deserialize_references_ok:
  assumes "deserialize_reference_tracker wire = Inr t"
  shows "references_ok t"
proof -
  let ?recs = "rw_records wire"
  have "find (\<lambda>(_, record). rf_last_referenced_turn record < rf_created_turn record) ?recs = None"
    using assms by (auto simp: deserialize_reference_tracker_def split: option.splits)
  then have created: "rf_created_turn r \<le> rf_last_referenced_turn r" if "(c, r) \<in> set ?recs" for c r
    using that by (auto simp: find_None_iff not_less)
  have high: "\<exists>h. max_of (map (\<lambda>(_, r). rf_last_referenced_turn r) ?recs) = Some h \<and> rf_last_referenced_turn r \<le> h"
    if "(c, r) \<in> set ?recs" for c r
  proof -
    have "rf_last_referenced_turn r \<in> (\<lambda>(_, r). rf_last_referenced_turn r) ` set ?recs" using that by force
    then show ?thesis using that by (auto simp: max_of_def)
  qed
  show ?thesis
    unfolding references_ok_def
  proof (intro allI impI)
    fix c r assume "rt_records t c = Some r"
    then have mem: "(c, r) \<in> set ?recs"
      using assms by (auto simp: deserialize_reference_tracker_def Let_def dest: map_of_SomeD
          split: option.splits if_splits)
    from high [OF mem] obtain h where h: "max_of (map (\<lambda>(_, r). rf_last_referenced_turn r) ?recs) = Some h"
      "rf_last_referenced_turn r \<le> h" by blast
    have "\<exists>hw. rt_last_completed_turn t = Some hw \<and> h \<le> hw"
      using assms h(1) by (auto simp: deserialize_reference_tracker_def Let_def not_less split: option.splits if_splits)
    then show "rf_created_turn r \<le> rf_last_referenced_turn r
        \<and> (\<exists>hw. rt_last_completed_turn t = Some hw \<and> rf_last_referenced_turn r \<le> hw)"
      using created [OF mem] h(2) by force
  qed
qed

lemma reference_tracker_new_ok: "references_ok (reference_tracker_new run_id)"
  by (simp add: references_ok_def reference_tracker_new_def)

lemma record_references_ok:
  assumes "references_ok self" "record_references self turn new refs = Inr t"
  shows "references_ok t"
  unfolding references_ok_def
proof (intro allI impI)
  fix c r assume r: "rt_records t c = Some r"
  from assms(2) have t: "rt_records t c = record_after turn (c \<in> set new) (c \<in> set refs) (rt_records self c)"
    "rt_last_completed_turn t = Some (case rt_last_completed_turn self of None \<Rightarrow> turn | Some h \<Rightarrow> max h turn)"
    by (simp_all add: record_references_Inr)
  show "rf_created_turn r \<le> rf_last_referenced_turn r
      \<and> (\<exists>hw. rt_last_completed_turn t = Some hw \<and> rf_last_referenced_turn r \<le> hw)"
    using assms(1) r t
    by (cases "rt_records self c")
      (fastforce simp: references_ok_def record_after_def produced_in_def Let_def le_max_iff_disj
        split: if_splits option.splits)+
qed

section \<open>Properties\<close>

text \<open>
  C28. Whatever is read back or recorded, an output's last reference lies between the turn that made
  it and the last completed turn of the ledger: a fresh ledger, an accepted saved ledger and the
  ledger after any successful turn all satisfy this.
\<close>

theorem reference_ledger_invariant:
  "references_ok (reference_tracker_new run_id)
   \<and> (deserialize_reference_tracker wire = Inr t \<longrightarrow> references_ok t)
   \<and> (references_ok self \<and> record_references self turn new_outputs referenced_outputs = Inr t' \<longrightarrow> references_ok t')"
  using deserialize_references_ok record_references_ok reference_tracker_new_ok by blast

definition demo_ledger :: "nat reference_tracker" where
  "demo_ledger = (reference_tracker_new (lit ''run''))
     \<lparr> rt_records := [lit ''c1'' \<mapsto> produced_in 3], rt_last_completed_turn := Some 3 \<rparr>"

lemma demo_ledger_ok: "references_ok demo_ledger"
  by (simp add: references_ok_def demo_ledger_def produced_in_def)

lemma demo_ledger_turn:
  "\<exists>t. record_references demo_ledger 5 [lit ''c2''] [lit ''c1''] = Inr t"
  by (simp add: record_references_Inr check_new_outputs_Inr check_turn_order_Inr check_references_Inr
      demo_ledger_def produced_in_def reference_tracker_new_def)

theorem reference_ledger_invariant_witness:
  "\<exists>t. record_references demo_ledger 5 [lit ''c2''] [lit ''c1''] = Inr t \<and> references_ok t"
  using demo_ledger_turn demo_ledger_ok reference_ledger_invariant by blast

text \<open>
  C30. \<^verbatim>\<open>record_turn\<close> succeeds exactly when no new output is registered under another turn, none is
  added to a turn already passed, and every reference names an output made in this or an earlier
  turn. On success no record is ever dropped, timestamps never move backwards, and a referenced
  output's last reference becomes the later of its old one and this turn.
\<close>

theorem record_references_spec:
  "((\<exists>t. record_references self turn new_outputs refs = Inr t) \<longleftrightarrow>
      (\<forall>c\<in>set new_outputs. \<forall>r. rt_records self c = Some r \<longrightarrow> rf_created_turn r = turn)
      \<and> (\<forall>h. rt_last_completed_turn self = Some h \<and> turn < h \<longrightarrow> (\<forall>c\<in>set new_outputs. rt_records self c \<noteq> None))
      \<and> (\<forall>c\<in>set refs. c \<in> set new_outputs \<or> (\<exists>r. rt_records self c = Some r \<and> rf_created_turn r \<le> turn)))
   \<and> (record_references self turn new_outputs refs = Inr t \<longrightarrow>
        dom (rt_records t) = dom (rt_records self) \<union> set new_outputs \<union> set refs
        \<and> (\<forall>c r. rt_records self c = Some r \<longrightarrow> last_referenced_turn t c =
              Some (if c \<in> set refs then max (rf_last_referenced_turn r) turn else rf_last_referenced_turn r)))"
proof (intro conjI impI)
  show "(\<exists>t. record_references self turn new_outputs refs = Inr t) \<longleftrightarrow>
      (\<forall>c\<in>set new_outputs. \<forall>r. rt_records self c = Some r \<longrightarrow> rf_created_turn r = turn)
      \<and> (\<forall>h. rt_last_completed_turn self = Some h \<and> turn < h \<longrightarrow> (\<forall>c\<in>set new_outputs. rt_records self c \<noteq> None))
      \<and> (\<forall>c\<in>set refs. c \<in> set new_outputs \<or> (\<exists>r. rt_records self c = Some r \<and> rf_created_turn r \<le> turn))"
    by (simp add: record_references_Inr check_new_outputs_Inr check_turn_order_Inr check_references_Inr)
  assume "record_references self turn new_outputs refs = Inr t"
  then have t: "rt_records t = (\<lambda>c. record_after turn (c \<in> set new_outputs) (c \<in> set refs) (rt_records self c))"
    by (simp add: record_references_Inr)
  show "dom (rt_records t) = dom (rt_records self) \<union> set new_outputs \<union> set refs"
    by (auto simp: t record_after_def Let_def split: if_splits option.splits)
  show "\<forall>c r. rt_records self c = Some r \<longrightarrow> last_referenced_turn t c =
      Some (if c \<in> set refs then max (rf_last_referenced_turn r) turn else rf_last_referenced_turn r)"
    by (auto simp: t last_referenced_turn_def record_after_def)
qed

theorem record_references_spec_witness:
  "\<exists>t. record_references demo_ledger 5 [lit ''c2''] [lit ''c1''] = Inr t
     \<and> last_referenced_turn t (lit ''c1'') = Some 5"
proof -
  from demo_ledger_turn obtain t where t: "record_references demo_ledger 5 [lit ''c2''] [lit ''c1''] = Inr t" ..
  have "last_referenced_turn t (lit ''c1'') = Some (max 3 5)"
    using record_references_spec [of demo_ledger 5 "[lit ''c2'']" "[lit ''c1'']" t] t
    by (auto simp: demo_ledger_def produced_in_def)
  then show ?thesis using t by (auto simp: max_def)
qed

text \<open>
  An output counts as unreferenced for \<open>n\<close> turns exactly when it is known and at least \<open>n\<close> whole
  turns lie strictly between its last reference and the current turn, with no wrap-around for a
  current turn before the reference; and it stays so as turns go by.
\<close>

theorem is_unreferenced_for_exact:
  "(is_unreferenced_for self call_id current n \<longleftrightarrow>
      (\<exists>seen. last_referenced_turn self call_id = Some seen \<and> unat seen + unat n < unat current))
   \<and> (is_unreferenced_for self call_id current n \<and> current \<le> later \<longrightarrow> is_unreferenced_for self call_id later n)"
proof -
  have exact: "is_unreferenced_for self call_id cur n \<longleftrightarrow>
      (\<exists>seen. last_referenced_turn self call_id = Some seen \<and> unat seen + unat n < unat cur)" for cur
    by (cases "last_referenced_turn self call_id")
      (auto simp: is_unreferenced_for_def checked_sub_def word_le_nat_alt unat_sub split: if_splits)
  then show ?thesis by (auto simp: word_le_nat_alt)
qed

theorem is_unreferenced_for_exact_witness:
  "is_unreferenced_for demo_ledger (lit ''c1'') 5 1 \<and> is_unreferenced_for demo_ledger (lit ''c1'') 9 1"
proof -
  have "is_unreferenced_for demo_ledger (lit ''c1'') 5 1"
    using is_unreferenced_for_exact [of demo_ledger "lit ''c1''" 5 1]
    by (simp add: demo_ledger_def last_referenced_turn_def produced_in_def)
  then show ?thesis
    using is_unreferenced_for_exact [of demo_ledger "lit ''c1''" 5 1 9] by simp
qed

end
