(* ===== verification/Permissions.thy ===== *)
theory Permissions
  imports Tool_Identity
begin

text \<open>
  Permission rules (\<^verbatim>\<open>ra-core/src/permission.rs\<close>) and their evaluation at tool dispatch
  (\<^verbatim>\<open>ra-runtime/src/permission.rs\<close>). A \<^verbatim>\<open>BTreeSet\<close> of action classes is only asked for membership and
  is a list. What the engine relies on from an ordered rule list, that the last matching rule
  decides, is the locale \<open>last_match\<close>.
\<close>

section \<open>Rules\<close>

datatype permission_decision = Allow | Deny | Ask

type_synonym action_class = ustring

record 'v permission_rule =
  pr_decision :: permission_decision
  pr_tool_name :: "ustring option"
  pr_namespace :: "ustring option"
  pr_lookup_key :: "'v tool_lookup_key option"
  pr_agent_id :: "ustring option"
  pr_rejection_message :: "ustring option"

definition permission_rule_new :: "permission_decision \<Rightarrow> 'v permission_rule" where
  "permission_rule_new decision = \<lparr> pr_decision = decision, pr_tool_name = None, pr_namespace = None,
     pr_lookup_key = None, pr_agent_id = None, pr_rejection_message = None \<rparr>"

definition with_tool_name :: "'v permission_rule \<Rightarrow> ustring \<Rightarrow> 'v permission_rule" where
  "with_tool_name self tool_name = self\<lparr>pr_tool_name := Some tool_name\<rparr>"

definition with_namespace :: "'v permission_rule \<Rightarrow> ustring \<Rightarrow> 'v permission_rule" where
  "with_namespace self namespace = self\<lparr>pr_namespace := Some namespace\<rparr>"

definition with_lookup_key :: "'v permission_rule \<Rightarrow> 'v tool_lookup_key \<Rightarrow> 'v permission_rule" where
  "with_lookup_key self key = self\<lparr>pr_lookup_key := Some key\<rparr>"

definition with_agent_id :: "'v permission_rule \<Rightarrow> ustring \<Rightarrow> 'v permission_rule" where
  "with_agent_id self agent_id = self\<lparr>pr_agent_id := Some agent_id\<rparr>"

definition with_rejection_message :: "'v permission_rule \<Rightarrow> ustring option \<Rightarrow> 'v permission_rule" where
  "with_rejection_message self message = self\<lparr>pr_rejection_message := message\<rparr>"

definition is_none_or :: "'a option \<Rightarrow> ('a \<Rightarrow> bool) \<Rightarrow> bool" where
  "is_none_or opt p = (case opt of None \<Rightarrow> True | Some a \<Rightarrow> p a)"

definition matches_tool_name :: "'v permission_rule \<Rightarrow> ustring \<Rightarrow> ustring option \<Rightarrow> bool" where
  "matches_tool_name self tool_name namespace \<longleftrightarrow>
     pr_lookup_key self = None
     \<and> is_none_or (pr_tool_name self) (\<lambda>name. name = tool_name)
     \<and> is_none_or (pr_namespace self) (\<lambda>name. Some name = namespace)"

definition matches_tool_origin :: "'v permission_rule \<Rightarrow> 'v tool_origin \<Rightarrow> bool" where
  "matches_tool_origin self origin =
     (case pr_lookup_key self of
        Some pinned \<Rightarrow> lookup_eq pinned (to_lookup_key origin)
      | None \<Rightarrow> matches_tool_name self (lk_name (to_lookup_key origin)) (to_namespace origin))"

definition matches_origin :: "'v permission_rule \<Rightarrow> 'v tool_origin \<Rightarrow> bool" where
  "matches_origin self origin \<longleftrightarrow> pr_agent_id self = None \<and> matches_tool_origin self origin"

definition matches_origin_for_agent :: "'v permission_rule \<Rightarrow> 'v tool_origin \<Rightarrow> ustring \<Rightarrow> bool" where
  "matches_origin_for_agent self origin agent_id \<longleftrightarrow>
     is_none_or (pr_agent_id self) (\<lambda>owner. owner = agent_id) \<and> matches_tool_origin self origin"

definition rule_matches :: "'v permission_rule \<Rightarrow> ustring \<Rightarrow> ustring option \<Rightarrow> bool" where
  "rule_matches self tool_name namespace \<longleftrightarrow> pr_agent_id self = None \<and> matches_tool_name self tool_name namespace"

section \<open>The class policy\<close>

record action_class_policy =
  cp_allow_only :: "action_class list option"
  cp_auto_allow :: "action_class list"
  cp_auto_allow_all :: bool
  cp_prompts :: bool

definition policy_default :: action_class_policy where
  "policy_default = \<lparr> cp_allow_only = None, cp_auto_allow = [], cp_auto_allow_all = False, cp_prompts = True \<rparr>"

definition with_allow_only :: "action_class_policy \<Rightarrow> action_class list \<Rightarrow> action_class_policy" where
  "with_allow_only self classes = self\<lparr>cp_allow_only := Some classes\<rparr>"

definition with_auto_allow :: "action_class_policy \<Rightarrow> action_class list \<Rightarrow> action_class_policy" where
  "with_auto_allow self classes = self\<lparr>cp_auto_allow := classes\<rparr>"

definition with_auto_allow_all :: "action_class_policy \<Rightarrow> bool \<Rightarrow> action_class_policy" where
  "with_auto_allow_all self enabled = self\<lparr>cp_auto_allow_all := enabled\<rparr>"

definition policy_with_prompts :: "action_class_policy \<Rightarrow> bool \<Rightarrow> action_class_policy" where
  "policy_with_prompts self enabled = self\<lparr>cp_prompts := enabled\<rparr>"

definition permits_classes :: "action_class_policy \<Rightarrow> action_class list \<Rightarrow> bool" where
  "permits_classes self classes =
     is_none_or (cp_allow_only self) (\<lambda>allowed. classes \<noteq> [] \<and> list_all (\<lambda>c. c \<in> set allowed) classes)"

definition automatically_allows :: "action_class_policy \<Rightarrow> action_class list \<Rightarrow> bool" where
  "automatically_allows self classes \<longleftrightarrow>
     cp_auto_allow_all self \<or> classes \<noteq> [] \<and> list_all (\<lambda>c. c \<in> set (cp_auto_allow self)) classes"

definition policy_normalize :: "action_class_policy \<Rightarrow> permission_decision \<Rightarrow> permission_decision" where
  "policy_normalize self decision = (if \<not> cp_prompts self \<and> decision = Ask then Deny else decision)"

section \<open>The engine\<close>

record 'v permission_engine =
  pe_policy :: "action_class_policy option"
  pe_rules :: "'v permission_rule list"
  pe_answered_from :: "nat option"

definition DEFAULT_APPROVAL_REJECTION_MESSAGE :: ustring where
  "DEFAULT_APPROVAL_REJECTION_MESSAGE = lit ''Tool execution was not approved.''"

definition engine_new :: "'v permission_engine" where
  "engine_new = \<lparr> pe_policy = None, pe_rules = [], pe_answered_from = None \<rparr>"

definition with_policy :: "'v permission_engine \<Rightarrow> action_class_policy \<Rightarrow> 'v permission_engine" where
  "with_policy self policy = self\<lparr>pe_policy := Some policy\<rparr>"

definition with_rules :: "'v permission_engine \<Rightarrow> 'v permission_rule list \<Rightarrow> 'v permission_engine" where
  "with_rules self rules = self\<lparr>pe_rules := rules, pe_answered_from := None\<rparr>"

definition with_answered_rules :: "'v permission_engine \<Rightarrow> 'v permission_rule list \<Rightarrow> 'v permission_engine" where
  "with_answered_rules self rules =
     (let start = length (pe_rules self)
      in self\<lparr> pe_rules := pe_rules self @ rules,
              pe_answered_from := Some (case pe_answered_from self of Some a \<Rightarrow> a | None \<Rightarrow> start) \<rparr>)"

definition with_prompts :: "'v permission_engine \<Rightarrow> bool \<Rightarrow> 'v permission_engine" where
  "with_prompts self enabled =
     self\<lparr>pe_policy := Some (policy_with_prompts
        (case pe_policy self of Some p \<Rightarrow> p | None \<Rightarrow> policy_default) enabled)\<rparr>"

definition matching_rule :: "'v permission_engine \<Rightarrow> 'v tool_origin \<Rightarrow> ustring \<Rightarrow> permission_decision option" where
  "matching_rule self origin agent_id =
     map_option pr_decision (find (\<lambda>rule. matches_origin_for_agent rule origin agent_id) (rev (pe_rules self)))"

definition engine_normalize :: "'v permission_engine \<Rightarrow> permission_decision \<Rightarrow> permission_decision" where
  "engine_normalize self decision =
     (case pe_policy self of None \<Rightarrow> decision | Some policy \<Rightarrow> policy_normalize policy decision)"

definition classes_refused :: "'v permission_engine \<Rightarrow> action_class list \<Rightarrow> bool" where
  "classes_refused self classes =
     (case pe_policy self of None \<Rightarrow> False | Some policy \<Rightarrow> \<not> permits_classes policy classes)"

definition fixed_decision ::
  "'v permission_engine \<Rightarrow> action_class list \<Rightarrow> 'v tool_origin \<Rightarrow> ustring \<Rightarrow> permission_decision option" where
  "fixed_decision self classes origin agent_id =
     (if classes_refused self classes then Some Deny
      else case matching_rule self origin agent_id of
        Some rule \<Rightarrow> Some (engine_normalize self rule)
      | None \<Rightarrow>
          if (case pe_policy self of None \<Rightarrow> False | Some policy \<Rightarrow> automatically_allows policy classes)
          then Some Allow else None)"

definition evaluate ::
  "'v permission_engine \<Rightarrow> action_class list \<Rightarrow> 'v tool_origin \<Rightarrow> ustring \<Rightarrow> permission_decision \<Rightarrow> permission_decision" where
  "evaluate self classes origin agent_id fallback =
     (case fixed_decision self classes origin agent_id of
        Some decision \<Rightarrow> decision | None \<Rightarrow> engine_normalize self fallback)"

definition rejection_message ::
  "'v permission_engine \<Rightarrow> action_class list \<Rightarrow> 'v tool_origin \<Rightarrow> ustring \<Rightarrow> ustring option" where
  "rejection_message self classes origin agent_id =
     (if classes_refused self classes then None
      else case find (\<lambda>(_, rule). matches_origin_for_agent rule origin agent_id)
                  (rev (enumerate 0 (pe_rules self))) of
             None \<Rightarrow> None
           | Some (index, rule) \<Rightarrow>
               if pr_decision rule \<noteq> Deny then None
               else (case pr_rejection_message rule of
                       Some message \<Rightarrow> Some message
                     | None \<Rightarrow>
                         if (case pe_answered_from self of None \<Rightarrow> False | Some start \<Rightarrow> start \<le> index)
                         then Some DEFAULT_APPROVAL_REJECTION_MESSAGE else None))"

section \<open>Ordered rules\<close>

locale last_match =
  fixes fits :: "'r \<Rightarrow> 'q \<Rightarrow> bool" and pick :: "'r list \<Rightarrow> 'q \<Rightarrow> 'r option"
  assumes pick_Nil: "pick [] q = None"
    and pick_snoc: "pick (rs @ [r]) q = (if fits r q then Some r else pick rs q)"
begin

lemma pick_append: "pick (rs @ rs') q = (case pick rs' q of Some r \<Rightarrow> Some r | None \<Rightarrow> pick rs q)"
proof (induction rs' rule: rev_induct)
  case (snoc r rs')
  then show ?case using pick_snoc [of "rs @ rs'" r q] by (simp add: pick_snoc)
qed (simp add: pick_Nil)

lemma pick_None_iff: "pick rs q = None \<longleftrightarrow> (\<forall>r\<in>set rs. \<not> fits r q)"
  by (induction rs rule: rev_induct) (auto simp: pick_Nil pick_snoc)

lemma pick_irrelevant: "\<forall>r\<in>set rs'. \<not> fits r q \<Longrightarrow> pick (rs @ rs') q = pick rs q"
  by (simp add: pick_append pick_None_iff [THEN iffD2])

lemma pick_Some_iff: "pick rs q = Some r \<longleftrightarrow> (\<exists>xs ys. rs = xs @ r # ys \<and> fits r q \<and> (\<forall>y\<in>set ys. \<not> fits y q))"
proof
  assume "pick rs q = Some r"
  then show "\<exists>xs ys. rs = xs @ r # ys \<and> fits r q \<and> (\<forall>y\<in>set ys. \<not> fits y q)"
  proof (induction rs rule: rev_induct)
    case (snoc x rs)
    show ?case
    proof (cases "fits x q")
      case True
      then show ?thesis using snoc.prems by (force simp: pick_snoc)
    next
      case False
      then obtain xs ys where "rs = xs @ r # ys" "fits r q" "\<forall>y\<in>set ys. \<not> fits y q"
        using snoc by (auto simp: pick_snoc)
      then show ?thesis using False by (intro exI [of _ xs] exI [of _ "ys @ [x]"]) auto
    qed
  qed (simp add: pick_Nil)
next
  assume "\<exists>xs ys. rs = xs @ r # ys \<and> fits r q \<and> (\<forall>y\<in>set ys. \<not> fits y q)"
  then obtain xs ys where "rs = (xs @ [r]) @ ys" "fits r q" "\<forall>y\<in>set ys. \<not> fits y q" by auto
  then show "pick rs q = Some r" by (simp only: pick_irrelevant pick_snoc if_True)
qed

end

definition deciding_rule :: "'v permission_rule list \<Rightarrow> 'v tool_origin \<times> ustring \<Rightarrow> 'v permission_rule option" where
  "deciding_rule rules q = find (\<lambda>rule. matches_origin_for_agent rule (fst q) (snd q)) (rev rules)"

interpretation pr: last_match "\<lambda>rule q. matches_origin_for_agent rule (fst q) (snd q)" deciding_rule
  by unfold_locales (simp_all add: deciding_rule_def)

lemma matching_rule_deciding:
  "matching_rule self origin agent = map_option pr_decision (deciding_rule (pe_rules self) (origin, agent))"
  by (simp add: matching_rule_def deciding_rule_def)

lemma find_rev_enumerate:
  "map_option snd (find (\<lambda>(_, r). p r) (rev (enumerate n rs))) = find p (rev rs)"
proof (induction rs rule: rev_induct)
  case (snoc r rs)
  then show ?case by (simp add: enumerate_append_eq)
qed simp

section \<open>Properties\<close>

text \<open>
  C7. The class boundary is hard: when the policy restricts the classes and a call declares none or
  one outside the restriction, the decision is Deny whatever the rules, the automatic approvals, the
  agent and the tool's own declaration say, and no rejection text of a rule is used.
\<close>

theorem class_boundary_is_hard:
  assumes "pe_policy engine = Some policy" "cp_allow_only policy = Some allowed"
    and "classes = [] \<or> \<not> set classes \<subseteq> set allowed"
  shows "evaluate engine classes origin agent fallback = Deny
       \<and> evaluate (with_answered_rules engine rules) classes origin agent fallback = Deny
       \<and> rejection_message engine classes origin agent = None"
proof -
  have "\<not> permits_classes policy classes"
    using assms(2,3) by (auto simp: permits_classes_def is_none_or_def list_all_iff)
  then have "classes_refused engine classes" "classes_refused (with_answered_rules engine rules) classes"
    using assms(1) by (simp_all add: classes_refused_def with_answered_rules_def Let_def)
  then show ?thesis
    by (simp add: evaluate_def fixed_decision_def rejection_message_def)
qed

theorem class_boundary_is_hard_witness:
  "evaluate (with_rules (with_policy (engine_new :: nat permission_engine) (with_allow_only policy_default [lit ''read'']))
       [permission_rule_new Allow]) [lit ''write''] origin_tool_search (lit ''a'') Allow = Deny"
  by (rule class_boundary_is_hard [where policy = "with_allow_only policy_default [lit ''read'']"
        and allowed = "[lit ''read'']", THEN conjunct1])
    (simp_all add: with_rules_def with_policy_def with_allow_only_def)

lemma deciding_rule_answered:
  "deciding_rule (pe_rules (with_answered_rules engine rules)) q =
     (case deciding_rule rules q of Some r \<Rightarrow> Some r | None \<Rightarrow> deciding_rule (pe_rules engine) q)"
  by (simp add: with_answered_rules_def Let_def pr.pick_append)

lemma evaluate_rules_cong:
  assumes "pe_policy e = pe_policy e'" "deciding_rule (pe_rules e) (origin, agent) = deciding_rule (pe_rules e') (origin, agent)"
  shows "evaluate e classes origin agent fallback = evaluate e' classes origin agent fallback"
proof -
  have n: "engine_normalize e = engine_normalize e'" using assms(1) by (simp add: engine_normalize_def fun_eq_iff)
  show ?thesis
    unfolding evaluate_def fixed_decision_def classes_refused_def matching_rule_deciding assms n ..
qed

text \<open>
  C23. A rule minted from an answered approval (pinned to one lookup key, owned by one agent) decides
  only that agent's calls of that exact executable: appending it leaves the decision on every other
  agent and every other tool identity, a same-named tool in another namespace included, as it was.
\<close>

theorem answered_rule_does_not_widen:
  assumes "pr_lookup_key rule = Some key" "pr_agent_id rule = Some owner"
    and "agent \<noteq> owner \<or> \<not> lookup_eq key (to_lookup_key origin)"
  shows "evaluate (with_answered_rules engine [rule]) classes origin agent fallback
       = evaluate engine classes origin agent fallback"
proof (rule evaluate_rules_cong)
  have "\<not> matches_origin_for_agent rule origin agent"
    using assms by (auto simp: matches_origin_for_agent_def matches_tool_origin_def is_none_or_def)
  then show "deciding_rule (pe_rules (with_answered_rules engine [rule])) (origin, agent)
      = deciding_rule (pe_rules engine) (origin, agent)"
    using pr.pick_irrelevant [of "[rule]" "(origin, agent)" "pe_rules engine"]
    by (simp add: with_answered_rules_def Let_def)
qed (simp add: with_answered_rules_def Let_def)

theorem answered_rule_does_not_widen_witness:
  "evaluate (with_answered_rules (engine_new :: nat permission_engine)
      [with_agent_id (with_lookup_key (permission_rule_new Allow) (lookup_key Bare (lit ''read'') None)) (lit ''a'')])
      [] (origin_tool_search\<lparr>to_lookup_key := lookup_key Namespaced (lit ''read'') (Some (lit ''mcp''))\<rparr>) (lit ''a'') Ask
   = evaluate (engine_new :: nat permission_engine) []
      (origin_tool_search\<lparr>to_lookup_key := lookup_key Namespaced (lit ''read'') (Some (lit ''mcp''))\<rparr>) (lit ''a'') Ask"
  by (rule answered_rule_does_not_widen [where key = "lookup_key Bare (lit ''read'') None" and owner = "lit ''a''"])
    (simp_all add: with_agent_id_def with_lookup_key_def lookup_eq_def lookup_identity_def lookup_key_def)

text \<open>
  C28. Later rules override earlier ones: within the class boundary, the decision is that of the last
  matching rule of the whole list, turned from Ask to Deny only when prompts are disabled; and with
  prompts disabled no call is ever suspended for approval.
\<close>

theorem last_matching_rule_decides:
  "(\<not> classes_refused engine classes \<and> pe_rules engine = before @ rule # after
      \<and> matches_origin_for_agent rule origin agent
      \<and> (\<forall>r\<in>set after. \<not> matches_origin_for_agent r origin agent)
      \<longrightarrow> evaluate engine classes origin agent fallback = engine_normalize engine (pr_decision rule))
   \<and> evaluate (with_prompts engine False) classes origin agent fallback \<noteq> Ask"
proof (intro conjI impI)
  assume asm: "\<not> classes_refused engine classes \<and> pe_rules engine = before @ rule # after
      \<and> matches_origin_for_agent rule origin agent \<and> (\<forall>r\<in>set after. \<not> matches_origin_for_agent r origin agent)"
  then have "deciding_rule (pe_rules engine) (origin, agent) = Some rule"
    by (auto simp: pr.pick_Some_iff)
  with asm show "evaluate engine classes origin agent fallback = engine_normalize engine (pr_decision rule)"
    by (simp add: evaluate_def fixed_decision_def matching_rule_deciding)
next
  have "engine_normalize (with_prompts engine False) d \<noteq> Ask" for d
    by (simp add: with_prompts_def engine_normalize_def policy_normalize_def policy_with_prompts_def)
  then show "evaluate (with_prompts engine False) classes origin agent fallback \<noteq> Ask"
    by (auto simp: evaluate_def fixed_decision_def split: option.splits if_splits)
qed

theorem last_matching_rule_decides_witness:
  "evaluate (with_rules (engine_new :: nat permission_engine) [permission_rule_new Deny, permission_rule_new Allow])
     [] origin_tool_search (lit ''a'') Ask = Allow"
  using last_matching_rule_decides [of "with_rules (engine_new :: nat permission_engine) [permission_rule_new Deny, permission_rule_new Allow]"
      "[]" "[permission_rule_new Deny]" "permission_rule_new Allow" "[]" origin_tool_search "lit ''a''" Ask]
  by (simp add: with_rules_def engine_new_def classes_refused_def permission_rule_new_def engine_normalize_def
      matches_origin_for_agent_def matches_tool_origin_def matches_tool_name_def is_none_or_def)

text \<open>The index of the first answered rule never exceeds the number of rules.\<close>

definition engine_wf :: "'v permission_engine \<Rightarrow> bool" where
  "engine_wf e \<longleftrightarrow> (case pe_answered_from e of None \<Rightarrow> True | Some a \<Rightarrow> a \<le> length (pe_rules e))"

lemma engine_wf_ops [simp]:
  "engine_wf engine_new" "engine_wf (with_rules e rs)"
  "engine_wf e \<Longrightarrow> engine_wf (with_answered_rules e rs)"
  "engine_wf e \<Longrightarrow> engine_wf (with_policy e p)" "engine_wf e \<Longrightarrow> engine_wf (with_prompts e b)"
  by (auto simp: engine_wf_def engine_new_def with_rules_def with_answered_rules_def with_policy_def
      with_prompts_def Let_def split: option.splits)

text \<open>
  C37. A sticky rejection text is only ever shown for a call that is in fact denied by a rule: when
  \<^verbatim>\<open>rejection_message\<close> yields a text, \<^verbatim>\<open>fixed_decision\<close> is Deny; and an answered deny rule that decides a
  call always yields one.
\<close>

theorem rejection_message_only_for_denied_calls:
  "(rejection_message engine classes origin agent \<noteq> None \<longrightarrow> fixed_decision engine classes origin agent = Some Deny)
   \<and> (engine_wf engine \<and> \<not> classes_refused engine classes
      \<and> matches_origin_for_agent rule origin agent \<and> pr_decision rule = Deny
      \<longrightarrow> rejection_message (with_answered_rules engine [rule]) classes origin agent \<noteq> None)"
proof (intro conjI impI)
  assume "rejection_message engine classes origin agent \<noteq> None"
  then obtain i rule where r: "\<not> classes_refused engine classes"
      "find (\<lambda>(_, rule). matches_origin_for_agent rule origin agent) (rev (enumerate 0 (pe_rules engine))) = Some (i, rule)"
      "pr_decision rule = Deny"
    by (auto simp: rejection_message_def split: if_splits option.splits)
  have "find (\<lambda>r. matches_origin_for_agent r origin agent) (rev (pe_rules engine)) = map_option snd (Some (i, rule))"
    unfolding r(2) [symmetric] by (rule find_rev_enumerate [symmetric])
  then have "matching_rule engine origin agent = Some Deny" using r(3) by (simp add: matching_rule_def)
  then show "fixed_decision engine classes origin agent = Some Deny"
    using r(1) by (simp add: fixed_decision_def engine_normalize_def policy_normalize_def split: option.splits)
next
  assume asm: "engine_wf engine \<and> \<not> classes_refused engine classes
      \<and> matches_origin_for_agent rule origin agent \<and> pr_decision rule = Deny"
  then have "\<not> classes_refused (with_answered_rules engine [rule]) classes"
    by (simp add: classes_refused_def with_answered_rules_def Let_def)
  then show "rejection_message (with_answered_rules engine [rule]) classes origin agent \<noteq> None"
    using asm
    by (auto simp: rejection_message_def with_answered_rules_def engine_wf_def Let_def enumerate_append_eq split: option.splits)
qed

theorem rejection_message_only_for_denied_calls_witness:
  "rejection_message (with_answered_rules (engine_new :: nat permission_engine) [permission_rule_new Deny])
     [] origin_tool_search (lit ''a'') \<noteq> None"
  using rejection_message_only_for_denied_calls [of engine_new "[]" origin_tool_search "lit ''a''"
      "permission_rule_new Deny :: nat permission_rule"]
  by (simp add: engine_new_def engine_wf_def classes_refused_def permission_rule_new_def
      matches_origin_for_agent_def matches_tool_origin_def matches_tool_name_def is_none_or_def)

end
