(* ===== verification/Patch_Match.thy ===== *)
theory Patch_Match
  imports Prelude
begin

text \<open>
  Fuzzy matching of hunk context (\<^verbatim>\<open>ra-patch/src/fuzz.rs\<close>) and the ordered tolerance levels of
  \<^verbatim>\<open>ra-patch/src/parse.rs\<close>. Each level compares lines through a canonical form; the locales
  \<open>line_matcher\<close> and \<open>coarser_matcher\<close> state this and that the levels get coarser.
\<close>

section \<open>Levels\<close>

datatype patch_match_level = Exact | TrimEnd | Trim | Normalized

fun level_rank :: "patch_match_level \<Rightarrow> nat" where
  "level_rank Exact = 0"
| "level_rank TrimEnd = 1"
| "level_rank Trim = 2"
| "level_rank Normalized = 3"

lemma level_rank_inj: "level_rank a = level_rank b \<Longrightarrow> a = b"
  by (cases a; cases b) auto

instantiation patch_match_level :: linorder
begin

definition less_eq_patch_match_level :: "patch_match_level \<Rightarrow> patch_match_level \<Rightarrow> bool" where
  "a \<le> b \<longleftrightarrow> level_rank a \<le> level_rank b"

definition less_patch_match_level :: "patch_match_level \<Rightarrow> patch_match_level \<Rightarrow> bool" where
  "a < b \<longleftrightarrow> level_rank a < level_rank b"

instance
  by standard (auto simp: less_eq_patch_match_level_def less_patch_match_level_def dest: level_rank_inj)

end

section \<open>Line comparison\<close>

definition match_exact :: "ustring \<Rightarrow> ustring \<Rightarrow> bool" where
  "match_exact actual expected \<longleftrightarrow> actual = expected"

definition match_trim_end :: "ustring \<Rightarrow> ustring \<Rightarrow> bool" where
  "match_trim_end actual expected \<longleftrightarrow> trim_end actual = trim_end expected"

definition match_trim :: "ustring \<Rightarrow> ustring \<Rightarrow> bool" where
  "match_trim actual expected \<longleftrightarrow> trim actual = trim expected"

definition normalize_char :: "uchar \<Rightarrow> uchar" where
  "normalize_char c =
     (if c \<in> {0x2010, 0x2011, 0x2012, 0x2013, 0x2014, 0x2015, 0x2212} then 45
      else if c \<in> {0x2018, 0x2019, 0x201A, 0x201B} then 39
      else if c \<in> {0x201C, 0x201D, 0x201E, 0x201F} then 34
      else if c \<in> {0x00A0, 0x2002, 0x2003, 0x2004, 0x2005, 0x2006, 0x2007, 0x2008, 0x2009, 0x200A,
                   0x202F, 0x205F, 0x3000} then 32
      else c)"

definition normalize :: "ustring \<Rightarrow> ustring" where
  "normalize s = map normalize_char (trim s)"

definition match_normalized :: "ustring \<Rightarrow> ustring \<Rightarrow> bool" where
  "match_normalized actual expected \<longleftrightarrow> normalize actual = normalize expected"

definition line_match :: "patch_match_level \<Rightarrow> ustring \<Rightarrow> ustring \<Rightarrow> bool" where
  "line_match level = (case level of Exact \<Rightarrow> match_exact | TrimEnd \<Rightarrow> match_trim_end
     | Trim \<Rightarrow> match_trim | Normalized \<Rightarrow> match_normalized)"

locale line_matcher =
  fixes canon :: "ustring \<Rightarrow> ustring" and same :: "ustring \<Rightarrow> ustring \<Rightarrow> bool"
  assumes same_iff: "same a b \<longleftrightarrow> canon a = canon b"
begin

lemma same_refl: "same a a" by (simp add: same_iff)

lemma same_sym: "same a b \<Longrightarrow> same b a" by (simp add: same_iff)

lemma same_trans: "same a b \<Longrightarrow> same b c \<Longrightarrow> same a c" by (simp add: same_iff)

end

locale coarser_matcher = fine: line_matcher canon same + coarse: line_matcher canon' same'
  for canon same canon' same' +
  assumes through: "canon' (canon a) = canon' a"
begin

lemma coarser: "same a b \<Longrightarrow> same' a b"
  by (metis coarse.same_iff fine.same_iff through)

end

interpretation m0: coarser_matcher "\<lambda>s. s" match_exact trim_end match_trim_end
  by unfold_locales (simp_all add: match_exact_def match_trim_end_def)

interpretation m1: coarser_matcher trim_end match_trim_end trim match_trim
  by unfold_locales (simp_all add: match_trim_end_def match_trim_def)

interpretation m2: coarser_matcher trim match_trim normalize match_normalized
  by unfold_locales (simp_all add: match_trim_def match_normalized_def normalize_def)

lemma line_match_mono: "l \<le> l' \<Longrightarrow> line_match l a b \<Longrightarrow> line_match l' a b"
  using m0.coarser [of a b] m1.coarser [of a b] m2.coarser [of a b]
  by (cases l; cases l') (simp_all add: line_match_def less_eq_patch_match_level_def)

section \<open>Candidate positions\<close>

definition block_matches :: "patch_match_level \<Rightarrow> ustring list \<Rightarrow> ustring list \<Rightarrow> nat \<Rightarrow> bool" where
  "block_matches level lines pattern start =
     list_all (\<lambda>(offset, expected). line_match level (lines ! (start + offset)) expected) (enumerate 0 pattern)"

definition candidate_starts :: "ustring list \<Rightarrow> ustring list \<Rightarrow> nat \<Rightarrow> bool \<Rightarrow> nat list" where
  "candidate_starts lines pattern search_start end_of_file =
     (let last_start = length lines - length pattern
      in if end_of_file then [last_start]
         else if last_start < search_start then []
         else [search_start..<Suc last_start])"

fun first_level :: "ustring list \<Rightarrow> ustring list \<Rightarrow> nat list \<Rightarrow> patch_match_level list \<Rightarrow> patch_match_level \<times> nat list" where
  "first_level lines pattern candidates [] = (Exact, [])"
| "first_level lines pattern candidates (level # levels) =
     (let found = filter (block_matches level lines pattern) candidates
      in if found \<noteq> [] then (level, found) else first_level lines pattern candidates levels)"

definition find_candidates ::
  "ustring list \<Rightarrow> ustring list \<Rightarrow> nat \<Rightarrow> bool \<Rightarrow> patch_match_level \<times> nat list" where
  "find_candidates lines pattern search_start end_of_file =
     (if pattern = [] then (Exact, [if end_of_file then length lines else min search_start (length lines)])
      else if length lines < length pattern then (Exact, [])
      else first_level lines pattern (candidate_starts lines pattern search_start end_of_file)
             [Exact, TrimEnd, Trim, Normalized])"

definition find_anchor_candidates :: "ustring list \<Rightarrow> ustring \<Rightarrow> nat \<Rightarrow> patch_match_level \<times> nat list" where
  "find_anchor_candidates lines anchor search_start =
     (let (level, candidates) = find_candidates lines [anchor] search_start False
      in if candidates \<noteq> [] then (level, candidates)
         else (Trim, map fst (filter (\<lambda>(_, line). starts_with (trim anchor) (trim_start line))
                               (drop search_start (enumerate 0 lines)))))"

lemma block_matches_iff:
  "block_matches level lines pattern start \<longleftrightarrow>
     (\<forall>i < length pattern. line_match level (lines ! (start + i)) (pattern ! i))"
  by (auto simp: block_matches_def list_all_iff in_set_enumerate_eq)

lemma block_matches_mono: "l \<le> l' \<Longrightarrow> block_matches l lines p s \<Longrightarrow> block_matches l' lines p s"
  by (auto simp: block_matches_iff intro: line_match_mono)

lemma candidate_starts_range:
  assumes "length pattern \<le> length lines" "s \<in> set (candidate_starts lines pattern search_start eof)"
  shows "s + length pattern \<le> length lines"
  using assms by (auto simp: candidate_starts_def Let_def split: if_splits)

lemma first_level_found:
  "\<lbrakk>first_level lines pattern cs levels = (level, found); found \<noteq> []\<rbrakk> \<Longrightarrow>
     \<exists>ls ls'. levels = ls @ level # ls' \<and> found = filter (block_matches level lines pattern) cs
       \<and> (\<forall>l\<in>set ls. \<forall>s\<in>set cs. \<not> block_matches l lines pattern s)"
proof (induction levels)
  case (Cons l levels)
  show ?case
  proof (cases "filter (block_matches l lines pattern) cs = []")
    case True
    then obtain ls ls' where "levels = ls @ level # ls'" "found = filter (block_matches level lines pattern) cs"
      "\<forall>l\<in>set ls. \<forall>s\<in>set cs. \<not> block_matches l lines pattern s"
      using Cons by (auto simp: Let_def)
    then show ?thesis using True by (intro exI [of _ "l # ls"] exI [of _ ls']) (auto simp: filter_empty_conv)
  next
    case False
    then show ?thesis using Cons.prems by (intro exI [of _ "[]"] exI [of _ levels]) (auto simp: Let_def)
  qed
qed simp

lemma first_level_none:
  "first_level lines pattern cs levels = (level, []) \<Longrightarrow>
     \<forall>l\<in>set levels. \<forall>s\<in>set cs. \<not> block_matches l lines pattern s"
  by (induction levels) (auto simp: Let_def filter_empty_conv split: if_splits)

lemma find_candidates_range:
  assumes "find_candidates lines pattern search_start eof = (level, found)" "s \<in> set found"
  shows "s + length pattern \<le> length lines"
proof (cases "pattern = []")
  case True
  then show ?thesis using assms by (auto simp: find_candidates_def split: if_splits)
next
  case False
  with assms have fl: "first_level lines pattern (candidate_starts lines pattern search_start eof)
      [Exact, TrimEnd, Trim, Normalized] = (level, found)" and le: "length pattern \<le> length lines"
    by (auto simp: find_candidates_def split: if_splits)
  have "found \<noteq> []" using assms(2) by auto
  from first_level_found [OF fl this] show ?thesis
    using assms(2) candidate_starts_range [OF le] by auto
qed

lemma levels_before:
  assumes "[Exact, TrimEnd, Trim, Normalized] = ls @ level # ls'" "l < level"
  shows "l \<in> set ls"
proof -
  have "\<forall>x\<in>set (level # ls'). \<not> x < level"
    using assms(1)
    by (cases ls; cases "tl ls"; cases "tl (tl ls)"; cases "tl (tl (tl ls))")
      (auto simp: less_patch_match_level_def)
  moreover have "l \<in> set (ls @ level # ls')"
    unfolding assms(1) [symmetric] by (cases l) auto
  ultimately show ?thesis using assms(2) by auto
qed

text \<open>
  C24. Context is matched at the strictest tolerance that matches anywhere: the positions returned are
  all candidate positions whose block matches at the returned level, in order and within the file;
  no candidate matches at a stricter level; and when nothing is returned, no candidate matches even
  at the loosest level.
\<close>

theorem find_candidates_strictest:
  assumes "pattern \<noteq> []" "length pattern \<le> length lines"
    and "find_candidates lines pattern search_start eof = (level, found)"
  shows "(found \<noteq> [] \<longrightarrow>
            found = filter (block_matches level lines pattern) (candidate_starts lines pattern search_start eof)
            \<and> (\<forall>l < level. \<forall>s\<in>set (candidate_starts lines pattern search_start eof). \<not> block_matches l lines pattern s))
       \<and> (found = [] \<longrightarrow> (\<forall>l. \<forall>s\<in>set (candidate_starts lines pattern search_start eof). \<not> block_matches l lines pattern s))
       \<and> (\<forall>s\<in>set found. s + length pattern \<le> length lines)"
proof (intro conjI impI)
  let ?cs = "candidate_starts lines pattern search_start eof"
  have fl: "first_level lines pattern ?cs [Exact, TrimEnd, Trim, Normalized] = (level, found)"
    using assms by (auto simp: find_candidates_def split: if_splits)
  show "found = filter (block_matches level lines pattern) ?cs" if "found \<noteq> []"
    using first_level_found [OF fl that] by blast
  show "\<forall>l < level. \<forall>s\<in>set ?cs. \<not> block_matches l lines pattern s" if "found \<noteq> []"
  proof -
    from first_level_found [OF fl that] obtain ls ls' where ls: "[Exact, TrimEnd, Trim, Normalized] = ls @ level # ls'"
      "\<forall>l\<in>set ls. \<forall>s\<in>set ?cs. \<not> block_matches l lines pattern s" by blast
    show ?thesis
      by (intro allI impI) (rule bspec [OF ls(2) levels_before [OF ls(1)]])
  qed
  show "\<forall>l. \<forall>s\<in>set ?cs. \<not> block_matches l lines pattern s" if "found = []"
  proof
    fix l
    have "l \<in> set [Exact, TrimEnd, Trim, Normalized]" by (cases l) auto
    then show "\<forall>s\<in>set ?cs. \<not> block_matches l lines pattern s"
      by (rule bspec [OF first_level_none [OF fl [unfolded that]]])
  qed
  show "\<forall>s\<in>set found. s + length pattern \<le> length lines"
    using find_candidates_range [OF assms(3)] by blast
qed

theorem find_candidates_strictest_witness:
  "find_candidates [lit ''a'', lit ''b ''] [lit ''b''] 0 False = (TrimEnd, [1])
   \<and> \<not> block_matches Exact [lit ''a'', lit ''b ''] [lit ''b''] 1 \<and> 1 + length [lit ''b''] \<le> length [lit ''a'', lit ''b '']"
proof -
  have eval: "find_candidates [lit ''a'', lit ''b ''] [lit ''b''] 0 False = (TrimEnd, [1])"
    by (simp add: find_candidates_def candidate_starts_def block_matches_def line_match_def match_exact_def
        match_trim_end_def str_simps upt_rec)
  have "Exact < TrimEnd" "1 \<in> set (candidate_starts [lit ''a'', lit ''b ''] [lit ''b''] 0 False)"
    by (simp_all add: less_patch_match_level_def candidate_starts_def)
  then show ?thesis
    using find_candidates_strictest [OF _ _ eval] eval by simp
qed

end
