(* ===== verification/Unix_Path.thy ===== *)
theory Unix_Path
  imports Prelude
begin

text \<open>
  What the sources use of \<^verbatim>\<open>std::path\<close> on Unix: the components of a path, absoluteness, joining, and
  the final component. A path is its text.
\<close>

datatype path_component = RootDir | CurDir | ParentDir | Normal ustring

definition is_absolute :: "ustring \<Rightarrow> bool" where
  "is_absolute p \<longleftrightarrow> (case p of c # _ \<Rightarrow> c = 47 | [] \<Rightarrow> False)"

definition part_component :: "ustring \<Rightarrow> path_component list" where
  "part_component part =
     (if part = [] \<or> part = [46] then [] else if part = [46, 46] then [ParentDir] else [Normal part])"

text \<open>\<^verbatim>\<open>Path::components\<close>: repeated separators and interior \<^verbatim>\<open>.\<close> vanish, a leading \<^verbatim>\<open>.\<close> is kept.\<close>

definition path_components :: "ustring \<Rightarrow> path_component list" where
  "path_components p =
     (let parts = split_char 47 p
      in (if is_absolute p then [RootDir] else if hd parts = [46] then [CurDir] else [])
         @ concat (map part_component parts))"

text \<open>Path equality compares components.\<close>

definition same_path :: "ustring \<Rightarrow> ustring \<Rightarrow> bool" where
  "same_path p q \<longleftrightarrow> path_components p = path_components q"

definition path_join :: "ustring \<Rightarrow> ustring \<Rightarrow> ustring" where
  "path_join base p =
     (if is_absolute p then p
      else if base = [] \<or> last base = 47 then base @ p else base @ [47] @ p)"

text \<open>\<^verbatim>\<open>Path::file_name\<close>: the last component when it is a normal one.\<close>

definition file_name :: "ustring \<Rightarrow> ustring option" where
  "file_name p = (let cs = path_components p
     in if cs = [] then None else (case last cs of Normal n \<Rightarrow> Some n | _ \<Rightarrow> None))"

text \<open>Where a path leads, lexically, from a base given as the list of its names.\<close>

fun resolve_component :: "ustring list \<Rightarrow> path_component \<Rightarrow> ustring list" where
  "resolve_component at RootDir = []"
| "resolve_component at CurDir = at"
| "resolve_component at ParentDir = butlast at"
| "resolve_component at (Normal n) = at @ [n]"

definition resolve :: "ustring list \<Rightarrow> ustring \<Rightarrow> ustring list" where
  "resolve base p = foldl resolve_component base (path_components p)"

definition stays_below :: "ustring \<Rightarrow> bool" where
  "stays_below p \<longleftrightarrow> RootDir \<notin> set (path_components p) \<and> ParentDir \<notin> set (path_components p)"

lemma foldl_resolve_below:
  "\<lbrakk>RootDir \<notin> set cs; ParentDir \<notin> set cs\<rbrakk> \<Longrightarrow> \<exists>rest. foldl resolve_component base cs = base @ rest"
proof (induction cs arbitrary: base)
  case (Cons c cs)
  then obtain n where "resolve_component base c = base @ n" by (cases c) auto
  then show ?case using Cons by (metis append.assoc foldl_Cons list.set_intros(2))
qed simp

lemma resolve_below: "stays_below p \<Longrightarrow> \<exists>rest. resolve base p = base @ rest"
  by (simp add: resolve_def stays_below_def foldl_resolve_below)

lemma absolute_has_root: "is_absolute p \<Longrightarrow> RootDir \<in> set (path_components p)"
  by (simp add: path_components_def Let_def)

end
