(* ===== verification/Patch_Apply.thy ===== *)
theory Patch_Apply
  imports Patch_Match Usage_Ledger Unix_Path
begin

text \<open>
  Hunks, plans and conflicts (\<^verbatim>\<open>ra-patch/src/parse.rs\<close>) and the pure application of hunks to a text
  (\<^verbatim>\<open>ra-patch/src/apply.rs\<close>). \<^verbatim>\<open>usize\<close> counters are natural numbers: they count lines held in memory.
\<close>

section \<open>Hunks, actions, plans\<close>

definition PATCH_SCHEMA_VERSION :: u32 where "PATCH_SCHEMA_VERSION = 1"

datatype patch_conflict =
  FileNotFound ustring
| HunkFailed ustring nat patch_match_level
| AmbiguousMatch ustring nat nat
| FileAlreadyExists ustring
| SourceFileNotFound ustring
| DestinationAlreadyExists ustring

record 'v patch_hunk =
  ph_schema_version :: u32
  ph_line_hint :: "nat option"
  ph_context_anchors :: "ustring list"
  ph_context_before :: "ustring list"
  ph_removed_lines :: "ustring list"
  ph_added_lines :: "ustring list"
  ph_context_after :: "ustring list"
  ph_end_of_file :: bool
  ph_unknown :: "'v unknown"

definition patch_hunk_new :: "'v patch_hunk" where
  "patch_hunk_new = \<lparr> ph_schema_version = PATCH_SCHEMA_VERSION, ph_line_hint = None, ph_context_anchors = [],
     ph_context_before = [], ph_removed_lines = [], ph_added_lines = [], ph_context_after = [],
     ph_end_of_file = False, ph_unknown = Map.empty \<rparr>"

definition with_line_hint :: "'v patch_hunk \<Rightarrow> nat \<Rightarrow> 'v patch_hunk" where
  "with_line_hint self hint = self\<lparr>ph_line_hint := Some hint\<rparr>"

definition with_context_anchor :: "'v patch_hunk \<Rightarrow> ustring \<Rightarrow> 'v patch_hunk" where
  "with_context_anchor self anchor = self\<lparr>ph_context_anchors := ph_context_anchors self @ [anchor]\<rparr>"

definition with_context_before :: "'v patch_hunk \<Rightarrow> ustring list \<Rightarrow> 'v patch_hunk" where
  "with_context_before self lines = self\<lparr>ph_context_before := lines\<rparr>"

definition with_removed_lines :: "'v patch_hunk \<Rightarrow> ustring list \<Rightarrow> 'v patch_hunk" where
  "with_removed_lines self lines = self\<lparr>ph_removed_lines := lines\<rparr>"

definition with_added_lines :: "'v patch_hunk \<Rightarrow> ustring list \<Rightarrow> 'v patch_hunk" where
  "with_added_lines self lines = self\<lparr>ph_added_lines := lines\<rparr>"

definition with_context_after :: "'v patch_hunk \<Rightarrow> ustring list \<Rightarrow> 'v patch_hunk" where
  "with_context_after self lines = self\<lparr>ph_context_after := lines\<rparr>"

definition with_end_of_file :: "'v patch_hunk \<Rightarrow> 'v patch_hunk" where
  "with_end_of_file self = self\<lparr>ph_end_of_file := True\<rparr>"

definition pattern_lines :: "'v patch_hunk \<Rightarrow> ustring list" where
  "pattern_lines self = ph_context_before self @ ph_removed_lines self @ ph_context_after self"

datatype 'v patch_action =
  UpdateFile ustring "'v patch_hunk list"
| AddFile ustring ustring
| DeleteFile ustring
| MoveFile ustring ustring

fun target_paths :: "'v patch_action \<Rightarrow> ustring list" where
  "target_paths (UpdateFile path hunks) = [path]"
| "target_paths (AddFile path content) = [path]"
| "target_paths (DeleteFile path) = [path]"
| "target_paths (MoveFile src dst) = [src, dst]"

record 'v patch_plan =
  pp_schema_version :: u32
  pp_actions :: "'v patch_action list"
  pp_match_level :: patch_match_level
  pp_conflicts :: "patch_conflict list"
  pp_unknown :: "'v unknown"

definition patch_plan_new :: "'v patch_action list \<Rightarrow> 'v patch_plan" where
  "patch_plan_new actions = \<lparr> pp_schema_version = PATCH_SCHEMA_VERSION, pp_actions = actions,
     pp_match_level = Exact, pp_conflicts = [], pp_unknown = Map.empty \<rparr>"

definition push_new :: "ustring list \<Rightarrow> ustring \<Rightarrow> ustring list" where
  "push_new files p = (if list_ex (\<lambda>f. same_path f p) files then files else files @ [p])"

definition target_files :: "'v patch_plan \<Rightarrow> ustring list" where
  "target_files self = foldl (\<lambda>files action. foldl push_new files (target_paths action)) [] (pp_actions self)"

section \<open>Source files\<close>

record source_line =
  sl_text :: ustring
  sl_ending :: ustring

record source_file =
  sf_lines :: "source_line list"
  sf_default_ending :: ustring

definition source_segment :: "ustring \<Rightarrow> source_line" where
  "source_segment segment =
     (if segment \<noteq> [] \<and> last segment = 10 then
        (case strip_suffix [13, 10] segment of
           Some text \<Rightarrow> \<lparr> sl_text = text, sl_ending = [13, 10] \<rparr>
         | None \<Rightarrow> \<lparr> sl_text = butlast segment, sl_ending = [10] \<rparr>)
      else \<lparr> sl_text = segment, sl_ending = [] \<rparr>)"

text \<open>The \<^verbatim>\<open>while let Some(newline)\<close> loop cuts the text after each newline, as \<^verbatim>\<open>split_inclusive\<close> does.\<close>

definition source_parse :: "ustring \<Rightarrow> source_file" where
  "source_parse content =
     (let lines = map source_segment (split_inclusive 10 content)
      in \<lparr> sf_lines = lines,
           sf_default_ending = (case find (\<lambda>l. sl_ending l \<noteq> []) lines of Some l \<Rightarrow> sl_ending l | None \<Rightarrow> [10]) \<rparr>)"

definition source_texts :: "source_file \<Rightarrow> ustring list" where
  "source_texts self = map sl_text (sf_lines self)"

definition get_line :: "source_file \<Rightarrow> nat \<Rightarrow> source_line option" where
  "get_line self i = (if i < length (sf_lines self) then Some (sf_lines self ! i) else None)"

definition ending_for_replacement :: "source_file \<Rightarrow> nat \<Rightarrow> nat \<Rightarrow> ustring" where
  "ending_for_replacement self start finish =
     (if start < finish
      then (case get_line self start of None \<Rightarrow> sf_default_ending self | Some line \<Rightarrow> sl_ending line)
      else (case (case get_line self start of Some l \<Rightarrow> Some l | None \<Rightarrow> get_line self finish) of
              None \<Rightarrow> sf_default_ending self
            | Some line \<Rightarrow> if sl_ending line = [] then sf_default_ending self else sl_ending line))"

text \<open>Writing the ending of the last line of a non-empty list.\<close>

definition set_last_ending :: "ustring \<Rightarrow> source_line list \<Rightarrow> source_line list" where
  "set_last_ending ending lines = butlast lines @ [(last lines)\<lparr>sl_ending := ending\<rparr>]"

definition source_splice :: "source_file \<Rightarrow> nat \<Rightarrow> nat \<Rightarrow> source_line list \<Rightarrow> source_file" where
  "source_splice self start finish replacement =
     (let at_end = (start = length (sf_lines self) \<and> \<not> start < finish
                    \<and> sf_lines self \<noteq> [] \<and> sl_ending (last (sf_lines self)) = [] \<and> replacement \<noteq> []);
          lines = (if at_end then set_last_ending (sf_default_ending self) (sf_lines self) else sf_lines self);
          replacement = (if at_end then set_last_ending [] replacement else replacement)
      in self\<lparr>sf_lines := take start lines @ replacement @ drop finish lines\<rparr>)"

definition source_render :: "source_file \<Rightarrow> ustring" where
  "source_render self = concat (map (\<lambda>line. sl_text line @ sl_ending line) (sf_lines self))"

section \<open>Applying hunks\<close>

record applied_file_update =
  ap_content :: ustring
  ap_match_level :: patch_match_level
  ap_lines_added :: nat
  ap_lines_removed :: nat

record apply_state =
  as_lines :: source_file
  as_search_start :: nat
  as_match_level :: patch_match_level
  as_lines_added :: nat
  as_lines_removed :: nat

text \<open>\<^verbatim>\<open>sort_unstable\<close> then \<^verbatim>\<open>dedup\<close> on positions.\<close>

definition sort_dedup :: "nat list \<Rightarrow> nat list" where
  "sort_dedup xs = remdups_adj (sort xs)"

text \<open>The loop over one hunk's anchors.\<close>

fun anchor_search ::
  "ustring list \<Rightarrow> ustring list \<Rightarrow> nat list \<Rightarrow> patch_match_level \<Rightarrow> patch_match_level + nat list" where
  "anchor_search lines [] starts level = Inr starts"
| "anchor_search lines (anchor # anchors) starts level =
     (let found = map (find_anchor_candidates lines anchor) starts;
          level = foldl max level (map fst found);
          next_starts = sort_dedup (concat (map (\<lambda>(_, candidates). map Suc candidates) found))
      in if next_starts = [] then Inl level else anchor_search lines anchors next_starts level)"

text \<open>The arm for a unique position.\<close>

definition replace_at :: "apply_state \<Rightarrow> 'v patch_hunk \<Rightarrow> nat \<Rightarrow> patch_match_level \<Rightarrow> apply_state" where
  "replace_at st hunk start level =
     (let remove_start = start + length (ph_context_before hunk);
          remove_end = remove_start + length (ph_removed_lines hunk);
          ending = ending_for_replacement (as_lines st) remove_start remove_end;
          added = map (\<lambda>text. \<lparr> sl_text = text, sl_ending = ending \<rparr>) (ph_added_lines hunk)
      in \<lparr> as_lines = source_splice (as_lines st) remove_start remove_end added,
           as_search_start = remove_start + length (ph_added_lines hunk),
           as_match_level = max (as_match_level st) level,
           as_lines_added = as_lines_added st + length (ph_added_lines hunk),
           as_lines_removed = as_lines_removed st + length (ph_removed_lines hunk) \<rparr>)"

definition apply_hunk ::
  "ustring \<Rightarrow> nat \<Rightarrow> 'v patch_hunk \<Rightarrow> apply_state \<Rightarrow> patch_conflict + apply_state" where
  "apply_hunk path hunk_index hunk st =
     (let pattern = pattern_lines hunk; comparable = source_texts (as_lines st)
      in case anchor_search comparable (ph_context_anchors hunk) [as_search_start st] Exact of
           Inl level \<Rightarrow> Inl (HunkFailed path hunk_index level)
         | Inr anchor_starts \<Rightarrow>
             let found = map (\<lambda>start. find_candidates comparable pattern start (ph_end_of_file hunk)) anchor_starts;
                 level = foldl max Exact (map fst found);
                 candidates = sort_dedup (concat (map snd found))
             in case candidates of
                  [] \<Rightarrow> Inl (HunkFailed path hunk_index level)
                | [start] \<Rightarrow> Inr (replace_at st hunk start level)
                | _ # _ # _ \<Rightarrow> Inl (AmbiguousMatch path hunk_index (length candidates)))"

fun apply_each :: "ustring \<Rightarrow> nat \<Rightarrow> 'v patch_hunk list \<Rightarrow> apply_state \<Rightarrow> patch_conflict + apply_state" where
  "apply_each path hunk_index [] st = Inr st"
| "apply_each path hunk_index (hunk # hunks) st =
     result_bind (apply_hunk path hunk_index hunk st) (apply_each path (Suc hunk_index) hunks)"

definition apply_hunks :: "ustring \<Rightarrow> ustring \<Rightarrow> 'v patch_hunk list \<Rightarrow> patch_conflict + applied_file_update" where
  "apply_hunks path original hunks =
     result_bind
       (apply_each path 0 hunks \<lparr> as_lines = source_parse original, as_search_start = 0, as_match_level = Exact,
          as_lines_added = 0, as_lines_removed = 0 \<rparr>)
       (\<lambda>st. Inr \<lparr> ap_content = source_render (as_lines st), ap_match_level = as_match_level st,
                   ap_lines_added = as_lines_added st, ap_lines_removed = as_lines_removed st \<rparr>)"

record 'v committed_patch_delta =
  cd_schema_version :: u32
  cd_applied_files :: "ustring list"
  cd_lines_added :: nat
  cd_lines_removed :: nat
  cd_unknown :: "'v unknown"

definition committed_patch_delta_new :: "ustring list \<Rightarrow> nat \<Rightarrow> nat \<Rightarrow> 'v committed_patch_delta" where
  "committed_patch_delta_new applied_files lines_added lines_removed =
     \<lparr> cd_schema_version = PATCH_SCHEMA_VERSION, cd_applied_files = applied_files, cd_lines_added = lines_added,
       cd_lines_removed = lines_removed, cd_unknown = Map.empty \<rparr>"

definition delta_is_empty :: "'v committed_patch_delta \<Rightarrow> bool" where
  "delta_is_empty self \<longleftrightarrow> cd_applied_files self = [] \<and> cd_lines_added self = 0 \<and> cd_lines_removed self = 0"

section \<open>Rendering what was parsed\<close>

lemma source_segment_render: "sl_text (source_segment s) @ sl_ending (source_segment s) = s"
proof (cases "s \<noteq> [] \<and> last s = 10")
  case True
  show ?thesis
  proof (cases "strip_suffix [13, 10] s")
    case None
    then show ?thesis using True append_butlast_last_id [of s] by (simp add: source_segment_def)
  next
    case (Some t)
    then show ?thesis using True by (simp add: source_segment_def strip_suffix_Some_iff)
  qed
qed (auto simp: source_segment_def)

lemma render_parse: "source_render (source_parse content) = content"
  by (simp add: source_render_def source_parse_def Let_def comp_def source_segment_render)

section \<open>What one hunk does\<close>

lemma set_sort_dedup [simp]: "set (sort_dedup xs) = set xs"
  by (simp add: sort_dedup_def)

lemma sort_dedup_sorted: "sorted xs \<Longrightarrow> distinct xs \<Longrightarrow> sort_dedup xs = xs"
  by (simp add: sort_dedup_def sorted_sort_id remdups_adj_distinct)

lemma max_foldl_start: "foldl max (z :: 'a::linorder) xs \<le> b \<Longrightarrow> z \<le> b"
proof (induction xs arbitrary: z)
  case (Cons x xs)
  have "max z x \<le> b" by (rule Cons.IH) (use Cons.prems in simp)
  then show ?case by simp
qed simp

lemma foldl_max_ge: "x \<in> set (z # xs) \<Longrightarrow> x \<le> foldl max (z :: 'a::linorder) xs"
proof (induction xs arbitrary: z)
  case (Cons y ys)
  show ?case
  proof (cases "x = z \<or> x = y")
    case True
    then have "x \<le> max z y" by auto
    also have "\<dots> \<le> foldl max (max z y) ys"
      using order.refl [of "foldl max (max z y) ys"] by (rule max_foldl_start)
    finally show ?thesis by simp
  next
    case False
    then show ?thesis using Cons by auto
  qed
qed simp

lemma set_last_ending_simps [simp]:
  "length (set_last_ending e xs) = (if xs = [] then 1 else length xs)"
  "xs \<noteq> [] \<Longrightarrow> map sl_text (set_last_ending e xs) = map sl_text xs"
  by (cases xs rule: rev_cases; simp add: set_last_ending_def)+

lemma source_splice_texts:
  assumes "start \<le> length (sf_lines f)" "start \<le> finish"
  shows "source_texts (source_splice f start finish repl) =
     take start (source_texts f) @ map sl_text repl @ drop finish (source_texts f)"
  using assms by (auto simp: source_splice_def source_texts_def Let_def take_map drop_map)

lemma source_splice_kept:
  assumes "start \<le> finish" "finish \<le> length (sf_lines f)"
  shows "drop (start + length repl) (sf_lines (source_splice f start finish repl)) = drop finish (sf_lines f)"
    and "start < length (sf_lines f) \<or> sl_ending (last (sf_lines f)) \<noteq> [] \<Longrightarrow>
      take start (sf_lines (source_splice f start finish repl)) = take start (sf_lines f)"
  using assms by (auto simp: source_splice_def Let_def min_def not_less)

text \<open>The successful branch of \<^verbatim>\<open>apply_hunk\<close>, with where its position came from.\<close>

lemma apply_hunk_InrE:
  assumes "apply_hunk path i hunk st = Inr st'"
  obtains start level level' where
    "start + length (pattern_lines hunk) \<le> length (source_texts (as_lines st))"
    "block_matches level (source_texts (as_lines st)) (pattern_lines hunk) start"
    "level \<le> level'" "st' = replace_at st hunk start level'"
proof -
  let ?texts = "source_texts (as_lines st)" and ?pattern = "pattern_lines hunk"
  from assms obtain starts where starts: "anchor_search ?texts (ph_context_anchors hunk) [as_search_start st] Exact = Inr starts"
    by (auto simp: apply_hunk_def Let_def split: sum.splits)
  let ?found = "map (\<lambda>start. find_candidates ?texts ?pattern start (ph_end_of_file hunk)) starts"
  from assms starts obtain start where start: "sort_dedup (concat (map snd ?found)) = [start]"
    by (auto simp: apply_hunk_def Let_def split: list.splits)
  have st': "st' = replace_at st hunk start (foldl max Exact (map fst ?found))"
    using assms starts start by (simp add: apply_hunk_def Let_def)
  have "start \<in> set (concat (map snd ?found))"
    using arg_cong [OF start, of set] by simp
  then obtain a level fs where fc: "a \<in> set starts" "find_candidates ?texts ?pattern a (ph_end_of_file hunk) = (level, fs)" "start \<in> set fs"
    by (auto simp: image_iff) (metis prod.collapse)
  have lev: "level \<le> foldl max Exact (map fst ?found)"
    by (rule foldl_max_ge) (use fc in \<open>force simp: image_iff\<close>)
  have "block_matches level ?texts ?pattern start"
  proof (cases "?pattern = []")
    case False
    moreover have "fs \<noteq> []" using fc(3) by auto
    moreover have "length ?pattern \<le> length ?texts" using find_candidates_range [OF fc(2,3)] by simp
    ultimately have "first_level ?texts ?pattern (candidate_starts ?texts ?pattern a (ph_end_of_file hunk))
        [Exact, TrimEnd, Trim, Normalized] = (level, fs)"
      using fc(2) by (auto simp: find_candidates_def split: if_splits)
    from first_level_found [OF this \<open>fs \<noteq> []\<close>] show ?thesis using fc(3) by auto
  qed (simp add: block_matches_def)
  then show ?thesis
    using find_candidates_range [OF fc(2,3)] lev st' that by blast
qed

text \<open>The state after a replacement, field by field.\<close>

lemma replace_at_fields:
  assumes "start + length (pattern_lines hunk) \<le> length (sf_lines (as_lines st))"
    and "before = start + length (ph_context_before hunk)" "after = before + length (ph_removed_lines hunk)"
  shows "source_texts (as_lines (replace_at st hunk start level)) =
           take before (source_texts (as_lines st)) @ ph_added_lines hunk @ drop after (source_texts (as_lines st))"
    and "drop (before + length (ph_added_lines hunk)) (sf_lines (as_lines (replace_at st hunk start level)))
           = drop after (sf_lines (as_lines st))"
    and "before < length (sf_lines (as_lines st)) \<or> sl_ending (last (sf_lines (as_lines st))) \<noteq> [] \<Longrightarrow>
           take before (sf_lines (as_lines (replace_at st hunk start level))) = take before (sf_lines (as_lines st))"
proof -
  let ?repl = "map (\<lambda>text. \<lparr> sl_text = text, sl_ending = ending_for_replacement (as_lines st) before after \<rparr>) (ph_added_lines hunk)"
  have eq: "as_lines (replace_at st hunk start level) = source_splice (as_lines st) before after ?repl"
    by (simp add: replace_at_def Let_def assms(2,3))
  have rng: "before \<le> after" "after \<le> length (sf_lines (as_lines st))"
    using assms by (simp_all add: pattern_lines_def)
  show "source_texts (as_lines (replace_at st hunk start level)) =
      take before (source_texts (as_lines st)) @ ph_added_lines hunk @ drop after (source_texts (as_lines st))"
    using rng by (simp add: eq source_splice_texts comp_def)
  show "drop (before + length (ph_added_lines hunk)) (sf_lines (as_lines (replace_at st hunk start level)))
      = drop after (sf_lines (as_lines st))"
    using source_splice_kept(1) [OF rng, of ?repl] by (simp add: eq)
  show "take before (sf_lines (as_lines (replace_at st hunk start level))) = take before (sf_lines (as_lines st))"
    if "before < length (sf_lines (as_lines st)) \<or> sl_ending (last (sf_lines (as_lines st))) \<noteq> []"
    using source_splice_kept(2) [OF rng that, of ?repl] by (simp add: eq)
qed

lemma length_source_texts [simp]: "length (source_texts f) = length (sf_lines f)"
  by (simp add: source_texts_def)

text \<open>
  C24. A hunk that applies changes exactly the lines it removes: there is a position, inside the file,
  where the hunk's context and removed lines match the text at the level reported (or a stricter
  one), and the new text is the old one with the removed lines of that block replaced by the added
  lines. Every later line keeps its text and line ending, and so does every earlier one unless the
  replacement was appended after an unterminated last line. The next search starts right after the
  replacement.
\<close>

theorem apply_hunk_changes_only_the_match:
  assumes "apply_hunk path i hunk st = Inr st'"
  shows "\<exists>start. let before = start + length (ph_context_before hunk);
                       after = before + length (ph_removed_lines hunk);
                       old = source_texts (as_lines st)
     in after + length (ph_context_after hunk) \<le> length old
        \<and> block_matches (as_match_level st') old (pattern_lines hunk) start
        \<and> source_texts (as_lines st') = take before old @ ph_added_lines hunk @ drop after old
        \<and> drop (before + length (ph_added_lines hunk)) (sf_lines (as_lines st')) = drop after (sf_lines (as_lines st))
        \<and> (before < length old \<or> sl_ending (last (sf_lines (as_lines st))) \<noteq> [] \<longrightarrow>
             take before (sf_lines (as_lines st')) = take before (sf_lines (as_lines st)))
        \<and> as_search_start st' = before + length (ph_added_lines hunk)"
proof -
  obtain start level level' where a: "start + length (pattern_lines hunk) \<le> length (source_texts (as_lines st))"
    "block_matches level (source_texts (as_lines st)) (pattern_lines hunk) start" "level \<le> level'"
    and st': "st' = replace_at st hunk start level'"
    by (rule apply_hunk_InrE [OF assms])
  have "level \<le> as_match_level st'" using a(3) by (simp add: st' replace_at_def Let_def le_max_iff_disj)
  from block_matches_mono [OF this a(2)] show ?thesis
    using a(1) replace_at_fields [OF a(1) [unfolded length_source_texts] refl refl, of level']
    by (intro exI [of _ start]) (simp add: Let_def st', simp add: replace_at_def Let_def pattern_lines_def)
qed

definition demo_hunk :: "nat patch_hunk" where
  "demo_hunk = patch_hunk_new\<lparr> ph_context_before := [lit ''a''], ph_removed_lines := [lit ''b''], ph_added_lines := [lit ''c''] \<rparr>"

definition demo_apply_state :: apply_state where
  "demo_apply_state = \<lparr> as_lines = source_parse (lit ''a'' @ [10] @ lit ''b'' @ [10]), as_search_start = 0,
     as_match_level = Exact, as_lines_added = 0, as_lines_removed = 0 \<rparr>"

lemmas patch_eval = apply_hunk_def replace_at_def pattern_lines_def source_parse_def source_segment_def source_texts_def
  strip_suffix_def find_candidates_def candidate_starts_def block_matches_def line_match_def match_exact_def
  sort_dedup_def ending_for_replacement_def get_line_def source_splice_def Let_def lit_def upt_rec

lemma demo_apply: "\<exists>st'. apply_hunk [] 0 demo_hunk demo_apply_state = Inr st'"
  by (simp add: demo_hunk_def demo_apply_state_def patch_hunk_new_def patch_eval)

theorem apply_hunk_changes_only_the_match_witness:
  "\<exists>st' start. apply_hunk [] 0 demo_hunk demo_apply_state = Inr st'
     \<and> source_texts (as_lines st') = take (start + 1) [lit ''a'', lit ''b''] @ [lit ''c''] @ drop (start + 2) [lit ''a'', lit ''b'']"
proof -
  from demo_apply obtain st' where st': "apply_hunk [] 0 demo_hunk demo_apply_state = Inr st'" ..
  have "source_texts (as_lines demo_apply_state) = [lit ''a'', lit ''b'']"
    by (simp add: demo_apply_state_def patch_eval)
  with apply_hunk_changes_only_the_match [OF st'] st' show ?thesis
    by (auto simp: Let_def demo_hunk_def patch_hunk_new_def numeral_2_eq_2)
qed

lemma apply_each_counts:
  assumes "apply_each path i hunks st = Inr st'"
  shows "as_lines_added st' = as_lines_added st + sum_list (map (length \<circ> ph_added_lines) hunks)
       \<and> as_lines_removed st' = as_lines_removed st + sum_list (map (length \<circ> ph_removed_lines) hunks)
       \<and> length (sf_lines (as_lines st')) + sum_list (map (length \<circ> ph_removed_lines) hunks)
           = length (sf_lines (as_lines st)) + sum_list (map (length \<circ> ph_added_lines) hunks)"
  using assms
proof (induction hunks arbitrary: i st)
  case (Cons h hs)
  then obtain st1 where st1: "apply_hunk path i h st = Inr st1" "apply_each path (Suc i) hs st1 = Inr st'"
    by (auto simp: result_bind_Inr_iff)
  from st1(1) have "length (sf_lines (as_lines st1)) + length (ph_removed_lines h) = length (sf_lines (as_lines st)) + length (ph_added_lines h)
      \<and> as_lines_added st1 = as_lines_added st + length (ph_added_lines h)
      \<and> as_lines_removed st1 = as_lines_removed st + length (ph_removed_lines h)"
  proof (rule apply_hunk_InrE)
    fix start level level'
    assume rng: "start + length (pattern_lines h) \<le> length (source_texts (as_lines st))"
      and st': "st1 = replace_at st h start level'"
    from arg_cong [OF replace_at_fields(1) [OF rng [unfolded length_source_texts] refl refl, of level'], of length] rng
    show ?thesis by (simp add: st' pattern_lines_def) (simp add: replace_at_def Let_def)
  qed
  then show ?case using Cons.IH [OF st1(2)] by simp
qed simp

text \<open>
  C36. Applying no hunks returns the text unchanged, mixed line endings and a missing final newline
  included; and when hunks apply, the reported counts are the totals of their added and removed
  lines, and the line count changes by exactly their difference.
\<close>

theorem apply_hunks_accounting:
  "apply_hunks path original ([] :: 'v patch_hunk list) =
     Inr \<lparr> ap_content = original, ap_match_level = Exact, ap_lines_added = 0, ap_lines_removed = 0 \<rparr>
   \<and> (apply_hunks path original (hunks :: 'v patch_hunk list) = Inr result \<longrightarrow>
        ap_lines_added result = sum_list (map (length \<circ> ph_added_lines) hunks)
        \<and> ap_lines_removed result = sum_list (map (length \<circ> ph_removed_lines) hunks)
        \<and> (\<exists>f. ap_content result = source_render f \<and>
             length (sf_lines f) + ap_lines_removed result = length (split_inclusive 10 original) + ap_lines_added result))"
proof (intro conjI impI)
  show "apply_hunks path original ([] :: 'v patch_hunk list) =
     Inr \<lparr> ap_content = original, ap_match_level = Exact, ap_lines_added = 0, ap_lines_removed = 0 \<rparr>"
    by (simp add: apply_hunks_def render_parse)
  assume "apply_hunks path original (hunks :: 'v patch_hunk list) = Inr result"
  then obtain st where st: "apply_each path 0 hunks \<lparr> as_lines = source_parse original, as_search_start = 0,
        as_match_level = Exact, as_lines_added = 0, as_lines_removed = 0 \<rparr> = Inr st"
      "result = \<lparr> ap_content = source_render (as_lines st), ap_match_level = as_match_level st,
                   ap_lines_added = as_lines_added st, ap_lines_removed = as_lines_removed st \<rparr>"
    by (auto simp: apply_hunks_def result_bind_Inr_iff)
  note counts = apply_each_counts [OF st(1)]
  show "ap_lines_added result = sum_list (map (length \<circ> ph_added_lines) hunks)"
    "ap_lines_removed result = sum_list (map (length \<circ> ph_removed_lines) hunks)"
    using counts by (simp_all add: st(2))
  show "\<exists>f. ap_content result = source_render f \<and>
      length (sf_lines f) + ap_lines_removed result = length (split_inclusive 10 original) + ap_lines_added result"
    using counts by (intro exI [of _ "as_lines st"]) (simp add: st(2) source_parse_def Let_def)
qed

theorem apply_hunks_accounting_witness:
  "\<exists>result. apply_hunks [] (lit ''a'' @ [10] @ lit ''b'' @ [10]) [demo_hunk] = Inr result
     \<and> ap_lines_added result = 1 \<and> ap_lines_removed result = 1"
proof -
  obtain result where r: "apply_hunks [] (lit ''a'' @ [10] @ lit ''b'' @ [10]) [demo_hunk] = Inr result"
    using demo_apply by (auto simp: apply_hunks_def demo_apply_state_def)
  then show ?thesis
    using apply_hunks_accounting [of "[]" "lit ''a'' @ [10] @ lit ''b'' @ [10]" "[demo_hunk]" result]
    by (simp add: demo_hunk_def patch_hunk_new_def)
qed

lemma filter_upt_strict: "sorted (filter P [a..<b]) \<and> distinct (filter P [a..<b])"
  by (simp add: sorted_wrt_filter)

lemma find_candidates_sorted:
  assumes "find_candidates lines pattern start eof = (level, found)"
  shows "sort_dedup found = found"
proof (cases "pattern = [] \<or> length lines < length pattern \<or> found = []")
  case True
  then show ?thesis using assms by (auto simp: find_candidates_def sort_dedup_def split: if_splits)
next
  case False
  then have fl: "first_level lines pattern (candidate_starts lines pattern start eof) [Exact, TrimEnd, Trim, Normalized] = (level, found)"
    using assms by (auto simp: find_candidates_def split: if_splits)
  have "found = filter (block_matches level lines pattern) (candidate_starts lines pattern start eof)"
    using first_level_found [OF fl] False by blast
  then have "sorted found \<and> distinct found"
    using filter_upt_strict [of "block_matches level lines pattern" start] by (auto simp: candidate_starts_def Let_def simp del: upt_Suc)
  then show ?thesis by (simp add: sort_dedup_sorted)
qed



section \<open>A divergence\<close>

text \<open>
  Replacing an unterminated last line by several lines joins them: the replacement lines take the
  (empty) ending of the first removed line. Here the last line \<^verbatim>\<open>b\<close> of \<^verbatim>\<open>a\<close>, \<^verbatim>\<open>b\<close> without a final newline
  is to be replaced by the two lines \<^verbatim>\<open>c\<close> and \<^verbatim>\<open>d\<close>, and the result ends in the single line \<^verbatim>\<open>cd\<close>.
\<close>

lemma replacing_unterminated_last_line_joins_lines:
  "map_sum id ap_content (apply_hunks (lit ''f'') (lit ''a'' @ [10] @ lit ''b'')
     [demo_hunk\<lparr>ph_added_lines := [lit ''c'', lit ''d'']\<rparr>]) = Inr (lit ''a'' @ [10] @ lit ''cd'')"
  by (simp add: apply_hunks_def demo_hunk_def patch_hunk_new_def source_render_def patch_eval)

end
