(* ===== verification/Patch_Parse.thy ===== *)
theory Patch_Parse
  imports Patch_Apply
begin

text \<open>
  The V4A patch parser (\<^verbatim>\<open>parse_patch\<close>, \<^verbatim>\<open>parse_path\<close>, \<^verbatim>\<open>parse_hunks\<close> and \<^verbatim>\<open>build_hunk\<close> of
  \<^verbatim>\<open>ra-patch/src/parse.rs\<close>). The mutable cursor is passed explicitly; each loop is a recursion whose
  measure is the number of lines after the cursor.
\<close>

datatype parse_message =
  MissingBegin | MissingEnd | AddContentWithoutPlus | AddWithoutContent | UpdateWithoutHunk
| ExpectedFileMarker | UnsafePath | ExpectedHunkHeader | EmptyHunkLine | BadHunkLine | HunkWithoutChange

text \<open>\<^verbatim>\<open>PatchParseError\<close>: the one-based line and the message.\<close>

type_synonym patch_parse_error = "nat \<times> parse_message"

definition parse_path :: "ustring \<Rightarrow> nat \<Rightarrow> patch_parse_error + ustring" where
  "parse_path s line =
     (let path = trim s
      in if path = [] \<or> is_absolute path
            \<or> list_ex (\<lambda>c. c = ParentDir \<or> c = RootDir) (path_components path)
         then Inl (line, UnsafePath) else Inr path)"

definition build_hunk ::
  "ustring list \<Rightarrow> ustring list \<Rightarrow> ustring list \<Rightarrow> ustring list \<Rightarrow> ustring list \<Rightarrow> 'v patch_hunk" where
  "build_hunk before removed added after anchors =
     foldl with_context_anchor
       (with_context_after (with_added_lines (with_removed_lines
          (with_context_before patch_hunk_new before) removed) added) after)
       anchors"

abbreviation starts_marker :: "ustring \<Rightarrow> bool" where
  "starts_marker line \<equiv> starts_with (lit ''*** '') (trim_start line)"

abbreviation starts_header :: "ustring \<Rightarrow> bool" where
  "starts_header line \<equiv> starts_with (lit ''@@'') (trim line)"

text \<open>The first loop of \<^verbatim>\<open>parse_hunks\<close>: one or more \<^verbatim>\<open>@@\<close> headers.\<close>

function (sequential) parse_headers ::
  "ustring list \<Rightarrow> nat \<Rightarrow> ustring list \<Rightarrow> patch_parse_error + (ustring list \<times> nat)" where
  "parse_headers lines cursor anchors =
     (case strip_prefix (lit ''@@'') (trim (lines ! cursor)) of
        None \<Rightarrow> Inl (cursor + 1, ExpectedHunkHeader)
      | Some scope \<Rightarrow>
          let anchors = (if trim scope \<noteq> [] then anchors @ [trim scope] else anchors);
              cursor = cursor + 1
          in if length lines \<le> cursor + 1 \<or> \<not> starts_header (lines ! cursor)
             then Inr (anchors, cursor)
             else parse_headers lines cursor anchors)"
  by pat_completeness auto
termination
  by (relation "measure (\<lambda>(lines, cursor, _). length lines - cursor)") auto

declare parse_headers.simps [simp del]

record 'v hunk_builder =
  hb_before :: "ustring list"
  hb_removed :: "ustring list"
  hb_added :: "ustring list"
  hb_after :: "ustring list"
  hb_saw_change :: bool
  hb_anchors :: "ustring list"
  hb_result :: "'v patch_hunk list"

definition hunk_builder_new :: "ustring list \<Rightarrow> 'v hunk_builder" where
  "hunk_builder_new anchors = \<lparr> hb_before = [], hb_removed = [], hb_added = [], hb_after = [],
     hb_saw_change = False, hb_anchors = anchors, hb_result = [] \<rparr>"

text \<open>A change line after trailing context closes the hunk in progress.\<close>

definition close_before_change :: "'v hunk_builder \<Rightarrow> 'v hunk_builder" where
  "close_before_change b =
     (if hb_saw_change b \<and> hb_after b \<noteq> []
      then b\<lparr> hb_result := hb_result b @
                 [build_hunk (hb_before b) (hb_removed b) (hb_added b) (hb_after b) (hb_anchors b)],
              hb_anchors := [], hb_before := hb_after b, hb_after := [], hb_removed := [], hb_added := [] \<rparr>
      else b)"

definition hunk_line :: "nat \<Rightarrow> ustring \<Rightarrow> 'v hunk_builder \<Rightarrow> patch_parse_error + 'v hunk_builder" where
  "hunk_line cursor line b =
     (case line of
        [] \<Rightarrow> Inl (cursor + 1, EmptyHunkLine)
      | kind # text \<Rightarrow>
          if kind = 32 then
            (if hb_saw_change b then Inr (b\<lparr>hb_after := hb_after b @ [text]\<rparr>)
             else Inr (b\<lparr>hb_before := hb_before b @ [text]\<rparr>))
          else if kind = 45 then
            (let b = close_before_change b
             in Inr (b\<lparr>hb_saw_change := True, hb_removed := hb_removed b @ [text]\<rparr>))
          else if kind = 43 then
            (let b = close_before_change b
             in Inr (b\<lparr>hb_saw_change := True, hb_added := hb_added b @ [text]\<rparr>))
          else Inl (cursor + 1, BadHunkLine))"

function (sequential) hunk_lines ::
  "ustring list \<Rightarrow> nat \<Rightarrow> 'v hunk_builder \<Rightarrow> patch_parse_error + ('v hunk_builder \<times> nat)" where
  "hunk_lines lines cursor b =
     (if cursor + 1 < length lines \<and> \<not> starts_marker (lines ! cursor) \<and> \<not> starts_header (lines ! cursor)
      then (case hunk_line cursor (lines ! cursor) b of
              Inl e \<Rightarrow> Inl e
            | Inr b' \<Rightarrow> hunk_lines lines (cursor + 1) b')
      else Inr (b, cursor))"
  by pat_completeness auto
termination
  by (relation "measure (\<lambda>(lines, cursor, _). length lines - cursor)") auto

declare hunk_lines.simps [simp del]

definition parse_hunks :: "ustring list \<Rightarrow> nat \<Rightarrow> patch_parse_error + ('v patch_hunk list \<times> nat)" where
  "parse_hunks lines cursor =
     (case parse_headers lines cursor [] of
        Inl e \<Rightarrow> Inl e
      | Inr (anchors, cursor) \<Rightarrow>
          (case hunk_lines lines cursor (hunk_builder_new anchors) of
             Inl e \<Rightarrow> Inl e
           | Inr (b, cursor) \<Rightarrow>
               if \<not> hb_saw_change b then Inl (cursor + 1, HunkWithoutChange)
               else
                 let hunk = build_hunk (hb_before b) (hb_removed b) (hb_added b) (hb_after b) (hb_anchors b)
                 in if cursor + 1 < length lines \<and> trim (lines ! cursor) = lit ''*** End of File''
                    then Inr (hb_result b @ [with_end_of_file hunk], cursor + 1)
                    else Inr (hb_result b @ [hunk], cursor)))"

section \<open>The cursor only moves forward\<close>

text \<open>One turn of each loop, as a case distinction on a successful result.\<close>

lemma hunk_lines_turn:
  assumes "hunk_lines lines cursor b = Inr (b', c)"
  obtains (stop) "b' = b" "c = cursor"
  | (turn) b1 where "cursor + 1 < length lines \<and> \<not> starts_marker (lines ! cursor) \<and> \<not> starts_header (lines ! cursor)"
      "hunk_line cursor (lines ! cursor) b = Inr b1" "hunk_lines lines (cursor + 1) b1 = Inr (b', c)"
  using assms by (subst (asm) hunk_lines.simps) (auto split: if_splits sum.splits)

lemma parse_headers_progress: "parse_headers lines cursor anchors = Inr (as, c) \<Longrightarrow> cursor < c"
proof (induction lines cursor anchors rule: parse_headers.induct)
  case (1 lines cursor anchors)
  from "1.prems" show ?case
    by (subst (asm) parse_headers.simps)
      (auto simp: Let_def split: option.splits if_splits dest: "1.IH" [OF _ refl refl])
qed

lemma hunk_lines_progress: "hunk_lines lines cursor b = Inr (b', c) \<Longrightarrow> cursor \<le> c"
proof (induction lines cursor b rule: hunk_lines.induct)
  case (1 lines cursor b)
  from "1.prems" show ?case
  proof (cases rule: hunk_lines_turn)
    case (turn b1)
    from "1.IH" [OF turn] show ?thesis by simp
  qed simp
qed

lemma parse_hunks_progress: "parse_hunks lines cursor = Inr (hs, c) \<Longrightarrow> cursor < c"
  by (auto simp: parse_hunks_def Let_def split: sum.splits if_splits
      dest!: parse_headers_progress hunk_lines_progress)

section \<open>File sections\<close>

text \<open>The content loop of an added file.\<close>

function (sequential) add_content :: "ustring list \<Rightarrow> nat \<Rightarrow> ustring \<Rightarrow> patch_parse_error + (ustring \<times> nat)" where
  "add_content lines cursor content =
     (if cursor + 1 < length lines \<and> \<not> starts_marker (lines ! cursor)
      then (case strip_prefix [43] (lines ! cursor) of
              None \<Rightarrow> Inl (cursor + 1, AddContentWithoutPlus)
            | Some text \<Rightarrow> add_content lines (cursor + 1) (content @ text @ [10]))
      else Inr (content, cursor))"
  by pat_completeness auto
termination
  by (relation "measure (\<lambda>(lines, cursor, _). length lines - cursor)") auto

declare add_content.simps [simp del]

text \<open>The hunk loop of an updated file.\<close>

function (sequential) update_hunks ::
  "ustring list \<Rightarrow> nat \<Rightarrow> 'v patch_hunk list \<Rightarrow> patch_parse_error + ('v patch_hunk list \<times> nat)" where
  "update_hunks lines cursor hunks =
     (if cursor + 1 < length lines \<and> \<not> starts_marker (lines ! cursor)
      then (case parse_hunks lines cursor of
              Inl e \<Rightarrow> Inl e
            | Inr (hs, c) \<Rightarrow> update_hunks lines c (hunks @ hs))
      else Inr (hunks, cursor))"
  by pat_completeness auto
termination
  by (relation "measure (\<lambda>(lines, cursor, _). length lines - cursor)")
    (auto dest!: parse_hunks_progress)

declare update_hunks.simps [simp del]

lemma add_content_turn:
  assumes "add_content lines cursor content = Inr (s, c)"
  obtains (stop) "s = content" "c = cursor"
  | (turn) t where "cursor + 1 < length lines \<and> \<not> starts_marker (lines ! cursor)"
      "strip_prefix [43] (lines ! cursor) = Some t" "add_content lines (cursor + 1) (content @ t @ [10]) = Inr (s, c)"
  using assms by (subst (asm) add_content.simps) (auto split: if_splits option.splits)

lemma update_hunks_turn:
  assumes "update_hunks lines cursor hunks = Inr (hs, c)"
  obtains (stop) "hs = hunks" "c = cursor"
  | (turn) hs' c' where "cursor + 1 < length lines \<and> \<not> starts_marker (lines ! cursor)"
      "parse_hunks lines cursor = Inr (hs', c')" "update_hunks lines c' (hunks @ hs') = Inr (hs, c)"
  using assms by (subst (asm) update_hunks.simps) (auto split: if_splits sum.splits)

lemma add_content_progress: "add_content lines cursor content = Inr (s, c) \<Longrightarrow> cursor \<le> c"
proof (induction lines cursor content rule: add_content.induct)
  case (1 lines cursor content)
  from "1.prems" show ?case
  proof (cases rule: add_content_turn)
    case (turn t)
    from "1.IH" [OF turn] show ?thesis by simp
  qed simp
qed

lemma update_hunks_progress: "update_hunks lines cursor hunks = Inr (hs, c) \<Longrightarrow> cursor \<le> c"
proof (induction lines cursor hunks rule: update_hunks.induct)
  case (1 lines cursor hunks)
  from "1.prems" show ?case
  proof (cases rule: update_hunks_turn)
    case (turn hs' c')
    from "1.IH" [OF turn(1,2) refl turn(3)] parse_hunks_progress [OF turn(2)] show ?thesis by simp
  qed simp
qed

text \<open>One turn of the main loop: the actions of the section at the cursor, and the cursor after it.\<close>

definition parse_section :: "ustring list \<Rightarrow> nat \<Rightarrow> patch_parse_error + ('v patch_action list \<times> nat)" where
  "parse_section lines cursor =
     (let line_number = cursor + 1; marker = trim (lines ! cursor)
      in case strip_prefix (lit ''*** Add File:'') marker of
           Some path \<Rightarrow>
             (case parse_path path line_number of
                Inl e \<Rightarrow> Inl e
              | Inr path \<Rightarrow>
                  (case add_content lines (cursor + 1) [] of
                     Inl e \<Rightarrow> Inl e
                   | Inr (content, cursor) \<Rightarrow>
                       if content = [] then Inl (line_number, AddWithoutContent)
                       else Inr ([AddFile path content], cursor)))
         | None \<Rightarrow>
       (case strip_prefix (lit ''*** Delete File:'') marker of
           Some path \<Rightarrow>
             (case parse_path path line_number of
                Inl e \<Rightarrow> Inl e
              | Inr path \<Rightarrow> Inr ([DeleteFile path], cursor + 1))
         | None \<Rightarrow>
       (case strip_prefix (lit ''*** Update File:'') marker of
           Some path \<Rightarrow>
             (case parse_path path line_number of
                Inl e \<Rightarrow> Inl e
              | Inr path \<Rightarrow>
                  let cursor = cursor + 1
                  in case (if cursor + 1 < length lines
                           then (case strip_prefix (lit ''*** Move to:'') (trim (lines ! cursor)) of
                                   Some destination \<Rightarrow>
                                     (case parse_path destination (cursor + 1) of
                                        Inl e \<Rightarrow> Inl e | Inr to \<Rightarrow> Inr (Some to, cursor + 1))
                                 | None \<Rightarrow> Inr (None, cursor))
                           else Inr (None, cursor)) of
                       Inl e \<Rightarrow> Inl e
                     | Inr (move_to, cursor) \<Rightarrow>
                         (case update_hunks lines cursor [] of
                            Inl e \<Rightarrow> Inl e
                          | Inr (hunks, cursor) \<Rightarrow>
                              if hunks = [] \<and> move_to = None then Inl (line_number, UpdateWithoutHunk)
                              else Inr ((if hunks \<noteq> [] then [UpdateFile path hunks] else [])
                                        @ (case move_to of Some to \<Rightarrow> [MoveFile path to] | None \<Rightarrow> []), cursor)))
         | None \<Rightarrow> Inl (line_number, ExpectedFileMarker))))"

lemma parse_section_progress: "parse_section lines cursor = Inr (as, c) \<Longrightarrow> cursor < c"
  by (auto simp: parse_section_def Let_def split: option.splits sum.splits if_splits
      dest!: add_content_progress update_hunks_progress)

function (sequential) parse_actions ::
  "ustring list \<Rightarrow> nat \<Rightarrow> 'v patch_action list \<Rightarrow> patch_parse_error + 'v patch_action list" where
  "parse_actions lines cursor actions =
     (if cursor + 1 < length lines
      then (case parse_section lines cursor of
              Inl e \<Rightarrow> Inl e
            | Inr (as, c) \<Rightarrow> parse_actions lines c (actions @ as))
      else Inr actions)"
  by pat_completeness auto
termination
  by (relation "measure (\<lambda>(lines, cursor, _). length lines - cursor)")
    (auto dest!: parse_section_progress)

declare parse_actions.simps [simp del]

lemma parse_actions_turn:
  assumes "parse_actions lines cursor actions = Inr as"
  obtains (stop) "as = actions"
  | (turn) as' c' where "cursor + 1 < length lines"
      "parse_section lines cursor = Inr (as', c')" "parse_actions lines c' (actions @ as') = Inr as"
  using assms by (subst (asm) parse_actions.simps) (auto split: if_splits sum.splits)

definition parse_patch :: "ustring \<Rightarrow> patch_parse_error + 'v patch_plan" where
  "parse_patch input =
     (let lines = rev (dropWhile (\<lambda>line. trim line = []) (rev (str_lines input)))
      in if length lines < 2 \<or> trim (hd lines) \<noteq> lit ''*** Begin Patch'' then Inl (1, MissingBegin)
         else if trim (last lines) \<noteq> lit ''*** End Patch'' then Inl (max (length lines) 1, MissingEnd)
         else result_bind (parse_actions lines 1 []) (\<lambda>actions. Inr (patch_plan_new actions)))"

section \<open>What the parser promises\<close>

definition hunk_ok :: "'v patch_hunk \<Rightarrow> bool" where
  "hunk_ok h \<longleftrightarrow> ph_removed_lines h \<noteq> [] \<or> ph_added_lines h \<noteq> []"

definition path_ok :: "ustring \<Rightarrow> bool" where
  "path_ok p \<longleftrightarrow> p \<noteq> [] \<and> \<not> is_absolute p \<and> stays_below p"

fun action_ok :: "'v patch_action \<Rightarrow> bool" where
  "action_ok (UpdateFile path hunks) \<longleftrightarrow> path_ok path \<and> hunks \<noteq> [] \<and> list_all hunk_ok hunks"
| "action_ok (AddFile path content) \<longleftrightarrow> path_ok path \<and> content \<noteq> [] \<and> last content = 10"
| "action_ok (DeleteFile path) \<longleftrightarrow> path_ok path"
| "action_ok (MoveFile src dst) \<longleftrightarrow> path_ok src \<and> path_ok dst"

lemma parse_path_ok: "parse_path s n = Inr p \<Longrightarrow> path_ok p"
  by (auto simp: parse_path_def path_ok_def stays_below_def Let_def list_ex_iff split: if_splits)

lemma foldl_anchor_fields:
  "ph_removed_lines (foldl with_context_anchor h as) = ph_removed_lines h"
  "ph_added_lines (foldl with_context_anchor h as) = ph_added_lines h"
  "ph_context_before (foldl with_context_anchor h as) = ph_context_before h"
  "ph_context_after (foldl with_context_anchor h as) = ph_context_after h"
  by (induction as arbitrary: h) (simp_all add: with_context_anchor_def)

lemma build_hunk_fields [simp]:
  "ph_removed_lines (build_hunk b r a c as) = r" "ph_added_lines (build_hunk b r a c as) = a"
  "ph_context_before (build_hunk b r a c as) = b" "ph_context_after (build_hunk b r a c as) = c"
  by (simp_all add: build_hunk_def foldl_anchor_fields with_context_after_def with_added_lines_def
      with_removed_lines_def with_context_before_def)

definition builder_ok :: "'v hunk_builder \<Rightarrow> bool" where
  "builder_ok b \<longleftrightarrow> list_all hunk_ok (hb_result b) \<and> (hb_saw_change b \<longrightarrow> hb_removed b \<noteq> [] \<or> hb_added b \<noteq> [])"

lemma hunk_line_ok: "hunk_line cursor line b = Inr b' \<Longrightarrow> builder_ok b \<Longrightarrow> builder_ok b'"
  by (auto simp: hunk_line_def close_before_change_def builder_ok_def hunk_ok_def Let_def
      split: list.splits if_splits)

lemma hunk_lines_ok: "hunk_lines lines cursor b = Inr (b', c) \<Longrightarrow> builder_ok b \<Longrightarrow> builder_ok b'"
proof (induction lines cursor b rule: hunk_lines.induct)
  case (1 lines cursor b)
  from "1.prems"(1) show ?case
  proof (cases rule: hunk_lines_turn)
    case (turn b1)
    from "1.IH" [OF turn] hunk_line_ok [OF turn(2)] "1.prems"(2) show ?thesis by simp
  qed (use "1.prems"(2) in simp)
qed

lemma parse_hunks_ok: "parse_hunks lines cursor = Inr (hs, c) \<Longrightarrow> list_all hunk_ok hs"
  by (auto simp: parse_hunks_def Let_def builder_ok_def hunk_ok_def with_end_of_file_def hunk_builder_new_def
      split: sum.splits if_splits dest!: hunk_lines_ok)

lemma update_hunks_ok: "update_hunks lines cursor hunks = Inr (hs, c) \<Longrightarrow> list_all hunk_ok hunks \<Longrightarrow> list_all hunk_ok hs"
proof (induction lines cursor hunks rule: update_hunks.induct)
  case (1 lines cursor hunks)
  from "1.prems"(1) show ?case
  proof (cases rule: update_hunks_turn)
    case (turn hs' c')
    from "1.IH" [OF turn(1,2) refl turn(3)] parse_hunks_ok [OF turn(2)] "1.prems"(2) show ?thesis by simp
  qed (use "1.prems"(2) in simp)
qed

lemma add_content_last: "add_content lines cursor content = Inr (s, c) \<Longrightarrow> content = [] \<or> last content = 10 \<Longrightarrow> s = [] \<or> last s = 10"
proof (induction lines cursor content rule: add_content.induct)
  case (1 lines cursor content)
  from "1.prems"(1) show ?case
  proof (cases rule: add_content_turn)
    case (turn t)
    from "1.IH" [OF turn] show ?thesis by simp
  qed (use "1.prems"(2) in simp)
qed

lemma parse_section_ok: "parse_section lines cursor = Inr (as, c) \<Longrightarrow> list_all action_ok as"
  by (auto simp: parse_section_def Let_def split: option.splits sum.splits if_splits
      dest!: parse_path_ok update_hunks_ok add_content_last)

lemma parse_actions_ok: "parse_actions lines cursor actions = Inr as \<Longrightarrow> list_all action_ok actions \<Longrightarrow> list_all action_ok as"
proof (induction lines cursor actions rule: parse_actions.induct)
  case (1 lines cursor actions)
  from "1.prems"(1) show ?case
  proof (cases rule: parse_actions_turn)
    case (turn as' c')
    from "1.IH" [OF turn(1,2) refl turn(3)] parse_section_ok [OF turn(2)] "1.prems"(2) show ?thesis by simp
  qed (use "1.prems"(2) in simp)
qed

lemma parse_patch_ok:
  assumes "parse_patch input = Inr plan"
  shows "list_all action_ok (pp_actions plan)"
proof -
  from assms obtain lines where "parse_actions lines 1 [] = Inr (pp_actions plan)"
    by (auto simp: parse_patch_def patch_plan_new_def Let_def result_bind_Inr_iff split: if_splits)
  then show ?thesis by (rule parse_actions_ok) simp
qed

lemma action_ok_paths: "action_ok a \<Longrightarrow> p \<in> set (target_paths a) \<Longrightarrow> path_ok p"
  by (cases a) auto

lemma set_foldl_push_new: "set (foldl push_new files ps) \<subseteq> set files \<union> set ps"
proof (induction ps arbitrary: files)
  case (Cons a ps)
  have "set (push_new files a) \<subseteq> insert a (set files)" by (auto simp: push_new_def)
  then show ?case using Cons [of "push_new files a"] by auto
qed simp

lemma foldl_push_new_keeps: "set files \<subseteq> set (foldl push_new files ps)"
  by (induction ps arbitrary: files) (fastforce simp: push_new_def)+

lemma foldl_push_new_covers: "p \<in> set ps \<Longrightarrow> \<exists>q\<in>set (foldl push_new files ps). same_path q p"
proof (induction ps arbitrary: files)
  case (Cons a ps)
  have "\<exists>q\<in>set (push_new files a). same_path q a" by (auto simp: push_new_def list_ex_iff same_path_def)
  then show ?case using Cons foldl_push_new_keeps [of "push_new files a" ps] by auto
qed simp

lemma set_target_files: "set (target_files plan) \<subseteq> (\<Union>a\<in>set (pp_actions plan). set (target_paths a))"
proof -
  have step: "set (foldl (\<lambda>files a. foldl push_new files (target_paths a)) files as)
      \<subseteq> set files \<union> (\<Union>a\<in>set as. set (target_paths a))" for files and as :: "'a patch_action list"
  proof (induction as arbitrary: files)
    case (Cons a as)
    show ?case
      using Cons [of "foldl push_new files (target_paths a)"] set_foldl_push_new [of files "target_paths a"]
      unfolding foldl_Cons by auto
  qed simp
  show ?thesis using step [of "[]" "pp_actions plan"] by (simp add: target_files_def)
qed

text \<open>
  C16. No accepted patch can name a file outside the workspace: every file any action of a parsed plan
  touches (move sources and destinations included) has a non-empty relative path that, followed
  component by component from any directory, ends inside that directory. And every action is
  meaningful: an updated file has hunks, each hunk changes something, an added file has content that
  ends in a newline.
\<close>

theorem parsed_plan_is_safe:
  assumes "parse_patch input = Inr plan"
  shows "(\<forall>p\<in>set (target_files plan). p \<noteq> [] \<and> \<not> is_absolute p \<and> (\<exists>rest. resolve base p = base @ rest))
       \<and> list_all action_ok (pp_actions plan)"
proof -
  note ok = parse_patch_ok [OF assms]
  have "path_ok p" if "p \<in> set (target_files plan)" for p
    using that ok action_ok_paths set_target_files [of plan] by (fastforce simp: list_all_iff)
  then show ?thesis using ok resolve_below by (auto simp: path_ok_def)
qed

end
