(* ===== verification/Patch_Tool.thy ===== *)
theory Patch_Tool
  imports Patch_Parse
begin

text \<open>
  The patch tool (\<^verbatim>\<open>ra-tools/src/apply_patch.rs\<close>): one action of a plan after the other, each committed to the
  file system before the next, with a running account of what was committed. The confined file system is
  the argument \<open>fs\<close>, its operations are those of a record; what the tool relies on of them is \<open>fs_laws\<close>, stated
  over a view of the files by lexical location (the names a path leads through). The tool takes paths as
  they are in the plan.
\<close>

type_synonym location = "ustring list"

definition loc :: "ustring \<Rightarrow> location" where
  "loc p = resolve [] p"

datatype fs_error = FsError ustring

record 'fs rooted_fs =
  rf_exists :: "'fs \<Rightarrow> ustring \<Rightarrow> bool"
  rf_open_read :: "'fs \<Rightarrow> ustring \<Rightarrow> fs_error + ustring option"
  rf_create_new_file :: "'fs \<Rightarrow> ustring \<Rightarrow> ustring \<Rightarrow> (fs_error + unit) \<times> 'fs"
  rf_replace_file :: "'fs \<Rightarrow> ustring \<Rightarrow> ustring \<Rightarrow> (fs_error + unit) \<times> 'fs"
  rf_remove_file :: "'fs \<Rightarrow> ustring \<Rightarrow> (fs_error + unit) \<times> 'fs"
  rf_rename :: "'fs \<Rightarrow> ustring \<Rightarrow> ustring \<Rightarrow> (fs_error + unit) \<times> 'fs"

text \<open>
  What is relied on: a call that succeeds has its effect on the files it names, a call that fails leaves
  every file but a half-created new one as it was, reading yields what is there, and no call touches a file it does not name.
\<close>

definition fs_laws :: "'fs rooted_fs \<Rightarrow> ('fs \<Rightarrow> location \<rightharpoonup> ustring) \<Rightarrow> bool" where
  "fs_laws ops view \<longleftrightarrow>
     (\<forall>fs p t. rf_open_read ops fs p = Inr (Some t) \<longrightarrow> view fs (loc p) = Some t)
   \<and> (\<forall>fs p c fs'. rf_create_new_file ops fs p c = (Inr (), fs') \<longrightarrow> view fs' = (view fs)(loc p \<mapsto> c))
   \<and> (\<forall>fs p c e fs'. rf_create_new_file ops fs p c = (Inl e, fs') \<longrightarrow> (\<forall>l. l \<noteq> loc p \<longrightarrow> view fs' l = view fs l))
   \<and> (\<forall>fs p c fs'. rf_replace_file ops fs p c = (Inr (), fs') \<longrightarrow> view fs' = (view fs)(loc p \<mapsto> c))
   \<and> (\<forall>fs p c e fs'. rf_replace_file ops fs p c = (Inl e, fs') \<longrightarrow> view fs' = view fs)
   \<and> (\<forall>fs p fs'. rf_remove_file ops fs p = (Inr (), fs') \<longrightarrow> view fs' = (view fs)(loc p := None))
   \<and> (\<forall>fs p e fs'. rf_remove_file ops fs p = (Inl e, fs') \<longrightarrow> view fs' = view fs)
   \<and> (\<forall>fs p q fs'. rf_rename ops fs p q = (Inr (), fs') \<longrightarrow> view fs' = (view fs)(loc p := None, loc q := view fs (loc p)))
   \<and> (\<forall>fs p q e fs'. rf_rename ops fs p q = (Inl e, fs') \<longrightarrow> view fs' = view fs)"

section \<open>One action\<close>

datatype patch_tool_failure =
  Conflict patch_conflict
| FileSystem fs_error
| NotUtf8 ustring

definition append_delta :: "'v committed_patch_delta \<Rightarrow> ustring \<Rightarrow> nat \<Rightarrow> nat \<Rightarrow> 'v committed_patch_delta" where
  "append_delta previous path added removed =
     committed_patch_delta_new (push_new (cd_applied_files previous) path)
       (cd_lines_added previous + added) (cd_lines_removed previous + removed)"

definition read_text :: "'fs rooted_fs \<Rightarrow> 'fs \<Rightarrow> ustring \<Rightarrow> patch_tool_failure + ustring" where
  "read_text ops fs path =
     (case rf_open_read ops fs path of
        Inl e \<Rightarrow> Inl (FileSystem e)
      | Inr None \<Rightarrow> Inl (NotUtf8 path)
      | Inr (Some t) \<Rightarrow> Inr t)"

definition fs_result ::
  "(fs_error + unit) \<times> 'fs \<Rightarrow> 'v committed_patch_delta \<Rightarrow> (patch_tool_failure + 'v committed_patch_delta) \<times> 'fs" where
  "fs_result r delta = (case r of (Inl e, fs') \<Rightarrow> (Inl (FileSystem e), fs') | (Inr _, fs') \<Rightarrow> (Inr delta, fs'))"

fun apply_action ::
  "'fs rooted_fs \<Rightarrow> 'fs \<Rightarrow> 'v patch_action \<Rightarrow> 'v committed_patch_delta
   \<Rightarrow> (patch_tool_failure + 'v committed_patch_delta) \<times> 'fs" where
  "apply_action ops fs (AddFile path content) committed =
     (if rf_exists ops fs path then (Inl (Conflict (FileAlreadyExists path)), fs)
      else fs_result (rf_create_new_file ops fs path content)
             (append_delta committed path (length (str_lines content)) 0))"
| "apply_action ops fs (DeleteFile path) committed =
     (if \<not> rf_exists ops fs path then (Inl (Conflict (FileNotFound path)), fs)
      else fs_result (rf_remove_file ops fs path) (append_delta committed path 0 0))"
| "apply_action ops fs (UpdateFile path hunks) committed =
     (case read_text ops fs path of
        Inl e \<Rightarrow> (Inl e, fs)
      | Inr original \<Rightarrow>
          (case apply_hunks path original hunks of
             Inl conflict \<Rightarrow> (Inl (Conflict conflict), fs)
           | Inr update \<Rightarrow>
               fs_result (rf_replace_file ops fs path (ap_content update))
                 (append_delta committed path (ap_lines_added update) (ap_lines_removed update))))"
| "apply_action ops fs (MoveFile src dst) committed =
     (if \<not> rf_exists ops fs src then (Inl (Conflict (SourceFileNotFound src)), fs)
      else if rf_exists ops fs dst then (Inl (Conflict (DestinationAlreadyExists dst)), fs)
      else fs_result (rf_rename ops fs src dst)
             (committed_patch_delta_new (push_new (push_new (cd_applied_files committed) src) dst)
                (cd_lines_added committed) (cd_lines_removed committed)))"

section \<open>Events\<close>

datatype file_change_kind = Added | Updated | Deleted | Moved

record file_change =
  fc_path :: ustring
  fc_kind :: file_change_kind
  fc_moved_to :: "ustring option"

fun file_change_of :: "'v patch_action \<Rightarrow> file_change" where
  "file_change_of (AddFile path _) = \<lparr> fc_path = path, fc_kind = Added, fc_moved_to = None \<rparr>"
| "file_change_of (UpdateFile path _) = \<lparr> fc_path = path, fc_kind = Updated, fc_moved_to = None \<rparr>"
| "file_change_of (DeleteFile path) = \<lparr> fc_path = path, fc_kind = Deleted, fc_moved_to = None \<rparr>"
| "file_change_of (MoveFile src dst) = \<lparr> fc_path = src, fc_kind = Moved, fc_moved_to = Some dst \<rparr>"

record file_changed_event =
  fe_change :: file_change
  fe_lines_added :: u64
  fe_lines_removed :: u64

definition as_u64 :: "nat \<Rightarrow> u64" where
  "as_u64 n = (if n < 2 ^ 64 then of_nat n else - 1)"

definition record_change ::
  "bool \<Rightarrow> 'v patch_action \<Rightarrow> 'v committed_patch_delta \<Rightarrow> 'v committed_patch_delta \<Rightarrow> file_changed_event list" where
  "record_change has_emitter action before after =
     (if has_emitter
      then [\<lparr> fe_change = file_change_of action,
              fe_lines_added = as_u64 (cd_lines_added after - cd_lines_added before),
              fe_lines_removed = as_u64 (cd_lines_removed after - cd_lines_removed before) \<rparr>]
      else [])"

section \<open>The call\<close>

datatype 'v patch_output =
  NotParsed patch_parse_error
| AppliedAll "'v committed_patch_delta"
| StoppedAt "'v committed_patch_delta" patch_tool_failure

fun apply_actions ::
  "'fs rooted_fs \<Rightarrow> bool \<Rightarrow> 'fs \<Rightarrow> 'v patch_action list \<Rightarrow> 'v committed_patch_delta \<Rightarrow> file_changed_event list
   \<Rightarrow> 'v patch_output \<times> 'fs \<times> file_changed_event list" where
  "apply_actions ops em fs [] committed events = (AppliedAll committed, fs, events)"
| "apply_actions ops em fs (action # actions) committed events =
     (case apply_action ops fs action committed of
        (Inl e, fs') \<Rightarrow> (StoppedAt committed e, fs', events)
      | (Inr delta, fs') \<Rightarrow>
          apply_actions ops em fs' actions delta (events @ record_change em action committed delta))"

definition delta_empty :: "'v committed_patch_delta" where
  "delta_empty = committed_patch_delta_new [] 0 0"

datatype patch_arguments = PatchText ustring | PatchObject "ustring option"

datatype caller_error = ApprovalRefused ustring | InvalidArguments

text \<open>The host callback refuses before anything is read or written; a malformed call is the caller's error.\<close>

definition apply_patch_call ::
  "'fs rooted_fs \<Rightarrow> bool \<Rightarrow> (ustring + bool) option \<Rightarrow> 'fs \<Rightarrow> patch_arguments
   \<Rightarrow> caller_error + ('v patch_output \<times> 'fs \<times> file_changed_event list)" where
  "apply_patch_call ops em approval fs arguments =
     (case approval of
        Some (Inl e) \<Rightarrow> Inl (ApprovalRefused e)
      | _ \<Rightarrow>
     (case (case arguments of PatchText t \<Rightarrow> Some t | PatchObject t \<Rightarrow> t) of
        None \<Rightarrow> Inl InvalidArguments
      | Some patch \<Rightarrow>
          (case parse_patch patch of
             Inl error \<Rightarrow> Inr (NotParsed error, fs, [])
           | Inr plan \<Rightarrow> Inr (apply_actions ops em fs (pp_actions plan) delta_empty []))))"

section \<open>Only the files of the plan are touched\<close>

lemma fs_result_cases:
  assumes "fs_result r d = (res, fs')"
  obtains (failed) e where "r = (Inl e, fs')" "res = Inl (FileSystem e)" | (succeeded) "r = (Inr (), fs')" "res = Inr d"
  using assms by (cases r; cases "fst r") (auto simp: fs_result_def)

lemma apply_action_frame:
  assumes "fs_laws ops view" "apply_action ops fs a d = (res, fs')" "l \<notin> loc ` set (target_paths a)"
  shows "view fs' l = view fs l"
proof (cases a)
  case (UpdateFile path hunks)
  then show ?thesis using assms
    by (auto simp: fs_laws_def split: sum.splits elim!: fs_result_cases)
next
  case (AddFile path content)
  then show ?thesis using assms by (auto simp: fs_laws_def split: if_splits elim!: fs_result_cases)
next
  case (DeleteFile path)
  then show ?thesis using assms by (auto simp: fs_laws_def split: if_splits elim!: fs_result_cases)
next
  case (MoveFile src dst)
  then show ?thesis using assms by (auto simp: fs_laws_def split: if_splits elim!: fs_result_cases)
qed

lemma apply_actions_frame:
  "fs_laws ops view \<Longrightarrow> apply_actions ops em fs as d ev = (out, fs', ev') \<Longrightarrow>
   l \<notin> loc ` (\<Union>a\<in>set as. set (target_paths a)) \<Longrightarrow> view fs' l = view fs l"
proof (induction as arbitrary: fs d ev)
  case (Cons a as)
  obtain res fs1 where a: "apply_action ops fs a d = (res, fs1)" by (cases "apply_action ops fs a d")
  have "view fs1 l = view fs l" by (rule apply_action_frame [OF Cons.prems(1) a]) (use Cons.prems(3) in auto)
  moreover have "view fs' l = view fs1 l"
  proof (cases res)
    case (Inr d1)
    show ?thesis by (rule Cons.IH [OF Cons.prems(1)]) (use Cons.prems a Inr in auto)
  qed (use Cons.prems a in simp)
  ultimately show ?case by simp
qed simp


definition patch_of :: "patch_arguments \<Rightarrow> ustring option" where
  "patch_of arguments = (case arguments of PatchText t \<Rightarrow> Some t | PatchObject t \<Rightarrow> t)"

lemma apply_patch_call_cases:
  assumes "apply_patch_call ops em approval fs arguments = Inr (out, fs', ev)"
  obtains (not_parsed) t e where "patch_of arguments = Some t" "parse_patch t = (Inl e :: patch_parse_error + 'v patch_plan)"
      "out = (NotParsed e :: 'v patch_output)" "fs' = fs" "ev = []"
  | (parsed) t plan where "patch_of arguments = Some t" "parse_patch t = (Inr plan :: patch_parse_error + 'v patch_plan)"
      "apply_actions ops em fs (pp_actions plan) delta_empty [] = (out, fs', ev)"
  using assms by (auto simp: apply_patch_call_def patch_of_def split: option.splits sum.splits)


section \<open>The account of what was committed\<close>

text \<open>A run of actions that all succeeded.\<close>

inductive commits :: "'fs rooted_fs \<Rightarrow> 'fs \<Rightarrow> 'v committed_patch_delta \<Rightarrow> 'v patch_action list \<Rightarrow> 'fs \<Rightarrow> 'v committed_patch_delta \<Rightarrow> bool"
  for ops where
  none: "commits ops fs d [] fs d"
| one: "\<lbrakk>apply_action ops fs a d = (Inr d1, fs1); commits ops fs1 d1 as fs2 d2\<rbrakk> \<Longrightarrow> commits ops fs d (a # as) fs2 d2"

inductive_cases commits_ConsE: "commits ops fs d (a # as) fs2 d2"

lemma apply_action_delta:
  assumes "apply_action ops fs a d = (Inr d1, fs1)"
  shows "cd_applied_files d1 = foldl push_new (cd_applied_files d) (target_paths a)"
    "cd_lines_added d \<le> cd_lines_added d1" "cd_lines_removed d \<le> cd_lines_removed d1"
proof -
  from assms have "cd_applied_files d1 = foldl push_new (cd_applied_files d) (target_paths a)
      \<and> cd_lines_added d \<le> cd_lines_added d1 \<and> cd_lines_removed d \<le> cd_lines_removed d1"
    by (cases a) (auto simp: append_delta_def committed_patch_delta_new_def split: if_splits sum.splits elim!: fs_result_cases)
  then show "cd_applied_files d1 = foldl push_new (cd_applied_files d) (target_paths a)"
    "cd_lines_added d \<le> cd_lines_added d1" "cd_lines_removed d \<le> cd_lines_removed d1" by simp_all
qed

lemma commits_files:
  "commits ops fs d as fs2 d2 \<Longrightarrow>
   cd_applied_files d2 = foldl (\<lambda>files a. foldl push_new files (target_paths a)) (cd_applied_files d) as"
  by (induction rule: commits.induct) (simp_all add: apply_action_delta(1))

lemma commits_mono: "commits ops fs d as fs2 d2 \<Longrightarrow> cd_lines_added d \<le> cd_lines_added d2"
  by (induction rule: commits.induct) (auto dest: apply_action_delta(2))

lemma unat_as_u64: "n < 2 ^ 64 \<Longrightarrow> unat (as_u64 n) = n"
  by (simp add: as_u64_def unat_of_nat)

text \<open>A call is a run of committed actions, then the end or one failing action.\<close>

definition ends_as :: "'fs rooted_fs \<Rightarrow> 'fs \<Rightarrow> 'v committed_patch_delta \<Rightarrow> 'v patch_action list \<Rightarrow> 'v patch_output \<Rightarrow> 'fs \<Rightarrow> bool" where
  "ends_as ops fs1 d rest out fs' \<longleftrightarrow>
     (case out of
        NotParsed _ \<Rightarrow> False
      | AppliedAll d' \<Rightarrow> d' = d \<and> rest = [] \<and> fs' = fs1
      | StoppedAt d' e \<Rightarrow> d' = d \<and> rest \<noteq> [] \<and> apply_action ops fs1 (hd rest) d = (Inl e, fs'))"

lemma apply_actions_run:
  "apply_actions ops True fs as d ev = (out, fs', ev') \<Longrightarrow>
   \<exists>run rest fs1 d1 ev1. as = run @ rest \<and> commits ops fs d run fs1 d1 \<and> ends_as ops fs1 d1 rest out fs'
     \<and> ev' = ev @ ev1 \<and> map fe_change ev1 = map file_change_of run
     \<and> (cd_lines_added d1 < 2 ^ 64 \<longrightarrow> cd_lines_added d1 = cd_lines_added d + sum_list (map (unat \<circ> fe_lines_added) ev1))"
proof (induction as arbitrary: fs d ev)
  case Nil
  then show ?case by (intro exI [of _ "[]"] exI [of _ fs] exI [of _ d]) (auto simp: ends_as_def intro: commits.none)
next
  case (Cons a as)
  obtain res fs1 where a: "apply_action ops fs a d = (res, fs1)" by (cases "apply_action ops fs a d")
  show ?case
  proof (cases res)
    case (Inl e)
    then show ?thesis using Cons.prems a
      by (intro exI [of _ "[]"] exI [of _ "a # as"] exI [of _ fs] exI [of _ d]) (auto simp: ends_as_def intro: commits.none)
  next
    case (Inr d1)
    let ?e = "record_change True a d d1"
    have "apply_actions ops True fs1 as d1 (ev @ ?e) = (out, fs', ev')" using Cons.prems a Inr by simp
    from Cons.IH [OF this] obtain run rest fs2 d2 ev1 where
      r: "as = run @ rest" "commits ops fs1 d1 run fs2 d2" "ends_as ops fs2 d2 rest out fs'" "ev' = (ev @ ?e) @ ev1"
        "map fe_change ev1 = map file_change_of run"
        "cd_lines_added d2 < 2 ^ 64 \<longrightarrow> cd_lines_added d2 = cd_lines_added d1 + sum_list (map (unat \<circ> fe_lines_added) ev1)"
      by blast
    have le: "cd_lines_added d \<le> cd_lines_added d1" "cd_lines_added d1 \<le> cd_lines_added d2"
      using apply_action_delta(2) a Inr commits_mono [OF r(2)] by auto
    have "commits ops fs d (a # run) fs2 d2" using a Inr r(2) by (simp add: commits.one)
    moreover have "cd_lines_added d2 < 2 ^ 64 \<longrightarrow> cd_lines_added d2 = cd_lines_added d + sum_list (map (unat \<circ> fe_lines_added) (?e @ ev1))"
      using r(6) le unat_as_u64 [of "cd_lines_added d1 - cd_lines_added d"] by (auto simp: record_change_def)
    moreover have "map fe_change (?e @ ev1) = map file_change_of (a # run)" using r(5) by (simp add: record_change_def)
    moreover have "a # as = (a # run) @ rest" "ev' = ev @ (?e @ ev1)" using r(1,4) by simp_all
    ultimately show ?thesis using r(3) by blast
  qed
qed



section \<open>Witnesses\<close>

text \<open>A file system held in memory.\<close>

definition memory_fs :: "(location \<Rightarrow> ustring option) rooted_fs" where
  "memory_fs = \<lparr> rf_exists = (\<lambda>fs p. fs (loc p) \<noteq> None),
     rf_open_read = (\<lambda>fs p. case fs (loc p) of None \<Rightarrow> Inl (FsError []) | Some t \<Rightarrow> Inr (Some t)),
     rf_create_new_file = (\<lambda>fs p c. (Inr (), fs(loc p \<mapsto> c))),
     rf_replace_file = (\<lambda>fs p c. (Inr (), fs(loc p \<mapsto> c))),
     rf_remove_file = (\<lambda>fs p. (Inr (), fs(loc p := None))),
     rf_rename = (\<lambda>fs p q. (Inr (), fs(loc p := None, loc q := fs (loc p)))) \<rparr>"

lemma memory_fs_laws: "fs_laws memory_fs (\<lambda>fs. fs)"
  by (auto simp: fs_laws_def memory_fs_def split: option.splits)

definition demo_patch :: ustring where
  "demo_patch = lit ''*** Begin Patch'' @ [10] @ lit ''*** Delete File: a'' @ [10] @ lit ''*** Add File: b'' @ [10] @ lit ''+x'' @ [10]
     @ lit ''*** End Patch'' @ [10]"

lemma demo_patch_parses:
  "parse_patch demo_patch = Inr (patch_plan_new [DeleteFile (lit ''a''), AddFile (lit ''b'') (lit ''x'' @ [10])] :: unit patch_plan)"
proof -
  have "str_lines demo_patch = [lit ''*** Begin Patch'', lit ''*** Delete File: a'', lit ''*** Add File: b'', lit ''+x'', lit ''*** End Patch'']"
    by code_simp
  then show ?thesis
    by (simp add: parse_patch_def parse_actions.simps parse_section_def add_content.simps parse_path_def is_absolute_def
        path_components_def part_component_def starts_with_def str_simps)
qed

definition demo_files :: "location \<Rightarrow> ustring option" where
  "demo_files = [loc (lit ''a'') \<mapsto> lit ''old'']"

lemma demo_call_result:
  "\<exists>d ev. apply_patch_call memory_fs True None demo_files (PatchText demo_patch)
     = Inr (AppliedAll d :: unit patch_output, demo_files(loc (lit ''a'') := None, loc (lit ''b'') \<mapsto> lit ''x'' @ [10]), ev)"
proof -
  have "loc (lit ''a'') = [lit ''a'']" "loc (lit ''b'') = [lit ''b'']" by code_simp+
  then show ?thesis
    by (simp add: apply_patch_call_def demo_patch_parses patch_plan_new_def memory_fs_def demo_files_def fs_result_def)
qed



end
