(* ===== verification/Patch_Print.thy ===== *)
theory Patch_Print
  imports Patch_Parse
begin

text \<open>
  The canonical V4A text of a plan, and that the parser reads it back: every plan the format can
  express is accepted and parsed to itself.
\<close>

section \<open>The canonical text\<close>

definition hunk_headers :: "ustring list \<Rightarrow> ustring list" where
  "hunk_headers anchors = (if anchors = [] then [lit ''@@''] else map (\<lambda>a. lit ''@@ '' @ a) anchors)"

definition print_hunk :: "'v patch_hunk \<Rightarrow> ustring list" where
  "print_hunk h = hunk_headers (ph_context_anchors h) @ map ((#) 32) (ph_context_before h)
     @ map ((#) 45) (ph_removed_lines h) @ map ((#) 43) (ph_added_lines h) @ map ((#) 32) (ph_context_after h)
     @ (if ph_end_of_file h then [lit ''*** End of File''] else [])"

definition content_lines :: "ustring \<Rightarrow> ustring list" where
  "content_lines content = split_char 10 (butlast content)"

fun print_action :: "'v patch_action \<Rightarrow> ustring list" where
  "print_action (UpdateFile path hunks) = (lit ''*** Update File: '' @ path) # concat (map print_hunk hunks)"
| "print_action (AddFile path content) = (lit ''*** Add File: '' @ path) # map ((#) 43) (content_lines content)"
| "print_action (DeleteFile path) = [lit ''*** Delete File: '' @ path]"
| "print_action (MoveFile src dst) = [lit ''*** Update File: '' @ src, lit ''*** Move to: '' @ dst]"

definition print_lines :: "'v patch_action list \<Rightarrow> ustring list" where
  "print_lines actions = lit ''*** Begin Patch'' # concat (map print_action actions) @ [lit ''*** End Patch'']"

definition print_patch :: "'v patch_action list \<Rightarrow> ustring" where
  "print_patch actions = concat (map (\<lambda>l. l @ [10]) (print_lines actions))"

section \<open>What the format can express\<close>

definition line_text :: "ustring \<Rightarrow> bool" where
  "line_text s \<longleftrightarrow> 10 \<notin> set s \<and> 13 \<notin> set s"

definition label_text :: "ustring \<Rightarrow> bool" where
  "label_text s \<longleftrightarrow> line_text s \<and> s \<noteq> [] \<and> trim s = s"

text \<open>A context line must not look like a marker or a header once trimmed.\<close>

definition context_text :: "ustring \<Rightarrow> bool" where
  "context_text s \<longleftrightarrow> line_text s \<and> \<not> starts_marker (32 # s) \<and> \<not> starts_header (32 # s)"

definition hunk_printable :: "'v patch_hunk \<Rightarrow> bool" where
  "hunk_printable h \<longleftrightarrow> hunk_ok h
     \<and> list_all label_text (ph_context_anchors h) \<and> list_all context_text (ph_context_before h)
     \<and> list_all line_text (ph_removed_lines h) \<and> list_all line_text (ph_added_lines h)
     \<and> list_all context_text (ph_context_after h)
     \<and> h = (if ph_end_of_file h then with_end_of_file else id)
           (build_hunk (ph_context_before h) (ph_removed_lines h) (ph_added_lines h) (ph_context_after h) (ph_context_anchors h))"

definition path_printable :: "ustring \<Rightarrow> bool" where
  "path_printable p \<longleftrightarrow> label_text p \<and> path_ok p"

fun action_printable :: "'v patch_action \<Rightarrow> bool" where
  "action_printable (UpdateFile path hunks) \<longleftrightarrow> path_printable path \<and> hunks \<noteq> [] \<and> list_all hunk_printable hunks"
| "action_printable (AddFile path content) \<longleftrightarrow> path_printable path \<and> content \<noteq> [] \<and> last content = 10 \<and> 13 \<notin> set content"
| "action_printable (DeleteFile path) \<longleftrightarrow> path_printable path"
| "action_printable (MoveFile src dst) \<longleftrightarrow> path_printable src \<and> path_printable dst"

section \<open>Reading lines\<close>

lemma starts_marker_nonspace: "\<not> is_whitespace k \<Longrightarrow> k \<noteq> 42 \<Longrightarrow> \<not> starts_marker (k # t)"
  by (simp add: trim_start_def trim_start_matches_def starts_with_def lit_def)

lemma trim_nonspace:
  assumes "\<not> is_whitespace k"
  shows "\<exists>t'. trim (k # t) = k # t'"
proof -
  have "\<exists>t'. trim_end (k # t) = k # t'"
    using assms by (simp add: trim_end_def trim_end_matches_Cons)
  then show ?thesis using assms by (auto simp: trim_def trim_start_def trim_start_matches_def)
qed

lemma starts_header_nonspace: "\<not> is_whitespace k \<Longrightarrow> k \<noteq> 64 \<Longrightarrow> \<not> starts_header (k # t)"
  using trim_nonspace [of k t] by (auto simp: starts_with_def lit_def)

lemma change_line_plain:
  "\<not> starts_marker (45 # t)" "\<not> starts_header (45 # t)" "\<not> starts_marker (43 # t)" "\<not> starts_header (43 # t)"
  by (simp_all add: starts_marker_nonspace starts_header_nonspace is_whitespace_def)

text \<open>Prefixing a label keeps it trimmed.\<close>

lemma trim_end_append: "trim_end t \<noteq> [] \<Longrightarrow> trim_end (s @ t) = s @ trim_end t"
  by (induction s) (simp_all add: trim_end_def trim_end_matches_Cons)

lemma trimmed_end: "trim s = s \<Longrightarrow> trim_end s = s"
  by (metis trim_def trim_end_def trim_end_matches_idem trim_matches_commute trim_start_def)

lemma trim_prefixed:
  assumes "label_text p" "pre \<noteq> []" "\<not> is_whitespace (hd pre)"
  shows "trim (pre @ p) = pre @ p"
proof -
  have "trim_end p = p" "p \<noteq> []" using assms(1) trimmed_end by (auto simp: label_text_def)
  then have "trim_end (pre @ p) = pre @ p" by (simp add: trim_end_append)
  then show ?thesis
    using assms(2,3) by (cases pre) (simp_all add: trim_def trim_start_def trim_start_matches_def)
qed

lemma trim_space_label: "label_text p \<Longrightarrow> trim (32 # p) = p"
proof -
  assume p: "label_text p"
  then have "trim_end p = p" "p \<noteq> []" using trimmed_end by (auto simp: label_text_def)
  then have "trim_end (32 # p) = 32 # p" using trim_end_append [of p "[32]"] by simp
  moreover have "trim_start p = p" using p \<open>trim_end p = p\<close> by (simp add: label_text_def trim_def)
  ultimately show ?thesis
    by (simp add: trim_def trim_start_def trim_start_matches_def is_whitespace_def)
qed

section \<open>Reading hunks\<close>

lemma hunk_lines_step:
  assumes "drop c lines = l # r" "r \<noteq> []" "\<not> starts_marker l" "\<not> starts_header l" "hunk_line c l b = Inr b'"
  shows "hunk_lines lines c b = hunk_lines lines (Suc c) b'"
  using assms drop_step [OF assms(1)] by (subst hunk_lines.simps) simp

lemma hunk_lines_before:
  assumes "list_all context_text ts" "\<not> hb_saw_change b" "rest \<noteq> []" "drop c lines = map ((#) 32) ts @ rest"
  shows "hunk_lines lines c b = hunk_lines lines (c + length ts) (b\<lparr>hb_before := hb_before b @ ts\<rparr>)"
  using assms
proof (induction ts arbitrary: c b)
  case (Cons t ts)
  have "hunk_lines lines c b = hunk_lines lines (Suc c) (b\<lparr>hb_before := hb_before b @ [t]\<rparr>)"
    by (rule hunk_lines_step [where l = "32 # t" and r = "map ((#) 32) ts @ rest"]) (use Cons.prems in \<open>auto simp: context_text_def hunk_line_def\<close>)
  then show ?case
    using Cons.IH [of "b\<lparr>hb_before := hb_before b @ [t]\<rparr>" "Suc c"] Cons.prems drop_step(2) [of c lines] by simp
qed simp

lemma hunk_lines_after:
  assumes "list_all context_text ts" "hb_saw_change b" "rest \<noteq> []" "drop c lines = map ((#) 32) ts @ rest"
  shows "hunk_lines lines c b = hunk_lines lines (c + length ts) (b\<lparr>hb_after := hb_after b @ ts\<rparr>)"
  using assms
proof (induction ts arbitrary: c b)
  case (Cons t ts)
  have "hunk_lines lines c b = hunk_lines lines (Suc c) (b\<lparr>hb_after := hb_after b @ [t]\<rparr>)"
    by (rule hunk_lines_step [where l = "32 # t" and r = "map ((#) 32) ts @ rest"]) (use Cons.prems in \<open>auto simp: context_text_def hunk_line_def\<close>)
  then show ?case
    using Cons.IH [of "b\<lparr>hb_after := hb_after b @ [t]\<rparr>" "Suc c"] Cons.prems drop_step(2) [of c lines] by simp
qed simp

lemma hunk_lines_removed:
  assumes "hb_after b = []" "rest \<noteq> []" "drop c lines = map ((#) 45) ts @ rest"
  shows "hunk_lines lines c b = hunk_lines lines (c + length ts)
           (b\<lparr>hb_removed := hb_removed b @ ts, hb_saw_change := hb_saw_change b \<or> ts \<noteq> []\<rparr>)"
  using assms
proof (induction ts arbitrary: c b)
  case (Cons t ts)
  let ?b = "b\<lparr>hb_removed := hb_removed b @ [t], hb_saw_change := True\<rparr>"
  have "hunk_lines lines c b = hunk_lines lines (Suc c) ?b"
    by (rule hunk_lines_step [where l = "45 # t" and r = "map ((#) 45) ts @ rest"])
      (use Cons.prems in \<open>auto simp: change_line_plain hunk_line_def close_before_change_def Let_def\<close>)
  then show ?case
    using Cons.IH [of ?b "Suc c"] Cons.prems drop_step(2) [of c lines] by simp
qed simp

lemma hunk_lines_added:
  assumes "hb_after b = []" "rest \<noteq> []" "drop c lines = map ((#) 43) ts @ rest"
  shows "hunk_lines lines c b = hunk_lines lines (c + length ts)
           (b\<lparr>hb_added := hb_added b @ ts, hb_saw_change := hb_saw_change b \<or> ts \<noteq> []\<rparr>)"
  using assms
proof (induction ts arbitrary: c b)
  case (Cons t ts)
  let ?b = "b\<lparr>hb_added := hb_added b @ [t], hb_saw_change := True\<rparr>"
  have "hunk_lines lines c b = hunk_lines lines (Suc c) ?b"
    by (rule hunk_lines_step [where l = "43 # t" and r = "map ((#) 43) ts @ rest"])
      (use Cons.prems in \<open>auto simp: change_line_plain hunk_line_def close_before_change_def Let_def\<close>)
  then show ?case
    using Cons.IH [of ?b "Suc c"] Cons.prems drop_step(2) [of c lines] by simp
qed simp

text \<open>The whole body of a hunk.\<close>

lemma hunk_body:
  assumes "drop c lines = map ((#) 32) bef @ map ((#) 45) rem @ map ((#) 43) add @ map ((#) 32) aft @ rest"
    and "rest \<noteq> []" "list_all context_text bef" "list_all context_text aft" "rem \<noteq> [] \<or> add \<noteq> []"
    and "starts_marker (hd rest) \<or> starts_header (hd rest)"
  shows "hunk_lines lines c (hunk_builder_new anchors) =
    Inr (\<lparr> hb_before = bef, hb_removed = rem, hb_added = add, hb_after = aft, hb_saw_change = True,
           hb_anchors = anchors, hb_result = [] \<rparr>, c + length bef + length rem + length add + length aft)"
proof -
  let ?c1 = "c + length bef" let ?c2 = "?c1 + length rem" let ?c3 = "?c2 + length add" let ?c4 = "?c3 + length aft"
  have d1: "drop ?c1 lines = map ((#) 45) rem @ map ((#) 43) add @ map ((#) 32) aft @ rest"
    using drop_append_run [OF assms(1)] by simp
  have d2: "drop ?c2 lines = map ((#) 43) add @ map ((#) 32) aft @ rest"
    using drop_append_run [OF d1] by simp
  have d3: "drop ?c3 lines = map ((#) 32) aft @ rest" using drop_append_run [OF d2] by simp
  have d4: "drop ?c4 lines = rest" using drop_append_run [OF d3] by simp
  obtain x xs where x: "rest = x # xs" using assms(2) by (cases rest) auto
  have "\<not> (?c4 + 1 < length lines \<and> \<not> starts_marker (lines ! ?c4) \<and> \<not> starts_header (lines ! ?c4))"
    using assms(6) drop_step(1) [OF d4 [unfolded x]] x by auto
  then have stop: "hunk_lines lines ?c4 b = Inr (b, ?c4)" for b :: "'a hunk_builder"
    by (subst hunk_lines.simps) (simp only: if_False)
  let ?B = "\<lambda>b r a f saw. \<lparr> hb_before = b, hb_removed = r, hb_added = a, hb_after = f, hb_saw_change = saw,
           hb_anchors = anchors, hb_result = [] \<rparr> :: 'a hunk_builder"
  have "hunk_lines lines c (hunk_builder_new anchors) = hunk_lines lines ?c1 (?B bef [] [] [] False)"
    using hunk_lines_before [OF assms(3) _ _ assms(1), of "hunk_builder_new anchors"] assms(2)
    by (simp add: hunk_builder_new_def)
  also have "\<dots> = hunk_lines lines ?c2 (?B bef rem [] [] (rem \<noteq> []))"
    using hunk_lines_removed [OF _ _ d1, of "?B bef [] [] [] False"] assms(2) by simp
  also have "\<dots> = hunk_lines lines ?c3 (?B bef rem add [] True)"
    using hunk_lines_added [OF _ _ d2, of "?B bef rem [] [] (rem \<noteq> [])"] assms(2,5) by simp
  also have "\<dots> = hunk_lines lines ?c4 (?B bef rem add aft True)"
    using hunk_lines_after [OF assms(4) _ _ d3, of "?B bef rem add [] True"] assms(2) by simp
  finally show ?thesis by (simp add: stop)
qed


text \<open>The headers.\<close>

lemma header_line:
  assumes "label_text a"
  shows "trim (lit ''@@ '' @ a) = lit ''@@'' @ 32 # a" "trim (32 # a) = a"
proof -
  have "trim (lit ''@@ '' @ a) = lit ''@@ '' @ a"
    by (rule trim_prefixed [OF assms]) (simp_all add: lit_def is_whitespace_def)
  then show "trim (lit ''@@ '' @ a) = lit ''@@'' @ 32 # a" by (simp add: lit_def)
qed (rule trim_space_label [OF assms])

lemma parse_headers_anchors:
  assumes "list_all label_text (a # as)" "drop c lines = map (\<lambda>a. lit ''@@ '' @ a) (a # as) @ rest"
    and "rest \<noteq> []" "\<not> starts_header (hd rest)"
  shows "parse_headers lines c acc = Inr (acc @ a # as, c + length (a # as))"
  using assms
proof (induction as arbitrary: a c acc)
  case Nil
  obtain x xs where x: "rest = x # xs" using Nil.prems(3) by (cases rest) auto
  have "lines ! c = lit ''@@ '' @ a" "lines ! Suc c = x"
    using drop_step(1) [of c lines] drop_step(2) [of c lines] drop_step(1) [of "Suc c" lines] Nil.prems(2) x by simp_all
  moreover have "a \<noteq> []" using Nil.prems(1) by (simp add: label_text_def)
  ultimately show ?case
    using Nil.prems(1,4) x by (subst parse_headers.simps) (simp add: header_line Let_def)
next
  case (Cons b as)
  let ?r = "map (\<lambda>a. lit ''@@ '' @ a) (b # as) @ rest"
  have d: "drop c lines = (lit ''@@ '' @ a) # ?r" using Cons.prems(2) by simp
  note s = drop_step [OF d]
  have nxt: "lines ! Suc c = lit ''@@ '' @ b" using drop_step(1) [of "Suc c" lines] s(2) by simp
  have len: "\<not> length lines \<le> Suc (Suc c)" using s(3) Cons.prems(3) by (cases rest) simp_all
  have a: "label_text a" "label_text b" "a \<noteq> []" using Cons.prems(1) by (simp_all add: label_text_def)
  have "parse_headers lines c acc = parse_headers lines (Suc c) (acc @ [a])"
    using s(1) nxt len a by (subst parse_headers.simps) (simp add: header_line Let_def starts_with_def)
  also have "\<dots> = Inr ((acc @ [a]) @ b # as, Suc c + length (b # as))"
    by (rule Cons.IH) (use Cons.prems s(2) in simp_all)
  finally show ?case by simp
qed

lemma parse_headers_bare:
  assumes "drop c lines = lit ''@@'' # rest" "rest \<noteq> []" "\<not> starts_header (hd rest)"
  shows "parse_headers lines c acc = Inr (acc, Suc c)"
proof -
  obtain x xs where x: "rest = x # xs" using assms(2) by (cases rest) auto
  have "lines ! c = lit ''@@''" "lines ! Suc c = x"
    using drop_step(1,2) [OF assms(1)] drop_step(1) [of "Suc c" lines] x by simp_all
  moreover have "strip_prefix (lit ''@@'') (trim (lit ''@@'')) = Some []" "trim [] = []" by (simp_all add: str_simps)
  ultimately show ?thesis using assms(3) x by (subst parse_headers.simps) (simp add: Let_def)
qed

lemma parse_headers_print:
  assumes "list_all label_text as" "drop c lines = hunk_headers as @ rest" "rest \<noteq> []" "\<not> starts_header (hd rest)"
  shows "parse_headers lines c [] = Inr (as, c + length (hunk_headers as))"
proof (cases as)
  case Nil
  then show ?thesis using parse_headers_bare [of c lines rest] assms by (simp add: hunk_headers_def)
next
  case (Cons a as')
  then show ?thesis using parse_headers_anchors [of a as' c lines rest "[]"] assms by (simp add: hunk_headers_def)
qed

text \<open>One printed hunk.\<close>

definition end_marker :: "ustring" where "end_marker = lit ''*** End of File''"

lemma end_marker_starts: "starts_marker end_marker" "trim end_marker = end_marker"
  by (simp_all add: end_marker_def str_simps starts_with_def)

lemma body_first_line:
  assumes "list_all context_text bef" "rem \<noteq> [] \<or> add \<noteq> []"
  shows "\<not> starts_header (hd (map ((#) 32) bef @ map ((#) 45) rem @ map ((#) 43) add @ rest))"
proof (cases bef)
  case Nil
  then show ?thesis using assms(2) by (cases rem; cases add) (simp_all add: change_line_plain)
next
  case (Cons x xs)
  then show ?thesis using assms(1) by (simp add: context_text_def)
qed

lemma ends_with_marker:
  assumes "drop c lines = (if eof then [end_marker] else []) @ rest" "rest \<noteq> []" "trim (hd rest) \<noteq> end_marker"
  shows "(c + 1 < length lines \<and> trim (lines ! c) = end_marker) = eof"
proof -
  obtain x xs where x: "rest = x # xs" using assms(2) by (cases rest) auto
  show ?thesis
  proof (cases eof)
    case True
    then show ?thesis using drop_step [of c lines end_marker rest] assms x end_marker_starts(2) by simp
  next
    case False
    then show ?thesis using drop_step [of c lines x xs] assms x by simp
  qed
qed

lemma parse_hunks_print:
  fixes h :: "'v patch_hunk"
  assumes "drop c lines = print_hunk h @ rest" "rest \<noteq> []" "hunk_printable h"
    and "starts_marker (hd rest) \<or> starts_header (hd rest)" "trim (hd rest) \<noteq> end_marker"
  shows "parse_hunks lines c = Inr ([h], c + length (print_hunk h))"
proof -
  let ?as = "ph_context_anchors h" let ?bef = "ph_context_before h" let ?rem = "ph_removed_lines h"
  let ?add = "ph_added_lines h" let ?aft = "ph_context_after h" let ?eof = "ph_end_of_file h"
  let ?stop = "(if ?eof then [end_marker] else []) @ rest"
  let ?body = "map ((#) 32) ?bef @ map ((#) 45) ?rem @ map ((#) 43) ?add @ map ((#) 32) ?aft @ ?stop"
  let ?c1 = "c + length (hunk_headers ?as)"
  let ?c2 = "?c1 + length ?bef + length ?rem + length ?add + length ?aft"
  have ok: "hunk_ok h" "list_all label_text ?as" "list_all context_text ?bef" "list_all context_text ?aft"
    and h: "h = (if ?eof then with_end_of_file else id) (build_hunk ?bef ?rem ?add ?aft ?as)"
    using assms(3) by (simp_all add: hunk_printable_def)
  have d: "drop c lines = hunk_headers ?as @ ?body" using assms(1) by (simp add: print_hunk_def end_marker_def)
  have d1: "drop ?c1 lines = ?body" using drop_append_run [OF d] by simp
  have d2: "drop ?c2 lines = ?stop"
    using drop_append_run [of ?c1 lines "map ((#) 32) ?bef @ map ((#) 45) ?rem @ map ((#) 43) ?add @ map ((#) 32) ?aft" ?stop] d1
    by (simp add: add.assoc)
  have chg: "?rem \<noteq> [] \<or> ?add \<noteq> []" using ok(1) by (simp add: hunk_ok_def)
  have hd_body: "\<not> starts_header (hd ?body)" by (rule body_first_line [OF ok(3) chg])
  have "parse_headers lines c [] = Inr (?as, ?c1)"
    by (rule parse_headers_print [OF ok(2) d _ hd_body]) (use assms(2) in simp)
  moreover have "hunk_lines lines ?c1 (hunk_builder_new ?as :: 'v hunk_builder) =
      Inr (\<lparr> hb_before = ?bef, hb_removed = ?rem, hb_added = ?add, hb_after = ?aft, hb_saw_change = True,
             hb_anchors = ?as, hb_result = [] \<rparr>, ?c2)"
    by (rule hunk_body [OF d1 _ ok(3,4) chg]) (use assms(2,4) end_marker_starts in auto)
  moreover have "(?c2 + 1 < length lines \<and> trim (lines ! ?c2) = end_marker) = ?eof"
    by (rule ends_with_marker [OF d2 assms(2,5)])
  moreover have "length (print_hunk h) = ?c2 - c + (if ?eof then 1 else 0)" by (simp add: print_hunk_def)
  ultimately show ?thesis using h [symmetric]
    by (cases ?eof) (simp_all add: parse_hunks_def Let_def end_marker_def)
qed

section \<open>Reading file sections\<close>

text \<open>A line that ends the section before it: any file marker, and the closing line.\<close>

definition section_start :: "ustring \<Rightarrow> bool" where
  "section_start l \<longleftrightarrow> starts_marker l \<and> trim l \<noteq> end_marker \<and> strip_prefix (lit ''*** Move to:'') (trim l) = None"

lemma print_hunk_first:
  assumes "hunk_printable h"
  obtains l r where "print_hunk h = l # r" "starts_header l" "\<not> starts_marker l" "trim l \<noteq> end_marker"
    "strip_prefix (lit ''*** Move to:'') (trim l) = None"
proof (cases "ph_context_anchors h")
  case Nil
  then have "print_hunk h = lit ''@@'' # tl (print_hunk h)" by (simp add: print_hunk_def hunk_headers_def)
  then show ?thesis using that by (auto simp: str_simps starts_with_def end_marker_def)
next
  case (Cons a as)
  then have l: "print_hunk h = (lit ''@@ '' @ a) # tl (print_hunk h)" by (simp add: print_hunk_def hunk_headers_def)
  have "label_text a" using assms Cons by (simp add: hunk_printable_def)
  then have "trim (lit ''@@ '' @ a) = lit ''@@'' @ 32 # a" by (rule header_line)
  moreover have "\<not> starts_marker (lit ''@@ '' @ a)" using starts_marker_nonspace [of 64] by (simp add: lit_def is_whitespace_def)
  ultimately show ?thesis using that [OF l] by (simp add: starts_with_def end_marker_def lit_def)
qed

lemma update_hunks_print:
  assumes "drop c lines = concat (map print_hunk hs) @ rest" "rest \<noteq> []" "list_all hunk_printable hs" "section_start (hd rest)"
  shows "update_hunks lines c acc = Inr (acc @ hs, c + length (concat (map print_hunk hs)))"
  using assms
proof (induction hs arbitrary: c acc)
  case Nil
  then obtain x xs where "rest = x # xs" by (cases rest) auto
  then have "starts_marker (lines ! c)" using Nil.prems drop_step(1) [of c lines] by (simp add: section_start_def)
  then show ?case by (subst update_hunks.simps) simp
next
  case (Cons h hs)
  let ?rest = "concat (map print_hunk hs) @ rest"
  have d: "drop c lines = print_hunk h @ ?rest" using Cons.prems(1) by simp
  have h: "hunk_printable h" "list_all hunk_printable hs" using Cons.prems(3) by simp_all
  obtain l r where l: "print_hunk h = l # r" "\<not> starts_marker l" using print_hunk_first [OF h(1)] .
  have next_ok: "(starts_marker (hd ?rest) \<or> starts_header (hd ?rest)) \<and> trim (hd ?rest) \<noteq> end_marker"
  proof (cases hs)
    case Nil
    then show ?thesis using Cons.prems(4) by (simp add: section_start_def)
  next
    case (Cons h' hs')
    then obtain l' r' where "print_hunk h' = l' # r'" "starts_header l'" "trim l' \<noteq> end_marker"
      using h(2) print_hunk_first [of h'] by simp metis
    then show ?thesis using Cons by simp
  qed
  have "parse_hunks lines c = Inr ([h], c + length (print_hunk h))"
    by (rule parse_hunks_print [OF d _ h(1)]) (use next_ok Cons.prems(2) in auto)
  moreover have "c + 1 < length lines" "lines ! c = l"
    using d l(1) Cons.prems(2) drop_step [of c lines l "r @ ?rest"] by (cases rest; simp)+
  ultimately have "update_hunks lines c acc = update_hunks lines (c + length (print_hunk h)) (acc @ [h])"
    using l(2) by (subst update_hunks.simps) simp
  also have "\<dots> = Inr ((acc @ [h]) @ hs, c + length (print_hunk h) + length (concat (map print_hunk hs)))"
    by (rule Cons.IH) (use drop_append_run [OF d] Cons.prems h in simp_all)
  finally show ?case by (simp add: add.assoc)
qed


text \<open>The lines of an added file.\<close>

lemma add_content_print:
  assumes "drop c lines = map ((#) 43) ts @ rest" "rest \<noteq> []" "starts_marker (hd rest)"
  shows "add_content lines c acc = Inr (acc @ concat (map (\<lambda>t. t @ [10]) ts), c + length ts)"
  using assms
proof (induction ts arbitrary: c acc)
  case Nil
  then obtain x xs where "rest = x # xs" by (cases rest) auto
  then have "starts_marker (lines ! c)" using Nil.prems drop_step(1) [of c lines] by simp
  then show ?case by (subst add_content.simps) simp
next
  case (Cons t ts)
  have d: "drop c lines = (43 # t) # map ((#) 43) ts @ rest" using Cons.prems(1) by simp
  note s = drop_step [OF d]
  have "c + 1 < length lines" using s(3) Cons.prems(2) by (cases rest) simp_all
  then have "add_content lines c acc = add_content lines (Suc c) (acc @ t @ [10])"
    using s(1) by (subst add_content.simps) (simp add: change_line_plain)
  also have "\<dots> = Inr ((acc @ t @ [10]) @ concat (map (\<lambda>t. t @ [10]) ts), Suc c + length ts)"
    by (rule Cons.IH) (use Cons.prems s(2) in simp_all)
  finally show ?case by simp
qed

lemma join_terminated: "ls \<noteq> [] \<Longrightarrow> concat (map (\<lambda>t. t @ [d]) ls) = join_str [d] ls @ [d]"
  by (induction "[d]" ls rule: join_str.induct) simp_all

lemma content_lines_terminated:
  assumes "content \<noteq> []" "last content = 10"
  shows "concat (map (\<lambda>t. t @ [10]) (content_lines content)) = content"
  using assms append_butlast_last_id [of content]
  by (simp add: join_terminated join_split_char content_lines_def)

lemma path_line:
  assumes "path_printable p" "pre \<noteq> []" "\<not> is_whitespace (hd pre)"
  shows "trim (pre @ [32] @ p) = pre @ [32] @ p" "parse_path (32 # p) n = Inr p"
proof -
  have p: "label_text p" "path_ok p" using assms(1) by (simp_all add: path_printable_def)
  show "trim (pre @ [32] @ p) = pre @ [32] @ p"
    using trim_prefixed [of p "pre @ [32]"] p(1) assms(2,3) by simp
  show "parse_path (32 # p) n = Inr p"
    using p by (auto simp: parse_path_def trim_space_label Let_def path_ok_def stays_below_def list_ex_iff)
qed

lemma marker_line:
  assumes "path_printable p"
  shows "trim (lit ''*** Add File: '' @ p) = lit ''*** Add File:'' @ 32 # p"
    "trim (lit ''*** Delete File: '' @ p) = lit ''*** Delete File:'' @ 32 # p"
    "trim (lit ''*** Update File: '' @ p) = lit ''*** Update File:'' @ 32 # p"
    "trim (lit ''*** Move to: '' @ p) = lit ''*** Move to:'' @ 32 # p"
    "parse_path (32 # p) n = Inr p"
  using path_line(1) [OF assms, of "lit ''*** Add File:''"] path_line(1) [OF assms, of "lit ''*** Delete File:''"]
    path_line(1) [OF assms, of "lit ''*** Update File:''"] path_line(1) [OF assms, of "lit ''*** Move to:''"]
    path_line(2) [OF assms, of "[64]" n]
  by (simp_all add: lit_def is_whitespace_def)


lemma other_markers:
  "strip_prefix (lit ''*** Add File:'') (lit ''*** Update File:'' @ s) = None"
  "strip_prefix (lit ''*** Add File:'') (lit ''*** Delete File:'' @ s) = None"
  "strip_prefix (lit ''*** Delete File:'') (lit ''*** Update File:'' @ s) = None"
  by (simp_all add: lit_def)

text \<open>One file section.\<close>

lemma print_action_first:
  assumes "action_printable a"
  shows "print_action a \<noteq> []" "section_start (hd (print_action a))"
proof -
  show "print_action a \<noteq> []" by (cases a) simp_all
  show "section_start (hd (print_action a))"
    using assms by (cases a) (simp_all add: section_start_def marker_line, simp_all add: lit_def starts_with_def
        trim_start_def trim_start_matches_def is_whitespace_def end_marker_def)
qed

lemma closing_line: "section_start (lit ''*** End Patch'')"
  by (simp add: section_start_def end_marker_def starts_with_def str_simps)

lemma section_rest_first:
  assumes "list_all action_printable as"
  shows "section_start (hd (concat (map print_action as) @ [lit ''*** End Patch'']))"
  using assms closing_line print_action_first by (cases as) (auto simp: hd_append)

lemma parse_section_update:
  assumes "path_printable p" "hs \<noteq> []" "list_all hunk_printable hs" "rest \<noteq> []" "section_start (hd rest)"
    and "drop c lines = print_action (UpdateFile p hs) @ rest"
  shows "parse_section lines c = Inr ([UpdateFile p hs], c + length (print_action (UpdateFile p hs)))"
proof -
  let ?hunks = "concat (map print_hunk hs)"
  have d: "drop c lines = (lit ''*** Update File: '' @ p) # ?hunks @ rest" using assms(6) by simp
  note s = drop_step [OF d]
  obtain h hs' where hs: "hs = h # hs'" using assms(2) by (cases hs) auto
  then obtain l r where l: "print_hunk h = l # r" "strip_prefix (lit ''*** Move to:'') (trim l) = None"
    using assms(3) print_hunk_first [of h] by simp metis
  have nxt: "lines ! Suc c = l" using s(2) hs l(1) drop_step(1) [of "Suc c" lines l] by simp
  have "update_hunks lines (Suc c) [] = Inr (hs, Suc c + length ?hunks)"
    using update_hunks_print [OF s(2) assms(4,3,5), of "[]"] by simp
  then show ?thesis using assms(1,2) s(1) nxt l(2)
    by (simp add: parse_section_def Let_def marker_line other_markers)
qed

lemma parse_section_move:
  assumes "path_printable p" "path_printable q" "rest \<noteq> []" "section_start (hd rest)"
    and "drop c lines = print_action (MoveFile p q :: 'v patch_action) @ rest"
  shows "parse_section lines c = Inr ([MoveFile p q :: 'v patch_action], c + 2)"
proof -
  have d: "drop c lines = (lit ''*** Update File: '' @ p) # (lit ''*** Move to: '' @ q) # rest" using assms(5) by simp
  note s = drop_step [OF d] and s' = drop_step [OF drop_step(2) [OF d]]
  have "Suc (Suc c) < length lines" using s(3) assms(3) by (cases rest) simp_all
  moreover have "update_hunks lines (Suc (Suc c)) ([] :: 'v patch_hunk list) = Inr ([], Suc (Suc c))"
    using update_hunks_print [of "Suc (Suc c)" lines "[] :: 'v patch_hunk list" rest "[]"] s'(2) assms(3,4) by simp
  ultimately show ?thesis using assms(1,2) s(1) s'(1)
    by (simp add: parse_section_def Let_def marker_line other_markers)
qed

lemma parse_section_add:
  assumes "path_printable p" "content \<noteq> []" "last content = 10" "rest \<noteq> []" "section_start (hd rest)"
    and "drop c lines = print_action (AddFile p content) @ rest"
  shows "parse_section lines c = Inr ([AddFile p content], c + length (print_action (AddFile p content)))"
proof -
  have d: "drop c lines = (lit ''*** Add File: '' @ p) # map ((#) 43) (content_lines content) @ rest" using assms(6) by simp
  note s = drop_step [OF d]
  have "add_content lines (Suc c) [] = Inr (content, Suc c + length (content_lines content))"
    using add_content_print [OF s(2) assms(4), of "[]"] assms(5) content_lines_terminated [OF assms(2,3)]
    by (simp add: section_start_def)
  then show ?thesis using assms(1,2) s(1) by (simp add: parse_section_def Let_def marker_line)
qed

lemma parse_section_print:
  assumes "action_printable a" "rest \<noteq> []" "section_start (hd rest)" "drop c lines = print_action a @ rest"
  shows "parse_section lines c = Inr ([a], c + length (print_action a))"
proof (cases a)
  case (UpdateFile p hs)
  then show ?thesis using parse_section_update [of p hs rest c lines] assms by simp
next
  case (AddFile p content)
  then show ?thesis using parse_section_add [of p content rest c lines] assms by simp
next
  case (DeleteFile p)
  then have "lines ! c = lit ''*** Delete File: '' @ p" using drop_step(1) [of c lines] assms(4) by simp
  then show ?thesis using DeleteFile assms(1)
    by (simp add: parse_section_def Let_def marker_line other_markers)
next
  case (MoveFile p q)
  then show ?thesis using parse_section_move [of p q rest c lines] assms by simp
qed

section \<open>Reading the whole text\<close>

lemma parse_actions_print:
  assumes "list_all action_printable as" "drop c lines = concat (map print_action as) @ [lit ''*** End Patch'']"
  shows "parse_actions lines c acc = Inr (acc @ as)"
  using assms
proof (induction as arbitrary: c acc)
  case Nil
  then have "length lines = Suc c" using drop_step(3) [of c lines] by simp
  then show ?case by (subst parse_actions.simps) simp
next
  case (Cons a as)
  let ?rest = "concat (map print_action as) @ [lit ''*** End Patch'']"
  have d: "drop c lines = print_action a @ ?rest" using Cons.prems(2) by simp
  have a: "action_printable a" "list_all action_printable as" using Cons.prems(1) by simp_all
  have "parse_section lines c = Inr ([a], c + length (print_action a))"
    by (rule parse_section_print [OF a(1) _ section_rest_first [OF a(2)] d]) simp
  moreover have "c + 1 < length lines"
  proof -
    obtain x xs where x: "print_action a = x # xs" using print_action_first(1) [OF a(1)] by (cases "print_action a") auto
    show ?thesis using drop_step(3) [of c lines x "xs @ ?rest"] d x by simp
  qed
  ultimately have "parse_actions lines c acc = parse_actions lines (c + length (print_action a)) (acc @ [a])"
    by (subst parse_actions.simps) simp
  also have "\<dots> = Inr ((acc @ [a]) @ as)" by (rule Cons.IH [OF a(2) drop_append_run [OF d]])
  finally show ?case by simp
qed

lemma split_inclusive_line: "d \<notin> set l \<Longrightarrow> split_inclusive d (l @ d # s) = (l @ [d]) # split_inclusive d s"
  by (induction l) auto

lemma str_lines_terminated: "list_all line_text ls \<Longrightarrow> str_lines (concat (map (\<lambda>l. l @ [10]) ls)) = ls"
proof (induction ls)
  case (Cons l ls)
  have "strip_suffix [13] l = None" using Cons.prems by (auto simp: strip_suffix_None_iff line_text_def)
  then have "strip_line_ending (l @ [10]) = l" by (simp add: strip_line_ending_def)
  then show ?case using Cons by (simp add: str_lines_def split_inclusive_line line_text_def)
qed (simp add: str_lines_def)

lemma split_char_subset: "l \<in> set (split_char d s) \<Longrightarrow> set l \<subseteq> set s"
  by (induction s arbitrary: l) (fastforce split: list.splits if_splits)+

lemma print_hunk_lines: "hunk_printable h \<Longrightarrow> list_all line_text (print_hunk h)"
  by (auto simp: hunk_printable_def print_hunk_def hunk_headers_def list_all_iff line_text_def label_text_def
      context_text_def lit_def)

lemma content_lines_text: "13 \<notin> set content \<Longrightarrow> list_all line_text (map ((#) 43) (content_lines content))"
proof -
  assume c: "13 \<notin> set content"
  have "10 \<notin> set l \<and> 13 \<notin> set l" if l: "l \<in> set (content_lines content)" for l
  proof -
    have "set l \<subseteq> set (butlast content)"
      using l unfolding content_lines_def by (rule split_char_subset)
    then show ?thesis using l c split_char_no_sep in_set_butlastD by (fastforce simp: content_lines_def)
  qed
  then show ?thesis by (auto simp: list_all_iff line_text_def)
qed

lemma print_action_lines: "action_printable a \<Longrightarrow> list_all line_text (print_action a)"
  using print_hunk_lines content_lines_text
  by (cases a) (auto simp: list_all_iff path_printable_def label_text_def line_text_def lit_def)


lemma str_lines_print:
  assumes "list_all action_printable actions"
  shows "str_lines (print_patch actions) = print_lines actions"
proof -
  have "list_all line_text (print_lines actions)"
    using assms print_action_lines by (fastforce simp: print_lines_def list_all_iff line_text_def lit_def)
  then show ?thesis by (simp add: print_patch_def str_lines_terminated)
qed

lemma parse_patch_lines:
  assumes "list_all action_printable actions" "str_lines input = print_lines actions"
  shows "parse_patch input = Inr (patch_plan_new actions)"
proof -
  have "trim (lit ''*** Begin Patch'') = lit ''*** Begin Patch''" "trim (lit ''*** End Patch'') = lit ''*** End Patch''"
    by (simp_all add: str_simps)
  moreover have "parse_actions (print_lines actions) 1 [] = Inr actions"
    using parse_actions_print [OF assms(1), of 1 "print_lines actions" "[]"] by (simp add: print_lines_def)
  ultimately show ?thesis using assms(2) by (simp add: parse_patch_def Let_def print_lines_def)
qed

text \<open>
  C25. Every plan the format can express is expressible and read back exactly: parsing the canonical
  text of a list of actions gives the plan of those actions, so the parser neither loses nor invents
  a path, a context line, an anchor, a change or an end-of-file mark.
\<close>

theorem parse_print_round_trip:
  assumes "list_all action_printable actions"
  shows "parse_patch (print_patch actions) = Inr (patch_plan_new actions)"
  using assms by (simp add: parse_patch_lines str_lines_print)

text \<open>A plan with one action of every kind, for the witnesses.\<close>

definition sample_actions :: "unit patch_action list" where
  "sample_actions =
     [UpdateFile (lit ''a/b'') [with_end_of_file (build_hunk [lit ''x''] [lit ''y''] [lit ''z''] [] [lit ''f''])],
      AddFile (lit ''n'') [104, 105, 10], DeleteFile (lit ''d''), MoveFile (lit ''p'') (lit ''q'')]"

lemma sample_actions_printable: "list_all action_printable sample_actions"
  by (simp add: sample_actions_def path_printable_def label_text_def line_text_def path_ok_def hunk_printable_def
      hunk_ok_def context_text_def with_end_of_file_def build_hunk_def with_context_anchor_def with_context_after_def
      with_added_lines_def with_removed_lines_def with_context_before_def patch_hunk_new_def
      starts_with_def is_absolute_def stays_below_def path_components_def part_component_def str_simps)

theorem parse_print_round_trip_witness:
  "list_all action_printable sample_actions
   \<and> parse_patch (print_patch sample_actions) = Inr (patch_plan_new sample_actions)"
  using parse_print_round_trip [OF sample_actions_printable] sample_actions_printable by simp

lemma sample_patch_parses: "parse_patch (print_patch sample_actions) = Inr (patch_plan_new sample_actions)"
  by (simp add: parse_patch_lines str_lines_print sample_actions_printable)

theorem parsed_plan_is_safe_witness:
  "\<exists>plan :: unit patch_plan. parse_patch (print_patch sample_actions) = Inr plan \<and> lit ''a/b'' \<in> set (target_files plan)
     \<and> (\<exists>rest. resolve [lit ''w''] (lit ''a/b'') = [lit ''w''] @ rest) \<and> list_all action_ok (pp_actions plan)"
proof -
  let ?plan = "patch_plan_new sample_actions"
  have f: "lit ''a/b'' \<in> set (target_files ?plan)"
    by code_simp
  note safe = parsed_plan_is_safe [OF sample_patch_parses, of "[lit ''w'']"]
  have r: "\<exists>rest. resolve [lit ''w''] (lit ''a/b'') = [lit ''w''] @ rest"
    using bspec [OF conjunct1 [OF safe] f] by (elim conjE)
  show ?thesis
    by (rule exI [of _ ?plan], intro conjI) (rule sample_patch_parses f r conjunct2 [OF safe])+
qed

end
