(* ===== verification/Apply_Diff.thy ===== *)
theory Apply_Diff
  imports Patch_Match
begin

text \<open>
  The reference diff applier (\<^verbatim>\<open>ra-patch/src/apply_diff.rs\<close>): the sandbox tools' way of applying the
  body of one file operation. \<^verbatim>\<open>ParserState\<close> is a record; its cursor only moves forward, which bounds
  every loop by the number of diff lines. Positions are natural numbers (\<^verbatim>\<open>usize\<close> values that index
  lists in memory); the one subtraction of the code is shown not to underflow.
\<close>

datatype apply_diff_mode = Default | Create

datatype diff_error =
  InvalidAddFileLine ustring
| InvalidHunkStart ustring
| InvalidLine ustring
| InvalidAnchor nat ustring
| InvalidContext nat "ustring list"
| InvalidEofContext nat "ustring list"
| NothingInSection nat ustring
| ChunkPastEnd nat nat
| OverlappingChunk nat nat

definition END_PATCH :: ustring where "END_PATCH = lit ''*** End Patch''"
definition END_FILE :: ustring where "END_FILE = lit ''*** End of File''"

definition SECTION_TERMINATORS :: "ustring list" where
  "SECTION_TERMINATORS = [END_PATCH, lit ''*** Update File:'', lit ''*** Delete File:'', lit ''*** Add File:'']"

definition END_SECTION_MARKERS :: "ustring list" where
  "END_SECTION_MARKERS = [END_PATCH, lit ''*** Update File:'', lit ''*** Delete File:'', lit ''*** Add File:'', END_FILE]"

definition is_py_space :: "uchar \<Rightarrow> bool" where
  "is_py_space c \<longleftrightarrow> is_whitespace c \<or> 28 \<le> c \<and> c \<le> 31"

definition py_strip :: "ustring \<Rightarrow> ustring" where
  "py_strip s = trim_start_matches is_py_space (trim_end_matches is_py_space s)"

definition py_rstrip :: "ustring \<Rightarrow> ustring" where
  "py_rstrip s = trim_end_matches is_py_space s"

definition normalize_diff_lines :: "ustring \<Rightarrow> ustring list" where
  "normalize_diff_lines diff =
     (let lines = map (trim_end_matches (\<lambda>c. c = 13)) (split_char 10 diff)
      in if lines \<noteq> [] \<and> last lines = [] then butlast lines else lines)"

definition detect_newline_from_text :: "ustring \<Rightarrow> ustring" where
  "detect_newline_from_text s = (if contains_str [13, 10] s then [13, 10] else [10])"

definition detect_newline :: "ustring \<Rightarrow> ustring \<Rightarrow> apply_diff_mode \<Rightarrow> ustring" where
  "detect_newline input diff mode =
     (if mode \<noteq> Create \<and> 10 \<in> set input then detect_newline_from_text input else detect_newline_from_text diff)"

text \<open>\<^verbatim>\<open>str::replace("\r\n", "\n")\<close>.\<close>

fun replace_crlf :: "ustring \<Rightarrow> ustring" where
  "replace_crlf (c # d # s) = (if c = 13 \<and> d = 10 then 10 # replace_crlf s else c # replace_crlf (d # s))"
| "replace_crlf s = s"

section \<open>The diff's lines and a position in them\<close>

record parser_state =
  ps_lines :: "ustring list"
  ps_index :: nat

definition parser_new :: "ustring list \<Rightarrow> parser_state" where
  "parser_new lines = \<lparr> ps_lines = lines @ [END_PATCH], ps_index = 0 \<rparr>"

definition nth_line :: "ustring list \<Rightarrow> nat \<Rightarrow> ustring option" where
  "nth_line lines i = (if i < length lines then Some (lines ! i) else None)"

definition parser_current :: "parser_state \<Rightarrow> ustring option" where
  "parser_current p = nth_line (ps_lines p) (ps_index p)"

definition is_done :: "ustring list \<Rightarrow> parser_state \<Rightarrow> bool" where
  "is_done prefixes p =
     (case parser_current p of None \<Rightarrow> True | Some line \<Rightarrow> list_ex (\<lambda>prefix. starts_with prefix line) prefixes)"

definition read_str :: "ustring \<Rightarrow> parser_state \<Rightarrow> ustring \<times> parser_state" where
  "read_str prefix p =
     (case Option.bind (parser_current p) (strip_prefix prefix) of
        None \<Rightarrow> ([], p)
      | Some rest \<Rightarrow> (rest, p\<lparr>ps_index := ps_index p + 1\<rparr>))"

lemma not_done_in_range: "\<not> is_done prefixes p \<Longrightarrow> ps_index p < length (ps_lines p)"
  by (auto simp: is_done_def parser_current_def nth_line_def split: if_splits)

section \<open>Created files\<close>

function (sequential) create_loop :: "parser_state \<Rightarrow> ustring list \<Rightarrow> diff_error + ustring list" where
  "create_loop p output =
     (if is_done SECTION_TERMINATORS p then Inr output
      else let line = ps_lines p ! ps_index p; p = p\<lparr>ps_index := ps_index p + 1\<rparr>
           in case strip_prefix [43] line of
                None \<Rightarrow> Inl (InvalidAddFileLine line)
              | Some content \<Rightarrow> create_loop p (output @ [content]))"
  by pat_completeness auto
termination
  by (relation "measure (\<lambda>(p, _). length (ps_lines p) - ps_index p)") (auto dest: not_done_in_range)

declare create_loop.simps [simp del]

definition parse_create_diff :: "ustring list \<Rightarrow> ustring \<Rightarrow> diff_error + ustring" where
  "parse_create_diff lines newline =
     result_bind (create_loop (parser_new lines) []) (\<lambda>output. Inr (join_str newline output))"

section \<open>Hunks\<close>

record chunk =
  orig_index :: nat
  del_lines :: "ustring list"
  ins_lines :: "ustring list"

text \<open>One turn of the header loop: a header with a name, or a bare marker.\<close>

definition read_header :: "parser_state \<Rightarrow> (ustring \<times> parser_state) option" where
  "read_header p =
     (let start_index = ps_index p; (anchor, p) = read_str (lit ''@@ '') p
      in if ps_index p \<noteq> start_index then Some (anchor, p)
         else if parser_current p = Some (lit ''@@'') then Some (anchor, p\<lparr>ps_index := ps_index p + 1\<rparr>)
         else None)"

lemma read_header_progress:
  "read_header p = Some (a, p') \<Longrightarrow> ps_lines p' = ps_lines p \<and> ps_index p' = Suc (ps_index p) \<and> ps_index p < length (ps_lines p)"
  by (auto simp: read_header_def read_str_def parser_current_def nth_line_def Let_def
      split: option.splits if_splits prod.splits bind_splits)

function (sequential) read_anchors_loop :: "parser_state \<Rightarrow> ustring list \<Rightarrow> nat \<Rightarrow> (ustring list \<times> nat) \<times> parser_state" where
  "read_anchors_loop p anchors anchor_count =
     (case read_header p of
        None \<Rightarrow> ((anchors, anchor_count), p)
      | Some (anchor, p') \<Rightarrow>
          read_anchors_loop p' (if py_strip anchor \<noteq> [] then anchors @ [anchor] else anchors) (anchor_count + 1))"
  by pat_completeness auto
termination
  by (relation "measure (\<lambda>(p, _, _). length (ps_lines p) - ps_index p)") (auto dest: read_header_progress)

declare read_anchors_loop.simps [simp del]

definition read_anchors :: "parser_state \<Rightarrow> (ustring list \<times> nat) \<times> parser_state" where
  "read_anchors p = read_anchors_loop p [] 0"

definition search_forward :: "ustring list \<Rightarrow> nat \<Rightarrow> (ustring \<Rightarrow> bool) \<Rightarrow> nat option" where
  "search_forward lines cursor matches = find (\<lambda>i. matches (lines ! i)) [cursor..<length lines]"

definition advance_cursor_to_anchor ::
  "ustring \<Rightarrow> ustring list \<Rightarrow> nat \<Rightarrow> bool \<Rightarrow> bool \<Rightarrow> diff_error + nat" where
  "advance_cursor_to_anchor anchor input_lines cursor require_match force_forward_search =
     (let before_cursor = take (min cursor (length input_lines)) input_lines;
          exact = (\<lambda>line. line = anchor);
          trimmed = (\<lambda>line. py_strip line = py_strip anchor)
      in if \<not> force_forward_search \<and> list_ex exact before_cursor then Inr cursor
         else case search_forward input_lines cursor exact of Some index \<Rightarrow> Inr (index + 1)
         | None \<Rightarrow>
            if \<not> force_forward_search \<and> list_ex trimmed before_cursor then Inr cursor
            else case search_forward input_lines cursor trimmed of Some index \<Rightarrow> Inr (index + 1)
            | None \<Rightarrow> if require_match then Inl (InvalidAnchor cursor anchor) else Inr cursor)"

record read_section_result =
  next_context :: "ustring list"
  section_chunks :: "chunk list"
  end_index :: nat
  eof :: bool

datatype line_mode = Keep | Add | Delete

record section_state =
  ss_context :: "ustring list"
  ss_del_lines :: "ustring list"
  ss_ins_lines :: "ustring list"
  ss_chunks :: "chunk list"
  ss_mode :: line_mode

definition section_new :: section_state where
  "section_new = \<lparr> ss_context = [], ss_del_lines = [], ss_ins_lines = [], ss_chunks = [], ss_mode = Keep \<rparr>"

definition section_stops :: "ustring \<Rightarrow> bool" where
  "section_stops raw \<longleftrightarrow> starts_with (lit ''@@'') raw \<or> starts_with END_PATCH raw
     \<or> starts_with (lit ''*** Update File:'') raw \<or> starts_with (lit ''*** Delete File:'') raw
     \<or> starts_with (lit ''*** Add File:'') raw \<or> starts_with END_FILE raw \<or> raw = lit ''***''"

text \<open>Pending changes become a chunk.\<close>

definition push_chunk :: "section_state \<Rightarrow> section_state" where
  "push_chunk st =
     (if ss_del_lines st \<noteq> [] \<or> ss_ins_lines st \<noteq> []
      then st\<lparr> ss_chunks := ss_chunks st @
                 [\<lparr> orig_index = length (ss_context st) - length (ss_del_lines st),
                    del_lines = ss_del_lines st, ins_lines = ss_ins_lines st \<rparr>],
               ss_del_lines := [], ss_ins_lines := [] \<rparr>
      else st)"

definition section_line :: "ustring \<Rightarrow> section_state \<Rightarrow> diff_error + section_state" where
  "section_line raw st =
     (let last_mode = ss_mode st; line = (if raw = [] then [32] else raw); txt = tl line
      in if hd line = 43 then
           Inr (st\<lparr>ss_mode := Add, ss_ins_lines := ss_ins_lines st @ [txt]\<rparr>)
         else if hd line = 45 then
           Inr (st\<lparr>ss_mode := Delete, ss_del_lines := ss_del_lines st @ [txt], ss_context := ss_context st @ [txt]\<rparr>)
         else if hd line = 32 then
           (let st = (if last_mode \<noteq> Keep then push_chunk st else st)
            in Inr (st\<lparr>ss_mode := Keep, ss_context := ss_context st @ [txt]\<rparr>))
         else Inl (InvalidLine line))"

function (sequential) section_loop :: "ustring list \<Rightarrow> nat \<Rightarrow> section_state \<Rightarrow> diff_error + (section_state \<times> nat)" where
  "section_loop lines index st =
     (if index < length lines
      then let raw = lines ! index
           in if section_stops raw then Inr (st, index)
              else if starts_with (lit ''***'') raw then Inl (InvalidLine raw)
              else (case section_line raw st of
                      Inl e \<Rightarrow> Inl e
                    | Inr st' \<Rightarrow> section_loop lines (index + 1) st')
      else Inr (st, index))"
  by pat_completeness auto
termination
  by (relation "measure (\<lambda>(lines, index, _). length lines - index)") auto

declare section_loop.simps [simp del]

definition read_section :: "ustring list \<Rightarrow> nat \<Rightarrow> diff_error + read_section_result" where
  "read_section lines start_index =
     (case section_loop lines start_index section_new of
        Inl e \<Rightarrow> Inl e
      | Inr (st, index) \<Rightarrow>
          let st = push_chunk st
          in if nth_line lines index = Some END_FILE
             then Inr \<lparr> next_context = ss_context st, section_chunks = ss_chunks st, end_index = index + 1, eof = True \<rparr>
             else if index = start_index
             then Inl (NothingInSection index (case nth_line lines index of None \<Rightarrow> [] | Some l \<Rightarrow> l))
             else Inr \<lparr> next_context = ss_context st, section_chunks = ss_chunks st, end_index = index, eof = False \<rparr>)"

definition equals_slice :: "ustring list \<Rightarrow> ustring list \<Rightarrow> nat \<Rightarrow> (ustring \<Rightarrow> ustring) \<Rightarrow> bool" where
  "equals_slice src target start f \<longleftrightarrow> start + length target \<le> length src
     \<and> list_all (\<lambda>(s, t). f s = f t) (zip (take (length target) (drop start src)) target)"

definition find_context_core :: "ustring list \<Rightarrow> ustring list \<Rightarrow> nat \<Rightarrow> nat option" where
  "find_context_core lines ctx start =
     (if ctx = [] then Some start
      else let at = (\<lambda>f. find (\<lambda>index. equals_slice lines ctx index f) [start..<length lines])
           in case at (\<lambda>v. v) of Some index \<Rightarrow> Some index | None \<Rightarrow>
              (case at py_rstrip of Some index \<Rightarrow> Some index | None \<Rightarrow> at py_strip))"

definition find_context :: "ustring list \<Rightarrow> ustring list \<Rightarrow> nat \<Rightarrow> bool \<Rightarrow> nat option" where
  "find_context lines ctx start at_end =
     (if \<not> at_end then find_context_core lines ctx start
      else let search_lines = (if lines \<noteq> [] \<and> last lines = [] then butlast lines else lines);
               end_start = length search_lines - length ctx
           in case find_context_core search_lines ctx end_start of
                Some index \<Rightarrow> Some index
              | None \<Rightarrow> find_context_core search_lines ctx (min start (length search_lines)))"

section \<open>Updates\<close>

text \<open>The headers narrow the search one after the other.\<close>

fun advance_all :: "ustring list \<Rightarrow> bool \<Rightarrow> nat \<Rightarrow> ustring list \<Rightarrow> nat \<Rightarrow> diff_error + nat" where
  "advance_all input_lines require i [] cursor = Inr cursor"
| "advance_all input_lines require i (anchor # anchors) cursor =
     result_bind (advance_cursor_to_anchor anchor input_lines cursor require (i > 0))
       (advance_all input_lines require (i + 1) anchors)"

text \<open>One hunk: its headers, its lines, and where its context starts.\<close>

definition update_hunk ::
  "ustring list \<Rightarrow> parser_state \<Rightarrow> nat \<Rightarrow> diff_error + (chunk list \<times> nat \<times> parser_state)" where
  "update_hunk input_lines p cursor =
     (let ((anchors, anchor_count), p) = read_anchors p
      in if anchor_count = 0 \<and> cursor \<noteq> 0
         then Inl (InvalidHunkStart (case parser_current p of None \<Rightarrow> [] | Some l \<Rightarrow> l))
         else case advance_all input_lines (anchor_count > 1) 0 anchors cursor of
           Inl e \<Rightarrow> Inl e
         | Inr cursor \<Rightarrow>
        (case read_section (ps_lines p) (ps_index p) of
           Inl e \<Rightarrow> Inl e
         | Inr sec \<Rightarrow>
        (case find_context input_lines (next_context sec) cursor (eof sec) of
           None \<Rightarrow> Inl (if eof sec then InvalidEofContext cursor (next_context sec)
                        else InvalidContext cursor (next_context sec))
         | Some new_index \<Rightarrow>
             Inr (map (\<lambda>c. c\<lparr>orig_index := orig_index c + new_index\<rparr>) (section_chunks sec),
                  new_index + length (next_context sec), p\<lparr>ps_index := end_index sec\<rparr>))))"

lemma read_anchors_loop_progress:
  "read_anchors_loop p anchors n = (r, p') \<Longrightarrow> ps_lines p' = ps_lines p \<and> ps_index p \<le> ps_index p'"
proof (induction p anchors n rule: read_anchors_loop.induct)
  case (1 p anchors n)
  show ?case
  proof (cases "read_header p")
    case None
    then show ?thesis using "1.prems" by (subst (asm) read_anchors_loop.simps) simp
  next
    case (Some ap)
    then obtain a q where aq: "read_header p = Some (a, q)" by (cases ap) simp
    show ?thesis using "1.prems" "1.IH" [OF aq refl] read_header_progress [OF aq]
      by (subst (asm) read_anchors_loop.simps) (simp add: aq)
  qed
qed

lemma section_loop_progress: "section_loop lines i st = Inr (st', j) \<Longrightarrow> i \<le> j"
proof (induction lines i st rule: section_loop.induct)
  case (1 lines i st)
  from "1.prems" show ?case
    by (subst (asm) section_loop.simps) (auto simp: Let_def split: if_splits sum.splits dest!: "1.IH" [rotated 4])
qed

lemma read_section_progress: "read_section lines i = Inr sec \<Longrightarrow> i < end_index sec"
  by (auto simp: read_section_def Let_def split: sum.splits if_splits dest!: section_loop_progress)

lemma update_hunk_progress:
  "update_hunk input_lines p cursor = Inr (cs, c, p') \<Longrightarrow> ps_lines p' = ps_lines p \<and> ps_index p < ps_index p'"
  by (auto simp: update_hunk_def read_anchors_def Let_def split: sum.splits if_splits option.splits prod.splits
      dest!: read_anchors_loop_progress read_section_progress)

function (sequential) update_loop :: "ustring list \<Rightarrow> parser_state \<Rightarrow> nat \<Rightarrow> chunk list \<Rightarrow> diff_error + chunk list" where
  "update_loop input_lines p cursor chunks =
     (if is_done END_SECTION_MARKERS p then Inr chunks
      else case update_hunk input_lines p cursor of
             Inl e \<Rightarrow> Inl e
           | Inr (cs, cursor', p') \<Rightarrow> update_loop input_lines p' cursor' (chunks @ cs))"
  by pat_completeness auto
termination
  by (relation "measure (\<lambda>(_, p, _, _). length (ps_lines p) - ps_index p)")
    (auto dest!: update_hunk_progress not_done_in_range)

declare update_loop.simps [simp del]

definition parse_update_diff :: "ustring list \<Rightarrow> ustring \<Rightarrow> diff_error + chunk list" where
  "parse_update_diff lines input = update_loop (split_char 10 input) (parser_new lines) 0 []"

fun chunks_loop :: "ustring list \<Rightarrow> chunk list \<Rightarrow> ustring list \<Rightarrow> nat \<Rightarrow> diff_error + ustring list" where
  "chunks_loop orig_lines [] dest_lines cursor = Inr (dest_lines @ drop (min cursor (length orig_lines)) orig_lines)"
| "chunks_loop orig_lines (chunk # chunks) dest_lines cursor =
     (if length orig_lines < orig_index chunk then Inl (ChunkPastEnd (orig_index chunk) (length orig_lines))
      else if orig_index chunk < cursor then Inl (OverlappingChunk (orig_index chunk) cursor)
      else chunks_loop orig_lines chunks
             (dest_lines @ drop cursor (take (orig_index chunk) orig_lines) @ ins_lines chunk)
             (orig_index chunk + length (del_lines chunk)))"

definition apply_chunks :: "ustring \<Rightarrow> chunk list \<Rightarrow> ustring \<Rightarrow> diff_error + ustring" where
  "apply_chunks input chunks newline =
     result_bind (chunks_loop (split_char 10 input) chunks [] 0) (\<lambda>dest_lines. Inr (join_str newline dest_lines))"

definition apply_diff :: "ustring \<Rightarrow> ustring \<Rightarrow> apply_diff_mode \<Rightarrow> diff_error + ustring" where
  "apply_diff input diff mode =
     (let newline = detect_newline input diff mode; diff_lines = normalize_diff_lines diff
      in if mode = Create then parse_create_diff diff_lines newline
         else let normalized_input = replace_crlf input
              in result_bind (parse_update_diff diff_lines normalized_input)
                   (\<lambda>chunks. apply_chunks normalized_input chunks newline))"


section \<open>What a hunk says\<close>

text \<open>Two lines agree up to the loosest level of the search.\<close>

definition loosely :: "ustring \<Rightarrow> ustring \<Rightarrow> bool" where
  "loosely s t \<longleftrightarrow> py_strip s = py_strip t"

interpretation pr0: coarser_matcher "\<lambda>s. s" "\<lambda>s t. s = t" py_rstrip "\<lambda>s t. py_rstrip s = py_rstrip t"
  by unfold_locales simp_all

interpretation pr1: coarser_matcher py_rstrip "\<lambda>s t. py_rstrip s = py_rstrip t" py_strip loosely
  by unfold_locales (simp_all add: loosely_def py_strip_def py_rstrip_def trim_end_matches_idem)

text \<open>A block of lines stands at a position of a text, up to whitespace at the ends of lines.\<close>

definition stands_at :: "ustring list \<Rightarrow> nat \<Rightarrow> ustring list \<Rightarrow> bool" where
  "stands_at lines n block \<longleftrightarrow> n + length block \<le> length lines \<and> list_all2 loosely (take (length block) (drop n lines)) block"

lemma equals_slice_stands_at:
  assumes "equals_slice lines block n f" "\<And>s t. f s = f t \<Longrightarrow> loosely s t"
  shows "stands_at lines n block"
  using assms by (auto simp: equals_slice_def stands_at_def list_all2_iff list_all_iff)

lemma find_upt_range: "find P [a..<b] = Some n \<Longrightarrow> a \<le> n \<and> n < b \<and> P n"
  by (auto simp: find_Some_iff)

lemma find_context_core_found:
  assumes "find_context_core lines ctx start = Some n" "start \<le> length lines"
  shows "stands_at lines n ctx \<and> start \<le> n"
proof (cases "ctx = []")
  case True
  then show ?thesis using assms by (simp add: find_context_core_def stands_at_def)
next
  case False
  then obtain f where f: "f = (\<lambda>v. v) \<or> f = py_rstrip \<or> f = py_strip"
    and n: "find (\<lambda>index. equals_slice lines ctx index f) [start..<length lines] = Some n"
    using assms(1) by (auto simp: find_context_core_def Let_def split: option.splits)
  have "f s = f t \<Longrightarrow> loosely s t" for s t
    using f pr0.coarser [of s t] pr1.coarser [of s t] by (auto simp: loosely_def)
  then show ?thesis using find_upt_range [OF n] equals_slice_stands_at by blast
qed

lemma stands_at_append: "stands_at lines n block \<Longrightarrow> stands_at (lines @ rest) n block"
  by (simp add: stands_at_def)

lemma find_context_found:
  assumes "find_context lines ctx start at_end = Some n" "start \<le> length lines"
  shows "stands_at lines n ctx" "\<not> at_end \<Longrightarrow> start \<le> n"
proof -
  let ?sl = "if lines \<noteq> [] \<and> last lines = [] then butlast lines else lines"
  have "\<exists>rest. lines = ?sl @ rest" by (auto intro: append_butlast_last_id [symmetric])
  then obtain rest where rest: "lines = ?sl @ rest" ..
  have core: "find_context_core ?sl ctx m = Some n \<Longrightarrow> m \<le> length ?sl \<Longrightarrow> stands_at lines n ctx" for m
    by (subst rest) (intro stands_at_append conjunct1 [OF find_context_core_found])
  show "stands_at lines n ctx"
    using assms find_context_core_found core [of "length ?sl - length ctx"] core [of "min start (length ?sl)"]
    by (auto simp: find_context_def Let_def split: if_splits option.splits)
  show "start \<le> n" if "\<not> at_end"
    using assms that find_context_core_found by (simp add: find_context_def)
qed

text \<open>The position of a header stays within the text, and never moves backwards.\<close>

lemma advance_cursor_range:
  assumes "advance_cursor_to_anchor a lines cursor req force = Inr c" "cursor \<le> length lines"
  shows "cursor \<le> c \<and> c \<le> length lines"
  using assms by (auto simp: advance_cursor_to_anchor_def search_forward_def Let_def
      split: if_splits option.splits dest!: find_upt_range)

lemma advance_all_range:
  "advance_all lines req i as cursor = Inr c \<Longrightarrow> cursor \<le> length lines \<Longrightarrow> cursor \<le> c \<and> c \<le> length lines"
proof (induction as arbitrary: i cursor)
  case (Cons a as)
  then obtain c1 where "advance_cursor_to_anchor a lines cursor req (i > 0) = Inr c1" "advance_all lines req (i + 1) as c1 = Inr c"
    by (auto simp: result_bind_Inr_iff)
  then show ?case using Cons.IH Cons.prems(2) advance_cursor_range by (meson le_trans)
qed simp

section \<open>What a section says\<close>

text \<open>
  The changes of a section lie in its context, one after the other: \<open>chunks_in ctx from chunks\<close>.
\<close>

fun chunks_in :: "ustring list \<Rightarrow> nat \<Rightarrow> chunk list \<Rightarrow> nat \<Rightarrow> bool" where
  "chunks_in ctx lo [] hi \<longleftrightarrow> lo \<le> hi"
| "chunks_in ctx lo (c # cs) hi \<longleftrightarrow> lo \<le> orig_index c
     \<and> take (length (del_lines c)) (drop (orig_index c) ctx) = del_lines c
     \<and> orig_index c + length (del_lines c) \<le> length ctx
     \<and> chunks_in ctx (orig_index c + length (del_lines c)) cs hi"

lemma chunks_in_snoc:
  "chunks_in ctx lo (cs @ [c]) hi \<longleftrightarrow> chunks_in ctx lo cs (orig_index c)
     \<and> take (length (del_lines c)) (drop (orig_index c) ctx) = del_lines c
     \<and> orig_index c + length (del_lines c) \<le> length ctx \<and> orig_index c + length (del_lines c) \<le> hi"
  by (induction cs arbitrary: lo) auto

lemma chunks_in_extend: "chunks_in ctx lo cs hi \<Longrightarrow> hi \<le> hi' \<Longrightarrow> chunks_in (ctx @ rest) lo cs hi'"
  by (induction cs arbitrary: lo) auto

text \<open>The pending deletions are the last lines of the context, so the subtraction never underflows.\<close>

definition section_ok :: "section_state \<Rightarrow> bool" where
  "section_ok st \<longleftrightarrow> (\<exists>kept. ss_context st = kept @ ss_del_lines st \<and> chunks_in (ss_context st) 0 (ss_chunks st) (length kept))
     \<and> (ss_mode st = Keep \<longrightarrow> ss_del_lines st = [] \<and> ss_ins_lines st = [])"

lemma push_chunk_ok:
  assumes "section_ok st"
  shows "chunks_in (ss_context st) 0 (ss_chunks (push_chunk st)) (length (ss_context st))"
    "ss_context (push_chunk st) = ss_context st" "ss_del_lines (push_chunk st) = []" "ss_ins_lines (push_chunk st) = []"
  using assms by (auto simp: section_ok_def push_chunk_def chunks_in_snoc dest: chunks_in_extend [where rest = "[]"])

lemma section_line_ok:
  assumes "section_ok st" "section_line raw st = Inr st'"
  shows "section_ok st'"
proof -
  obtain kept where kept: "ss_context st = kept @ ss_del_lines st" "chunks_in (ss_context st) 0 (ss_chunks st) (length kept)"
    and mode: "ss_mode st = Keep \<longrightarrow> ss_del_lines st = [] \<and> ss_ins_lines st = []"
    using assms(1) by (auto simp: section_ok_def)
  let ?line = "if raw = [] then [32] else raw"
  note push = push_chunk_ok [OF assms(1)]
  have ext: "chunks_in (ss_context st @ [tl ?line]) 0 (ss_chunks st) (length kept)"
    using chunks_in_extend [OF kept(2) order_refl] .
  have ext': "chunks_in (ss_context st @ [tl ?line]) 0 (ss_chunks (push_chunk st)) (Suc (length (ss_context st)))"
    using chunks_in_extend [OF push(1)] by simp
  have ext2: "chunks_in (ss_context st @ [tl ?line]) 0 (ss_chunks st) (Suc (length (ss_context st)))"
    using chunks_in_extend [OF kept(2)] kept(1) by simp
  consider "hd ?line = 43" | "hd ?line = 45" | "hd ?line = 32" "ss_mode st = Keep" | "hd ?line = 32" "ss_mode st \<noteq> Keep"
    using assms(2) by (auto simp: section_line_def Let_def split: if_splits)
  then show ?thesis
  proof cases
    case 1
    then show ?thesis using assms(2) kept by (auto simp: section_line_def Let_def section_ok_def)
  next
    case 2
    then show ?thesis using assms(2) kept ext by (auto simp: section_line_def Let_def section_ok_def)
  next
    case 3
    then show ?thesis using assms(2) mode ext2 by (auto simp: section_line_def Let_def section_ok_def)
  next
    case 4
    then show ?thesis using assms(2) push ext' by (auto simp: section_line_def Let_def section_ok_def)
  qed
qed

lemma section_loop_ok: "section_loop lines i st = Inr (st', j) \<Longrightarrow> section_ok st \<Longrightarrow> section_ok st'"
proof (induction lines i st rule: section_loop.induct)
  case (1 lines i st)
  consider "st' = st" | st1 where "i < length lines" "\<not> section_stops (lines ! i)" "\<not> starts_with (lit ''***'') (lines ! i)"
      "section_line (lines ! i) st = Inr st1" "section_loop lines (i + 1) st1 = Inr (st', j)"
    using "1.prems"(1) by (subst (asm) section_loop.simps) (auto simp: Let_def split: if_splits sum.splits)
  then show ?case
  proof cases
    case 2
    then show ?thesis using "1.IH" [OF 2(1) refl 2(2-5)] section_line_ok [OF "1.prems"(2) 2(4)] by simp
  qed (use "1.prems"(2) in simp)
qed

lemma read_section_ok:
  assumes "read_section lines i = Inr sec"
  shows "chunks_in (next_context sec) 0 (section_chunks sec) (length (next_context sec))"
proof -
  from assms obtain st j where st: "section_loop lines i section_new = Inr (st, j)"
    and sec: "next_context sec = ss_context (push_chunk st)" "section_chunks sec = ss_chunks (push_chunk st)"
    by (auto simp: read_section_def Let_def split: sum.splits if_splits)
  have "section_ok st" by (rule section_loop_ok [OF st]) (simp add: section_ok_def section_new_def)
  then show ?thesis using push_chunk_ok by (simp add: sec)
qed


section \<open>What an update says\<close>

text \<open>A chunk fits a text when the lines it deletes stand at its position.\<close>

definition chunk_fits :: "ustring list \<Rightarrow> chunk \<Rightarrow> bool" where
  "chunk_fits lines c \<longleftrightarrow> stands_at lines (orig_index c) (del_lines c)"

lemma stands_at_sub:
  assumes "stands_at lines n ctx" "i + length block \<le> length ctx" "take (length block) (drop i ctx) = block"
  shows "stands_at lines (i + n) block"
proof -
  have "list_all2 loosely (take (length block) (drop i (take (length ctx) (drop n lines)))) (take (length block) (drop i ctx))"
    using assms(1) by (intro list_all2_takeI list_all2_dropI) (simp add: stands_at_def)
  moreover have "take (length block) (drop i (take (length ctx) (drop n lines))) = take (length block) (drop (i + n) lines)"
    using assms(2) by (simp add: drop_take min_def)
  ultimately show ?thesis using assms by (simp add: stands_at_def)
qed

lemma chunks_in_fits:
  "chunks_in ctx lo cs hi \<Longrightarrow> stands_at lines n ctx \<Longrightarrow> list_all (chunk_fits lines) (map (\<lambda>c. c\<lparr>orig_index := orig_index c + n\<rparr>) cs)"
  by (induction cs arbitrary: lo) (auto simp: chunk_fits_def intro: stands_at_sub)

text \<open>Chunks in the order of the text.\<close>

fun chunks_ordered :: "nat \<Rightarrow> chunk list \<Rightarrow> nat \<Rightarrow> bool" where
  "chunks_ordered lo [] hi \<longleftrightarrow> lo \<le> hi"
| "chunks_ordered lo (c # cs) hi \<longleftrightarrow> lo \<le> orig_index c \<and> chunks_ordered (orig_index c + length (del_lines c)) cs hi"

lemma chunks_ordered_append:
  "chunks_ordered lo cs mid \<Longrightarrow> chunks_ordered mid cs' hi \<Longrightarrow> chunks_ordered lo (cs @ cs') hi"
proof (induction cs arbitrary: lo)
  case Nil
  then show ?case by (cases cs') auto
qed auto

lemma chunks_in_ordered:
  "chunks_in ctx lo cs hi \<Longrightarrow> chunks_ordered (lo + n) (map (\<lambda>c. c\<lparr>orig_index := orig_index c + n\<rparr>) cs) (hi + n)"
proof (induction cs arbitrary: lo)
  case (Cons c cs)
  have "chunks_ordered (orig_index c + length (del_lines c) + n) (map (\<lambda>c. c\<lparr>orig_index := orig_index c + n\<rparr>) cs) (hi + n)"
    by (rule Cons.IH) (use Cons.prems in simp)
  moreover have "orig_index c + length (del_lines c) + n = orig_index c + n + length (del_lines c)" by simp
  ultimately show ?case using Cons.prems by simp
qed simp

lemma update_hunk_ok:
  assumes "update_hunk lines p cursor = Inr (cs, cursor', p')" "cursor \<le> length lines"
  shows "list_all (chunk_fits lines) cs" "cursor' \<le> length lines"
    "END_FILE \<notin> set (ps_lines p) \<Longrightarrow> chunks_ordered cursor cs cursor'"
proof -
  from assms(1) obtain p1 c1 sec n as k where r: "read_anchors p = ((as, k), p1)"
    and adv: "advance_all lines (k > 1) 0 as cursor = Inr c1"
    and sec: "read_section (ps_lines p1) (ps_index p1) = Inr sec"
    and n: "find_context lines (next_context sec) c1 (eof sec) = Some n"
    and res: "cs = map (\<lambda>c. c\<lparr>orig_index := orig_index c + n\<rparr>) (section_chunks sec)" "cursor' = n + length (next_context sec)"
    by (auto simp: update_hunk_def Let_def split: sum.splits if_splits option.splits prod.splits)
  note c1 = advance_all_range [OF adv assms(2)]
  note found = find_context_found [OF n conjunct2 [OF c1]] and inn = read_section_ok [OF sec]
  show "list_all (chunk_fits lines) cs" unfolding res by (rule chunks_in_fits [OF inn found(1)])
  show "cursor' \<le> length lines" using found(1) by (simp add: res stands_at_def)
  show "chunks_ordered cursor cs cursor'" if no_eof: "END_FILE \<notin> set (ps_lines p)"
  proof -
    have "ps_lines p1 = ps_lines p" using read_anchors_loop_progress r by (simp add: read_anchors_def)
    then have "\<not> eof sec"
      using sec no_eof nth_mem by (fastforce simp: read_section_def Let_def nth_line_def split: sum.splits if_splits)
    then have "cursor \<le> n" using found(2) c1 by simp
    then show ?thesis
      using chunks_ordered_append [of cursor "[]" n] chunks_in_ordered [OF inn, of n] by (simp add: res add.commute)
  qed
qed

lemma update_loop_turn:
  assumes "update_loop lines p cursor cs = Inr out"
  obtains (stop) "out = cs"
  | (turn) cs' cursor' p' where "\<not> is_done END_SECTION_MARKERS p" "update_hunk lines p cursor = Inr (cs', cursor', p')"
      "update_loop lines p' cursor' (cs @ cs') = Inr out"
  using assms by (subst (asm) update_loop.simps) (auto split: if_splits sum.splits)

lemma update_loop_fits:
  "update_loop lines p cursor cs = Inr out \<Longrightarrow> cursor \<le> length lines \<Longrightarrow> list_all (chunk_fits lines) cs \<Longrightarrow>
   list_all (chunk_fits lines) out"
proof (induction lines p cursor cs rule: update_loop.induct)
  case (1 lines p cursor cs)
  from "1.prems"(1) show ?case
  proof (cases rule: update_loop_turn)
    case (turn cs' cursor' p')
    show ?thesis using "1.IH" [OF turn(1,2) refl refl turn(3)] update_hunk_ok(1,2) [OF turn(2)] "1.prems" by simp
  qed (use "1.prems" in simp)
qed

lemma update_loop_ordered:
  "update_loop lines p cursor cs = Inr out \<Longrightarrow> cursor \<le> length lines \<Longrightarrow> END_FILE \<notin> set (ps_lines p) \<Longrightarrow>
   chunks_ordered 0 cs cursor \<Longrightarrow> \<exists>hi. chunks_ordered 0 out hi"
proof (induction lines p cursor cs rule: update_loop.induct)
  case (1 lines p cursor cs)
  from "1.prems"(1) show ?case
  proof (cases rule: update_loop_turn)
    case (turn cs' cursor' p')
    have "ps_lines p' = ps_lines p" using update_hunk_progress [OF turn(2)] by simp
    moreover have "chunks_ordered 0 (cs @ cs') cursor'"
      using chunks_ordered_append "1.prems"(4) update_hunk_ok(3) [OF turn(2)] "1.prems"(2,3) by blast
    ultimately show ?thesis
      using "1.IH" [OF turn(1,2) refl refl turn(3)] update_hunk_ok(2) [OF turn(2)] "1.prems" by simp
  qed (use "1.prems" in blast)
qed

lemma parse_update_diff_fits:
  "parse_update_diff ls input = Inr chunks \<Longrightarrow> list_all (chunk_fits (split_char 10 input)) chunks"
  unfolding parse_update_diff_def by (erule update_loop_fits) simp_all


section \<open>The result\<close>

text \<open>An edit of a text: lines kept, then lines replaced by new ones.\<close>

type_synonym edit = "ustring list \<times> ustring list \<times> ustring list"

definition before_edits :: "edit list \<Rightarrow> ustring list" where
  "before_edits es = concat (map (\<lambda>(kept, old, new). kept @ old) es)"

definition after_edits :: "edit list \<Rightarrow> ustring list" where
  "after_edits es = concat (map (\<lambda>(kept, old, new). kept @ new) es)"

definition edit_of :: "edit \<Rightarrow> chunk \<Rightarrow> bool" where
  "edit_of e c \<longleftrightarrow> (case e of (kept, old, new) \<Rightarrow> new = ins_lines c \<and> list_all2 loosely old (del_lines c))"

lemma drop_split: "a \<le> b \<Longrightarrow> b \<le> length xs \<Longrightarrow> drop a xs = drop a (take b xs) @ drop b xs"
  by (metis append_take_drop_id diff_is_0_eq drop_0 drop_append length_take min.absorb2)

lemma chunks_loop_edits:
  assumes "list_all (chunk_fits orig) cs" "chunks_loop orig cs dest cursor = Inr out" "cursor \<le> length orig"
  shows "\<exists>es tail. drop cursor orig = before_edits es @ tail \<and> out = dest @ after_edits es @ tail \<and> list_all2 edit_of es cs"
  using assms
proof (induction cs arbitrary: dest cursor)
  case Nil
  then show ?case by (intro exI [of _ "[]"] exI [of _ "drop cursor orig"]) (simp add: before_edits_def after_edits_def min_def)
next
  case (Cons c cs)
  let ?kept = "drop cursor (take (orig_index c) orig)" let ?stop = "orig_index c + length (del_lines c)"
  let ?old = "take (length (del_lines c)) (drop (orig_index c) orig)"
  have c: "?stop \<le> length orig" "list_all2 loosely ?old (del_lines c)" "cursor \<le> orig_index c"
    using Cons.prems by (auto simp: chunk_fits_def stands_at_def split: if_splits)
  have "chunks_loop orig cs (dest @ ?kept @ ins_lines c) ?stop = Inr out"
    using Cons.prems(2) by (simp split: if_splits)
  from Cons.IH [OF _ this] Cons.prems(1) c(1) obtain es tail where
    es: "drop ?stop orig = before_edits es @ tail" "out = (dest @ ?kept @ ins_lines c) @ after_edits es @ tail" "list_all2 edit_of es cs"
    by auto
  have "drop cursor orig = ?kept @ drop (orig_index c) orig" using c by (intro drop_split) simp_all
  also have "drop (orig_index c) orig = ?old @ drop ?stop orig"
    by (metis add.commute append_take_drop_id drop_drop)
  finally show ?case
    using es c(2) by (intro exI [of _ "(?kept, ?old, ins_lines c) # es"] exI [of _ tail])
      (simp add: before_edits_def after_edits_def, simp add: edit_of_def)
qed

lemma chunks_loop_ordered:
  "chunks_ordered cursor cs hi \<Longrightarrow> list_all (chunk_fits orig) cs \<Longrightarrow> \<exists>out. chunks_loop orig cs dest cursor = Inr out"
  by (induction cs arbitrary: cursor dest) (auto simp: chunk_fits_def stands_at_def)

lemma apply_update_unfold:
  "apply_diff input diff Default = Inr out \<longleftrightarrow>
     (\<exists>chunks ls. parse_update_diff (normalize_diff_lines diff) (replace_crlf input) = Inr chunks
        \<and> chunks_loop (split_char 10 (replace_crlf input)) chunks [] 0 = Inr ls
        \<and> out = join_str (detect_newline input diff Default) ls)"
  by (auto simp: apply_diff_def Let_def apply_chunks_def result_bind_Inr_iff)

text \<open>
  C17. Applying an update only does what the diff says. On success the text splits into runs of kept
  lines and replaced blocks, one block per change of the diff in order: the lines replaced are those
  the diff deletes (up to whitespace at the ends of lines, the loosest level of the search), they are
  replaced by exactly the lines the diff inserts, and every other line is kept as it is and in order.
\<close>

theorem update_replaces_only_matched_lines:
  assumes "apply_diff input diff Default = Inr out"
  shows "\<exists>chunks edits tail. parse_update_diff (normalize_diff_lines diff) (replace_crlf input) = Inr chunks
    \<and> split_char 10 (replace_crlf input) = before_edits edits @ tail
    \<and> out = join_str (detect_newline input diff Default) (after_edits edits @ tail)
    \<and> list_all2 edit_of edits chunks"
proof -
  from assms obtain chunks ls where c: "parse_update_diff (normalize_diff_lines diff) (replace_crlf input) = Inr chunks"
    "chunks_loop (split_char 10 (replace_crlf input)) chunks [] 0 = Inr ls" "out = join_str (detect_newline input diff Default) ls"
    by (auto simp: apply_update_unfold)
  from chunks_loop_edits [OF parse_update_diff_fits [OF c(1)] c(2)] c(1,3) show ?thesis by auto
qed

definition sample_input :: ustring where "sample_input = lit ''a'' @ [10] @ lit ''b '' @ [10] @ lit ''c''"
definition sample_diff :: ustring where
  "sample_diff = lit ''@@'' @ [10] @ lit '' a'' @ [10] @ lit ''-b'' @ [10] @ lit ''+x'' @ [10]"

lemma sample_update: "apply_diff sample_input sample_diff Default = Inr (lit ''a'' @ [10] @ lit ''x'' @ [10] @ lit ''c'')"
  by code_simp

lemma sample_chunks:
  "parse_update_diff (normalize_diff_lines sample_diff) (replace_crlf sample_input)
   = Inr [\<lparr> orig_index = 1, del_lines = [lit ''b''], ins_lines = [lit ''x''] \<rparr>]"
  by code_simp

theorem update_replaces_only_matched_lines_witness:
  "\<exists>edits tail. split_char 10 (replace_crlf sample_input) = before_edits edits @ tail
     \<and> lit ''a'' @ [10] @ lit ''x'' @ [10] @ lit ''c'' = join_str [10] (after_edits edits @ tail)
     \<and> list_all2 edit_of edits [\<lparr> orig_index = 1, del_lines = [lit ''b''], ins_lines = [lit ''x''] \<rparr>]"
proof -
  have "detect_newline sample_input sample_diff Default = [10]" by code_simp
  then show ?thesis
    using update_replaces_only_matched_lines [OF sample_update] sample_chunks by auto
qed

text \<open>
  C30. Hunks are placed one after the other: unless the diff marks a hunk as ending the file, an update
  whose hunks are all found can always be applied, so the overlap and out-of-range errors of
  the last phase cannot occur.
\<close>

theorem update_without_eof_never_overlaps:
  assumes "parse_update_diff (normalize_diff_lines diff) (replace_crlf input) = Inr chunks"
    and "END_FILE \<notin> set (normalize_diff_lines diff)"
  shows "\<exists>out. apply_diff input diff Default = Inr out"
proof -
  have "END_FILE \<noteq> END_PATCH" by (simp add: END_FILE_def END_PATCH_def)
  then obtain hi where "chunks_ordered 0 chunks hi"
    using update_loop_ordered [OF assms(1) [unfolded parse_update_diff_def]] assms(2) by (auto simp: parser_new_def)
  then show ?thesis
    using chunks_loop_ordered [OF _ parse_update_diff_fits [OF assms(1)]] assms(1) by (fastforce simp: apply_update_unfold)
qed

theorem update_without_eof_never_overlaps_witness: "\<exists>out. apply_diff sample_input sample_diff Default = Inr out"
proof (rule update_without_eof_never_overlaps [OF sample_chunks])
  show "END_FILE \<notin> set (normalize_diff_lines sample_diff)" by code_simp
qed

section \<open>Created files round trip\<close>

lemma create_loop_lines:
  assumes "drop (ps_index p) (ps_lines p) = map ((#) 43) ls @ [END_PATCH]"
  shows "create_loop p acc = Inr (acc @ ls)"
  using assms
proof (induction ls arbitrary: p acc)
  case Nil
  then have "is_done SECTION_TERMINATORS p"
    using drop_step(1) [of "ps_index p" "ps_lines p"]
    by (simp add: is_done_def parser_current_def nth_line_def SECTION_TERMINATORS_def starts_with_def END_PATCH_def lit_def)
  then show ?case by (subst create_loop.simps) simp
next
  case (Cons l ls)
  have d: "drop (ps_index p) (ps_lines p) = (43 # l) # map ((#) 43) ls @ [END_PATCH]" using Cons.prems by simp
  note s = drop_step [OF d]
  have "\<not> is_done SECTION_TERMINATORS p"
    using s by (simp add: is_done_def parser_current_def nth_line_def SECTION_TERMINATORS_def starts_with_def END_PATCH_def lit_def)
  then have "create_loop p acc = create_loop (p\<lparr>ps_index := ps_index p + 1\<rparr>) (acc @ [l])"
    using s(1) by (subst create_loop.simps) (simp add: Let_def)
  also have "\<dots> = Inr ((acc @ [l]) @ ls)" by (rule Cons.IH) (use s(2) in simp)
  finally show ?case by simp
qed

lemma split_added_lines:
  "list_all (\<lambda>l. 10 \<notin> set l \<and> 13 \<notin> set l) ls \<Longrightarrow>
   split_char 10 (concat (map (\<lambda>l. 43 # l @ [10]) ls)) = map ((#) 43) ls @ [[]]"
  using split_char_line [of 10 "43 # l" for l] by (induction ls) simp_all

text \<open>
  C38. A created file is written as it was meant: the diff that prefixes every line with a plus sign
  gives back those lines, whatever text was there before.
\<close>

theorem create_round_trip:
  assumes "list_all (\<lambda>l. 10 \<notin> set l \<and> 13 \<notin> set l) ls"
  shows "apply_diff input (concat (map (\<lambda>l. 43 # l @ [10]) ls)) Create = Inr (join_str [10] ls)"
proof -
  let ?diff = "concat (map (\<lambda>l. 43 # l @ [10]) ls)"
  have "trim_end_matches (\<lambda>c. c = 13) l = l" if "13 \<notin> set l" for l :: ustring
    using that by (cases l rule: rev_cases) (simp_all add: trim_end_matches_def)
  then have "map (trim_end_matches (\<lambda>c. c = 13)) (map ((#) 43) ls) = map ((#) 43) ls"
    using assms by (auto simp: list_all_iff)
  then have "normalize_diff_lines ?diff = map ((#) 43) ls"
    by (simp add: normalize_diff_lines_def split_added_lines [OF assms] trim_end_matches_def)
  moreover have "13 \<notin> set ?diff" using assms by (auto simp: list_all_iff)
  then have "\<not> contains_str [13, 10] ?diff" using contains_str_set by fastforce
  ultimately show ?thesis
    using create_loop_lines [of "parser_new (map ((#) 43) ls)" ls "[]"]
    by (simp add: apply_diff_def detect_newline_def detect_newline_from_text_def parse_create_diff_def parser_new_def Let_def)
qed

theorem create_round_trip_witness:
  "apply_diff [] (concat (map (\<lambda>l. 43 # l @ [10]) [lit ''a'', [], lit ''b''])) Create = Inr (lit ''a'' @ [10, 10] @ lit ''b'')"
  using create_round_trip [of "[lit ''a'', [], lit ''b'']" "[]"] by (simp add: lit_def)

end
