(* ===== verification/Absolute_Path.thy ===== *)
theory Absolute_Path
  imports Unix_Path
begin

text \<open>
  \<^verbatim>\<open>AbsolutePathBuf\<close> (\<^verbatim>\<open>ra-paths/src/absolute_path.rs\<close>) on Unix: home expansion, resolution against a base
  and lexical normalization. The process environment (current directory, home directory, the
  thread's deserialization base) is a record argument. Canonicalization, which reads the file
  system, is not modelled.
\<close>

record path_env =
  pe_current_dir :: "ustring option"
  pe_home_dir :: "ustring option"
  pe_home_override :: "ustring option"
  pe_base :: "ustring option"

datatype path_error = CurrentDirUnavailable | PathNotAbsolute | MissingBase

type_synonym absolute_path = ustring

definition home_directory :: "path_env \<Rightarrow> ustring option" where
  "home_directory env = (case pe_home_override env of Some h \<Rightarrow> Some h | None \<Rightarrow> pe_home_dir env)"

definition expand_home_directory :: "path_env \<Rightarrow> ustring \<Rightarrow> ustring" where
  "expand_home_directory env p =
     (case strip_prefix [126] p of
        None \<Rightarrow> p
      | Some rest \<Rightarrow>
          (case home_directory env of
             None \<Rightarrow> p
           | Some home \<Rightarrow>
               if rest = [] then home
               else (case strip_prefix [47] rest of
                       Some rest \<Rightarrow> path_join home (trim_start_matches (\<lambda>c. c = 47) rest)
                     | None \<Rightarrow> p)))"

text \<open>The Windows device prefixes do not exist on this platform.\<close>

definition normalize_path_for_platform :: "ustring \<Rightarrow> ustring" where
  "normalize_path_for_platform p = p"

fun component_text :: "path_component \<Rightarrow> ustring" where
  "component_text RootDir = [47]"
| "component_text CurDir = [46]"
| "component_text ParentDir = [46, 46]"
| "component_text (Normal n) = n"

text \<open>A path of given components; paths are equal when their components are.\<close>

fun render_components :: "path_component list \<Rightarrow> ustring" where
  "render_components (RootDir # cs) = 47 # join_str [47] (map component_text cs)"
| "render_components cs = join_str [47] (map component_text cs)"

text \<open>\<^verbatim>\<open>Path::parent\<close> and \<^verbatim>\<open>PathBuf::pop\<close>.\<close>

definition path_parent :: "ustring \<Rightarrow> ustring option" where
  "path_parent p = (let cs = path_components p
     in if cs = [] \<or> last cs = RootDir then None else Some (render_components (butlast cs)))"

definition path_pop :: "ustring \<Rightarrow> ustring" where
  "path_pop p = (case path_parent p of None \<Rightarrow> p | Some q \<Rightarrow> q)"

fun normalize_step :: "ustring \<Rightarrow> path_component \<Rightarrow> ustring" where
  "normalize_step normalized CurDir = normalized"
| "normalize_step normalized ParentDir = path_pop normalized"
| "normalize_step normalized c = path_join normalized (component_text c)"

definition normalize_path :: "ustring \<Rightarrow> ustring" where
  "normalize_path p = (let normalized = foldl normalize_step [] (path_components p)
     in if normalized = [] then [46] else normalized)"

definition path_with_base :: "ustring \<Rightarrow> ustring \<Rightarrow> ustring" where
  "path_with_base p base_path = (if is_absolute p then p else path_join base_path p)"

definition absolutize :: "path_env \<Rightarrow> ustring \<Rightarrow> path_error + ustring" where
  "absolutize env p =
     (if is_absolute p then Inr (normalize_path p)
      else case pe_current_dir env of
             None \<Rightarrow> Inl CurrentDirUnavailable
           | Some cwd \<Rightarrow> Inr (normalize_path (path_with_base p cwd)))"

definition resolve_path_against_base :: "path_env \<Rightarrow> ustring \<Rightarrow> ustring \<Rightarrow> absolute_path" where
  "resolve_path_against_base env p base_path =
     normalize_path (path_with_base (normalize_path_for_platform (expand_home_directory env p))
                       (normalize_path_for_platform base_path))"

definition from_absolute_path :: "path_env \<Rightarrow> ustring \<Rightarrow> path_error + absolute_path" where
  "from_absolute_path env p = absolutize env (normalize_path_for_platform (expand_home_directory env p))"

definition from_absolute_path_checked :: "path_env \<Rightarrow> ustring \<Rightarrow> path_error + absolute_path" where
  "from_absolute_path_checked env p =
     (let expanded = normalize_path_for_platform (expand_home_directory env p)
      in if \<not> is_absolute expanded then Inl PathNotAbsolute
         else Inr (normalize_path (path_with_base expanded [47])))"

definition current_dir :: "path_env \<Rightarrow> path_error + absolute_path" where
  "current_dir env = (case pe_current_dir env of
     None \<Rightarrow> Inl CurrentDirUnavailable | Some cwd \<Rightarrow> from_absolute_path env cwd)"

definition relative_to_current_dir :: "path_env \<Rightarrow> ustring \<Rightarrow> path_error + absolute_path" where
  "relative_to_current_dir env p =
     (if is_absolute p then from_absolute_path env p
      else case pe_current_dir env of
             None \<Rightarrow> Inl CurrentDirUnavailable
           | Some cwd \<Rightarrow> Inr (resolve_path_against_base env p cwd))"

definition absolute_join :: "path_env \<Rightarrow> absolute_path \<Rightarrow> ustring \<Rightarrow> absolute_path" where
  "absolute_join env self p = resolve_path_against_base env p self"

definition deserialization_base :: "path_env \<Rightarrow> ustring \<Rightarrow> path_error + ustring option" where
  "deserialization_base env p =
     (if pe_base env = None \<and> \<not> is_absolute p then Inl MissingBase else Inr (pe_base env))"

definition deserialize_absolute_path :: "path_env \<Rightarrow> ustring \<Rightarrow> path_error + absolute_path" where
  "deserialize_absolute_path env p =
     (case deserialization_base env p of
        Inl e \<Rightarrow> Inl e
      | Inr (Some base) \<Rightarrow> Inr (resolve_path_against_base env p base)
      | Inr None \<Rightarrow> from_absolute_path env p)"

section \<open>Normal paths\<close>

text \<open>A name a component can carry, and the text of the absolute path of a list of names.\<close>

definition plain_name :: "ustring \<Rightarrow> bool" where
  "plain_name n \<longleftrightarrow> n \<noteq> [] \<and> 47 \<notin> set n \<and> n \<noteq> [46] \<and> n \<noteq> [46, 46]"

definition abs_text :: "ustring list \<Rightarrow> ustring" where
  "abs_text ns = 47 # join_str [47] ns"

lemma split_char_no_delim: "d \<notin> set s \<Longrightarrow> split_char d s = [s]"
  by (induction s) auto

lemma split_join: "\<lbrakk>ns \<noteq> []; \<forall>n\<in>set ns. 47 \<notin> set n\<rbrakk> \<Longrightarrow> split_char 47 (join_str [47] ns) = ns"
  by (induction "[47 :: nat]" ns rule: join_str.induct) (simp_all add: split_char_no_delim split_char_line)

lemma part_component_plain: "plain_name n \<Longrightarrow> part_component n = [Normal n]"
  by (auto simp: plain_name_def part_component_def)

lemma components_abs_text:
  assumes "list_all plain_name ns"
  shows "path_components (abs_text ns) = RootDir # map Normal ns"
proof (cases ns)
  case Nil
  then show ?thesis by (simp add: abs_text_def path_components_def is_absolute_def part_component_def)
next
  case (Cons n ns')
  then have "split_char 47 (join_str [47] ns) = ns"
    using assms by (intro split_join) (auto simp: list_all_iff plain_name_def)
  moreover have "concat (map part_component ns) = map Normal ns"
    using assms by (induction ns) (auto simp: part_component_plain)
  ultimately show ?thesis by (simp add: abs_text_def path_components_def is_absolute_def part_component_def)
qed

lemma is_absolute_abs_text [simp]: "is_absolute (abs_text ns)"
  by (simp add: abs_text_def is_absolute_def)

lemma join_str_snoc: "ns \<noteq> [] \<Longrightarrow> join_str sep (ns @ [n]) = join_str sep ns @ sep @ n"
  by (induction sep ns rule: join_str.induct) auto

lemma last_join_str: "\<lbrakk>ns \<noteq> []; last ns \<noteq> []\<rbrakk> \<Longrightarrow> join_str sep ns \<noteq> [] \<and> last (join_str sep ns) = last (last ns)"
  by (induction sep ns rule: join_str.induct) auto

lemma join_abs_text:
  assumes "list_all plain_name ns" "plain_name n"
  shows "path_join (abs_text ns) n = abs_text (ns @ [n])"
proof (cases "ns = []")
  case True
  then show ?thesis using assms(2) by (cases n) (auto simp: abs_text_def path_join_def is_absolute_def plain_name_def)
next
  case False
  then have "plain_name (last ns)" using assms(1) by (simp add: list_all_iff)
  then have "last (abs_text ns) \<noteq> 47"
    using last_join_str [OF False, of "[47]"] last_in_set [of "last ns"]
    by (cases "last (last ns) = 47") (auto simp: abs_text_def plain_name_def)
  moreover have "\<not> is_absolute n" using assms(2) by (auto simp: is_absolute_def plain_name_def split: list.splits)
  ultimately show ?thesis using False by (simp add: path_join_def abs_text_def join_str_snoc)
qed

lemma pop_abs_text:
  assumes "list_all plain_name ns"
  shows "path_pop (abs_text ns) = abs_text (butlast ns)"
proof (cases "ns = []")
  case True
  then show ?thesis by (simp add: path_pop_def path_parent_def components_abs_text)
next
  case False
  then have "last (RootDir # map Normal ns) \<noteq> RootDir" by (simp add: last_map)
  moreover have "map (component_text \<circ> Normal) (butlast ns) = butlast ns" by (simp add: map_idI)
  ultimately show ?thesis
    using False
    by (simp add: path_pop_def path_parent_def components_abs_text [OF assms] map_butlast [symmetric] Let_def,
        simp add: abs_text_def)
qed

text \<open>Components after the root are names or parents.\<close>

lemma part_component_cases: "47 \<notin> set s \<Longrightarrow> c \<in> set (part_component s) \<Longrightarrow> c = ParentDir \<or> (\<exists>n. c = Normal n \<and> plain_name n)"
  by (auto simp: part_component_def plain_name_def split: if_splits)

lemma components_absolute:
  assumes "is_absolute p"
  obtains cs where "path_components p = RootDir # cs" "\<forall>c\<in>set cs. c = ParentDir \<or> (\<exists>n. c = Normal n \<and> plain_name n)"
proof
  show "path_components p = RootDir # concat (map part_component (split_char 47 p))"
    using assms by (simp add: path_components_def Let_def)
  show "\<forall>c\<in>set (concat (map part_component (split_char 47 p))). c = ParentDir \<or> (\<exists>n. c = Normal n \<and> plain_name n)"
    using part_component_cases split_char_no_sep by fastforce
qed

lemma foldl_normalize:
  assumes "list_all plain_name ns" "\<forall>c\<in>set cs. c = ParentDir \<or> (\<exists>n. c = Normal n \<and> plain_name n)"
  shows "foldl normalize_step (abs_text ns) cs = abs_text (foldl resolve_component ns cs)
       \<and> list_all plain_name (foldl resolve_component ns cs)"
  using assms
proof (induction cs arbitrary: ns)
  case (Cons c cs)
  from Cons.prems(2) consider "c = ParentDir" | n where "c = Normal n" "plain_name n" by auto
  then show ?case
  proof cases
    case 1
    have "list_all plain_name (butlast ns)" using Cons.prems(1) by (auto simp: list_all_iff dest: in_set_butlastD)
    then show ?thesis using 1 Cons by (simp add: pop_abs_text)
  next
    case 2
    then show ?thesis using Cons by (simp add: join_abs_text)
  qed
qed simp

lemma normalize_absolute:
  assumes "is_absolute p"
  shows "normalize_path p = abs_text (resolve [] p)" "list_all plain_name (resolve [] p)"
proof -
  obtain cs where cs: "path_components p = RootDir # cs" "\<forall>c\<in>set cs. c = ParentDir \<or> (\<exists>n. c = Normal n \<and> plain_name n)"
    using components_absolute [OF assms] .
  have root: "path_join [] [47] = abs_text []" by (simp add: path_join_def abs_text_def)
  show "normalize_path p = abs_text (resolve [] p)" "list_all plain_name (resolve [] p)"
    using foldl_normalize [of "[]" cs] cs root by (simp_all add: normalize_path_def resolve_def Let_def abs_text_def)
qed

lemma resolve_abs_text: "list_all plain_name ns \<Longrightarrow> resolve base (abs_text ns) = ns"
proof -
  assume "list_all plain_name ns"
  moreover have "foldl resolve_component acc (map Normal ns) = acc @ ns" for acc by (induction ns arbitrary: acc) simp_all
  ultimately show ?thesis by (simp add: resolve_def components_abs_text)
qed


text \<open>An environment the operating system can give: its directories are absolute.\<close>

definition env_ok :: "path_env \<Rightarrow> bool" where
  "env_ok env \<longleftrightarrow> pred_option is_absolute (pe_current_dir env) \<and> pred_option is_absolute (pe_home_dir env)
     \<and> pred_option is_absolute (pe_home_override env) \<and> pred_option is_absolute (pe_base env)"

lemma is_absolute_path_join: "is_absolute base \<Longrightarrow> is_absolute (path_join base p)"
  by (cases base) (auto simp: path_join_def is_absolute_def)

lemma is_absolute_with_base: "is_absolute base \<Longrightarrow> is_absolute (path_with_base p base)"
  by (simp add: path_with_base_def is_absolute_path_join)

lemma expand_home_absolute: "is_absolute p \<Longrightarrow> expand_home_directory env p = p"
  by (auto simp: expand_home_directory_def is_absolute_def split: list.splits)

text \<open>The normal form: absolute, free of dot components, and the place the given path leads to.\<close>

definition normal_path :: "ustring \<Rightarrow> bool" where
  "normal_path q \<longleftrightarrow> (\<exists>ns. list_all plain_name ns \<and> q = abs_text ns)"

lemma normal_path_normalize: "is_absolute p \<Longrightarrow> normal_path (normalize_path p)"
  using normalize_absolute normal_path_def by blast

lemma normal_path_components:
  assumes "normal_path q"
  shows "is_absolute q" "ParentDir \<notin> set (path_components q)" "CurDir \<notin> set (path_components q)" "normalize_path q = q"
proof -
  obtain ns where ns: "list_all plain_name ns" "q = abs_text ns" using assms by (auto simp: normal_path_def)
  then show "is_absolute q" "ParentDir \<notin> set (path_components q)" "CurDir \<notin> set (path_components q)"
    by (auto simp: components_abs_text)
  show "normalize_path q = q" using ns by (simp add: normalize_absolute resolve_abs_text)
qed

lemma from_absolute_path_normal:
  assumes "env_ok env" "from_absolute_path env p = Inr q"
  shows "normal_path q"
  using assms
  by (auto simp: from_absolute_path_def absolutize_def env_ok_def split: if_splits option.splits
      intro: normal_path_normalize is_absolute_with_base)

text \<open>
  C29. A path accepted as absolute is in normal form whatever was given (a home-relative, relative or
  absolute spelling): it is absolute, has no dot or dot-dot component left, is accepted unchanged when
  given again, and for an absolute spelling it is the lexical meaning of that spelling.
\<close>

theorem absolute_path_normal_form:
  assumes "env_ok env" "from_absolute_path env p = Inr q"
  shows "is_absolute q \<and> ParentDir \<notin> set (path_components q) \<and> CurDir \<notin> set (path_components q)
    \<and> from_absolute_path env q = Inr q \<and> (is_absolute p \<longrightarrow> resolve [] q = resolve [] p)"
proof -
  note n = normal_path_components [OF from_absolute_path_normal [OF assms]]
  have "from_absolute_path env q = Inr q"
    using n by (simp add: from_absolute_path_def absolutize_def expand_home_absolute normalize_path_for_platform_def)
  moreover have "resolve [] q = resolve [] p" if "is_absolute p"
  proof -
    have "q = normalize_path p"
      using assms(2) that by (simp add: from_absolute_path_def absolutize_def expand_home_absolute normalize_path_for_platform_def)
    then show ?thesis using normalize_absolute [OF that] by (simp add: resolve_abs_text)
  qed
  ultimately show ?thesis using n by simp
qed

definition demo_env :: path_env where
  "demo_env = \<lparr> pe_current_dir = Some (lit ''/w''), pe_home_dir = Some (lit ''/h''), pe_home_override = None, pe_base = None \<rparr>"

theorem absolute_path_normal_form_witness:
  "env_ok demo_env \<and> from_absolute_path demo_env (lit ''/a/../b/./c'') = Inr (lit ''/b/c'')
   \<and> resolve [] (lit ''/b/c'') = resolve [] (lit ''/a/../b/./c'')"
proof -
  have env: "env_ok demo_env" by (simp add: env_ok_def demo_env_def is_absolute_def lit_def)
  have eval: "from_absolute_path demo_env (lit ''/a/../b/./c'') = Inr (lit ''/b/c'')" by code_simp
  have "is_absolute (lit ''/a/../b/./c'')" by code_simp
  then show ?thesis using absolute_path_normal_form [OF env eval] env eval by simp
qed


section \<open>Joining stays below the base\<close>

lemma split_char_append: "split_char d (a @ d # b) = split_char d a @ split_char d b"
  by (induction a) (auto split: list.splits)

lemma path_join_parts:
  assumes "is_absolute base" "\<not> is_absolute p"
  shows "path_components (path_join base p) = path_components base @ concat (map part_component (split_char 47 p))"
proof -
  have abs: "is_absolute (path_join base p)" using assms(1) by (rule is_absolute_path_join)
  have parts: "concat (map part_component (split_char 47 (path_join base p)))
      = concat (map part_component (split_char 47 base)) @ concat (map part_component (split_char 47 p))"
  proof (cases "base \<noteq> [] \<and> last base = 47")
    case True
    then obtain b where b: "base = b @ [47]" by (metis append_butlast_last_id)
    then have "path_join base p = b @ 47 # p" using assms(2) by (simp add: path_join_def)
    then show ?thesis by (simp add: b split_char_append part_component_def)
  next
    case False
    then have "path_join base p = base @ 47 # p" using assms by (auto simp: path_join_def is_absolute_def split: list.splits)
    then show ?thesis by (simp add: split_char_append)
  qed
  show ?thesis using abs assms(1) parts by (simp add: path_components_def Let_def)
qed

text \<open>
  C32. Joining a relative path that has no dot-dot component onto a base never leaves the base,
  provided the path does not begin with a tilde, the one spelling that restarts from the home directory.
\<close>

theorem absolute_join_stays_below:
  assumes "is_absolute base" "stays_below p" "\<not> starts_with [126] p"
  shows "\<exists>rest. resolve [] (absolute_join env base p) = resolve [] base @ rest"
proof -
  let ?cs = "concat (map part_component (split_char 47 p))"
  have rel: "\<not> is_absolute p" using assms(2) absolute_has_root by (auto simp: stays_below_def)
  have "expand_home_directory env p = p"
    using assms(3) by (auto simp: expand_home_directory_def starts_with_def split: option.splits)
  then have join: "absolute_join env base p = normalize_path (path_join base p)"
    using rel by (simp add: absolute_join_def resolve_path_against_base_def path_with_base_def normalize_path_for_platform_def)
  have abs: "is_absolute (path_join base p)" using assms(1) by (rule is_absolute_path_join)
  have "RootDir \<notin> set ?cs" "ParentDir \<notin> set ?cs"
    using assms(2) by (auto simp: stays_below_def path_components_def Let_def)
  then obtain rest where "foldl resolve_component (resolve [] base) ?cs = resolve [] base @ rest"
    using foldl_resolve_below by blast
  then have "resolve [] (path_join base p) = resolve [] base @ rest"
    using path_join_parts [OF assms(1) rel] by (simp add: resolve_def)
  then show ?thesis
    using join normalize_absolute [OF abs] by (simp add: resolve_abs_text)
qed

theorem absolute_join_stays_below_witness:
  "absolute_join demo_env (lit ''/w'') (lit ''a/./b'') = lit ''/w/a/b''
   \<and> (\<exists>rest. resolve [] (absolute_join demo_env (lit ''/w'') (lit ''a/./b'')) = resolve [] (lit ''/w'') @ rest)"
proof -
  have "is_absolute (lit ''/w'')" "stays_below (lit ''a/./b'')" "\<not> starts_with [126] (lit ''a/./b'')" by code_simp+
  note absolute_join_stays_below [OF this, of demo_env]
  moreover have "absolute_join demo_env (lit ''/w'') (lit ''a/./b'') = lit ''/w/a/b''" by code_simp
  ultimately show ?thesis by simp
qed

end
