(* ===== verification/Exec_Policy.thy ===== *)
theory Exec_Policy
  imports Absolute_Path
begin

text \<open>
  The command policy (\<^verbatim>\<open>ra-execpolicy/src\<close>: \<^verbatim>\<open>decision.rs\<close>, \<^verbatim>\<open>rule.rs\<close>, \<^verbatim>\<open>policy.rs\<close>, \<^verbatim>\<open>executable_name.rs\<close>):
  prefix rules by program, network rules, host executables, and the evaluation of commands. The
  third-party multimap is the argument \<open>mm\<close> of the operations that use it (its documented behaviour
  is \<open>multimap_laws\<close>). The only \<^verbatim>\<open>Rule\<close> of the crate is \<^verbatim>\<open>PrefixRule\<close>. Executable names are those of Unix.
\<close>

section \<open>Decisions\<close>

datatype decision = Allow | Prompt | Forbidden

record text_position =
  tp_line :: nat
  tp_column :: nat

record text_range =
  tr_start :: text_position
  tr_end :: text_position

record error_location =
  el_path :: ustring
  el_range :: text_range

text \<open>
  Messages are dropped, except for the examples they quote. An error of a policy builtin reaches the caller
  inside a Starlark error.
\<close>

datatype policy_error =
  InvalidDecision ustring
| InvalidPattern
| InvalidExample
| InvalidRule
| ExampleDidNotMatch "ustring list" "error_location option"
| ExampleDidMatch ustring "error_location option"
| Starlark ustring
| BuiltinFailed policy_error

definition decision_parse :: "ustring \<Rightarrow> policy_error + decision" where
  "decision_parse raw =
     (if raw = lit ''allow'' then Inr Allow
      else if raw = lit ''prompt'' then Inr Prompt
      else if raw = lit ''forbidden'' then Inr Forbidden
      else Inl (InvalidDecision raw))"

fun decision_rank :: "decision \<Rightarrow> nat" where
  "decision_rank Allow = 0"
| "decision_rank Prompt = 1"
| "decision_rank Forbidden = 2"

lemma decision_rank_inject: "decision_rank a = decision_rank b \<Longrightarrow> a = b"
  by (cases a; cases b) auto

instantiation decision :: linorder
begin

definition less_eq_decision :: "decision \<Rightarrow> decision \<Rightarrow> bool" where
  "less_eq_decision a b \<longleftrightarrow> decision_rank a \<le> decision_rank b"

definition less_decision :: "decision \<Rightarrow> decision \<Rightarrow> bool" where
  "less_decision a b \<longleftrightarrow> decision_rank a < decision_rank b"

instance
  by standard (auto simp: less_eq_decision_def less_decision_def dest: decision_rank_inject)

end

lemma decision_le_Forbidden [simp]: "(d :: decision) \<le> Forbidden" "Forbidden \<le> d \<longleftrightarrow> d = Forbidden"
  by (cases d; simp add: less_eq_decision_def)+

section \<open>Rules\<close>

datatype pattern_token = Single ustring | Alts "ustring list"

fun token_matches :: "pattern_token \<Rightarrow> ustring \<Rightarrow> bool" where
  "token_matches (Single expected) token = (expected = token)"
| "token_matches (Alts alternatives) token = list_ex (\<lambda>alt. alt = token) alternatives"

fun token_alternatives :: "pattern_token \<Rightarrow> ustring list" where
  "token_alternatives (Single expected) = [expected]"
| "token_alternatives (Alts alternatives) = alternatives"

record prefix_pattern =
  pat_first :: ustring
  pat_rest :: "pattern_token list"

definition matches_prefix :: "prefix_pattern \<Rightarrow> ustring list \<Rightarrow> ustring list option" where
  "matches_prefix self cmd =
     (let pattern_length = length (pat_rest self) + 1
      in if length cmd < pattern_length \<or> hd cmd \<noteq> pat_first self then None
         else if list_all (\<lambda>(pattern_token, cmd_token). token_matches pattern_token cmd_token)
                   (zip (pat_rest self) (take (pattern_length - 1) (tl cmd)))
         then Some (take pattern_length cmd) else None)"

datatype rule_match =
  PrefixRuleMatch (rm_prefix: "ustring list") (rm_decision: decision)
    (rm_program: "absolute_path option") (rm_justification: "ustring option")
| HeuristicsRuleMatch (rm_command: "ustring list") (rm_decision: decision)

fun with_resolved_program :: "absolute_path \<Rightarrow> rule_match \<Rightarrow> rule_match" where
  "with_resolved_program program (PrefixRuleMatch prefix d p j) = PrefixRuleMatch prefix d (Some program) j"
| "with_resolved_program program (HeuristicsRuleMatch c d) = HeuristicsRuleMatch c d"

record prefix_rule =
  pr_pattern :: prefix_pattern
  pr_decision :: decision
  pr_justification :: "ustring option"

definition rule_program :: "prefix_rule \<Rightarrow> ustring" where
  "rule_program self = pat_first (pr_pattern self)"

definition prefix_rule_matches :: "prefix_rule \<Rightarrow> ustring list \<Rightarrow> rule_match option" where
  "prefix_rule_matches self cmd =
     map_option (\<lambda>matched_prefix. PrefixRuleMatch matched_prefix (pr_decision self) None (pr_justification self))
       (matches_prefix (pr_pattern self) cmd)"

datatype network_rule_protocol = Http | Https | Socks5Tcp | Socks5Udp

definition protocol_parse :: "ustring \<Rightarrow> policy_error + network_rule_protocol" where
  "protocol_parse raw =
     (if raw = lit ''http'' then Inr Http
      else if raw \<in> set [lit ''https'', lit ''https_connect'', lit ''http-connect''] then Inr Https
      else if raw = lit ''socks5_tcp'' then Inr Socks5Tcp
      else if raw = lit ''socks5_udp'' then Inr Socks5Udp
      else Inl InvalidRule)"

fun as_policy_string :: "network_rule_protocol \<Rightarrow> ustring" where
  "as_policy_string Http = lit ''http''"
| "as_policy_string Https = lit ''https''"
| "as_policy_string Socks5Tcp = lit ''socks5_tcp''"
| "as_policy_string Socks5Udp = lit ''socks5_udp''"

record network_rule =
  nr_host :: ustring
  nr_protocol :: network_rule_protocol
  nr_decision :: decision
  nr_justification :: "ustring option"

text \<open>\<^verbatim>\<open>str::split_once(char)\<close> and \<^verbatim>\<open>str::rsplit_once(char)\<close>.\<close>

definition split_once :: "uchar \<Rightarrow> ustring \<Rightarrow> (ustring \<times> ustring) option" where
  "split_once d s = (if d \<in> set s then Some (takeWhile (\<lambda>c. c \<noteq> d) s, tl (dropWhile (\<lambda>c. c \<noteq> d) s)) else None)"

definition rsplit_once :: "uchar \<Rightarrow> ustring \<Rightarrow> (ustring \<times> ustring) option" where
  "rsplit_once d s = map_option (\<lambda>(b, a). (rev a, rev b)) (split_once d (rev s))"

definition all_digits :: "ustring \<Rightarrow> bool" where
  "all_digits s \<longleftrightarrow> s \<noteq> [] \<and> list_all is_ascii_digit s"

text \<open>The host without brackets and port.\<close>

definition bare_host :: "ustring \<Rightarrow> policy_error + ustring" where
  "bare_host host =
     (case strip_prefix [91] host of
        Some stripped \<Rightarrow>
          (case split_once 93 stripped of
             None \<Rightarrow> Inl InvalidRule
           | Some (inside, rest) \<Rightarrow>
               let port_ok = (case strip_prefix [58] rest of None \<Rightarrow> False | Some port \<Rightarrow> all_digits port)
               in if rest \<noteq> [] \<and> \<not> port_ok then Inl InvalidRule else Inr inside)
      | None \<Rightarrow>
          (case (if count_list host 58 = 1 then rsplit_once 58 host else None) of
             Some (candidate, port) \<Rightarrow> Inr (if candidate \<noteq> [] \<and> all_digits port then candidate else host)
           | None \<Rightarrow> Inr host))"

definition normalize_network_rule_host :: "ustring \<Rightarrow> policy_error + ustring" where
  "normalize_network_rule_host raw =
     (let host = trim raw
      in if host = [] then Inl InvalidRule
         else if contains_str (lit ''://'') host \<or> 47 \<in> set host \<or> 63 \<in> set host \<or> 35 \<in> set host then Inl InvalidRule
         else result_bind (bare_host host) (\<lambda>host.
           let normalized = map to_ascii_lowercase (trim (trim_end_matches (\<lambda>c. c = 46) host))
           in if normalized = [] then Inl InvalidRule
              else if 42 \<in> set normalized then Inl InvalidRule
              else if list_ex is_whitespace normalized then Inl InvalidRule
              else Inr normalized))"

section \<open>Policies\<close>

text \<open>The operations the code uses of the multimap crate, and what that crate documents of them.\<close>

record 'm multimap_ops =
  mm_new :: 'm
  mm_insert :: "'m \<Rightarrow> ustring \<Rightarrow> prefix_rule \<Rightarrow> 'm"
  mm_get_vec :: "'m \<Rightarrow> ustring \<Rightarrow> prefix_rule list option"
  mm_iter_all :: "'m \<Rightarrow> (ustring \<times> prefix_rule list) list"

definition rules_at :: "'m multimap_ops \<Rightarrow> 'm \<Rightarrow> ustring \<Rightarrow> prefix_rule list" where
  "rules_at mm m k = (case mm_get_vec mm m k of None \<Rightarrow> [] | Some rs \<Rightarrow> rs)"

definition multimap_laws :: "'m multimap_ops \<Rightarrow> bool" where
  "multimap_laws mm \<longleftrightarrow>
     (\<forall>k. mm_get_vec mm (mm_new mm) k = None)
   \<and> (\<forall>m k r k'. mm_get_vec mm (mm_insert mm m k r) k' =
        (if k' = k then Some (rules_at mm m k @ [r]) else mm_get_vec mm m k'))
   \<and> (\<forall>m. distinct (map fst (mm_iter_all mm m)))
   \<and> (\<forall>m k. map_of (mm_iter_all mm m) k = mm_get_vec mm m k)"

record match_options =
  resolve_host_executables :: bool

definition match_options_default :: match_options where
  "match_options_default = \<lparr> resolve_host_executables = False \<rparr>"

record 'm policy =
  rules_by_program :: 'm
  network_rules :: "network_rule list"
  host_executables_by_name :: "ustring \<rightharpoonup> absolute_path list"

definition from_parts :: "'m \<Rightarrow> network_rule list \<Rightarrow> (ustring \<rightharpoonup> absolute_path list) \<Rightarrow> 'm policy" where
  "from_parts rules network hosts =
     \<lparr> rules_by_program = rules, network_rules = network, host_executables_by_name = hosts \<rparr>"

definition policy_new :: "'m \<Rightarrow> 'm policy" where
  "policy_new rules = from_parts rules [] Map.empty"

definition policy_empty :: "'m multimap_ops \<Rightarrow> 'm policy" where
  "policy_empty mm = policy_new (mm_new mm)"

definition add_prefix_rule :: "'m multimap_ops \<Rightarrow> 'm policy \<Rightarrow> ustring list \<Rightarrow> decision \<Rightarrow> policy_error + 'm policy" where
  "add_prefix_rule mm self prefix decision =
     (case prefix of
        [] \<Rightarrow> Inl InvalidPattern
      | first_token # rest \<Rightarrow>
          let rule = \<lparr> pr_pattern = \<lparr> pat_first = first_token, pat_rest = map Single rest \<rparr>,
                       pr_decision = decision, pr_justification = None \<rparr>
          in Inr (self\<lparr> rules_by_program := mm_insert mm (rules_by_program self) first_token rule \<rparr>))"

definition add_network_rule ::
  "'m policy \<Rightarrow> ustring \<Rightarrow> network_rule_protocol \<Rightarrow> decision \<Rightarrow> ustring option \<Rightarrow> policy_error + 'm policy" where
  "add_network_rule self host protocol decision justification =
     result_bind (normalize_network_rule_host host) (\<lambda>host.
       if (case justification of None \<Rightarrow> False | Some raw \<Rightarrow> trim raw = []) then Inl InvalidRule
       else Inr (self\<lparr> network_rules := network_rules self @
              [\<lparr> nr_host = host, nr_protocol = protocol, nr_decision = decision, nr_justification = justification \<rparr>] \<rparr>))"

definition set_host_executable_paths :: "'m policy \<Rightarrow> ustring \<Rightarrow> absolute_path list \<Rightarrow> 'm policy" where
  "set_host_executable_paths self name paths =
     self\<lparr> host_executables_by_name := (host_executables_by_name self)(name \<mapsto> paths) \<rparr>"

definition merge_overlay :: "'m multimap_ops \<Rightarrow> 'm policy \<Rightarrow> 'm policy \<Rightarrow> 'm policy" where
  "merge_overlay mm self overlay =
     from_parts
       (foldl (\<lambda>m (program, rules). foldl (\<lambda>m rule. mm_insert mm m program rule) m rules)
          (rules_by_program self) (mm_iter_all mm (rules_by_program overlay)))
       (network_rules self @ network_rules overlay)
       (host_executables_by_name self ++ host_executables_by_name overlay)"

definition upsert_domain :: "ustring list \<Rightarrow> ustring \<Rightarrow> ustring list" where
  "upsert_domain entries host = filter (\<lambda>entry. entry \<noteq> host) entries @ [host]"

definition compile_step :: "ustring list \<times> ustring list \<Rightarrow> network_rule \<Rightarrow> ustring list \<times> ustring list" where
  "compile_step acc rule =
     (case acc of (allowed, denied) \<Rightarrow>
        (case nr_decision rule of
           Allow \<Rightarrow> (upsert_domain allowed (nr_host rule), filter (\<lambda>entry. entry \<noteq> nr_host rule) denied)
         | Forbidden \<Rightarrow> (filter (\<lambda>entry. entry \<noteq> nr_host rule) allowed, upsert_domain denied (nr_host rule))
         | Prompt \<Rightarrow> (allowed, denied)))"

definition compiled_network_domains :: "'m policy \<Rightarrow> ustring list \<times> ustring list" where
  "compiled_network_domains self = foldl compile_step ([], []) (network_rules self)"

section \<open>Evaluation\<close>

text \<open>\<^verbatim>\<open>executable_lookup_key\<close> is the identity on Unix; the file name of a text path is text.\<close>

definition executable_lookup_key :: "ustring \<Rightarrow> ustring" where
  "executable_lookup_key raw = raw"

definition executable_path_lookup_key :: "ustring \<Rightarrow> ustring option" where
  "executable_path_lookup_key path = map_option executable_lookup_key (file_name path)"

definition match_exact_rules :: "'m multimap_ops \<Rightarrow> 'm policy \<Rightarrow> ustring list \<Rightarrow> rule_match list option" where
  "match_exact_rules mm self cmd =
     (case cmd of
        [] \<Rightarrow> None
      | first # _ \<Rightarrow> Some (case mm_get_vec mm (rules_by_program self) first of
                            None \<Rightarrow> [] | Some rules \<Rightarrow> List.map_filter (\<lambda>rule. prefix_rule_matches rule cmd) rules))"

definition match_host_executable_rules ::
  "'m multimap_ops \<Rightarrow> path_env \<Rightarrow> 'm policy \<Rightarrow> ustring list \<Rightarrow> rule_match list" where
  "match_host_executable_rules mm env self cmd =
     (case cmd of
        [] \<Rightarrow> []
      | first # args \<Rightarrow>
     (case from_absolute_path env first of
        Inl _ \<Rightarrow> []
      | Inr program \<Rightarrow>
     (case executable_path_lookup_key program of
        None \<Rightarrow> []
      | Some basename \<Rightarrow>
     (case mm_get_vec mm (rules_by_program self) basename of
        None \<Rightarrow> []
      | Some rules \<Rightarrow>
          if (case host_executables_by_name self basename of
                None \<Rightarrow> False | Some paths \<Rightarrow> \<not> list_ex (\<lambda>path. path = program) paths)
          then []
          else map (with_resolved_program program)
                 (List.map_filter (\<lambda>rule. prefix_rule_matches rule (basename # args)) rules)))))"

definition matches_for_command_with_options ::
  "'m multimap_ops \<Rightarrow> path_env \<Rightarrow> 'm policy \<Rightarrow> ustring list \<Rightarrow> (ustring list \<Rightarrow> decision) option
   \<Rightarrow> match_options \<Rightarrow> rule_match list" where
  "matches_for_command_with_options mm env self cmd heuristics_fallback options =
     (let exact = (case match_exact_rules mm self cmd of None \<Rightarrow> [] | Some ms \<Rightarrow> ms);
          matched_rules = (if exact \<noteq> [] then exact
            else if resolve_host_executables options then match_host_executable_rules mm env self cmd else [])
      in if matched_rules = []
         then (case heuristics_fallback of
                 Some heuristics \<Rightarrow> [HeuristicsRuleMatch cmd (heuristics cmd)] | None \<Rightarrow> matched_rules)
         else matched_rules)"

definition matches_for_command where
  "matches_for_command mm env self cmd heuristics_fallback =
     matches_for_command_with_options mm env self cmd heuristics_fallback match_options_default"

record evaluation =
  ev_decision :: decision
  ev_matched_rules :: "rule_match list"

fun is_heuristic :: "rule_match \<Rightarrow> bool" where
  "is_heuristic (HeuristicsRuleMatch _ _) = True"
| "is_heuristic (PrefixRuleMatch _ _ _ _) = False"

definition is_match :: "evaluation \<Rightarrow> bool" where
  "is_match self = list_ex (\<lambda>m. \<not> is_heuristic m) (ev_matched_rules self)"

text \<open>\<^verbatim>\<open>expect\<close> on an empty list of matches panics, which is the value \<open>None\<close>.\<close>

definition from_matches :: "rule_match list \<Rightarrow> evaluation option" where
  "from_matches matched_rules =
     (if matched_rules = [] then None
      else Some \<lparr> ev_decision = fold max (map rm_decision (tl matched_rules)) (rm_decision (hd matched_rules)),
                  ev_matched_rules = matched_rules \<rparr>)"

definition check_with_options where
  "check_with_options mm env self cmd heuristics options =
     from_matches (matches_for_command_with_options mm env self cmd (Some heuristics) options)"

definition check where
  "check mm env self cmd heuristics = check_with_options mm env self cmd heuristics match_options_default"

definition check_multiple_with_options where
  "check_multiple_with_options mm env self commands heuristics options =
     from_matches (concat (map (\<lambda>command.
       matches_for_command_with_options mm env self command (Some heuristics) options) commands))"

definition check_multiple where
  "check_multiple mm env self commands heuristics =
     check_multiple_with_options mm env self commands heuristics match_options_default"


section \<open>The strictest match decides\<close>

lemma Max_concat:
  assumes "cs \<noteq> []" "\<And>c. f c \<noteq> []"
  shows "Max (g ` set (concat (map f cs))) = Max ((\<lambda>c. Max (g ` set (f c))) ` set cs)"
  using assms(1)
proof (induction cs rule: list_nonempty_induct)
  case (cons c cs)
  have ne: "g ` set (concat (map f cs)) \<noteq> {}" "g ` set (f c) \<noteq> {}" using cons.hyps assms(2) by (cases cs; auto)+
  have "Max (g ` set (concat (map f (c # cs)))) = Max (g ` set (f c) \<union> g ` set (concat (map f cs)))"
    by (simp add: image_Un)
  also have "\<dots> = max (Max (g ` set (f c))) (Max (g ` set (concat (map f cs))))"
    by (rule Max_Un) (use ne in auto)
  finally show ?case using cons by simp
qed simp

lemma from_matches_decision:
  "ms \<noteq> [] \<Longrightarrow> from_matches ms = Some \<lparr> ev_decision = Max (rm_decision ` set ms), ev_matched_rules = ms \<rparr>"
  by (cases ms) (simp_all add: from_matches_def Max.set_eq_fold flip: set_map list.set(2))

lemma from_matches_None_iff: "from_matches ms = None \<longleftrightarrow> ms = []"
  by (simp add: from_matches_def)

lemma matches_nonempty: "matches_for_command_with_options mm env p cmd (Some h) opts \<noteq> []"
  by (simp add: matches_for_command_with_options_def Let_def)

text \<open>
  C20. One command always gets a decision (the evaluation never panics), and it is the strictest one
  among the rules that match it, so one forbidding rule outweighs any number of allowing ones. For several
  commands the decision is the strictest of the decisions of each, and only an empty list of commands panics.
\<close>

theorem strictest_match_decides:
  "(let ms = matches_for_command_with_options mm env p cmd (Some h) opts
    in check_with_options mm env p cmd h opts = Some \<lparr> ev_decision = Max (rm_decision ` set ms), ev_matched_rules = ms \<rparr>)
   \<and> (check_multiple_with_options mm env p cmds h opts = None \<longleftrightarrow> cmds = [])
   \<and> map_option ev_decision (check_multiple_with_options mm env p (c # cmds) h opts)
     = Some (Max (ev_decision ` the ` (\<lambda>c. check_with_options mm env p c h opts) ` set (c # cmds)))"
proof -
  let ?m = "\<lambda>c. matches_for_command_with_options mm env p c (Some h) opts"
  have one: "check_with_options mm env p c h opts = Some \<lparr> ev_decision = Max (rm_decision ` set (?m c)), ev_matched_rules = ?m c \<rparr>" for c
    by (simp add: check_with_options_def from_matches_decision matches_nonempty)
  have ne: "concat (map ?m (c # cmds)) \<noteq> []" by (simp add: matches_nonempty)
  have "map_option ev_decision (check_multiple_with_options mm env p (c # cmds) h opts)
      = Some (Max (rm_decision ` set (concat (map ?m (c # cmds)))))"
    by (simp only: check_multiple_with_options_def from_matches_decision [OF ne]) simp
  also have "Max (rm_decision ` set (concat (map ?m (c # cmds)))) = Max ((\<lambda>c. Max (rm_decision ` set (?m c))) ` set (c # cmds))"
    by (rule Max_concat) (simp_all add: matches_nonempty)
  finally have "map_option ev_decision (check_multiple_with_options mm env p (c # cmds) h opts)
      = Some (Max (ev_decision ` the ` (\<lambda>c. check_with_options mm env p c h opts) ` set (c # cmds)))"
    by (simp add: one image_image)
  moreover have "check_multiple_with_options mm env p cmds h opts = None \<longleftrightarrow> cmds = []"
    by (cases cmds) (simp_all add: check_multiple_with_options_def from_matches_None_iff matches_nonempty)
  ultimately show ?thesis by (simp add: one Let_def)
qed


section \<open>Overlays only tighten\<close>

lemma rules_at_insert:
  "multimap_laws mm \<Longrightarrow> rules_at mm (mm_insert mm m k r) k' = (if k' = k then rules_at mm m k @ [r] else rules_at mm m k')"
  by (simp add: multimap_laws_def rules_at_def)

lemma rules_at_insert_all:
  "multimap_laws mm \<Longrightarrow>
   rules_at mm (foldl (\<lambda>m r. mm_insert mm m k r) m rs) k' = (if k' = k then rules_at mm m k @ rs else rules_at mm m k')"
  by (induction rs arbitrary: m) (simp_all add: rules_at_insert)

lemma rules_at_foldl:
  assumes "multimap_laws mm" "distinct (map fst kvs)"
  shows "rules_at mm (foldl (\<lambda>m (k, rs). foldl (\<lambda>m r. mm_insert mm m k r) m rs) m kvs) k'
       = rules_at mm m k' @ (case map_of kvs k' of None \<Rightarrow> [] | Some rs \<Rightarrow> rs)"
  using assms(2)
proof (induction kvs arbitrary: m)
  case (Cons kv kvs)
  obtain k rs where kv: "kv = (k, rs)" by (cases kv)
  have "map_of kvs k = None" using Cons.prems kv by (force simp: map_of_eq_None_iff)
  then show ?case using Cons kv rules_at_insert_all [OF assms(1)] by simp
qed simp

lemma rules_at_merge:
  assumes "multimap_laws mm"
  shows "rules_at mm (rules_by_program (merge_overlay mm p ov)) k
       = rules_at mm (rules_by_program p) k @ rules_at mm (rules_by_program ov) k"
  using assms rules_at_foldl [OF assms, of "mm_iter_all mm (rules_by_program ov)" "rules_by_program p" k]
  by (simp add: merge_overlay_def from_parts_def rules_at_def multimap_laws_def)

definition exact_matches :: "'m multimap_ops \<Rightarrow> 'm policy \<Rightarrow> ustring list \<Rightarrow> rule_match list" where
  "exact_matches mm p cmd = (case match_exact_rules mm p cmd of None \<Rightarrow> [] | Some ms \<Rightarrow> ms)"

lemma exact_matches_rules:
  "exact_matches mm p cmd = (if cmd = [] then []
     else List.map_filter (\<lambda>r. prefix_rule_matches r cmd) (rules_at mm (rules_by_program p) (hd cmd)))"
  by (cases cmd) (simp_all add: exact_matches_def match_exact_rules_def rules_at_def List.map_filter_def split: option.splits)

lemma matches_exact:
  "exact_matches mm p cmd \<noteq> [] \<Longrightarrow> matches_for_command_with_options mm env p cmd h opts = exact_matches mm p cmd"
  by (simp add: matches_for_command_with_options_def exact_matches_def Let_def)

lemma exact_matches_merge:
  "multimap_laws mm \<Longrightarrow> exact_matches mm (merge_overlay mm p ov) cmd = exact_matches mm p cmd @ exact_matches mm ov cmd"
  by (simp add: exact_matches_rules rules_at_merge List.map_filter_def)


section \<open>Network domains\<close>

text \<open>The verdict of the last rule that settles a host.\<close>

definition last_verdict :: "network_rule list \<Rightarrow> ustring \<Rightarrow> decision option" where
  "last_verdict rules host = map_option nr_decision (find (\<lambda>r. nr_host r = host \<and> nr_decision r \<noteq> Prompt) (rev rules))"

lemma compile_steps:
  "set (fst (foldl compile_step ([], []) rules)) = {h. last_verdict rules h = Some Allow}
   \<and> set (snd (foldl compile_step ([], []) rules)) = {h. last_verdict rules h = Some Forbidden}
   \<and> distinct (fst (foldl compile_step ([], []) rules)) \<and> distinct (snd (foldl compile_step ([], []) rules))"
proof (induction rules rule: rev_induct)
  case (snoc r rules)
  have "last_verdict (rules @ [r]) h = (if nr_host r = h \<and> nr_decision r \<noteq> Prompt then Some (nr_decision r) else last_verdict rules h)" for h
    by (simp add: last_verdict_def)
  note verdict = this
  obtain a d where ad: "foldl compile_step ([], []) rules = (a, d)" by (cases "foldl compile_step ([], []) rules")
  have ih: "set a = {h. last_verdict rules h = Some Allow}" "set d = {h. last_verdict rules h = Some Forbidden}" "distinct a" "distinct d"
    using snoc ad by simp_all
  have step: "foldl compile_step ([], []) (rules @ [r]) = compile_step (a, d) r" by (simp add: ad)
  show ?case
    unfolding step using ih by (cases "nr_decision r") (auto simp: compile_step_def upsert_domain_def verdict)
qed (simp add: last_verdict_def)

text \<open>
  C33. The compiled host lists say what the network rules say, the later rule for a host winning: a
  host is allowed exactly when the last rule that allows or forbids it allows it, denied exactly when
  that rule forbids it, never both, and listed once.
\<close>

theorem compiled_domains_last_rule_wins:
  "compiled_network_domains p = (allowed, denied) \<Longrightarrow>
     (host \<in> set allowed \<longleftrightarrow> last_verdict (network_rules p) host = Some Allow)
   \<and> (host \<in> set denied \<longleftrightarrow> last_verdict (network_rules p) host = Some Forbidden)
   \<and> set allowed \<inter> set denied = {} \<and> distinct allowed \<and> distinct denied"
  using compile_steps [of "network_rules p"] by (auto simp: compiled_network_domains_def)


section \<open>A concrete multimap, for the witnesses\<close>

definition alist_multimap :: "(ustring \<times> prefix_rule list) list multimap_ops" where
  "alist_multimap = \<lparr> mm_new = [],
     mm_insert = (\<lambda>m k r. (k, (case map_of m k of None \<Rightarrow> [] | Some rs \<Rightarrow> rs) @ [r]) # m),
     mm_get_vec = map_of,
     mm_iter_all = (\<lambda>m. map (\<lambda>k. (k, the (map_of m k))) (remdups (map fst m))) \<rparr>"

lemma alist_multimap_laws: "multimap_laws alist_multimap"
proof -
  have "map_of (map (\<lambda>k. (k, the (map_of m k))) (remdups (map fst m))) k = map_of m k"
    for m :: "(ustring \<times> prefix_rule list) list" and k
  proof (cases "k \<in> set (map fst m)")
    case True
    then obtain v where "map_of m k = Some v" by (metis map_of_eq_None_iff not_None_eq set_map)
    then show ?thesis using True by (simp add: map_of_map_restrict restrict_map_def)
  next
    case False
    then have "map_of m k = None" by (simp add: map_of_eq_None_iff)
    then show ?thesis using False by (simp add: map_of_map_restrict restrict_map_def)
  qed
  moreover have "distinct (map fst (map (\<lambda>k. (k, the (map_of m k))) (remdups (map fst m))))" for m :: "(ustring \<times> prefix_rule list) list"
    by (simp add: comp_def)
  ultimately show ?thesis by (simp add: multimap_laws_def alist_multimap_def rules_at_def)
qed

definition rule_for :: "ustring list \<Rightarrow> decision \<Rightarrow> prefix_rule" where
  "rule_for ws d = \<lparr> pr_pattern = \<lparr> pat_first = hd ws, pat_rest = map Single (tl ws) \<rparr>, pr_decision = d, pr_justification = None \<rparr>"

definition policy_of :: "(ustring list \<times> decision) list \<Rightarrow> (ustring \<times> prefix_rule list) list policy" where
  "policy_of rs = policy_new (foldl (\<lambda>m (ws, d). mm_insert alist_multimap m (hd ws) (rule_for ws d)) [] rs)"


definition host_rule :: "string \<Rightarrow> decision \<Rightarrow> network_rule" where
  "host_rule h d = \<lparr> nr_host = lit h, nr_protocol = Https, nr_decision = d, nr_justification = None \<rparr>"

theorem compiled_domains_last_rule_wins_witness:
  "compiled_network_domains (from_parts () [host_rule ''a'' Allow, host_rule ''b'' Forbidden, host_rule ''a'' Forbidden] Map.empty)
     = ([], [lit ''b'', lit ''a''])
   \<and> last_verdict [host_rule ''a'' Allow, host_rule ''b'' Forbidden, host_rule ''a'' Forbidden] (lit ''a'') = Some Forbidden"
proof -
  let ?p = "from_parts () [host_rule ''a'' Allow, host_rule ''b'' Forbidden, host_rule ''a'' Forbidden] Map.empty"
  have eval: "compiled_network_domains ?p = ([], [lit ''b'', lit ''a''])"
    by (simp add: compiled_network_domains_def from_parts_def compile_step_def upsert_domain_def host_rule_def)
  have "network_rules ?p = [host_rule ''a'' Allow, host_rule ''b'' Forbidden, host_rule ''a'' Forbidden]"
    by (simp add: from_parts_def)
  then show ?thesis
    using compiled_domains_last_rule_wins [OF eval, of "lit ''a''"] eval by simp
qed

section \<open>Hosts\<close>

lemma set_trim_end_matches_subset: "set (trim_end_matches p s) \<subseteq> set s"
  by (auto simp: trim_end_matches_def dest: set_dropWhileD)

lemma set_trim_subset: "set (trim s) \<subseteq> set s"
  using set_trim_end_matches_subset by (fastforce simp: trim_def trim_start_def trim_end_def trim_start_matches_def dest: set_dropWhileD)

lemma split_once_subset: "split_once d s = Some (a, b) \<Longrightarrow> set a \<subseteq> set s \<and> set b \<subseteq> set s"
proof -
  have "set (tl xs) \<subseteq> set xs" for xs :: ustring by (cases xs) auto
  then show "split_once d s = Some (a, b) \<Longrightarrow> set a \<subseteq> set s \<and> set b \<subseteq> set s"
    by (fastforce simp: split_once_def dest: set_takeWhileD set_dropWhileD split: if_splits)
qed

lemma lowercase_other:
  "to_ascii_lowercase c = 47 \<longleftrightarrow> c = 47" "to_ascii_lowercase c = 63 \<longleftrightarrow> c = 63" "to_ascii_lowercase c = 35 \<longleftrightarrow> c = 35"
  "47 = to_ascii_lowercase c \<longleftrightarrow> c = 47" "63 = to_ascii_lowercase c \<longleftrightarrow> c = 63" "35 = to_ascii_lowercase c \<longleftrightarrow> c = 35"
  by (auto simp: to_ascii_lowercase_def split: if_splits)

lemma bare_host_subset: "bare_host s = Inr h \<Longrightarrow> set h \<subseteq> set s"
  by (auto simp: bare_host_def rsplit_once_def Let_def strip_prefix_Some_iff split: option.splits if_splits prod.splits
      dest!: split_once_subset)

text \<open>
  C39. A host that is accepted for a network rule is one specific, clean host: not empty, no
  whitespace, no wildcard, no scheme, path, query or fragment character, and no upper-case letter.
\<close>

theorem normalized_host_is_clean:
  assumes "normalize_network_rule_host raw = Inr host"
  shows "host \<noteq> [] \<and> \<not> list_ex is_whitespace host \<and> 42 \<notin> set host \<and> 47 \<notin> set host \<and> 63 \<notin> set host \<and> 35 \<notin> set host
       \<and> map to_ascii_lowercase host = host"
proof -
  from assms obtain bare where raw: "47 \<notin> set (trim raw)" "63 \<notin> set (trim raw)" "35 \<notin> set (trim raw)"
    and bare: "bare_host (trim raw) = Inr bare"
    and host: "host = map to_ascii_lowercase (trim (trim_end_matches (\<lambda>c. c = 46) bare))"
    "host \<noteq> []" "42 \<notin> set host" "\<not> list_ex is_whitespace host"
    by (auto simp: normalize_network_rule_host_def Let_def result_bind_Inr_iff split: if_splits)
  have "set (trim (trim_end_matches (\<lambda>c. c = 46) bare)) \<subseteq> set (trim raw)"
    using subset_trans [OF set_trim_subset] set_trim_end_matches_subset bare_host_subset [OF bare] by blast
  then have "47 \<notin> set host \<and> 63 \<notin> set host \<and> 35 \<notin> set host" using raw unfolding host(1) by (auto simp: lowercase_other)
  moreover have "map to_ascii_lowercase host = host" unfolding host(1) by (simp add: to_ascii_lowercase_def)
  ultimately show ?thesis using host by simp
qed


theorem normalized_host_is_clean_witness:
  "normalize_network_rule_host (lit '' Example.COM:443 '') = Inr (lit ''example.com'')
   \<and> \<not> list_ex is_whitespace (lit ''example.com'') \<and> map to_ascii_lowercase (lit ''example.com'') = lit ''example.com''"
proof -
  have eval: "normalize_network_rule_host (lit '' Example.COM:443 '') = Inr (lit ''example.com'')"
    by (simp add: normalize_network_rule_host_def bare_host_def rsplit_once_def split_once_def all_digits_def is_ascii_digit_def to_ascii_lowercase_def starts_with_def str_simps)
  from normalized_host_is_clean [OF this] eval show ?thesis by simp
qed

text \<open>Normalizing is not idempotent: a trailing dot shields a port from being stripped the first time.\<close>

lemma normalize_host_not_idempotent:
  "normalize_network_rule_host (lit ''example.com:443.'') = Inr (lit ''example.com:443'')"
  "normalize_network_rule_host (lit ''example.com:443'') = Inr (lit ''example.com'')"
  by (simp_all add: normalize_network_rule_host_def bare_host_def rsplit_once_def split_once_def all_digits_def is_ascii_digit_def to_ascii_lowercase_def starts_with_def str_simps)

section \<open>Host executables\<close>

text \<open>
  C27. Matching a program path by its file name is confined to the declared paths: every match found this
  way is a match of a rule of that name, carries the resolved program, and where the name has declared paths
  the resolved program is one of them; a name declared with no path at all matches nothing.
\<close>

theorem host_executables_are_confined:
  assumes "m \<in> set (match_host_executable_rules mm env p cmd)"
  shows "\<exists>program basename rule m0. from_absolute_path env (hd cmd) = Inr program \<and> file_name program = Some basename
    \<and> rule \<in> set (rules_at mm (rules_by_program p) basename) \<and> prefix_rule_matches rule (basename # tl cmd) = Some m0
    \<and> m = with_resolved_program program m0 \<and> rm_program m = Some program \<and> rm_decision m = pr_decision rule
    \<and> (host_executables_by_name p basename = None \<or> program \<in> set (the (host_executables_by_name p basename)))"
proof -
  from assms obtain first args program basename rules where cmd: "cmd = first # args"
    and f: "from_absolute_path env first = Inr program" "executable_path_lookup_key program = Some basename"
    "mm_get_vec mm (rules_by_program p) basename = Some rules"
    and ok: "\<not> (case host_executables_by_name p basename of None \<Rightarrow> False | Some paths \<Rightarrow> \<not> list_ex (\<lambda>path. path = program) paths)"
    and m: "m \<in> set (map (with_resolved_program program) (List.map_filter (\<lambda>rule. prefix_rule_matches rule (basename # args)) rules))"
    by (cases cmd; cases "from_absolute_path env (hd cmd)"; cases "executable_path_lookup_key (projr (from_absolute_path env (hd cmd)))";
        cases "mm_get_vec mm (rules_by_program p) (the (executable_path_lookup_key (projr (from_absolute_path env (hd cmd)))))")
      (force simp: match_host_executable_rules_def split: if_splits)+
  from m obtain rule m0 where r: "rule \<in> set rules" "prefix_rule_matches rule (basename # args) = Some m0" "m = with_resolved_program program m0"
    by (auto simp: List.map_filter_def)
  have "rm_program m = Some program" "rm_decision m = pr_decision rule"
    using r(2,3) by (auto simp: prefix_rule_matches_def)
  moreover have "host_executables_by_name p basename = None \<or> program \<in> set (the (host_executables_by_name p basename))"
    using ok by (auto simp: list_ex_iff split: option.splits)
  moreover have "file_name program = Some basename"
    using f(2) by (auto simp: executable_path_lookup_key_def executable_lookup_key_def)
  ultimately show ?thesis using cmd f r by (auto simp: rules_at_def)
qed

definition git_policy :: "(ustring \<times> prefix_rule list) list policy" where
  "git_policy = set_host_executable_paths (policy_of [([lit ''git''], Allow)]) (lit ''git'') [lit ''/usr/bin/git'']"

theorem host_executables_are_confined_witness:
  "\<exists>m \<in> set (match_host_executable_rules alist_multimap demo_env git_policy [lit ''/usr/bin/git'', lit ''log'']).
     rm_program m = Some (lit ''/usr/bin/git'')"
proof -
  let ?m = "PrefixRuleMatch [lit ''git''] Allow (Some (lit ''/usr/bin/git'')) None"
  have "match_host_executable_rules alist_multimap demo_env git_policy [lit ''/usr/bin/git'', lit ''log''] = [?m]" by code_simp
  then have "?m \<in> set (match_host_executable_rules alist_multimap demo_env git_policy [lit ''/usr/bin/git'', lit ''log''])" by simp
  from host_executables_are_confined [OF this] this show ?thesis by (intro bexI [of _ ?m]) auto
qed

text \<open>The documentation speaks of absolute program paths; a relative path is resolved and matched as well.\<close>

lemma relative_program_matches_by_name:
  "match_host_executable_rules alist_multimap demo_env (policy_of [([lit ''git''], Allow)]) [lit ''./tools/git'']
   = [PrefixRuleMatch [lit ''git''] Allow (Some (lit ''/w/tools/git'')) None]"
  by code_simp

end
