(* ===== verification/Exec_Policy_Parser.thy ===== *)
theory Exec_Policy_Parser
  imports Exec_Policy
begin

text \<open>
  Rules files (\<^verbatim>\<open>ra-execpolicy/src/parser.rs\<close>) and their amendment (\<^verbatim>\<open>amend.rs\<close>). Starlark values, the shell
  splitter and the Starlark evaluator are third-party code: what is used of them is the record
  \<open>rules_ext\<close>. Evaluating a file is the sequence of builtin calls it makes, until one fails or the evaluation
  itself does; the builder keeps what was added before a failure.
\<close>

fun with_location :: "policy_error \<Rightarrow> error_location \<Rightarrow> policy_error" where
  "with_location (ExampleDidNotMatch examples None) loc = ExampleDidNotMatch examples (Some loc)"
| "with_location (ExampleDidMatch example None) loc = ExampleDidMatch example (Some loc)"
| "with_location other loc = other"

definition attach_validation_location :: "policy_error \<Rightarrow> error_location option \<Rightarrow> policy_error" where
  "attach_validation_location error loc = (case loc of Some l \<Rightarrow> with_location error l | None \<Rightarrow> error)"

datatype 'w builtin_call =
  CallPrefixRule "'w list" "ustring option" "'w list option" "'w list option" "ustring option" "error_location option"
| CallNetworkRule ustring ustring ustring "ustring option"
| CallHostExecutable ustring "'w list"

record 'w rules_ext =
  rx_unpack_str :: "'w \<Rightarrow> ustring option"
  rx_list :: "'w \<Rightarrow> 'w list option"
  rx_shlex_split :: "ustring \<Rightarrow> ustring list option"
  rx_try_join :: "ustring list \<Rightarrow> ustring option"
  rx_eval :: "ustring \<Rightarrow> ustring \<Rightarrow> ustring + ('w builtin_call list \<times> ustring option)"

section \<open>Examples\<close>

definition render_example :: "'w rules_ext \<Rightarrow> ustring list \<Rightarrow> ustring" where
  "render_example ext example = (case rx_try_join ext example of Some s \<Rightarrow> s | None \<Rightarrow> lit ''unable to render example'')"

definition example_matches :: "'m multimap_ops \<Rightarrow> path_env \<Rightarrow> 'm policy \<Rightarrow> ustring list \<Rightarrow> rule_match list" where
  "example_matches mm env policy example =
     matches_for_command_with_options mm env policy example None \<lparr> resolve_host_executables = True \<rparr>"

definition validate_match_examples ::
  "'w rules_ext \<Rightarrow> 'm multimap_ops \<Rightarrow> path_env \<Rightarrow> 'm policy \<Rightarrow> ustring list list \<Rightarrow> policy_error + unit" where
  "validate_match_examples ext mm env policy matches =
     (let unmatched_examples = map (render_example ext) (filter (\<lambda>e. example_matches mm env policy e = []) matches)
      in if unmatched_examples = [] then Inr () else Inl (ExampleDidNotMatch unmatched_examples None))"

fun validate_not_match_examples ::
  "'w rules_ext \<Rightarrow> 'm multimap_ops \<Rightarrow> path_env \<Rightarrow> 'm policy \<Rightarrow> ustring list list \<Rightarrow> policy_error + unit" where
  "validate_not_match_examples ext mm env policy [] = Inr ()"
| "validate_not_match_examples ext mm env policy (example # rest) =
     (case example_matches mm env policy example of
        rule # _ \<Rightarrow> Inl (ExampleDidMatch (render_example ext example) None)
      | [] \<Rightarrow> validate_not_match_examples ext mm env policy rest)"

section \<open>The builder\<close>

record pending_example_validation =
  pv_rules :: "prefix_rule list"
  pv_matches :: "ustring list list"
  pv_not_matches :: "ustring list list"
  pv_location :: "error_location option"

record 'm policy_builder =
  pb_rules_by_program :: 'm
  pb_network_rules :: "network_rule list"
  pb_host_executables :: "ustring \<rightharpoonup> absolute_path list"
  pb_pending :: "pending_example_validation list"

definition builder_new :: "'m multimap_ops \<Rightarrow> 'm policy_builder" where
  "builder_new mm = \<lparr> pb_rules_by_program = mm_new mm, pb_network_rules = [], pb_host_executables = Map.empty, pb_pending = [] \<rparr>"

definition add_rule :: "'m multimap_ops \<Rightarrow> 'm policy_builder \<Rightarrow> prefix_rule \<Rightarrow> 'm policy_builder" where
  "add_rule mm self rule =
     self\<lparr> pb_rules_by_program := mm_insert mm (pb_rules_by_program self) (rule_program rule) rule \<rparr>"

definition builder_add_network_rule :: "'m policy_builder \<Rightarrow> network_rule \<Rightarrow> 'm policy_builder" where
  "builder_add_network_rule self rule = self\<lparr> pb_network_rules := pb_network_rules self @ [rule] \<rparr>"

definition add_host_executable :: "'m policy_builder \<Rightarrow> ustring \<Rightarrow> absolute_path list \<Rightarrow> 'm policy_builder" where
  "add_host_executable self name paths = self\<lparr> pb_host_executables := (pb_host_executables self)(name \<mapsto> paths) \<rparr>"

definition add_pending_example_validation ::
  "'m policy_builder \<Rightarrow> prefix_rule list \<Rightarrow> ustring list list \<Rightarrow> ustring list list \<Rightarrow> error_location option \<Rightarrow> 'm policy_builder" where
  "add_pending_example_validation self rules matches not_matches loc =
     self\<lparr> pb_pending := pb_pending self @
       [\<lparr> pv_rules = rules, pv_matches = matches, pv_not_matches = not_matches, pv_location = loc \<rparr>] \<rparr>"

text \<open>The policy of one call's own rules, with the host executables known by then.\<close>

definition own_policy :: "'m multimap_ops \<Rightarrow> 'm policy_builder \<Rightarrow> pending_example_validation \<Rightarrow> 'm policy" where
  "own_policy mm self validation =
     from_parts (foldl (\<lambda>m rule. mm_insert mm m (rule_program rule) rule) (mm_new mm) (pv_rules validation))
       [] (pb_host_executables self)"

fun validate_pending ::
  "'w rules_ext \<Rightarrow> 'm multimap_ops \<Rightarrow> path_env \<Rightarrow> 'm policy_builder \<Rightarrow> pending_example_validation list \<Rightarrow> policy_error + unit" where
  "validate_pending ext mm env self [] = Inr ()"
| "validate_pending ext mm env self (v # vs) =
     (case validate_not_match_examples ext mm env (own_policy mm self v) (pv_not_matches v) of
        Inl e \<Rightarrow> Inl (attach_validation_location e (pv_location v))
      | Inr _ \<Rightarrow>
     (case validate_match_examples ext mm env (own_policy mm self v) (pv_matches v) of
        Inl e \<Rightarrow> Inl (attach_validation_location e (pv_location v))
      | Inr _ \<Rightarrow> validate_pending ext mm env self vs))"

definition validate_pending_examples_from where
  "validate_pending_examples_from ext mm env self start = validate_pending ext mm env self (drop start (pb_pending self))"

definition builder_build :: "'m policy_builder \<Rightarrow> 'm policy" where
  "builder_build self = from_parts (pb_rules_by_program self) (pb_network_rules self) (pb_host_executables self)"

section \<open>Arguments of the builtins\<close>

definition unpack_strings :: "'w rules_ext \<Rightarrow> policy_error \<Rightarrow> 'w list \<Rightarrow> policy_error + ustring list" where
  "unpack_strings ext err values =
     collect_results (map (\<lambda>w. case rx_unpack_str ext w of Some s \<Rightarrow> Inr s | None \<Rightarrow> Inl err) values)"

definition parse_pattern_token :: "'w rules_ext \<Rightarrow> 'w \<Rightarrow> policy_error + pattern_token" where
  "parse_pattern_token ext w =
     (case rx_unpack_str ext w of
        Some s \<Rightarrow> Inr (Single s)
      | None \<Rightarrow>
     (case rx_list ext w of
        None \<Rightarrow> Inl InvalidPattern
      | Some ws \<Rightarrow> result_bind (unpack_strings ext InvalidPattern ws)
          (\<lambda>tokens. case tokens of [] \<Rightarrow> Inl InvalidPattern | [single] \<Rightarrow> Inr (Single single) | _ \<Rightarrow> Inr (Alts tokens))))"

definition parse_pattern :: "'w rules_ext \<Rightarrow> 'w list \<Rightarrow> policy_error + pattern_token list" where
  "parse_pattern ext pattern =
     result_bind (collect_results (map (parse_pattern_token ext) pattern))
       (\<lambda>tokens. if tokens = [] then Inl InvalidPattern else Inr tokens)"

definition parse_string_example :: "'w rules_ext \<Rightarrow> ustring \<Rightarrow> policy_error + ustring list" where
  "parse_string_example ext raw =
     (case rx_shlex_split ext raw of
        None \<Rightarrow> Inl InvalidExample
      | Some tokens \<Rightarrow> if tokens = [] then Inl InvalidExample else Inr tokens)"

definition parse_list_example :: "'w rules_ext \<Rightarrow> 'w list \<Rightarrow> policy_error + ustring list" where
  "parse_list_example ext ws =
     result_bind (unpack_strings ext InvalidExample ws) (\<lambda>tokens. if tokens = [] then Inl InvalidExample else Inr tokens)"

definition parse_example :: "'w rules_ext \<Rightarrow> 'w \<Rightarrow> policy_error + ustring list" where
  "parse_example ext w =
     (case rx_unpack_str ext w of
        Some raw \<Rightarrow> parse_string_example ext raw
      | None \<Rightarrow> (case rx_list ext w of Some ws \<Rightarrow> parse_list_example ext ws | None \<Rightarrow> Inl InvalidExample))"

definition parse_examples :: "'w rules_ext \<Rightarrow> 'w list \<Rightarrow> policy_error + ustring list list" where
  "parse_examples ext examples = collect_results (map (parse_example ext) examples)"

definition parse_optional_examples :: "'w rules_ext \<Rightarrow> 'w list option \<Rightarrow> policy_error + ustring list list" where
  "parse_optional_examples ext examples = (case examples of None \<Rightarrow> Inr [] | Some ws \<Rightarrow> parse_examples ext ws)"

definition parse_literal_absolute_path :: "path_env \<Rightarrow> ustring \<Rightarrow> policy_error + absolute_path" where
  "parse_literal_absolute_path env raw =
     (if \<not> is_absolute raw then Inl InvalidRule
      else case from_absolute_path env raw of Inl _ \<Rightarrow> Inl InvalidRule | Inr p \<Rightarrow> Inr p)"

definition validate_host_executable_name :: "ustring \<Rightarrow> policy_error + unit" where
  "validate_host_executable_name name =
     (if name = [] then Inl InvalidRule
      else if length (path_components name) \<noteq> 1 \<or> file_name name \<noteq> Some name then Inl InvalidRule
      else Inr ())"

definition parse_network_rule_decision :: "ustring \<Rightarrow> policy_error + decision" where
  "parse_network_rule_decision raw = (if raw = lit ''deny'' then Inr Forbidden else decision_parse raw)"

definition check_justification :: "ustring option \<Rightarrow> policy_error + unit" where
  "check_justification justification =
     (case justification of Some raw \<Rightarrow> if trim raw = [] then Inl InvalidRule else Inr () | None \<Rightarrow> Inr ())"

section \<open>The builtins\<close>

definition prefix_rule_builtin ::
  "'w rules_ext \<Rightarrow> 'm multimap_ops \<Rightarrow> 'w list \<Rightarrow> ustring option \<Rightarrow> 'w list option \<Rightarrow> 'w list option \<Rightarrow> ustring option
   \<Rightarrow> error_location option \<Rightarrow> 'm policy_builder \<Rightarrow> policy_error + 'm policy_builder" where
  "prefix_rule_builtin ext mm pattern decision matches not_matches justification loc b =
     result_bind (case decision of Some raw \<Rightarrow> decision_parse raw | None \<Rightarrow> Inr Allow) (\<lambda>decision.
     result_bind (check_justification justification) (\<lambda>_.
     result_bind (parse_pattern ext pattern) (\<lambda>pattern_tokens.
     result_bind (parse_optional_examples ext matches) (\<lambda>matches.
     result_bind (parse_optional_examples ext not_matches) (\<lambda>not_matches.
     case pattern_tokens of
       [] \<Rightarrow> Inl InvalidPattern
     | first_token # rest \<Rightarrow>
         let rules = map (\<lambda>head. \<lparr> pr_pattern = \<lparr> pat_first = head, pat_rest = rest \<rparr>,
                                    pr_decision = decision, pr_justification = justification \<rparr>)
                       (token_alternatives first_token)
         in Inr (foldl (add_rule mm) (add_pending_example_validation b rules matches not_matches loc) rules))))))"

definition network_rule_builtin ::
  "ustring \<Rightarrow> ustring \<Rightarrow> ustring \<Rightarrow> ustring option \<Rightarrow> 'm policy_builder \<Rightarrow> policy_error + 'm policy_builder" where
  "network_rule_builtin host protocol decision justification b =
     result_bind (protocol_parse protocol) (\<lambda>protocol.
     result_bind (parse_network_rule_decision decision) (\<lambda>decision.
     result_bind (check_justification justification) (\<lambda>_.
     result_bind (normalize_network_rule_host host) (\<lambda>host.
       Inr (builder_add_network_rule b
         \<lparr> nr_host = host, nr_protocol = protocol, nr_decision = decision, nr_justification = justification \<rparr>)))))"

fun host_executable_paths ::
  "'w rules_ext \<Rightarrow> path_env \<Rightarrow> ustring \<Rightarrow> 'w list \<Rightarrow> absolute_path list \<Rightarrow> policy_error + absolute_path list" where
  "host_executable_paths ext env name [] parsed_paths = Inr parsed_paths"
| "host_executable_paths ext env name (w # ws) parsed_paths =
     (case rx_unpack_str ext w of
        None \<Rightarrow> Inl InvalidRule
      | Some raw \<Rightarrow>
          result_bind (parse_literal_absolute_path env raw) (\<lambda>path.
            case executable_path_lookup_key path of
              None \<Rightarrow> Inl InvalidRule
            | Some path_name \<Rightarrow>
                if path_name \<noteq> executable_lookup_key name then Inl InvalidRule
                else host_executable_paths ext env name ws
                       (if list_ex (\<lambda>existing. existing = path) parsed_paths then parsed_paths else parsed_paths @ [path])))"

definition host_executable_builtin ::
  "'w rules_ext \<Rightarrow> path_env \<Rightarrow> ustring \<Rightarrow> 'w list \<Rightarrow> 'm policy_builder \<Rightarrow> policy_error + 'm policy_builder" where
  "host_executable_builtin ext env name paths b =
     result_bind (validate_host_executable_name name) (\<lambda>_.
     result_bind (host_executable_paths ext env name paths []) (\<lambda>parsed_paths.
       Inr (add_host_executable b (executable_lookup_key name) parsed_paths)))"

fun run_call :: "'w rules_ext \<Rightarrow> 'm multimap_ops \<Rightarrow> path_env \<Rightarrow> 'w builtin_call \<Rightarrow> 'm policy_builder \<Rightarrow> policy_error + 'm policy_builder" where
  "run_call ext mm env (CallPrefixRule pattern d ms nms j loc) b = prefix_rule_builtin ext mm pattern d ms nms j loc b"
| "run_call ext mm env (CallNetworkRule host protocol d j) b = network_rule_builtin host protocol d j b"
| "run_call ext mm env (CallHostExecutable name paths) b = host_executable_builtin ext env name paths b"

fun run_calls ::
  "'w rules_ext \<Rightarrow> 'm multimap_ops \<Rightarrow> path_env \<Rightarrow> 'w builtin_call list \<Rightarrow> 'm policy_builder \<Rightarrow> policy_error option \<times> 'm policy_builder" where
  "run_calls ext mm env [] b = (None, b)"
| "run_calls ext mm env (call # calls) b =
     (case run_call ext mm env call b of
        Inl e \<Rightarrow> (Some e, b)
      | Inr b' \<Rightarrow> run_calls ext mm env calls b')"

definition parser_parse ::
  "'w rules_ext \<Rightarrow> 'm multimap_ops \<Rightarrow> path_env \<Rightarrow> 'm policy_builder \<Rightarrow> ustring \<Rightarrow> ustring
   \<Rightarrow> (policy_error + unit) \<times> 'm policy_builder" where
  "parser_parse ext mm env b policy_identifier contents =
     (case rx_eval ext policy_identifier contents of
        Inl e \<Rightarrow> (Inl (Starlark e), b)
      | Inr (calls, failure) \<Rightarrow>
          (case run_calls ext mm env calls b of
             (Some e, b') \<Rightarrow> (Inl (BuiltinFailed e), b')
           | (None, b') \<Rightarrow>
               (case failure of
                  Some e \<Rightarrow> (Inl (Starlark e), b')
                | None \<Rightarrow> (validate_pending_examples_from ext mm env b' (length (pb_pending b)), b'))))"


section \<open>Accepted files keep their word\<close>

lemma validate_not_match_ok:
  "validate_not_match_examples ext mm env p es = Inr () \<longleftrightarrow> list_all (\<lambda>e. example_matches mm env p e = []) es"
  by (induction es) (auto split: list.splits)

lemma validate_match_ok:
  "validate_match_examples ext mm env p es = Inr () \<longleftrightarrow> list_all (\<lambda>e. example_matches mm env p e \<noteq> []) es"
  by (auto simp: validate_match_examples_def Let_def list_all_iff filter_empty_conv)

lemma validate_pending_ok:
  "validate_pending ext mm env b vs = Inr () \<longleftrightarrow>
     list_all (\<lambda>v. list_all (\<lambda>e. example_matches mm env (own_policy mm b v) e \<noteq> []) (pv_matches v)
                 \<and> list_all (\<lambda>e. example_matches mm env (own_policy mm b v) e = []) (pv_not_matches v)) vs"
  using validate_not_match_ok validate_match_ok
  by (induction vs) (auto split: sum.splits simp flip: validate_not_match_ok [of ext] validate_match_ok [of ext])


section \<open>Reachable builders\<close>

inductive reachable_builder :: "'w rules_ext \<Rightarrow> 'm multimap_ops \<Rightarrow> path_env \<Rightarrow> 'm policy_builder \<Rightarrow> bool"
  for ext mm env where
  start: "reachable_builder ext mm env (builder_new mm)"
| call: "\<lbrakk>reachable_builder ext mm env b; run_call ext mm env c b = Inr b'\<rbrakk> \<Longrightarrow> reachable_builder ext mm env b'"

definition clean_host :: "ustring \<Rightarrow> bool" where
  "clean_host h \<longleftrightarrow> (\<exists>raw. normalize_network_rule_host raw = Inr h)"

definition host_paths_ok :: "ustring \<Rightarrow> absolute_path list \<Rightarrow> bool" where
  "host_paths_ok name paths \<longleftrightarrow> distinct paths \<and> list_all (\<lambda>p. normal_path p \<and> file_name p = Some name) paths"

definition builder_wf :: "'m multimap_ops \<Rightarrow> 'm policy_builder \<Rightarrow> bool" where
  "builder_wf mm b \<longleftrightarrow>
     (\<forall>k. list_all (\<lambda>r. rule_program r = k) (rules_at mm (pb_rules_by_program b) k))
   \<and> list_all (\<lambda>r. clean_host (nr_host r)) (pb_network_rules b)
   \<and> (\<forall>name paths. pb_host_executables b name = Some paths \<longrightarrow> host_paths_ok name paths)"

lemma rules_at_new: "multimap_laws mm \<Longrightarrow> rules_at mm (mm_new mm) k = []"
  by (simp add: multimap_laws_def rules_at_def)

lemma builder_wf_new: "multimap_laws mm \<Longrightarrow> builder_wf mm (builder_new mm)"
  by (simp add: builder_wf_def builder_new_def rules_at_new)

lemma builder_wf_add_rule: "multimap_laws mm \<Longrightarrow> builder_wf mm b \<Longrightarrow> builder_wf mm (add_rule mm b r)"
  by (simp add: builder_wf_def add_rule_def rules_at_insert)

lemma builder_wf_add_rules: "multimap_laws mm \<Longrightarrow> builder_wf mm b \<Longrightarrow> builder_wf mm (foldl (add_rule mm) b rs)"
  by (induction rs arbitrary: b) (simp_all add: builder_wf_add_rule)

lemma prefix_rule_builtin_wf:
  assumes "multimap_laws mm" "builder_wf mm b" "prefix_rule_builtin ext mm pat d ms nms j loc b = Inr b'"
  shows "builder_wf mm b'"
proof -
  from assms(3) obtain rules ms' nms' where "b' = foldl (add_rule mm) (add_pending_example_validation b rules ms' nms' loc) rules"
    by (auto simp: prefix_rule_builtin_def result_bind_Inr_iff Let_def neq_Nil_conv split: list.splits)
  moreover have "builder_wf mm (add_pending_example_validation b rules ms' nms' loc)"
    using assms(2) by (simp add: builder_wf_def add_pending_example_validation_def)
  ultimately show ?thesis using builder_wf_add_rules [OF assms(1)] by simp
qed

lemma network_rule_builtin_wf:
  "builder_wf mm b \<Longrightarrow> network_rule_builtin host protocol d j b = Inr b' \<Longrightarrow> builder_wf mm b'"
  by (auto simp: network_rule_builtin_def result_bind_Inr_iff builder_wf_def builder_add_network_rule_def clean_host_def)

lemma parse_literal_normal: "parse_literal_absolute_path env raw = Inr p \<Longrightarrow> normal_path p"
  by (auto simp: parse_literal_absolute_path_def from_absolute_path_def absolutize_def expand_home_absolute
      normalize_path_for_platform_def intro: normal_path_normalize split: if_splits sum.splits)

lemma host_executable_paths_ok:
  "host_executable_paths ext env name ws acc = Inr paths \<Longrightarrow> host_paths_ok name acc \<Longrightarrow> host_paths_ok name paths"
proof (induction ws arbitrary: acc)
  case (Cons w ws)
  then obtain raw path where p: "rx_unpack_str ext w = Some raw" "parse_literal_absolute_path env raw = Inr path"
    "file_name path = Some name"
    "host_executable_paths ext env name ws (if list_ex (\<lambda>existing. existing = path) acc then acc else acc @ [path]) = Inr paths"
    by (auto simp: result_bind_Inr_iff executable_path_lookup_key_def executable_lookup_key_def split: option.splits if_splits)
  have "host_paths_ok name (if list_ex (\<lambda>existing. existing = path) acc then acc else acc @ [path])"
    using Cons.prems(2) p(3) parse_literal_normal [OF p(2)] by (auto simp: host_paths_ok_def list_ex_iff)
  then show ?case by (rule Cons.IH [OF p(4)])
qed simp

lemma host_executable_builtin_wf:
  assumes "builder_wf mm b" "host_executable_builtin ext env name ws b = Inr b'"
  shows "builder_wf mm b'"
proof -
  from assms(2) obtain paths where "host_executable_paths ext env name ws [] = Inr paths" "b' = add_host_executable b name paths"
    by (auto simp: host_executable_builtin_def result_bind_Inr_iff executable_lookup_key_def)
  moreover from this have "host_paths_ok name paths" using host_executable_paths_ok by (fastforce simp: host_paths_ok_def)
  ultimately show ?thesis using assms(1) by (auto simp: builder_wf_def add_host_executable_def)
qed

lemma run_call_wf: "multimap_laws mm \<Longrightarrow> builder_wf mm b \<Longrightarrow> run_call ext mm env c b = Inr b' \<Longrightarrow> builder_wf mm b'"
  by (cases c) (auto dest: prefix_rule_builtin_wf network_rule_builtin_wf host_executable_builtin_wf)

lemma reachable_builder_wf: "reachable_builder ext mm env b \<Longrightarrow> multimap_laws mm \<Longrightarrow> builder_wf mm b"
  by (induction rule: reachable_builder.induct) (auto intro: builder_wf_new run_call_wf)

lemma run_calls_reachable: "reachable_builder ext mm env b \<Longrightarrow> reachable_builder ext mm env (snd (run_calls ext mm env cs b))"
  by (induction cs arbitrary: b) (auto split: sum.splits intro: reachable_builder.call)

lemma parser_parse_reachable:
  assumes "reachable_builder ext mm env b"
  shows "reachable_builder ext mm env (snd (parser_parse ext mm env b i c))"
  using assms run_calls_reachable [OF assms] by (auto simp: parser_parse_def split: sum.splits prod.splits option.splits) (metis snd_conv)+

text \<open>
  C33. Whatever files are read, accepted or not, the policy under construction stays well formed: each rule is
  filed under the program it is for, each network rule names a normalized host, and each declared host
  executable has distinct, absolute, dot-free paths whose file name is the declared name.
\<close>

theorem rules_files_keep_policy_well_formed:
  assumes "multimap_laws mm" "reachable_builder ext mm env b"
  shows "reachable_builder ext mm env (snd (parser_parse ext mm env b policy_identifier contents))
       \<and> builder_wf mm (snd (parser_parse ext mm env b policy_identifier contents))"
  using parser_parse_reachable [OF assms(2)] reachable_builder_wf assms(1) by blast

lemma prefix_rule_matches_program: "prefix_rule_matches r cmd = Some m \<Longrightarrow> cmd \<noteq> [] \<and> hd cmd = rule_program r"
  by (auto simp: prefix_rule_matches_def matches_prefix_def rule_program_def Let_def split: if_splits)

text \<open>
  C27. Looking rules up by program loses nothing: the matches found under a command's first token are those that a scan
  of all the rules of the policy would find.
\<close>

theorem lookup_by_program_is_complete:
  assumes "multimap_laws mm" "reachable_builder ext mm env b"
  shows "set (exact_matches mm (builder_build b) cmd)
       = {m. \<exists>k r. r \<in> set (rules_at mm (pb_rules_by_program b) k) \<and> prefix_rule_matches r cmd = Some m}"
proof -
  have filed: "r \<in> set (rules_at mm (pb_rules_by_program b) k) \<Longrightarrow> rule_program r = k" for r k
    using reachable_builder_wf [OF assms(2,1)] by (auto simp: builder_wf_def list_all_iff)
  have "m \<in> set (exact_matches mm (builder_build b) cmd) \<longleftrightarrow>
      (\<exists>r. cmd \<noteq> [] \<and> r \<in> set (rules_at mm (pb_rules_by_program b) (hd cmd)) \<and> prefix_rule_matches r cmd = Some m)" for m
    by (auto simp: exact_matches_rules builder_build_def from_parts_def in_set_map_filter)
  moreover have "k = hd cmd \<and> cmd \<noteq> []"
    if "r \<in> set (rules_at mm (pb_rules_by_program b) k)" "prefix_rule_matches r cmd = Some m" for k r m
    using filed [OF that(1)] prefix_rule_matches_program [OF that(2)] by simp
  ultimately show ?thesis by (intro set_eqI) (simp, metis)
qed

section \<open>Witnesses\<close>

text \<open>Values that are strings or lists of strings, and an evaluator that makes one call.\<close>

datatype demo_value = DStr ustring | DList "demo_value list"

definition demo_call :: "demo_value builtin_call" where
  "demo_call = CallPrefixRule [DStr (lit ''git''), DList [DStr (lit ''log''), DStr (lit ''diff'')]] (Some (lit ''prompt''))
     (Some [DList [DStr (lit ''git''), DStr (lit ''log'')]]) (Some [DList [DStr (lit ''git''), DStr (lit ''push'')]]) None None"

definition demo_ext :: "demo_value rules_ext" where
  "demo_ext = \<lparr> rx_unpack_str = (\<lambda>w. case w of DStr s \<Rightarrow> Some s | _ \<Rightarrow> None),
     rx_list = (\<lambda>w. case w of DList ws \<Rightarrow> Some ws | _ \<Rightarrow> None),
     rx_shlex_split = (\<lambda>s. Some (split_char 32 s)), rx_try_join = (\<lambda>ws. Some (join_str [32] ws)),
     rx_eval = (\<lambda>_ _. Inr ([demo_call], None)) \<rparr>"

definition demo_builder :: "(ustring \<times> prefix_rule list) list policy_builder" where
  "demo_builder = builder_new alist_multimap"

lemma demo_parse_accepts: "fst (parser_parse demo_ext alist_multimap demo_env demo_builder [] []) = Inr ()"
  by code_simp

lemma demo_parse_pending:
  "map pv_matches (pb_pending (snd (parser_parse demo_ext alist_multimap demo_env demo_builder [] []))) = [[[lit ''git'', lit ''log'']]]"
  by code_simp


theorem rules_files_keep_policy_well_formed_witness:
  "builder_wf alist_multimap (snd (parser_parse demo_ext alist_multimap demo_env demo_builder [] []))"
  using rules_files_keep_policy_well_formed [OF alist_multimap_laws reachable_builder.start [of demo_ext _ demo_env]]
  by (simp add: demo_builder_def)

lemma demo_reachable: "reachable_builder demo_ext alist_multimap demo_env (snd (parser_parse demo_ext alist_multimap demo_env demo_builder [] []))"
  using parser_parse_reachable [OF reachable_builder.start] by (simp add: demo_builder_def)

theorem lookup_by_program_is_complete_witness:
  "PrefixRuleMatch [lit ''git'', lit ''diff''] Prompt None None
   \<in> {m. \<exists>k r. r \<in> set (rules_at alist_multimap (pb_rules_by_program (snd (parser_parse demo_ext alist_multimap demo_env demo_builder [] []))) k)
          \<and> prefix_rule_matches r [lit ''git'', lit ''diff'', lit ''x''] = Some m}"
proof -
  have "PrefixRuleMatch [lit ''git'', lit ''diff''] Prompt None None
      \<in> set (exact_matches alist_multimap (builder_build (snd (parser_parse demo_ext alist_multimap demo_env demo_builder [] [])))
           [lit ''git'', lit ''diff'', lit ''x''])"
    by code_simp
  then show ?thesis unfolding lookup_by_program_is_complete [OF alist_multimap_laws demo_reachable] .
qed

end
