(* ===== verification/Policy_Amend.thy ===== *)
theory Policy_Amend
  imports Exec_Policy_Parser
begin

text \<open>
  Appending rules to a rules file (\<^verbatim>\<open>ra-execpolicy/src/amend.rs\<close>). The answers of the operating system are the
  record \<open>amend_io\<close>: each call may fail, and a failing write may have written part of its bytes. JSON quoting
  is the third-party \<^verbatim>\<open>serde_json::to_string\<close>, the argument \<open>json\<close>. The file is its contents, absent when \<open>None\<close>;
  the lock excludes other writers between the read and the write.
\<close>

datatype amend_error =
  EmptyPrefix | InvalidNetworkRule | MissingParent | CreatePolicyDir | SerializePrefix | SerializeNetworkRule
| OpenPolicyFile | LockPolicyFile | SeekPolicyFile | ReadPolicyFile | WritePolicyFile

datatype mkdir_answer = Created | AlreadyExists | MkdirFailed

record amend_io =
  io_create_dir :: mkdir_answer
  io_open_fails :: bool
  io_lock_fails :: bool
  io_seek_fails :: bool
  io_read_fails :: bool
  io_newline_write :: "nat option"
  io_line_write :: "nat option"

definition contents_of :: "ustring option \<Rightarrow> ustring" where
  "contents_of file = (case file of None \<Rightarrow> [] | Some c \<Rightarrow> c)"

text \<open>\<^verbatim>\<open>write_all\<close>: the file after it, and whether it succeeded.\<close>

definition write_all :: "nat option \<Rightarrow> ustring \<Rightarrow> ustring \<Rightarrow> ustring \<times> bool" where
  "write_all answer contents bytes =
     (case answer of None \<Rightarrow> (contents @ bytes, True) | Some n \<Rightarrow> (contents @ take n bytes, False))"

definition append_locked_line :: "amend_io \<Rightarrow> ustring option \<Rightarrow> ustring \<Rightarrow> (amend_error + unit) \<times> ustring option" where
  "append_locked_line io file line =
     (if io_open_fails io then (Inl OpenPolicyFile, file)
      else let contents = contents_of file
      in if io_lock_fails io then (Inl LockPolicyFile, Some contents)
         else if io_seek_fails io then (Inl SeekPolicyFile, Some contents)
         else if io_read_fails io then (Inl ReadPolicyFile, Some contents)
         else if list_ex (\<lambda>existing. existing = line) (str_lines contents) then (Inr (), Some contents)
         else let (contents1, ok1) = (if contents \<noteq> [] \<and> last contents \<noteq> 10
                    then write_all (io_newline_write io) contents [10] else (contents, True))
              in if \<not> ok1 then (Inl WritePolicyFile, Some contents1)
                 else let (contents2, ok2) = write_all (io_line_write io) contents1 (line @ [10])
                      in (if ok2 then Inr () else Inl WritePolicyFile, Some contents2))"

definition append_rule_line ::
  "amend_io \<Rightarrow> ustring \<Rightarrow> ustring option \<Rightarrow> ustring \<Rightarrow> (amend_error + unit) \<times> ustring option" where
  "append_rule_line io policy_path file rule =
     (case path_parent policy_path of
        None \<Rightarrow> (Inl MissingParent, file)
      | Some dir \<Rightarrow>
          (case io_create_dir io of
             MkdirFailed \<Rightarrow> (Inl CreatePolicyDir, file)
           | _ \<Rightarrow> append_locked_line io file rule))"

definition json_all :: "(ustring \<Rightarrow> ustring option) \<Rightarrow> amend_error \<Rightarrow> ustring list \<Rightarrow> amend_error + ustring list" where
  "json_all json err ss = collect_results (map (\<lambda>s. case json s of Some t \<Rightarrow> Inr t | None \<Rightarrow> Inl err) ss)"

definition prefix_rule_line :: "ustring list \<Rightarrow> ustring" where
  "prefix_rule_line tokens =
     lit ''prefix_rule(pattern=['' @ join_str (lit '', '') tokens @ lit ''], decision='' @ [34] @ lit ''allow'' @ [34] @ lit '')''"

definition blocking_append_allow_prefix_rule ::
  "(ustring \<Rightarrow> ustring option) \<Rightarrow> amend_io \<Rightarrow> ustring \<Rightarrow> ustring option \<Rightarrow> ustring list \<Rightarrow> (amend_error + unit) \<times> ustring option" where
  "blocking_append_allow_prefix_rule json io policy_path file prefix =
     (if prefix = [] then (Inl EmptyPrefix, file)
      else case json_all json SerializePrefix prefix of
             Inl e \<Rightarrow> (Inl e, file)
           | Inr tokens \<Rightarrow> append_rule_line io policy_path file (prefix_rule_line tokens))"

fun network_decision_text :: "decision \<Rightarrow> ustring" where
  "network_decision_text Allow = lit ''allow''"
| "network_decision_text Prompt = lit ''prompt''"
| "network_decision_text Forbidden = lit ''deny''"

definition network_rule_line :: "ustring list \<Rightarrow> ustring" where
  "network_rule_line values =
     lit ''network_rule('' @ join_str (lit '', '')
       (map (\<lambda>(name, v). name @ [61] @ v)
         (zip [lit ''host'', lit ''protocol'', lit ''decision'', lit ''justification''] values)) @ lit '')''"

definition blocking_append_network_rule ::
  "(ustring \<Rightarrow> ustring option) \<Rightarrow> amend_io \<Rightarrow> ustring \<Rightarrow> ustring option \<Rightarrow> ustring \<Rightarrow> network_rule_protocol \<Rightarrow> decision
   \<Rightarrow> ustring option \<Rightarrow> (amend_error + unit) \<times> ustring option" where
  "blocking_append_network_rule json io policy_path file host protocol decision justification =
     (case normalize_network_rule_host host of
        Inl _ \<Rightarrow> (Inl InvalidNetworkRule, file)
      | Inr host \<Rightarrow>
          if (case justification of None \<Rightarrow> False | Some raw \<Rightarrow> trim raw = []) then (Inl InvalidNetworkRule, file)
          else case json_all json SerializeNetworkRule
                      ([host, as_policy_string protocol, network_decision_text decision]
                       @ (case justification of None \<Rightarrow> [] | Some j \<Rightarrow> [j])) of
                 Inl e \<Rightarrow> (Inl e, file)
               | Inr values \<Rightarrow> append_rule_line io policy_path file (network_rule_line values))"

section \<open>Existing rules are never lost\<close>

lemma append_locked_line_extends:
  "\<exists>more. contents_of (snd (append_locked_line io file line)) = contents_of file @ more"
  by (auto simp: append_locked_line_def write_all_def contents_of_def Let_def split: option.splits if_splits)

lemma append_rule_line_extends:
  "\<exists>more. contents_of (snd (append_rule_line io path file line)) = contents_of file @ more"
  using append_locked_line_extends [of io "file" "line"]
  by (auto simp: append_rule_line_def split: option.splits mkdir_answer.splits)

lemma split_inclusive_append:
  "s = [] \<or> last s = d \<Longrightarrow> split_inclusive d (s @ t) = split_inclusive d s @ split_inclusive d t"
proof (induction s)
  case (Cons c s)
  show ?case
  proof (cases "s = []")
    case True
    then show ?thesis using Cons.prems by simp
  next
    case False
    then have "split_inclusive d s \<noteq> []" by (cases s) (auto split: list.splits)
    then show ?thesis using Cons False by (auto split: list.splits)
  qed
qed simp

lemma str_lines_snoc:
  assumes "s = [] \<or> last s = 10" "10 \<notin> set l" "l = [] \<or> last l \<noteq> 13"
  shows "str_lines (s @ l @ [10]) = str_lines s @ [l]"
proof -
  have "split_inclusive 10 (l @ [10]) = [l @ [10]]" using assms(2) by (induction l) auto
  moreover have "strip_suffix [13] l = None" using assms(3) by (auto simp: strip_suffix_None_iff)
  ultimately show ?thesis using assms(1) by (simp add: str_lines_def split_inclusive_append strip_line_ending_def)
qed

text \<open>Ending the last line does not change the lines, unless that line ends in a carriage return.\<close>

lemma str_lines_terminate:
  assumes "s \<noteq> []" "last s \<noteq> 10" "last s \<noteq> 13"
  shows "str_lines (s @ [10]) = str_lines s"
proof -
  obtain a l where s: "s = a @ l" "a = [] \<or> last a = 10" "10 \<notin> set l"
  proof (rule that [of "rev (dropWhile (\<lambda>c. c \<noteq> 10) (rev s))" "rev (takeWhile (\<lambda>c. c \<noteq> 10) (rev s))"])
    show "s = rev (dropWhile (\<lambda>c. c \<noteq> 10) (rev s)) @ rev (takeWhile (\<lambda>c. c \<noteq> 10) (rev s))"
      by (metis rev_append rev_rev_ident takeWhile_dropWhile_id)
    show "rev (dropWhile (\<lambda>c. c \<noteq> 10) (rev s)) = [] \<or> last (rev (dropWhile (\<lambda>c. c \<noteq> 10) (rev s))) = 10"
      using hd_dropWhile [of "\<lambda>c. c \<noteq> 10" "rev s"] by (auto simp: last_rev)
    show "10 \<notin> set (rev (takeWhile (\<lambda>c. c \<noteq> 10) (rev s)))" using set_takeWhileD by fastforce
  qed
  have l: "l \<noteq> []" "last l \<noteq> 13" using assms s by (auto simp: last_append split: if_splits)
  have "split_inclusive 10 l = (if l = [] then [] else [l])" using s(3) by (induction l) auto
  then have "split_inclusive 10 l = [l]" using l(1) by simp
  moreover have "strip_suffix [10] l = None" using s(3) by (auto simp: strip_suffix_None_iff)
  ultimately have "str_lines s = str_lines a @ [l]"
    using s by (simp add: str_lines_def split_inclusive_append strip_line_ending_def)
  then show ?thesis using str_lines_snoc [OF s(2,3)] l s(1) by simp
qed


text \<open>What a successful append leaves.\<close>

lemma append_locked_line_lines:
  assumes "append_locked_line io file line = (Inr (), file')" "10 \<notin> set line" "line = [] \<or> last line \<noteq> 13"
    and "contents_of file = [] \<or> last (contents_of file) \<noteq> 13"
  shows "str_lines (contents_of file') =
    (if line \<in> set (str_lines (contents_of file)) then str_lines (contents_of file) else str_lines (contents_of file) @ [line])"
proof -
  let ?c = "contents_of file"
  let ?c1 = "if ?c \<noteq> [] \<and> last ?c \<noteq> 10 then ?c @ [10] else ?c"
  have "contents_of file' = (if line \<in> set (str_lines ?c) then ?c else ?c1 @ line @ [10])"
    using assms(1) by (auto simp: append_locked_line_def write_all_def contents_of_def Let_def list_ex_iff split: option.splits if_splits)
  moreover have "str_lines (?c1 @ line @ [10]) = str_lines ?c1 @ [line]"
    by (rule str_lines_snoc) (use assms(2,3) in auto)
  moreover have "str_lines ?c1 = str_lines ?c" using assms(4) str_lines_terminate by auto
  ultimately show ?thesis by simp
qed

text \<open>
  C34. Appending a rule is safe. Whatever fails, at whatever point, the bytes already in the file stay in
  place. When it succeeds the file has one more line, the rule, unless it had that very line, in which case it is
  unchanged; and appending the same rule again succeeds and changes nothing.
\<close>

theorem append_keeps_existing_rules:
  assumes "10 \<notin> set line" "line = [] \<or> last line \<noteq> 13" "contents_of file = [] \<or> last (contents_of file) \<noteq> 13"
    and "append_rule_line io path file line = (result, file')"
  shows "(\<exists>added. contents_of file' = contents_of file @ added)
    \<and> (result = Inr () \<longrightarrow> str_lines (contents_of file') =
         (if line \<in> set (str_lines (contents_of file)) then str_lines (contents_of file)
          else str_lines (contents_of file) @ [line])
        \<and> append_rule_line io path file' line = (Inr (), file'))"
proof (intro conjI impI)
  show "\<exists>added. contents_of file' = contents_of file @ added"
    using append_rule_line_extends [of io path "file" "line"] assms(4) by simp
next
  assume r: "result = Inr ()"
  then obtain dir where ok: "path_parent path = Some dir" "io_create_dir io \<noteq> MkdirFailed"
    and app: "append_locked_line io file line = (Inr (), file')"
    using assms(4) by (auto simp: append_rule_line_def split: option.splits mkdir_answer.splits)
  note lines = append_locked_line_lines [OF app assms(1-3)]
  show "str_lines (contents_of file') = (if line \<in> set (str_lines (contents_of file)) then str_lines (contents_of file)
          else str_lines (contents_of file) @ [line])" by (rule lines)
  have "line \<in> set (str_lines (contents_of file'))" using lines by (simp split: if_splits)
  moreover have "\<not> io_open_fails io" "\<not> io_lock_fails io" "\<not> io_seek_fails io" "\<not> io_read_fails io" "file' = Some (contents_of file')"
    using app by (auto simp: append_locked_line_def write_all_def contents_of_def Let_def split: option.splits if_splits)
  ultimately have "append_locked_line io file' line = (Inr (), file')"
    by (subst append_locked_line_def) (simp add: Let_def list_ex_iff)
  then show "append_rule_line io path file' line = (Inr (), file')"
    using ok by (auto simp: append_rule_line_def split: mkdir_answer.splits)
qed

definition io_fine :: amend_io where
  "io_fine = \<lparr> io_create_dir = AlreadyExists, io_open_fails = False, io_lock_fails = False, io_seek_fails = False,
     io_read_fails = False, io_newline_write = None, io_line_write = None \<rparr>"

theorem append_keeps_existing_rules_witness:
  "append_rule_line io_fine (lit ''/r/rules'') (Some (lit ''a'')) (lit ''b'') = (Inr (), Some (lit ''a'' @ [10] @ lit ''b'' @ [10]))
   \<and> str_lines (lit ''a'' @ [10] @ lit ''b'' @ [10]) = [lit ''a'', lit ''b'']"
proof -
  have eval: "append_rule_line io_fine (lit ''/r/rules'') (Some (lit ''a'')) (lit ''b'') = (Inr (), Some (lit ''a'' @ [10] @ lit ''b'' @ [10]))"
    by code_simp
  have lines: "str_lines (lit ''a'') = [lit ''a'']" by code_simp
  show ?thesis
    using append_keeps_existing_rules [OF _ _ _ eval] eval lines by (simp add: contents_of_def lit_def)
qed

text \<open>The spellings written for a network rule are those the parser reads.\<close>

lemma network_spellings_read_back:
  "parse_network_rule_decision (network_decision_text d) = Inr d" "protocol_parse (as_policy_string p) = Inr p"
  by (cases d; simp add: parse_network_rule_decision_def decision_parse_def)
    (cases p; simp add: protocol_parse_def)

end
