(* ===== verification/Run_Item.thy ===== *)
theory Run_Item
  imports Tool_Identity
begin

text \<open>
  The items of a session, \<^verbatim>\<open>ra-core/src/item.rs\<close> and \<^verbatim>\<open>ra-core/src/item/*.rs\<close>: the payload
  records with their constructors and builders, the authoritative record \<^verbatim>\<open>RunItem\<close>, its
  model-facing projection \<^verbatim>\<open>ModelInputItem\<close>, and the two directions between them. A JSON value is
  opaque here (the type variable \<open>'v\<close>); getters are the record selectors, and a \<^verbatim>\<open>schema_version\<close>
  constant is written out at its constructor.
\<close>

section \<open>Content blocks and messages\<close>

record 'v text_block =
  tb_schema_version :: u32
  tb_text :: ustring
  tb_provider_metadata :: "ustring \<rightharpoonup> 'v"
  tb_unknown :: "'v unknown"

definition text_block_new :: "ustring \<Rightarrow> 'v text_block" where
  "text_block_new t = \<lparr> tb_schema_version = 1, tb_text = t, tb_provider_metadata = Map.empty, tb_unknown = Map.empty \<rparr>"

definition text_with_provider_metadata :: "'v text_block \<Rightarrow> ustring \<Rightarrow> 'v \<Rightarrow> 'v text_block" where
  "text_with_provider_metadata self namespace metadata =
     self \<lparr> tb_provider_metadata := (tb_provider_metadata self)(namespace \<mapsto> metadata) \<rparr>"

record 'v thinking_block =
  th_schema_version :: u32
  th_thinking :: ustring
  th_signature :: ustring
  th_unknown :: "'v unknown"

definition thinking_block_new :: "ustring \<Rightarrow> ustring \<Rightarrow> 'v thinking_block" where
  "thinking_block_new thinking signature =
     \<lparr> th_schema_version = 1, th_thinking = thinking, th_signature = signature, th_unknown = Map.empty \<rparr>"

record 'v refusal_block =
  rb_schema_version :: u32
  rb_refusal :: ustring
  rb_unknown :: "'v unknown"

definition refusal_block_new :: "ustring \<Rightarrow> 'v refusal_block" where
  "refusal_block_new refusal = \<lparr> rb_schema_version = 1, rb_refusal = refusal, rb_unknown = Map.empty \<rparr>"

record 'v url_source =
  us_schema_version :: u32
  us_url :: ustring
  us_unknown :: "'v unknown"

definition url_source_new :: "ustring \<Rightarrow> 'v url_source" where
  "url_source_new url = \<lparr> us_schema_version = 1, us_url = url, us_unknown = Map.empty \<rparr>"

record 'v provider_file_source =
  pf_schema_version :: u32
  pf_file_id :: ustring
  pf_unknown :: "'v unknown"

definition provider_file_source_new :: "ustring \<Rightarrow> 'v provider_file_source" where
  "provider_file_source_new file_id = \<lparr> pf_schema_version = 1, pf_file_id = file_id, pf_unknown = Map.empty \<rparr>"

record 'v base64_image_source =
  bi_schema_version :: u32
  bi_media_type :: ustring
  bi_data :: ustring
  bi_unknown :: "'v unknown"

definition base64_image_source_new :: "ustring \<Rightarrow> ustring \<Rightarrow> 'v base64_image_source" where
  "base64_image_source_new media_type data =
     \<lparr> bi_schema_version = 1, bi_media_type = media_type, bi_data = data, bi_unknown = Map.empty \<rparr>"

record 'v local_image_source =
  li_schema_version :: u32
  li_path :: ustring
  li_unknown :: "'v unknown"

definition local_image_source_new :: "ustring \<Rightarrow> 'v local_image_source" where
  "local_image_source_new path = \<lparr> li_schema_version = 1, li_path = path, li_unknown = Map.empty \<rparr>"

datatype 'v image_source =
  ImageBase64 "'v base64_image_source" | ImageLocalPath "'v local_image_source"
| ImageUrl "'v url_source" | ImageProviderFile "'v provider_file_source"

datatype image_detail = DetailLow | DetailHigh | DetailAuto

record 'v image_block =
  ib_schema_version :: u32
  ib_source :: "'v image_source"
  ib_detail :: "image_detail option"
  ib_provider_metadata :: "ustring \<rightharpoonup> 'v"
  ib_unknown :: "'v unknown"

definition image_block_new :: "'v image_source \<Rightarrow> 'v image_block" where
  "image_block_new source =
     \<lparr> ib_schema_version = 1, ib_source = source, ib_detail = None, ib_provider_metadata = Map.empty,
       ib_unknown = Map.empty \<rparr>"

record 'v base64_file_source =
  bf_schema_version :: u32
  bf_data :: ustring
  bf_filename :: "ustring option"
  bf_unknown :: "'v unknown"

definition base64_file_source_new :: "ustring \<Rightarrow> 'v base64_file_source" where
  "base64_file_source_new data = \<lparr> bf_schema_version = 1, bf_data = data, bf_filename = None, bf_unknown = Map.empty \<rparr>"

datatype 'v file_source =
  FileBase64 "'v base64_file_source" | FileUrl "'v url_source" | FileProviderFile "'v provider_file_source"

record 'v file_block =
  fb_schema_version :: u32
  fb_source :: "'v file_source"
  fb_provider_metadata :: "ustring \<rightharpoonup> 'v"
  fb_unknown :: "'v unknown"

definition file_block_new :: "'v file_source \<Rightarrow> 'v file_block" where
  "file_block_new source =
     \<lparr> fb_schema_version = 1, fb_source = source, fb_provider_metadata = Map.empty, fb_unknown = Map.empty \<rparr>"

datatype 'v content_block =
  CSkill ustring ustring | CMention ustring ustring | CText "'v text_block" | CThinking "'v thinking_block"
| CImage "'v image_block" | CFile "'v file_block" | CRefusal "'v refusal_block"

fun as_text :: "'v content_block \<Rightarrow> ustring option" where
  "as_text (CText block) = Some (tb_text block)"
| "as_text _ = None"

fun as_refusal :: "'v content_block \<Rightarrow> ustring option" where
  "as_refusal (CRefusal block) = Some (rb_refusal block)"
| "as_refusal _ = None"

datatype message_role = RoleSystem | RoleDeveloper | RoleUser | RoleAssistant

datatype output_phase = Commentary | Final

record 'v message =
  msg_schema_version :: u32
  msg_role :: message_role
  msg_content :: "'v content_block list"
  msg_phase :: "output_phase option"
  msg_unknown :: "'v unknown"

definition message_new :: "message_role \<Rightarrow> 'v content_block list \<Rightarrow> 'v message" where
  "message_new role content =
     \<lparr> msg_schema_version = 1, msg_role = role, msg_content = content, msg_phase = None, msg_unknown = Map.empty \<rparr>"

definition is_selection_only :: "'v message \<Rightarrow> bool" where
  "is_selection_only self \<longleftrightarrow>
     msg_content self \<noteq> [] \<and>
     list_all (\<lambda>block. case block of CSkill _ _ \<Rightarrow> True | CMention _ _ \<Rightarrow> True | _ \<Rightarrow> False) (msg_content self)"

definition message_text :: "message_role \<Rightarrow> ustring \<Rightarrow> 'v message" where
  "message_text role t = message_new role [CText (text_block_new t)]"

definition message_assistant :: "ustring \<Rightarrow> output_phase \<Rightarrow> 'v message" where
  "message_assistant t phase = (message_text RoleAssistant t) \<lparr> msg_phase := Some phase \<rparr>"

definition set_phase :: "output_phase \<Rightarrow> 'v message \<Rightarrow> 'v message" where
  "set_phase phase self = self \<lparr> msg_phase := Some phase \<rparr>"

definition matches_ignoring_phase :: "'v message \<Rightarrow> 'v message \<Rightarrow> bool" where
  "matches_ignoring_phase self other \<longleftrightarrow> self \<lparr> msg_phase := msg_phase other \<rparr> = other"

definition text_content :: "'v message \<Rightarrow> ustring" where
  "text_content self = concat (List.map_filter as_text (msg_content self))"

definition refusal_content :: "'v message \<Rightarrow> ustring option" where
  "refusal_content self =
     (let refusal = concat (List.map_filter as_refusal (msg_content self)) in
      if refusal = [] then None else Some refusal)"

section \<open>Reasoning, calls, and their outputs\<close>

record 'v reasoning =
  rs_schema_version :: u32
  rs_id :: "ustring option"
  rs_summary :: "ustring list"
  rs_content :: "ustring list"
  rs_encrypted_content :: "ustring option"
  rs_provider_data :: "'v option"
  rs_unknown :: "'v unknown"

definition reasoning_new :: "'v reasoning" where
  "reasoning_new =
     \<lparr> rs_schema_version = 1, rs_id = None, rs_summary = [], rs_content = [], rs_encrypted_content = None,
       rs_provider_data = None, rs_unknown = Map.empty \<rparr>"

definition with_id :: "ustring \<Rightarrow> 'v reasoning \<Rightarrow> 'v reasoning" where
  "with_id i self = self \<lparr> rs_id := Some i \<rparr>"

definition without_id :: "'v reasoning \<Rightarrow> 'v reasoning" where
  "without_id self = self \<lparr> rs_id := None \<rparr>"

datatype tool_call_kind = KFunction | KCustom | KToolSearch

record 'v tool_call =
  tc_schema_version :: u32
  tc_call_id :: ustring
  tc_name :: ustring
  tc_arguments :: 'v
  tc_namespace :: "ustring option"
  tc_kind :: tool_call_kind
  tc_unknown :: "'v unknown"

definition tool_call_new :: "ustring \<Rightarrow> ustring \<Rightarrow> 'v \<Rightarrow> 'v tool_call" where
  "tool_call_new call_id name arguments =
     \<lparr> tc_schema_version = 1, tc_call_id = call_id, tc_name = name, tc_arguments = arguments,
       tc_namespace = None, tc_kind = KFunction, tc_unknown = Map.empty \<rparr>"

text \<open>\<^verbatim>\<open>json_string\<close> is the constructor \<^verbatim>\<open>Value::String\<close>.\<close>

definition tool_call_custom :: "(ustring \<Rightarrow> 'v) \<Rightarrow> ustring \<Rightarrow> ustring \<Rightarrow> ustring \<Rightarrow> 'v tool_call" where
  "tool_call_custom json_string call_id name input =
     (tool_call_new call_id name (json_string input)) \<lparr> tc_kind := KCustom \<rparr>"

record 'v tool_call_output =
  tco_schema_version :: u32
  tco_call_id :: ustring
  tco_output :: 'v
  tco_is_error :: bool
  tco_kind :: tool_call_kind
  tco_custom_data :: "(ustring \<rightharpoonup> 'v) option"
  tco_unknown :: "'v unknown"

definition tool_call_output_new :: "ustring \<Rightarrow> 'v \<Rightarrow> 'v tool_call_output" where
  "tool_call_output_new call_id output =
     \<lparr> tco_schema_version = 1, tco_call_id = call_id, tco_output = output, tco_is_error = False,
       tco_kind = KFunction, tco_custom_data = None, tco_unknown = Map.empty \<rparr>"

definition with_output :: "'v \<Rightarrow> 'v tool_call_output \<Rightarrow> 'v tool_call_output" where
  "with_output output self = self \<lparr> tco_output := output \<rparr>"

definition with_custom_data :: "(ustring \<rightharpoonup> 'v) \<Rightarrow> 'v tool_call_output \<Rightarrow> 'v tool_call_output" where
  "with_custom_data data self = self \<lparr> tco_custom_data := (if data = Map.empty then None else Some data) \<rparr>"

definition without_custom_data :: "'v tool_call_output \<Rightarrow> 'v tool_call_output" where
  "without_custom_data self = self \<lparr> tco_custom_data := None \<rparr>"

record 'v handoff_call =
  hc_schema_version :: u32
  hc_call_id :: ustring
  hc_target_agent :: ustring
  hc_arguments :: 'v
  hc_tool_name :: "ustring option"
  hc_unknown :: "'v unknown"

definition handoff_call_new :: "ustring \<Rightarrow> ustring \<Rightarrow> 'v \<Rightarrow> 'v handoff_call" where
  "handoff_call_new call_id target_agent arguments =
     \<lparr> hc_schema_version = 1, hc_call_id = call_id, hc_target_agent = target_agent, hc_arguments = arguments,
       hc_tool_name = None, hc_unknown = Map.empty \<rparr>"

record 'v handoff_output =
  ho_schema_version :: u32
  ho_call_id :: ustring
  ho_source_agent :: ustring
  ho_target_agent :: ustring
  ho_note :: "ustring option"
  ho_unknown :: "'v unknown"

definition handoff_output_new :: "ustring \<Rightarrow> ustring \<Rightarrow> ustring \<Rightarrow> 'v handoff_output" where
  "handoff_output_new call_id source_agent target_agent =
     \<lparr> ho_schema_version = 1, ho_call_id = call_id, ho_source_agent = source_agent, ho_target_agent = target_agent,
       ho_note = None, ho_unknown = Map.empty \<rparr>"

record 'v raw_provider_item =
  rp_schema_version :: u32
  rp_provider :: ustring
  rp_payload :: 'v
  rp_unknown :: "'v unknown"

definition raw_provider_item_new :: "ustring \<Rightarrow> 'v \<Rightarrow> 'v raw_provider_item" where
  "raw_provider_item_new provider payload =
     \<lparr> rp_schema_version = 1, rp_provider = provider, rp_payload = payload, rp_unknown = Map.empty \<rparr>"

record 'v hosted_tool_call =
  ht_schema_version :: u32
  ht_name :: ustring
  ht_raw :: "'v raw_provider_item"
  ht_unknown :: "'v unknown"

definition hosted_tool_call_new :: "ustring \<Rightarrow> 'v raw_provider_item \<Rightarrow> 'v hosted_tool_call" where
  "hosted_tool_call_new name raw =
     \<lparr> ht_schema_version = 1, ht_name = name, ht_raw = raw, ht_unknown = Map.empty \<rparr>"

datatype tool_resume_point = BeforeCall | DuringCall

record 'v tool_resume =
  tr_point :: tool_resume_point
  tr_state :: 'v

record 'v tool_approval =
  ta_schema_version :: u32
  ta_call_id :: ustring
  ta_tool_name :: ustring
  ta_arguments :: 'v
  ta_namespace :: "ustring option"
  ta_lookup_key :: "'v tool_lookup_key option"
  ta_recipient_binding :: "'v option"
  ta_kind :: tool_call_kind
  ta_resume :: "'v tool_resume option"
  ta_unknown :: "'v unknown"

definition tool_approval_new :: "ustring \<Rightarrow> ustring \<Rightarrow> 'v \<Rightarrow> 'v tool_approval" where
  "tool_approval_new call_id tool_name arguments =
     \<lparr> ta_schema_version = 1, ta_call_id = call_id, ta_tool_name = tool_name, ta_arguments = arguments,
       ta_namespace = None, ta_lookup_key = None, ta_recipient_binding = None, ta_kind = KFunction,
       ta_resume = None, ta_unknown = Map.empty \<rparr>"

definition with_tool_origin :: "'v tool_origin \<Rightarrow> 'v tool_approval \<Rightarrow> 'v tool_approval" where
  "with_tool_origin origin self = self \<lparr> ta_lookup_key := Some (to_lookup_key origin) \<rparr>"

section \<open>MCP items and compactions\<close>

record 'v mcp_tool =
  mt_schema_version :: u32
  mt_name :: ustring
  mt_description :: "ustring option"
  mt_title :: "ustring option"
  mt_annotations :: "'v option"
  mt_input_schema :: 'v
  mt_unknown :: "'v unknown"

record 'v mcp_list_tools =
  ml_schema_version :: u32
  ml_server :: ustring
  ml_tools :: "'v mcp_tool list"
  ml_provider_data :: "'v option"
  ml_unknown :: "'v unknown"

record 'v mcp_call =
  mc_schema_version :: u32
  mc_id :: ustring
  mc_server :: ustring
  mc_name :: ustring
  mc_arguments :: ustring
  mc_output :: "ustring option"
  mc_error :: "ustring option"
  mc_unknown :: "'v unknown"

definition mcp_call_new :: "ustring \<Rightarrow> ustring \<Rightarrow> ustring \<Rightarrow> ustring \<Rightarrow> 'v mcp_call" where
  "mcp_call_new i server name arguments =
     \<lparr> mc_schema_version = 1, mc_id = i, mc_server = server, mc_name = name, mc_arguments = arguments,
       mc_output = None, mc_error = None, mc_unknown = Map.empty \<rparr>"

record 'v mcp_approval_request =
  ar_schema_version :: u32
  ar_request_id :: ustring
  ar_server :: ustring
  ar_tool_name :: ustring
  ar_arguments :: 'v
  ar_unknown :: "'v unknown"

definition mcp_approval_request_new :: "ustring \<Rightarrow> ustring \<Rightarrow> ustring \<Rightarrow> 'v \<Rightarrow> 'v mcp_approval_request" where
  "mcp_approval_request_new request_id server tool_name arguments =
     \<lparr> ar_schema_version = 1, ar_request_id = request_id, ar_server = server, ar_tool_name = tool_name,
       ar_arguments = arguments, ar_unknown = Map.empty \<rparr>"

record 'v mcp_approval_response =
  as_schema_version :: u32
  as_request_id :: ustring
  as_approved :: bool
  as_reason :: "ustring option"
  as_unknown :: "'v unknown"

definition mcp_approval_response_new :: "ustring \<Rightarrow> bool \<Rightarrow> 'v mcp_approval_response" where
  "mcp_approval_response_new request_id approved =
     \<lparr> as_schema_version = 1, as_request_id = request_id, as_approved = approved, as_reason = None,
       as_unknown = Map.empty \<rparr>"

record archive_target =
  at_session_id :: ustring
  at_compaction_item_id :: ustring

record archive_ref =
  af_value :: ustring
  af_target :: "archive_target option"

record 'v compaction =
  cp_schema_version :: u32
  cp_summary :: ustring
  cp_compacted_items :: "ustring list"
  cp_archive_ref :: "archive_ref option"
  cp_archive_notice :: "ustring option"
  cp_unknown :: "'v unknown"

definition compaction_new :: "ustring \<Rightarrow> ustring list \<Rightarrow> 'v compaction" where
  "compaction_new summary compacted_items =
     \<lparr> cp_schema_version = 1, cp_summary = summary, cp_compacted_items = compacted_items, cp_archive_ref = None,
       cp_archive_notice = None, cp_unknown = Map.empty \<rparr>"

definition set_archive_ref :: "archive_ref \<Rightarrow> ustring option \<Rightarrow> 'v compaction \<Rightarrow> 'v compaction" where
  "set_archive_ref reference notice self =
     self \<lparr> cp_archive_ref := Some reference, cp_archive_notice := notice \<rparr>"

definition model_text :: "'v compaction \<Rightarrow> ustring" where
  "model_text self =
     (case cp_archive_notice self of
        None \<Rightarrow> cp_summary self
      | Some notice \<Rightarrow> cp_summary self @ [10, 10] @ notice)"

record 'v provider_compaction =
  pc_schema_version :: u32
  pc_provider :: ustring
  pc_payload :: 'v
  pc_unknown :: "'v unknown"

definition provider_compaction_new :: "ustring \<Rightarrow> 'v \<Rightarrow> 'v provider_compaction" where
  "provider_compaction_new provider payload =
     \<lparr> pc_schema_version = 1, pc_provider = provider, pc_payload = payload, pc_unknown = Map.empty \<rparr>"

section \<open>Records and their projections\<close>

datatype 'v run_item_kind =
  RMessage "'v message" | RReasoning "'v reasoning" | RToolCall "'v tool_call"
| RHostedToolCall "'v hosted_tool_call" | RToolSearchCall "'v raw_provider_item"
| RToolSearchOutput "'v raw_provider_item" | RToolCallOutput "'v tool_call_output"
| RHandoffCall "'v handoff_call" | RHandoffOutput "'v handoff_output" | RMcpListTools "'v mcp_list_tools"
| RMcpCall "'v mcp_call" | RMcpApprovalRequest "'v mcp_approval_request"
| RMcpApprovalResponse "'v mcp_approval_response" | RCompaction "'v compaction"
| RProviderCompaction "'v provider_compaction" | RToolApproval "'v tool_approval"

datatype 'v model_input_item =
  Message "'v message" | Reasoning "'v reasoning" | ToolCall "'v tool_call"
| HostedToolCall "'v hosted_tool_call" | ToolSearchCall "'v raw_provider_item"
| ToolSearchOutput "'v raw_provider_item" | ToolCallOutput "'v tool_call_output"
| HandoffCall "'v handoff_call" | HandoffOutput "'v handoff_output" | McpListTools "'v mcp_list_tools"
| McpCall "'v mcp_call" | McpApprovalRequest "'v mcp_approval_request"
| McpApprovalResponse "'v mcp_approval_response" | Compaction "'v compaction"
| ProviderCompaction "'v provider_compaction"

fun is_interruption :: "'v run_item_kind \<Rightarrow> bool" where
  "is_interruption (RToolApproval _) = True"
| "is_interruption (RMcpApprovalRequest _) = True"
| "is_interruption _ = False"

fun requires_action_binding :: "'v run_item_kind \<Rightarrow> bool" where
  "requires_action_binding (RToolCall _) = True"
| "requires_action_binding (RHandoffCall _) = True"
| "requires_action_binding (RMcpApprovalRequest _) = True"
| "requires_action_binding _ = False"

record 'v item_provenance =
  ip_schema_version :: u32
  ip_agent_id :: ustring
  ip_agent_name :: "ustring option"
  ip_unknown :: "'v unknown"

record 'v run_item =
  ri_schema_version :: u32
  ri_id :: ustring
  ri_kind :: "'v run_item_kind"
  ri_description :: "ustring option"
  ri_title :: "ustring option"
  ri_provenance :: "'v item_provenance option"
  ri_raw_provider_item :: "'v raw_provider_item option"
  ri_session_data :: "ustring \<rightharpoonup> 'v"
  ri_unknown :: "'v unknown"

definition run_item_new :: "ustring \<Rightarrow> 'v run_item_kind \<Rightarrow> 'v run_item" where
  "run_item_new i kind =
     \<lparr> ri_schema_version = 1, ri_id = i, ri_kind = kind, ri_description = None, ri_title = None,
       ri_provenance = None, ri_raw_provider_item = None, ri_session_data = Map.empty, ri_unknown = Map.empty \<rparr>"

definition with_provenance :: "'v item_provenance \<Rightarrow> 'v run_item \<Rightarrow> 'v run_item" where
  "with_provenance provenance self = self \<lparr> ri_provenance := Some provenance \<rparr>"

definition with_tool_call_metadata :: "ustring option \<Rightarrow> ustring option \<Rightarrow> 'v run_item \<Rightarrow> 'v run_item" where
  "with_tool_call_metadata description title self = self \<lparr> ri_description := description, ri_title := title \<rparr>"

definition with_raw_provider_item :: "'v raw_provider_item \<Rightarrow> 'v run_item \<Rightarrow> 'v run_item" where
  "with_raw_provider_item raw self = self \<lparr> ri_raw_provider_item := Some raw \<rparr>"

definition with_session_data :: "ustring \<Rightarrow> 'v \<Rightarrow> 'v run_item \<Rightarrow> 'v run_item" where
  "with_session_data key v self = self \<lparr> ri_session_data := (ri_session_data self)(key \<mapsto> v) \<rparr>"

definition with_output_phase :: "output_phase \<Rightarrow> 'v run_item \<Rightarrow> 'v run_item" where
  "with_output_phase phase self =
     (case ri_kind self of
        RMessage m \<Rightarrow> if msg_role m = RoleAssistant then self \<lparr> ri_kind := RMessage (set_phase phase m) \<rparr> else self
      | _ \<Rightarrow> self)"

fun run_kind_call_id :: "'v run_item_kind \<Rightarrow> ustring option" where
  "run_kind_call_id (RToolCall item) = Some (tc_call_id item)"
| "run_kind_call_id (RToolCallOutput item) = Some (tco_call_id item)"
| "run_kind_call_id (RHandoffCall item) = Some (hc_call_id item)"
| "run_kind_call_id (RHandoffOutput item) = Some (ho_call_id item)"
| "run_kind_call_id (RToolApproval item) = Some (ta_call_id item)"
| "run_kind_call_id _ = None"

definition run_item_call_id :: "'v run_item \<Rightarrow> ustring option" where
  "run_item_call_id self = run_kind_call_id (ri_kind self)"

definition is_model_input :: "'v run_item \<Rightarrow> bool" where
  "is_model_input self \<longleftrightarrow> (case ri_kind self of RToolApproval _ \<Rightarrow> False | _ \<Rightarrow> True)"

fun kind_to_model_input :: "'v run_item_kind \<Rightarrow> 'v model_input_item option" where
  "kind_to_model_input (RMessage item) = Some (Message item)"
| "kind_to_model_input (RReasoning item) = Some (Reasoning item)"
| "kind_to_model_input (RToolCall item) = Some (ToolCall item)"
| "kind_to_model_input (RHostedToolCall item) = Some (HostedToolCall item)"
| "kind_to_model_input (RToolSearchCall item) = Some (ToolSearchCall item)"
| "kind_to_model_input (RToolSearchOutput item) = Some (ToolSearchOutput item)"
| "kind_to_model_input (RToolCallOutput item) = Some (ToolCallOutput (without_custom_data item))"
| "kind_to_model_input (RHandoffCall item) = Some (HandoffCall item)"
| "kind_to_model_input (RHandoffOutput item) = Some (HandoffOutput item)"
| "kind_to_model_input (RMcpListTools item) = Some (McpListTools item)"
| "kind_to_model_input (RMcpCall item) = Some (McpCall item)"
| "kind_to_model_input (RMcpApprovalRequest item) = Some (McpApprovalRequest item)"
| "kind_to_model_input (RMcpApprovalResponse item) = Some (McpApprovalResponse item)"
| "kind_to_model_input (RCompaction item) = Some (Compaction item)"
| "kind_to_model_input (RProviderCompaction item) = Some (ProviderCompaction item)"
| "kind_to_model_input (RToolApproval _) = None"

definition to_model_input :: "'v run_item \<Rightarrow> 'v model_input_item option" where
  "to_model_input self = kind_to_model_input (ri_kind self)"

fun kind_from_model_input :: "'v model_input_item \<Rightarrow> 'v run_item_kind" where
  "kind_from_model_input (Message item) = RMessage item"
| "kind_from_model_input (Reasoning item) = RReasoning item"
| "kind_from_model_input (ToolCall item) = RToolCall item"
| "kind_from_model_input (HostedToolCall item) = RHostedToolCall item"
| "kind_from_model_input (ToolSearchCall item) = RToolSearchCall item"
| "kind_from_model_input (ToolSearchOutput item) = RToolSearchOutput item"
| "kind_from_model_input (ToolCallOutput item) = RToolCallOutput item"
| "kind_from_model_input (HandoffCall item) = RHandoffCall item"
| "kind_from_model_input (HandoffOutput item) = RHandoffOutput item"
| "kind_from_model_input (McpListTools item) = RMcpListTools item"
| "kind_from_model_input (McpCall item) = RMcpCall item"
| "kind_from_model_input (McpApprovalRequest item) = RMcpApprovalRequest item"
| "kind_from_model_input (McpApprovalResponse item) = RMcpApprovalResponse item"
| "kind_from_model_input (Compaction item) = RCompaction item"
| "kind_from_model_input (ProviderCompaction item) = RProviderCompaction item"

fun model_item_call_id :: "'v model_input_item \<Rightarrow> ustring option" where
  "model_item_call_id (ToolCall item) = Some (tc_call_id item)"
| "model_item_call_id (ToolCallOutput item) = Some (tco_call_id item)"
| "model_item_call_id (HandoffCall item) = Some (hc_call_id item)"
| "model_item_call_id (HandoffOutput item) = Some (ho_call_id item)"
| "model_item_call_id _ = None"

fun run_kind_label :: "'v run_item_kind \<Rightarrow> ustring" where
  "run_kind_label (RMessage _) = lit ''message''"
| "run_kind_label (RReasoning _) = lit ''reasoning''"
| "run_kind_label (RToolCall _) = lit ''tool_call''"
| "run_kind_label (RHostedToolCall _) = lit ''hosted_tool_call''"
| "run_kind_label (RToolSearchCall _) = lit ''tool_search_call''"
| "run_kind_label (RToolSearchOutput _) = lit ''tool_search_output''"
| "run_kind_label (RToolCallOutput _) = lit ''tool_call_output''"
| "run_kind_label (RHandoffCall _) = lit ''handoff_call''"
| "run_kind_label (RHandoffOutput _) = lit ''handoff_output''"
| "run_kind_label (RMcpListTools _) = lit ''mcp_list_tools''"
| "run_kind_label (RMcpCall _) = lit ''mcp_call''"
| "run_kind_label (RMcpApprovalRequest _) = lit ''mcp_approval_request''"
| "run_kind_label (RMcpApprovalResponse _) = lit ''mcp_approval_response''"
| "run_kind_label (RCompaction _) = lit ''compaction''"
| "run_kind_label (RProviderCompaction _) = lit ''provider_compaction''"
| "run_kind_label (RToolApproval _) = lit ''tool_approval''"

fun model_item_label :: "'v model_input_item \<Rightarrow> ustring" where
  "model_item_label (Message _) = lit ''message''"
| "model_item_label (Reasoning _) = lit ''reasoning''"
| "model_item_label (ToolCall _) = lit ''tool_call''"
| "model_item_label (HostedToolCall _) = lit ''hosted_tool_call''"
| "model_item_label (ToolSearchCall _) = lit ''tool_search_call''"
| "model_item_label (ToolSearchOutput _) = lit ''tool_search_output''"
| "model_item_label (ToolCallOutput _) = lit ''tool_call_output''"
| "model_item_label (HandoffCall _) = lit ''handoff_call''"
| "model_item_label (HandoffOutput _) = lit ''handoff_output''"
| "model_item_label (McpListTools _) = lit ''mcp_list_tools''"
| "model_item_label (McpCall _) = lit ''mcp_call''"
| "model_item_label (McpApprovalRequest _) = lit ''mcp_approval_request''"
| "model_item_label (McpApprovalResponse _) = lit ''mcp_approval_response''"
| "model_item_label (Compaction _) = lit ''compaction''"
| "model_item_label (ProviderCompaction _) = lit ''provider_compaction''"

section \<open>Projection lemmas\<close>

lemma without_custom_data_idem [simp]: "without_custom_data (without_custom_data x) = without_custom_data x"
  by (simp add: without_custom_data_def)

lemma without_custom_data_fields [simp]:
  "tco_call_id (without_custom_data x) = tco_call_id x" "tco_output (without_custom_data x) = tco_output x"
  "tco_custom_data (without_custom_data x) = None"
  by (simp_all add: without_custom_data_def)

lemma kind_to_model_input_None_iff: "kind_to_model_input k = None \<longleftrightarrow> (\<exists>a. k = RToolApproval a)"
  by (cases k) simp_all

lemma kind_to_model_input_label: "kind_to_model_input k = Some m \<Longrightarrow> model_item_label m = run_kind_label k"
  by (cases k) auto

lemma kind_to_model_input_call_id:
  "kind_to_model_input k = Some m \<Longrightarrow> model_item_call_id m = run_kind_call_id k"
  by (cases k) auto

text \<open>What the projection removes from a record's payload is the SDK-only data of an output, nothing else:
  storing the projection and projecting it again gives it back, and a record that can be projected is one
  the control plane does not own.\<close>

lemma projection_round_trip:
  assumes "to_model_input r = Some m"
  shows "to_model_input (run_item_new i (kind_from_model_input m)) = Some m"
    and "is_model_input r" and "model_item_label m = run_kind_label (ri_kind r)"
    and "model_item_call_id m = run_item_call_id r"
proof -
  have k: "kind_to_model_input (ri_kind r) = Some m" using assms by (simp add: to_model_input_def)
  then show "to_model_input (run_item_new i (kind_from_model_input m)) = Some m"
    by (cases "ri_kind r") (auto simp: to_model_input_def run_item_new_def)
  show "is_model_input r" using k by (cases "ri_kind r") (auto simp: is_model_input_def)
  show "model_item_label m = run_kind_label (ri_kind r)" using k by (rule kind_to_model_input_label)
  show "model_item_call_id m = run_item_call_id r"
    using k by (simp add: run_item_call_id_def kind_to_model_input_call_id)
qed

text \<open>Nothing a record keeps for the session only reaches its projection: not its metadata, provenance,
  raw provider copy or session data, nor the custom data of an output.\<close>

lemma projection_ignores_envelope:
  assumes "ri_kind a = ri_kind b"
  shows "to_model_input a = to_model_input b"
  using assms by (simp add: to_model_input_def)

end
