(* ===== verification/Archive_Ref.thy ===== *)
theory Archive_Ref
  imports Run_Item Turn_Digest
begin

text \<open>
  The archive addresses of \<^verbatim>\<open>ra-core/src/item/compaction.rs\<close>: how an address is minted from a session
  and a compaction item, and how a stored one is taken apart. \<^verbatim>\<open>String::from_utf8\<close> is modelled on byte
  lists: it accepts exactly the encodings of sequences of scalar values.
\<close>

section \<open>Text from bytes\<close>

definition is_scalar :: "uchar \<Rightarrow> bool" where
  "is_scalar c \<longleftrightarrow> c < 1114112 \<and> \<not> (55296 \<le> c \<and> c < 57344)"

abbreviation valid_text :: "ustring \<Rightarrow> bool" where
  "valid_text s \<equiv> list_all is_scalar s"

lemma utf8_char_not_Nil [simp]: "utf8_char c \<noteq> []"
  by (simp add: utf8_char_def)

function from_utf8 :: "nat list \<Rightarrow> ustring option" where
  "from_utf8 bs =
     (if bs = [] then Some []
      else let (c, rest) = utf8_next bs in
        if is_scalar c \<and> utf8_char c @ rest = bs then map_option (Cons c) (from_utf8 rest) else None)"
  by pat_completeness auto
termination
proof (relation "measure length")
  fix bs x :: "nat list" and c :: uchar and rest
  assume "is_scalar c \<and> utf8_char c @ rest = bs"
  moreover have "0 < length (utf8_char c)" by simp
  ultimately show "(rest, bs) \<in> measure length" by auto
qed simp

declare from_utf8.simps [simp del]

lemma utf8_Nil [simp]: "utf8 [] = []" by (simp add: utf8_def)
lemma utf8_Cons: "utf8 (c # s) = utf8_char c @ utf8 s" by (simp add: utf8_def)
lemma utf8_append: "utf8 (s @ t) = utf8 s @ utf8 t" by (simp add: utf8_def)

lemma from_utf8_utf8: "valid_text s \<Longrightarrow> from_utf8 (utf8 s) = Some s"
proof (induction s)
  case Nil
  then show ?case by (simp add: from_utf8.simps)
next
  case (Cons c s)
  then show ?case by (subst from_utf8.simps) (simp add: utf8_Cons utf8_next_char)
qed

lemma from_utf8_Some: "from_utf8 bs = Some s \<Longrightarrow> utf8 s = bs \<and> valid_text s"
proof (induction bs arbitrary: s rule: from_utf8.induct)
  case (1 bs)
  obtain c rest where n: "utf8_next bs = (c, rest)" by (cases "utf8_next bs")
  show ?case
  proof (cases "bs = []")
    case True
    then show ?thesis using "1.prems" by (simp add: from_utf8.simps)
  next
    case False
    then obtain s' where ok: "is_scalar c" "utf8_char c @ rest = bs" and s': "from_utf8 rest = Some s'" "s = c # s'"
      using "1.prems" n by (auto simp: from_utf8.simps [of bs] split: if_splits)
    then show ?thesis using "1.IH" [OF False n [symmetric] refl] by (auto simp: utf8_Cons)
  qed
qed

section \<open>Percent encoding\<close>

definition is_ascii_alphanumeric :: "nat \<Rightarrow> bool" where
  "is_ascii_alphanumeric b \<longleftrightarrow> 48 \<le> b \<and> b \<le> 57 \<or> 65 \<le> b \<and> b \<le> 90 \<or> 97 \<le> b \<and> b \<le> 122"

definition hex_digit :: "nat \<Rightarrow> uchar" where
  "hex_digit v = (if v \<le> 9 then 48 + v else 65 + v - 10)"

definition encode_byte :: "nat \<Rightarrow> ustring" where
  "encode_byte byte =
     (if is_ascii_alphanumeric byte \<or> byte = 45 \<or> byte = 46 \<or> byte = 95 \<or> byte = 126 then [byte]
      else [37, hex_digit (byte div 16), hex_digit (byte mod 16)])"

definition percent_encode :: "ustring \<Rightarrow> ustring" where
  "percent_encode v = concat (map encode_byte (utf8 v))"

definition hex_value :: "nat \<Rightarrow> nat option" where
  "hex_value v =
     (if 48 \<le> v \<and> v \<le> 57 then Some (v - 48)
      else if 65 \<le> v \<and> v \<le> 70 then Some (v - 65 + 10)
      else if 97 \<le> v \<and> v \<le> 102 then Some (v - 97 + 10)
      else None)"

fun decode_bytes :: "nat list \<Rightarrow> nat list option" where
  "decode_bytes [] = Some []"
| "decode_bytes (b # source) =
     (if b \<noteq> 37 then map_option (Cons b) (decode_bytes source)
      else case source of
        h # l # source2 \<Rightarrow>
          (case (hex_value h, hex_value l) of
             (Some high, Some low) \<Rightarrow> map_option (Cons (high * 16 + low)) (decode_bytes source2)
           | _ \<Rightarrow> None)
      | _ \<Rightarrow> None)"

definition percent_decode :: "ustring \<Rightarrow> ustring option" where
  "percent_decode v = Option.bind (decode_bytes (utf8 v)) from_utf8"

section \<open>Addresses\<close>

datatype archive_error = InvalidComponent ustring

definition validate_component :: "ustring \<Rightarrow> ustring \<Rightarrow> archive_error + unit" where
  "validate_component v name =
     (if v = [] \<or> trim v \<noteq> v \<or> list_ex is_control v then Inl (InvalidComponent name) else Inr ())"

definition archive_ref_new :: "ustring \<Rightarrow> ustring \<Rightarrow> archive_error + archive_ref" where
  "archive_ref_new session_id compaction_item_id =
     result_bind (validate_component session_id (lit ''session ID'')) (\<lambda>_.
     result_bind (validate_component compaction_item_id (lit ''compaction item ID'')) (\<lambda>_.
       Inr \<lparr> af_value = lit ''archive:v1/'' @ percent_encode session_id @ [47] @ percent_encode compaction_item_id,
             af_target = Some \<lparr> at_session_id = session_id, at_compaction_item_id = compaction_item_id \<rparr> \<rparr>))"

definition parse_target :: "ustring \<Rightarrow> archive_target option" where
  "parse_target v =
     Option.bind (strip_prefix (lit ''archive:v1/'') v) (\<lambda>encoded.
     case split_char 47 encoded of
       [session, compaction_item] \<Rightarrow>
         Option.bind (percent_decode session) (\<lambda>session_id.
         Option.bind (percent_decode compaction_item) (\<lambda>compaction_item_id.
         case archive_ref_new session_id compaction_item_id of
           Inl _ \<Rightarrow> None
         | Inr canonical \<Rightarrow>
             if af_value canonical \<noteq> v then None
             else Some \<lparr> at_session_id = session_id, at_compaction_item_id = compaction_item_id \<rparr>))
     | _ \<Rightarrow> None)"

definition from_stored :: "ustring \<Rightarrow> archive_ref" where
  "from_stored v = \<lparr> af_value = v, af_target = parse_target v \<rparr>"

section \<open>Encoded text decodes to what was encoded\<close>

lemma utf8_char_bytes: "is_scalar c \<Longrightarrow> b \<in> set (utf8_char c) \<Longrightarrow> b < 256"
  by (auto simp: utf8_char_def is_scalar_def split: if_splits)

lemma utf8_bytes: "valid_text s \<Longrightarrow> b \<in> set (utf8 s) \<Longrightarrow> b < 256"
  by (auto simp: utf8_def list_all_iff dest: utf8_char_bytes)

lemma hex_value_digit: "v < 16 \<Longrightarrow> hex_value (hex_digit v) = Some v"
  by (auto simp: hex_value_def hex_digit_def)

lemma encode_byte_ascii: "b < 256 \<Longrightarrow> c \<in> set (encode_byte b) \<Longrightarrow> c < 128 \<and> c \<noteq> 47"
  by (auto simp: encode_byte_def hex_digit_def is_ascii_alphanumeric_def split: if_splits)

lemma utf8_ascii: "(\<And>c. c \<in> set s \<Longrightarrow> c < 128) \<Longrightarrow> utf8 s = s"
  by (induction s) (auto simp: utf8_Cons utf8_char_def)

lemma decode_encode_byte:
  assumes "b < 256"
  shows "decode_bytes (encode_byte b @ r) = map_option (Cons b) (decode_bytes r)"
proof -
  have "b div 16 < 16" "b mod 16 < 16" "b div 16 * 16 + b mod 16 = b" using assms by auto
  then show ?thesis by (auto simp: encode_byte_def hex_value_digit is_ascii_alphanumeric_def)
qed

lemma decode_encode_bytes: "(\<And>b. b \<in> set bs \<Longrightarrow> b < 256) \<Longrightarrow> decode_bytes (concat (map encode_byte bs)) = Some bs"
  by (induction bs) (simp_all add: decode_encode_byte)

lemma percent_encode_ascii: "valid_text s \<Longrightarrow> c \<in> set (percent_encode s) \<Longrightarrow> c < 128 \<and> c \<noteq> 47"
  unfolding percent_encode_def by (auto dest: utf8_bytes encode_byte_ascii)

lemma percent_decode_encode: "valid_text s \<Longrightarrow> percent_decode (percent_encode s) = Some s"
proof -
  assume s: "valid_text s"
  have "utf8 (percent_encode s) = percent_encode s" using percent_encode_ascii [OF s] by (intro utf8_ascii) blast
  then show ?thesis
    using s utf8_bytes [OF s] by (simp add: percent_decode_def percent_encode_def decode_encode_bytes from_utf8_utf8)
qed

lemma split_char_two: "d \<notin> set a \<Longrightarrow> d \<notin> set b \<Longrightarrow> split_char d (a @ d # b) = [a, b]"
proof -
  assume a: "d \<notin> set a" and b: "d \<notin> set b"
  have "split_char d b = [b]" using b by (induction b) (auto split: list.splits)
  then show ?thesis using split_char_line [OF a] by simp
qed

lemma archive_ref_new_Inr:
  "archive_ref_new s i = Inr r \<Longrightarrow>
   r = \<lparr> af_value = lit ''archive:v1/'' @ percent_encode s @ [47] @ percent_encode i,
         af_target = Some \<lparr> at_session_id = s, at_compaction_item_id = i \<rparr> \<rparr>"
  by (auto simp: archive_ref_new_def result_bind_Inr_iff)

lemma parse_target_minted:
  assumes "valid_text s" "valid_text i" "archive_ref_new s i = Inr r"
  shows "parse_target (af_value r) = Some \<lparr> at_session_id = s, at_compaction_item_id = i \<rparr>"
proof -
  have "split_char 47 (percent_encode s @ 47 # percent_encode i) = [percent_encode s, percent_encode i]"
    using percent_encode_ascii [OF assms(1)] percent_encode_ascii [OF assms(2)] by (intro split_char_two) blast+
  then show ?thesis
    using archive_ref_new_Inr [OF assms(3)] assms
    by (simp add: parse_target_def percent_decode_encode)
qed

lemma parse_target_canonical:
  assumes "parse_target v = Some t"
  shows "archive_ref_new (at_session_id t) (at_compaction_item_id t) = Inr \<lparr> af_value = v, af_target = Some t \<rparr>"
proof -
  obtain s i r where "t = \<lparr> at_session_id = s, at_compaction_item_id = i \<rparr>" "archive_ref_new s i = Inr r" "af_value r = v"
    using assms by (auto simp: parse_target_def split: list.splits sum.splits if_splits Option.bind_splits)
  then show ?thesis using archive_ref_new_Inr by fastforce
qed

text \<open>C37. Taking an archive address apart is the exact inverse of minting it: for identifiers that are
  text, the stored address \<open>v\<close> names session \<open>s\<close> and compaction item \<open>i\<close> exactly when minting the address
  of \<open>s\<close> and \<open>i\<close> succeeds with the value \<open>v\<close>. So a minted address reads back as itself, two different
  targets never share an address, and a non-canonical spelling names nothing.\<close>

theorem archive_address_inverse:
  assumes "valid_text s" "valid_text i"
  shows "af_target (from_stored v) = Some \<lparr> at_session_id = s, at_compaction_item_id = i \<rparr>
         \<longleftrightarrow> archive_ref_new s i = Inr (from_stored v)"
proof
  assume "af_target (from_stored v) = Some \<lparr> at_session_id = s, at_compaction_item_id = i \<rparr>"
  then show "archive_ref_new s i = Inr (from_stored v)"
    using parse_target_canonical [of v] by (auto simp: from_stored_def)
next
  assume new: "archive_ref_new s i = Inr (from_stored v)"
  have "af_value (from_stored v) = v" by (simp add: from_stored_def)
  with parse_target_minted [OF assms new]
  show "af_target (from_stored v) = Some \<lparr> at_session_id = s, at_compaction_item_id = i \<rparr>"
    by (simp add: from_stored_def)
qed

theorem archive_address_inverse_witness:
  "af_target (from_stored (lit ''archive:v1/a%2Fb/c'')) = Some \<lparr> at_session_id = lit ''a/b'', at_compaction_item_id = lit ''c'' \<rparr>"
proof -
  let ?v = "lit ''archive:v1/a%2Fb/c''" and ?t = "\<lparr> at_session_id = lit ''a/b'', at_compaction_item_id = lit ''c'' \<rparr>"
  have txts: "valid_text (lit ''a/b'')" "valid_text (lit ''c'')" by (simp_all add: is_scalar_def lit_def)
  have ok: "validate_component (lit ''a/b'') n = Inr ()" "validate_component (lit ''c'') n = Inr ()" for n
    by (simp_all add: validate_component_def lit_def str_simps is_control_def)
  have "percent_encode (lit ''a/b'') = lit ''a%2Fb''" "percent_encode (lit ''c'') = lit ''c''"
    by (simp_all add: percent_encode_def lit_def utf8_def utf8_char_def encode_byte_def is_ascii_alphanumeric_def hex_digit_def)
  then have new: "archive_ref_new (lit ''a/b'') (lit ''c'') = Inr \<lparr> af_value = ?v, af_target = Some ?t \<rparr>"
    by (simp add: archive_ref_new_def ok) (simp add: lit_def)
  have "from_stored ?v = \<lparr> af_value = ?v, af_target = Some ?t \<rparr>"
    using parse_target_minted [OF txts new] by (simp add: from_stored_def)
  then show ?thesis using archive_address_inverse [OF txts, of ?v] new by simp
qed

end
