(* ===== verification/Input_Normalization.thy ===== *)
theory Input_Normalization
  imports Run_Item
begin

text \<open>
  Preparation of model input, \<^verbatim>\<open>ra-core/src/item/normalization.rs\<close>: stable-identity deduplication,
  call/output pairing, dangling-reasoning cleanup, the reasoning-identifier policy, and the durable
  coordinates of what was sent. The JSON encoding of an item is the parameter \<open>to_vec\<close> (an error or the
  bytes) and the SHA-256 digest in hexadecimal the parameter \<open>sha\<close>; both are third-party code.
\<close>

section \<open>Policies and results\<close>

datatype reasoning_id_policy = PreserveIds | OmitIds

datatype orphan_policy = PreserveOrphans | DropCallsWithoutOutputs | DropUnpaired

record occurrence_key =
  ok_item_id :: ustring
  ok_digest :: ustring

record 'v normalized_input_item =
  ni_item :: "'v model_input_item"
  ni_occurrence_key :: "occurrence_key option"

type_synonym 'v normalized_input = "'v normalized_input_item list"

record input_item_normalizer =
  nz_reasoning_id_policy :: reasoning_id_policy
  nz_orphan_policy :: orphan_policy

definition normalizer_new :: input_item_normalizer where
  "normalizer_new = \<lparr> nz_reasoning_id_policy = PreserveIds, nz_orphan_policy = DropCallsWithoutOutputs \<rparr>"

definition with_reasoning_id_policy :: "reasoning_id_policy \<Rightarrow> input_item_normalizer \<Rightarrow> input_item_normalizer" where
  "with_reasoning_id_policy policy self = self \<lparr> nz_reasoning_id_policy := policy \<rparr>"

definition with_orphan_policy :: "orphan_policy \<Rightarrow> input_item_normalizer \<Rightarrow> input_item_normalizer" where
  "with_orphan_policy policy self = self \<lparr> nz_orphan_policy := policy \<rparr>"

definition into_items :: "'v normalized_input \<Rightarrow> 'v model_input_item list" where
  "into_items self = map ni_item self"

record 'v pending_input_item =
  pi_item :: "'v model_input_item"
  pi_item_id :: "ustring option"

definition pending_new :: "'v model_input_item \<Rightarrow> ustring option \<Rightarrow> 'v pending_input_item" where
  "pending_new item item_id = \<lparr> pi_item = item, pi_item_id = item_id \<rparr>"

definition digest_compute :: "(nat list \<Rightarrow> ustring) \<Rightarrow> ('i \<Rightarrow> 'e + nat list) \<Rightarrow> 'i \<Rightarrow> 'e + ustring" where
  "digest_compute sha to_vec item = result_bind (to_vec item) (\<lambda>encoded. Inr (sha encoded))"

section \<open>Deduplication\<close>

datatype dedupe_identity =
  DReasoning ustring | DToolCall ustring | DMcpCall ustring | DToolCallOutput ustring | DHandoffCall ustring
| DHandoffOutput ustring | DMcpApprovalRequest ustring | DMcpApprovalResponse ustring

fun dedupe_key :: "'v model_input_item \<Rightarrow> dedupe_identity option" where
  "dedupe_key (Reasoning reasoning) = map_option DReasoning (rs_id reasoning)"
| "dedupe_key (ToolCall call) = Some (DToolCall (tc_call_id call))"
| "dedupe_key (McpCall call) = Some (DMcpCall (mc_id call))"
| "dedupe_key (ToolCallOutput output) = Some (DToolCallOutput (tco_call_id output))"
| "dedupe_key (HandoffCall call) = Some (DHandoffCall (hc_call_id call))"
| "dedupe_key (HandoffOutput output) = Some (DHandoffOutput (ho_call_id output))"
| "dedupe_key (McpApprovalRequest request) = Some (DMcpApprovalRequest (ar_request_id request))"
| "dedupe_key (McpApprovalResponse response) = Some (DMcpApprovalResponse (as_request_id response))"
| "dedupe_key _ = None"

fun keeps_earliest_anchor :: "'v model_input_item \<Rightarrow> bool" where
  "keeps_earliest_anchor (Reasoning _) = True"
| "keeps_earliest_anchor (ToolCall _) = True"
| "keeps_earliest_anchor (HandoffCall _) = True"
| "keeps_earliest_anchor (McpApprovalRequest _) = True"
| "keeps_earliest_anchor _ = False"

text \<open>The first pass of \<^verbatim>\<open>deduplicate_preferring_latest\<close> fills two maps, the second walks the items
  again, taking each latest value out of its map at the key's anchor. Both passes are written over the
  key function and the anchor rule they use.\<close>

fun scan_keys ::
  "('e \<Rightarrow> 'k option) \<Rightarrow> ('e \<Rightarrow> bool) \<Rightarrow> nat \<Rightarrow> 'e list \<Rightarrow> ('k \<rightharpoonup> 'e) \<times> ('k \<rightharpoonup> nat) \<Rightarrow> ('k \<rightharpoonup> 'e) \<times> ('k \<rightharpoonup> nat)" where
  "scan_keys key earliest index [] maps = maps"
| "scan_keys key earliest index (entry # items) (latest, anchors) =
     (case key entry of
        None \<Rightarrow> scan_keys key earliest (index + 1) items (latest, anchors)
      | Some k \<Rightarrow>
          scan_keys key earliest (index + 1) items
            (latest(k \<mapsto> entry), if anchors k = None \<or> \<not> earliest entry then anchors(k \<mapsto> index) else anchors))"

fun emit_latest :: "('e \<Rightarrow> 'k option) \<Rightarrow> ('k \<rightharpoonup> nat) \<Rightarrow> nat \<Rightarrow> ('k \<rightharpoonup> 'e) \<Rightarrow> 'e list \<Rightarrow> 'e list" where
  "emit_latest key anchors index latest [] = []"
| "emit_latest key anchors index latest (entry # items) =
     (case key entry of
        None \<Rightarrow> entry # emit_latest key anchors (index + 1) latest items
      | Some k \<Rightarrow>
          if anchors k = Some index
          then (case latest k of Some v \<Rightarrow> v | None \<Rightarrow> entry)
               # emit_latest key anchors (index + 1) (latest(k := None)) items
          else emit_latest key anchors (index + 1) latest items)"

definition dedupe_with :: "('e \<Rightarrow> 'k option) \<Rightarrow> ('e \<Rightarrow> bool) \<Rightarrow> 'e list \<Rightarrow> 'e list" where
  "dedupe_with key earliest items =
     (case scan_keys key earliest 0 items (Map.empty, Map.empty) of
        (latest, anchors) \<Rightarrow> emit_latest key anchors 0 latest items)"

definition deduplicate_preferring_latest :: "'v pending_input_item list \<Rightarrow> 'v pending_input_item list" where
  "deduplicate_preferring_latest items =
     dedupe_with (\<lambda>entry. dedupe_key (pi_item entry)) (\<lambda>entry. keeps_earliest_anchor (pi_item entry)) items"

section \<open>Orphans\<close>

datatype pair_key = PTool ustring | PHandoff ustring

fun call_pair_key :: "'v model_input_item \<Rightarrow> pair_key option" where
  "call_pair_key (ToolCall call) = Some (PTool (tc_call_id call))"
| "call_pair_key (HandoffCall call) = Some (PHandoff (hc_call_id call))"
| "call_pair_key _ = None"

fun output_pair_key :: "'v model_input_item \<Rightarrow> pair_key option" where
  "output_pair_key (ToolCallOutput output) = Some (PTool (tco_call_id output))"
| "output_pair_key (HandoffOutput output) = Some (PHandoff (ho_call_id output))"
| "output_pair_key _ = None"

fun is_reasoning :: "'v model_input_item \<Rightarrow> bool" where
  "is_reasoning (Reasoning _) = True"
| "is_reasoning _ = False"

definition is_orphan :: "orphan_policy \<Rightarrow> pair_key list \<Rightarrow> pair_key list \<Rightarrow> 'v model_input_item \<Rightarrow> bool" where
  "is_orphan policy calls outputs item \<longleftrightarrow>
     (case call_pair_key item of Some key \<Rightarrow> key \<notin> set outputs | None \<Rightarrow> False)
     \<or> policy = DropUnpaired \<and> (case output_pair_key item of Some key \<Rightarrow> key \<notin> set calls | None \<Rightarrow> False)"

definition drop_dangling :: "'v pending_input_item list \<Rightarrow> nat \<Rightarrow> nat set \<Rightarrow> nat set" where
  "drop_dangling items index dropped =
     (if \<not> is_reasoning (pi_item (items ! index)) then dropped
      else case find (\<lambda>next. \<not> is_reasoning (pi_item (items ! next))) [index + 1..<length items] of
        Some next \<Rightarrow> if next \<notin> dropped then dropped else insert index dropped
      | None \<Rightarrow> insert index dropped)"

definition prune_orphans :: "'v pending_input_item list \<Rightarrow> orphan_policy \<Rightarrow> 'v pending_input_item list" where
  "prune_orphans items policy =
     (if policy = PreserveOrphans then items
      else
        let calls = List.map_filter (\<lambda>entry. call_pair_key (pi_item entry)) items;
            outputs = List.map_filter (\<lambda>entry. output_pair_key (pi_item entry)) items;
            unpaired = set (filter (\<lambda>index. is_orphan policy calls outputs (pi_item (items ! index))) [0..<length items]);
            dropped = fold (drop_dangling items) (rev [0..<length items]) unpaired
        in map ((!) items) (filter (\<lambda>index. index \<notin> dropped) [0..<length items]))"

section \<open>The normalizer\<close>

fun apply_reasoning_id_policy :: "'v model_input_item \<Rightarrow> reasoning_id_policy \<Rightarrow> 'v model_input_item" where
  "apply_reasoning_id_policy (Reasoning reasoning) OmitIds = Reasoning (without_id reasoning)"
| "apply_reasoning_id_policy item _ = item"

definition normalize ::
  "(nat list \<Rightarrow> ustring) \<Rightarrow> ('v model_input_item \<Rightarrow> 'e + nat list) \<Rightarrow> input_item_normalizer \<Rightarrow> 'v pending_input_item list
   \<Rightarrow> 'e + 'v normalized_input" where
  "normalize sha to_vec self items =
     (let paired = prune_orphans (deduplicate_preferring_latest items) (nz_orphan_policy self) in
      collect_results (map (\<lambda>entry.
        let item = apply_reasoning_id_policy (pi_item entry) (nz_reasoning_id_policy self) in
        result_bind (digest_compute sha to_vec item) (\<lambda>digest.
          Inr \<lparr> ni_item = item,
                ni_occurrence_key = map_option (\<lambda>item_id. \<lparr> ok_item_id = item_id, ok_digest = digest \<rparr>) (pi_item_id entry) \<rparr>))
        paired))"

definition normalize_run_items ::
  "(nat list \<Rightarrow> ustring) \<Rightarrow> ('v model_input_item \<Rightarrow> 'e + nat list) \<Rightarrow> input_item_normalizer \<Rightarrow> 'v run_item list
   \<Rightarrow> 'e + 'v normalized_input" where
  "normalize_run_items sha to_vec self items =
     normalize sha to_vec self
       (List.map_filter (\<lambda>run_item. map_option (\<lambda>item. pending_new item (Some (ri_id run_item))) (to_model_input run_item)) items)"

definition normalize_model_items ::
  "(nat list \<Rightarrow> ustring) \<Rightarrow> ('v model_input_item \<Rightarrow> 'e + nat list) \<Rightarrow> input_item_normalizer \<Rightarrow> 'v model_input_item list
   \<Rightarrow> 'e + 'v normalized_input" where
  "normalize_model_items sha to_vec self items =
     normalize sha to_vec self (map (\<lambda>item. pending_new item None) items)"

section \<open>What deduplication computes\<close>

text \<open>Reference: an identity whose kind keeps its earliest anchor is emitted where it first occurs, any
  other identity where it last occurs, in both cases with its last value.\<close>

abbreviation keys_of :: "('e \<Rightarrow> 'k option) \<Rightarrow> 'e list \<Rightarrow> 'k set" where
  "keys_of key es \<equiv> set (List.map_filter key es)"

definition latest_of :: "('e \<Rightarrow> 'k option) \<Rightarrow> 'k \<Rightarrow> 'e list \<Rightarrow> 'e" where
  "latest_of key k es = last (filter (\<lambda>e. key e = Some k) es)"

fun dedupe_spec :: "('e \<Rightarrow> 'k option) \<Rightarrow> ('e \<Rightarrow> bool) \<Rightarrow> 'e list \<Rightarrow> 'e list \<Rightarrow> 'e list" where
  "dedupe_spec key earliest before [] = []"
| "dedupe_spec key earliest before (e # es) =
     (case key e of
        None \<Rightarrow> [e]
      | Some k \<Rightarrow> if (if earliest e then k \<notin> keys_of key before else k \<notin> keys_of key es)
                  then [latest_of key k (e # es)] else [])
     @ dedupe_spec key earliest (before @ [e]) es"

fun positions :: "('e \<Rightarrow> 'k option) \<Rightarrow> 'k \<Rightarrow> nat \<Rightarrow> 'e list \<Rightarrow> nat list" where
  "positions key k i [] = []"
| "positions key k i (e # es) = (if key e = Some k then [i] else []) @ positions key k (i + 1) es"

lemma keys_of_iff: "k \<in> keys_of key es \<longleftrightarrow> (\<exists>e\<in>set es. key e = Some k)"
  by (simp add: in_set_map_filter)

lemma map_filter_Cons_split:
  "List.map_filter f (x # xs) = (case f x of None \<Rightarrow> List.map_filter f xs | Some y \<Rightarrow> y # List.map_filter f xs)"
  by (simp add: List.map_filter_simps)

lemma map_filter_append: "List.map_filter f (xs @ ys) = List.map_filter f xs @ List.map_filter f ys"
  by (simp add: List.map_filter_def)

lemma positions_append: "positions key k i (xs @ ys) = positions key k i xs @ positions key k (i + length xs) ys"
  by (induction xs arbitrary: i) simp_all

lemma positions_Nil_iff: "positions key k i es = [] \<longleftrightarrow> k \<notin> keys_of key es"
  by (induction es arbitrary: i) (auto simp: map_filter_Cons_split split: option.splits)

lemma positions_range: "j \<in> set (positions key k i es) \<Longrightarrow> i \<le> j \<and> j < i + length es"
  by (induction es arbitrary: i) (force split: if_splits)+

lemma scan_latest:
  "fst (scan_keys key earliest i es (L, A)) k = (if k \<in> keys_of key es then Some (latest_of key k es) else L k)"
  by (induction es arbitrary: i L A)
    (auto simp: map_filter_Cons_split latest_of_def in_set_map_filter filter_empty_conv split: option.splits)

lemma scan_anchor_earliest:
  assumes "\<And>e. e \<in> set es \<Longrightarrow> key e = Some k \<Longrightarrow> earliest e"
  shows "snd (scan_keys key earliest i es (L, A)) k =
    (case A k of Some j \<Rightarrow> Some j | None \<Rightarrow> if positions key k i es = [] then None else Some (hd (positions key k i es)))"
  using assms by (induction es arbitrary: i L A) (auto split: option.splits)

lemma scan_anchor_latest:
  assumes "\<And>e. e \<in> set es \<Longrightarrow> key e = Some k \<Longrightarrow> \<not> earliest e"
  shows "snd (scan_keys key earliest i es (L, A)) k =
    (if positions key k i es = [] then A k else Some (last (positions key k i es)))"
  using assms by (induction es arbitrary: i L A) (auto split: option.splits)

text \<open>The contract the pass relies on: whether an entry keeps the earliest anchor is decided by its key.\<close>

locale keyed_items =
  fixes key :: "'e \<Rightarrow> 'k option" and earliest :: "'e \<Rightarrow> bool"
  assumes earliest_by_key: "key a = Some k \<Longrightarrow> key b = Some k \<Longrightarrow> earliest a = earliest b"
begin

lemma anchor_iff:
  assumes "all = before @ e # es" "key e = Some k"
  shows "snd (scan_keys key earliest 0 all (Map.empty, Map.empty)) k = Some (length before)
    \<longleftrightarrow> (if earliest e then k \<notin> keys_of key before else k \<notin> keys_of key es)"
proof (cases "earliest e")
  case True
  have pos: "positions key k 0 all = positions key k 0 before @ length before # positions key k (Suc (length before)) es"
    using assms by (simp add: positions_append)
  have "snd (scan_keys key earliest 0 all (Map.empty, Map.empty)) k = Some (hd (positions key k 0 all))"
    using pos True earliest_by_key [OF _ assms(2)] by (subst scan_anchor_earliest) auto
  moreover have "hd (positions key k 0 all) = length before \<longleftrightarrow> positions key k 0 before = []"
    using positions_range [of "hd (positions key k 0 before)" key k 0 before] pos
    by (cases "positions key k 0 before") auto
  ultimately show ?thesis using True by (simp add: positions_Nil_iff)
next
  case False
  let ?rest = "positions key k (Suc (length before)) es"
  have pos: "positions key k 0 all = positions key k 0 before @ length before # ?rest"
    using assms by (simp add: positions_append)
  have "snd (scan_keys key earliest 0 all (Map.empty, Map.empty)) k = Some (last (positions key k 0 all))"
    using pos False earliest_by_key [OF _ assms(2)] by (subst scan_anchor_latest) auto
  moreover have "last (positions key k 0 all) = length before \<longleftrightarrow> ?rest = []"
    using positions_range [of "last ?rest" key k "Suc (length before)" es] pos by (cases "?rest = []") auto
  ultimately show ?thesis using False by (simp add: positions_Nil_iff)
qed

lemma latest_of_suffix: "k \<in> keys_of key es \<Longrightarrow> latest_of key k (before @ es) = latest_of key k es"
  by (auto simp: latest_of_def keys_of_iff filter_empty_conv last_append)

lemma emit_latest_spec:
  assumes "scan_keys key earliest 0 (before @ es) (Map.empty, Map.empty) = (L, A)"
    and "\<And>k j. A k = Some j \<Longrightarrow> length before \<le> j \<Longrightarrow> L' k = L k"
  shows "emit_latest key A (length before) L' es = dedupe_spec key earliest before es"
  using assms
proof (induction es arbitrary: before L')
  case Nil
  then show ?case by simp
next
  case (Cons e es)
  have scan: "scan_keys key earliest 0 ((before @ [e]) @ es) (Map.empty, Map.empty) = (L, A)" using Cons.prems(1) by simp
  note IH = Cons.IH [OF scan]
  show ?case
  proof (cases "key e")
    case None
    then show ?thesis using IH [of L'] Cons.prems(2) by simp
  next
    case (Some k)
    have anchor: "A k = Some (length before) \<longleftrightarrow> (if earliest e then k \<notin> keys_of key before else k \<notin> keys_of key es)"
      using anchor_iff [OF refl Some, of before es] Cons.prems(1) by simp
    have "k \<in> keys_of key (e # es)" using Some by (simp add: map_filter_Cons_split)
    then have L: "L k = Some (latest_of key k (e # es))"
      using scan_latest [of key earliest 0 "before @ e # es" Map.empty Map.empty k] Cons.prems(1) latest_of_suffix
      by (simp add: map_filter_append)
    show ?thesis
    proof (cases "A k = Some (length before)")
      case True
      then have "L' k = Some (latest_of key k (e # es))" using Cons.prems(2) L by simp
      moreover have "emit_latest key A (length (before @ [e])) (L'(k := None)) es = dedupe_spec key earliest (before @ [e]) es"
        using True Cons.prems(2) by (intro IH) auto
      ultimately show ?thesis using True Some anchor by simp
    next
      case False
      moreover have "emit_latest key A (length (before @ [e])) L' es = dedupe_spec key earliest (before @ [e]) es"
        using Cons.prems(2) by (intro IH) auto
      ultimately show ?thesis using Some anchor by auto
    qed
  qed
qed

lemma dedupe_with_spec: "dedupe_with key earliest es = dedupe_spec key earliest [] es"
proof -
  obtain L A where s: "scan_keys key earliest 0 es (Map.empty, Map.empty) = (L, A)"
    by (cases "scan_keys key earliest 0 es (Map.empty, Map.empty)")
  then show ?thesis using emit_latest_spec [of "[]" es L A L] by (simp add: dedupe_with_def)
qed

lemma key_latest_of: "k \<in> keys_of key es \<Longrightarrow> key (latest_of key k es) = Some k"
proof -
  assume "k \<in> keys_of key es"
  then have "filter (\<lambda>e. key e = Some k) es \<noteq> []" by (auto simp: keys_of_iff filter_empty_conv)
  from last_in_set [OF this] show ?thesis by (auto simp: latest_of_def)
qed

lemma latest_of_Cons: "key e = Some j \<Longrightarrow> key (latest_of key j (e # es)) = Some j"
  by (rule key_latest_of) (simp add: map_filter_Cons_split)

lemma keys_of_dedupe_spec_Cons:
  "keys_of key (dedupe_spec key earliest before (e # es)) =
     {k. key e = Some k \<and> (if earliest e then k \<notin> keys_of key before else k \<notin> keys_of key es)}
     \<union> keys_of key (dedupe_spec key earliest (before @ [e]) es)"
proof (cases "key e")
  case (Some j)
  then show ?thesis using latest_of_Cons [OF Some, of es] by (auto simp add: map_filter_Cons_split)
qed (simp add: map_filter_Cons_split)

lemma dedupe_spec_keys:
  "k \<in> keys_of key (dedupe_spec key earliest before es)
   \<longleftrightarrow> (\<exists>e\<in>set es. key e = Some k \<and> (earliest e \<longrightarrow> k \<notin> keys_of key before))"
proof (induction es arbitrary: before)
  case Nil
  then show ?case by (simp add: List.map_filter_simps)
next
  case (Cons e es)
  have snoc: "keys_of key (before @ [e]) = keys_of key before \<union> {j. key e = Some j}"
    by (auto simp: keys_of_iff)
  show ?case
  proof (cases "key e = Some k")
    case True
    have same: "earliest e' = earliest e" if "key e' = Some k" for e' using earliest_by_key True that by blast
    have "(\<exists>e'\<in>set es. key e' = Some k \<and> (earliest e' \<longrightarrow> k \<notin> keys_of key (before @ [e]))) \<longleftrightarrow> k \<in> keys_of key es \<and> \<not> earliest e"
      using same True unfolding snoc keys_of_iff by blast
    then have rest: "k \<in> keys_of key (dedupe_spec key earliest (before @ [e]) es) \<longleftrightarrow> k \<in> keys_of key es \<and> \<not> earliest e"
      using Cons.IH by blast
    have "(\<exists>e'\<in>set (e # es). key e' = Some k \<and> (earliest e' \<longrightarrow> k \<notin> keys_of key before)) \<longleftrightarrow> (earliest e \<longrightarrow> k \<notin> keys_of key before)"
      using same True by (metis list.set_intros(1))
    then show ?thesis using True rest unfolding keys_of_dedupe_spec_Cons by (simp only:) auto
  next
    case False
    then show ?thesis using Cons.IH [of "before @ [e]"] unfolding keys_of_dedupe_spec_Cons snoc by auto
  qed
qed

lemma dedupe_spec_distinct: "distinct (List.map_filter key (dedupe_spec key earliest before es))"
proof (induction es arbitrary: before)
  case Nil
  then show ?case by (simp add: List.map_filter_simps)
next
  case (Cons e es)
  note IH = Cons.IH [of "before @ [e]"]
  show ?case
  proof (cases "key e")
    case (Some k)
    then have same: "earliest e' = earliest e" if "key e' = Some k" for e' using earliest_by_key that by blast
    have "k \<notin> keys_of key (dedupe_spec key earliest (before @ [e]) es)"
      if "if earliest e then k \<notin> keys_of key before else k \<notin> keys_of key es"
      using that same Some unfolding dedupe_spec_keys by (cases "earliest e") (auto simp: keys_of_iff)
    then show ?thesis using IH Some latest_of_Cons [OF Some, of es] by (simp add: map_filter_Cons_split)
  qed (use IH in \<open>simp add: map_filter_Cons_split\<close>)
qed

lemma dedupe_spec_latest:
  "x \<in> set (dedupe_spec key earliest before es) \<Longrightarrow> key x = Some k \<Longrightarrow> x = latest_of key k es"
proof (induction es arbitrary: before)
  case Nil
  then show ?case by simp
next
  case (Cons e es)
  have step: "latest_of key k (e # es) = latest_of key k es" if "k \<in> keys_of key es"
    using latest_of_suffix [OF that, of "[e]"] by simp
  show ?case
  proof (cases "x \<in> set (dedupe_spec key earliest (before @ [e]) es)")
    case True
    then have "k \<in> keys_of key (dedupe_spec key earliest (before @ [e]) es)" using Cons.prems(2) by (auto simp: keys_of_iff)
    then have "k \<in> keys_of key es" unfolding dedupe_spec_keys by (auto simp: keys_of_iff)
    then show ?thesis using Cons.IH [OF True Cons.prems(2)] step by simp
  next
    case False
    then show ?thesis using Cons.prems latest_of_Cons by (auto split: option.splits if_splits)
  qed
qed

lemma dedupe_spec_unkeyed:
  "filter (\<lambda>e. key e = None) (dedupe_spec key earliest before es) = filter (\<lambda>e. key e = None) es"
proof (induction es arbitrary: before)
  case Nil
  then show ?case by simp
next
  case (Cons e es)
  then show ?case using latest_of_Cons by (auto split: option.splits)
qed

lemma dedupe_spec_id:
  "distinct (List.map_filter key (before @ es)) \<Longrightarrow> dedupe_spec key earliest before es = es"
proof (induction es arbitrary: before)
  case Nil
  then show ?case by simp
next
  case (Cons e es)
  show ?case
  proof (cases "key e")
    case None
    then show ?thesis using Cons by simp
  next
    case (Some k)
    then have "k \<notin> keys_of key before" "k \<notin> keys_of key es"
      using Cons.prems by (auto simp: map_filter_append map_filter_Cons_split)
    moreover from this have "latest_of key k (e # es) = e"
      using Some by (auto simp: latest_of_def keys_of_iff filter_empty_conv)
    ultimately show ?thesis using Cons Some by simp
  qed
qed

lemma dedupe_with_id: "distinct (List.map_filter key es) \<Longrightarrow> dedupe_with key earliest es = es"
  using dedupe_spec_id [of "[]" es] by (simp add: dedupe_with_spec)

end

abbreviation entry_key :: "'v pending_input_item \<Rightarrow> dedupe_identity option" where
  "entry_key \<equiv> \<lambda>entry. dedupe_key (pi_item entry)"

abbreviation entry_earliest :: "'v pending_input_item \<Rightarrow> bool" where
  "entry_earliest \<equiv> \<lambda>entry. keeps_earliest_anchor (pi_item entry)"

lemma earliest_decided_by_key:
  "dedupe_key a = Some k \<Longrightarrow> dedupe_key b = Some k \<Longrightarrow> keeps_earliest_anchor a = keeps_earliest_anchor b"
  by (cases a; cases b) auto

interpretation pending: keyed_items "entry_key :: 'v pending_input_item \<Rightarrow> dedupe_identity option" entry_earliest
  by unfold_locales (rule earliest_decided_by_key)

section \<open>What pruning computes\<close>

text \<open>Reference: an entry that is not reasoning stays unless it is an orphan; a reasoning entry stays when
  the next entry that is not reasoning exists and stays.\<close>

definition follower :: "('e \<Rightarrow> bool) \<Rightarrow> 'e list \<Rightarrow> 'e option" where
  "follower reasoning es = find (\<lambda>e. \<not> reasoning e) es"

definition follower_survives :: "('e \<Rightarrow> bool) \<Rightarrow> ('e \<Rightarrow> bool) \<Rightarrow> 'e list \<Rightarrow> bool" where
  "follower_survives reasoning orphan es = (case follower reasoning es of Some f \<Rightarrow> \<not> orphan f | None \<Rightarrow> False)"

fun prune_spec :: "('e \<Rightarrow> bool) \<Rightarrow> ('e \<Rightarrow> bool) \<Rightarrow> 'e list \<Rightarrow> 'e list" where
  "prune_spec reasoning orphan [] = []"
| "prune_spec reasoning orphan (e # es) =
     (if (if reasoning e then follower_survives reasoning orphan es else \<not> orphan e)
      then e # prune_spec reasoning orphan es else prune_spec reasoning orphan es)"

text \<open>Each reasoning entry with the entry it belongs to, if there is one.\<close>

fun reasoning_pairs :: "('e \<Rightarrow> bool) \<Rightarrow> 'e list \<Rightarrow> ('e \<times> 'e option) list" where
  "reasoning_pairs reasoning [] = []"
| "reasoning_pairs reasoning (e # es) =
     (if reasoning e then [(e, follower reasoning es)] else []) @ reasoning_pairs reasoning es"

lemma find_map_conv: "find P (map f xs) = map_option f (find (\<lambda>x. P (f x)) xs)"
  by (induction xs) simp_all

lemma drop_as_map_nth: "drop a xs = map ((!) xs) [a..<length xs]"
  by (rule nth_equalityI) simp_all

lemma filter_positions_Cons:
  "map ((!) (e # es)) (filter P [0..<length (e # es)])
   = (if P 0 then [e] else []) @ map ((!) es) (filter (\<lambda>i. P (Suc i)) [0..<length es])"
proof -
  have "[0..<length (e # es)] = 0 # map Suc [0..<length es]" by (simp add: map_Suc_upt upt_conv_Cons del: upt_Suc)
  then show ?thesis by (simp add: filter_map comp_def)
qed

lemma prune_spec_by_position:
  "prune_spec reasoning orphan es =
   map ((!) es) (filter (\<lambda>i. if reasoning (es ! i) then follower_survives reasoning orphan (drop (Suc i) es) else \<not> orphan (es ! i))
     [0..<length es])"
proof (induction es)
  case Nil
  then show ?case by simp
next
  case (Cons e es)
  show ?case unfolding filter_positions_Cons by (simp add: Cons.IH)
qed

lemma fold_drop_dangling:
  fixes items :: "'v pending_input_item list" and unpaired :: "nat set"
  defines "reas \<equiv> \<lambda>i. is_reasoning (pi_item (items ! i))"
    and "next_of \<equiv> \<lambda>i. find (\<lambda>j. \<not> is_reasoning (pi_item (items ! j))) [i + 1..<length items]"
  assumes "\<And>j. \<not> reas j \<Longrightarrow> j \<in> D \<longleftrightarrow> j \<in> unpaired"
  shows "fold (drop_dangling items) is D =
    D \<union> {i \<in> set is. reas i \<and> (case next_of i of Some j \<Rightarrow> j \<in> unpaired | None \<Rightarrow> True)}"
  using assms(3)
proof (induction "is" arbitrary: D)
  case Nil
  then show ?case by simp
next
  case (Cons i "is")
  let ?bad = "reas i \<and> (case next_of i of Some j \<Rightarrow> j \<in> unpaired | None \<Rightarrow> True)"
  have "\<not> reas j" if "next_of i = Some j" for j
    using that by (auto simp: next_of_def reas_def find_Some_iff)
  then have step: "drop_dangling items i D = (if ?bad then insert i D else D)"
    using Cons.prems by (auto simp: drop_dangling_def next_of_def reas_def split: option.splits)
  have "j \<in> drop_dangling items i D \<longleftrightarrow> j \<in> unpaired" if "\<not> reas j" for j
    using Cons.prems [OF that] that step by (auto split: if_splits)
  from Cons.IH [OF this] show ?case using step by auto
qed

text \<open>The orphans the pass over \<open>items\<close> finds under \<open>policy\<close>.\<close>

definition orphan_in :: "orphan_policy \<Rightarrow> 'v pending_input_item list \<Rightarrow> 'v pending_input_item \<Rightarrow> bool" where
  "orphan_in policy items entry \<longleftrightarrow>
     is_orphan policy (List.map_filter (\<lambda>entry. call_pair_key (pi_item entry)) items)
       (List.map_filter (\<lambda>entry. output_pair_key (pi_item entry)) items) (pi_item entry)"

abbreviation entry_reasoning :: "'v pending_input_item \<Rightarrow> bool" where
  "entry_reasoning \<equiv> \<lambda>entry. is_reasoning (pi_item entry)"

lemma reasoning_not_orphan: "entry_reasoning e \<Longrightarrow> \<not> orphan_in policy items e"
  by (cases "pi_item e") (auto simp: orphan_in_def is_orphan_def)

lemma prune_orphans_spec:
  assumes "policy \<noteq> PreserveOrphans"
  shows "prune_orphans items policy = prune_spec entry_reasoning (orphan_in policy items) items"
proof -
  let ?n = "length items" and ?orph = "orphan_in policy items"
  define unpaired where "unpaired = set (filter (\<lambda>i. ?orph (items ! i)) [0..<?n])"
  define dropped where "dropped = fold (drop_dangling items) (rev [0..<?n]) unpaired"
  have prune: "prune_orphans items policy = map ((!) items) (filter (\<lambda>i. i \<notin> dropped) [0..<?n])"
    using assms by (simp add: prune_orphans_def dropped_def unpaired_def orphan_in_def Let_def)
  have next_of: "(case find (\<lambda>j. \<not> is_reasoning (pi_item (items ! j))) [Suc i..<?n] of Some j \<Rightarrow> j \<in> unpaired | None \<Rightarrow> True)
      \<longleftrightarrow> \<not> follower_survives entry_reasoning ?orph (drop (Suc i) items)" for i
  proof (cases "find (\<lambda>j. \<not> is_reasoning (pi_item (items ! j))) [Suc i..<?n]")
    case (Some j)
    then have "j < ?n" by (fastforce simp: find_Some_iff)
    then show ?thesis using Some by (simp add: follower_survives_def follower_def drop_as_map_nth find_map_conv unpaired_def)
  qed (simp add: follower_survives_def follower_def drop_as_map_nth find_map_conv)
  have drops: "dropped = unpaired \<union> {i \<in> set (rev [0..<?n]). entry_reasoning (items ! i) \<and>
      (case find (\<lambda>j. \<not> is_reasoning (pi_item (items ! j))) [Suc i..<?n] of Some j \<Rightarrow> j \<in> unpaired | None \<Rightarrow> True)}"
    using fold_drop_dangling [of items unpaired unpaired "rev [0..<?n]"] by (simp add: dropped_def)
  have mem: "i \<in> unpaired \<longleftrightarrow> i < ?n \<and> ?orph (items ! i)" for i by (auto simp: unpaired_def)
  have "i \<notin> dropped \<longleftrightarrow>
      (if entry_reasoning (items ! i) then follower_survives entry_reasoning ?orph (drop (Suc i) items) else \<not> ?orph (items ! i))"
    if "i < ?n" for i
    using that reasoning_not_orphan [of "items ! i" policy items] next_of [of i]
    unfolding drops by (auto simp: mem)
  then show ?thesis unfolding prune prune_spec_by_position by (intro arg_cong [of _ _ "map _"] filter_cong) auto
qed

lemma prune_spec_subset: "x \<in> set (prune_spec reasoning orphan es) \<Longrightarrow> x \<in> set es"
  by (induction es) (auto split: if_splits)

lemma prune_spec_plain:
  "filter (\<lambda>e. \<not> reasoning e) (prune_spec reasoning orphan es) = filter (\<lambda>e. \<not> reasoning e \<and> \<not> orphan e) es"
  by (induction es) auto

lemma follower_prune_spec:
  "follower_survives reasoning orphan es \<Longrightarrow> follower reasoning (prune_spec reasoning orphan es) = follower reasoning es"
  by (induction es) (auto simp: follower_survives_def follower_def split: if_splits)

lemma reasoning_pairs_prune_spec:
  "reasoning_pairs reasoning (prune_spec reasoning orphan es)
   = filter (\<lambda>(r, f). \<exists>g. f = Some g \<and> \<not> orphan g) (reasoning_pairs reasoning es)"
  by (induction es) (auto simp: follower_prune_spec, auto simp: follower_survives_def split: option.splits)

lemma prune_spec_again:
  assumes "\<And>e. e \<in> set (prune_spec reasoning orphan es) \<Longrightarrow> \<not> orphan' e"
  shows "prune_spec reasoning orphan' (prune_spec reasoning orphan es) = prune_spec reasoning orphan es"
  using assms
proof (induction es)
  case Nil
  then show ?case by simp
next
  case (Cons e es)
  have IH: "prune_spec reasoning orphan' (prune_spec reasoning orphan es) = prune_spec reasoning orphan es"
    using Cons by (auto split: if_splits)
  have "follower_survives reasoning orphan' (prune_spec reasoning orphan es)"
    if surv: "follower_survives reasoning orphan es" and "reasoning e"
  proof -
    obtain f where f: "follower reasoning (prune_spec reasoning orphan es) = Some f"
      using follower_prune_spec [OF surv] surv by (auto simp: follower_survives_def split: option.splits)
    then have "f \<in> set (prune_spec reasoning orphan es)" by (auto simp: follower_def find_Some_iff)
    then show ?thesis using Cons.prems f that by (auto simp: follower_survives_def)
  qed
  then show ?case using IH Cons.prems by auto
qed

lemma follower_survives_map:
  assumes "\<And>e. e \<in> set es \<Longrightarrow> reasoning (g e) = reasoning e" "\<And>e. e \<in> set es \<Longrightarrow> orphan' (g e) = orphan e"
  shows "follower_survives reasoning orphan' (map g es) = follower_survives reasoning orphan es"
  using assms by (induction es) (auto simp: follower_survives_def follower_def)

lemma prune_spec_map:
  assumes "\<And>e. e \<in> set es \<Longrightarrow> reasoning (g e) = reasoning e" "\<And>e. e \<in> set es \<Longrightarrow> orphan' (g e) = orphan e"
  shows "prune_spec reasoning orphan' (map g es) = map g (prune_spec reasoning orphan es)"
  using assms
proof (induction es)
  case Nil
  then show ?case by simp
next
  case (Cons e es)
  have "follower_survives reasoning orphan' (map g es) = follower_survives reasoning orphan es"
    using Cons.prems by (intro follower_survives_map) simp_all
  then show ?case using Cons by simp
qed

section \<open>The prepared input\<close>

text \<open>The entries that are sent, before their identifiers are omitted and their coordinates attached.\<close>

definition paired_entries :: "input_item_normalizer \<Rightarrow> 'v pending_input_item list \<Rightarrow> 'v pending_input_item list" where
  "paired_entries self items = prune_orphans (deduplicate_preferring_latest items) (nz_orphan_policy self)"

lemma dedupe_spec_subset: "x \<in> set (dedupe_spec key earliest before es) \<Longrightarrow> x \<in> set es"
proof (induction es arbitrary: before)
  case (Cons e es)
  have "latest_of key k (e # es) \<in> set (e # es)" if "key e = Some k" for k
    using that last_in_set [of "filter (\<lambda>e. key e = Some k) (e # es)"] by (auto simp: latest_of_def)
  then show ?case using Cons by (fastforce split: option.splits if_splits)
qed simp

lemma deduplicate_spec:
  "deduplicate_preferring_latest items = dedupe_spec entry_key entry_earliest [] items"
  unfolding deduplicate_preferring_latest_def by (rule pending.dedupe_with_spec)

lemma paired_entries_subset: "e \<in> set (paired_entries self items) \<Longrightarrow> e \<in> set items"
proof (cases "nz_orphan_policy self = PreserveOrphans")
  case True
  assume "e \<in> set (paired_entries self items)"
  then show ?thesis using True by (auto simp: paired_entries_def prune_orphans_def deduplicate_spec dest: dedupe_spec_subset)
next
  case False
  assume "e \<in> set (paired_entries self items)"
  then show ?thesis
    unfolding paired_entries_def prune_orphans_spec [OF False] deduplicate_spec
    by (blast dest: prune_spec_subset dedupe_spec_subset)
qed

lemma normalize_Inr:
  assumes "normalize sha to_vec self items = Inr n"
  shows "n = map (\<lambda>entry. let item = apply_reasoning_id_policy (pi_item entry) (nz_reasoning_id_policy self) in
      \<lparr> ni_item = item, ni_occurrence_key = map_option (\<lambda>item_id. \<lparr> ok_item_id = item_id,
          ok_digest = projr (digest_compute sha to_vec item) \<rparr>) (pi_item_id entry) \<rparr>) (paired_entries self items)"
    and "\<And>entry. entry \<in> set (paired_entries self items) \<Longrightarrow>
      \<exists>d. digest_compute sha to_vec (apply_reasoning_id_policy (pi_item entry) (nz_reasoning_id_policy self)) = Inr d"
proof -
  let ?f = "\<lambda>entry. let item = apply_reasoning_id_policy (pi_item entry) (nz_reasoning_id_policy self) in
        result_bind (digest_compute sha to_vec item) (\<lambda>digest.
          Inr \<lparr> ni_item = item,
                ni_occurrence_key = map_option (\<lambda>item_id. \<lparr> ok_item_id = item_id, ok_digest = digest \<rparr>) (pi_item_id entry) \<rparr>)"
  have eq: "map ?f (paired_entries self items) = map Inr n"
    using assms by (simp add: normalize_def collect_results_Inr paired_entries_def Let_def)
  then have each: "\<exists>m. ?f entry = Inr m" if "entry \<in> set (paired_entries self items)" for entry
    using that by (metis (no_types, lifting) image_iff list.set_map)
  then show ex: "\<exists>d. digest_compute sha to_vec (apply_reasoning_id_policy (pi_item entry) (nz_reasoning_id_policy self)) = Inr d"
    if "entry \<in> set (paired_entries self items)" for entry
    using that by (fastforce simp: Let_def result_bind_Inr_iff)
  have "n = map projr (map ?f (paired_entries self items))" using eq by (simp add: comp_def)
  also have "\<dots> = map (\<lambda>entry. let item = apply_reasoning_id_policy (pi_item entry) (nz_reasoning_id_policy self) in
      \<lparr> ni_item = item, ni_occurrence_key = map_option (\<lambda>item_id. \<lparr> ok_item_id = item_id,
          ok_digest = projr (digest_compute sha to_vec item) \<rparr>) (pi_item_id entry) \<rparr>) (paired_entries self items)"
    using ex by (fastforce simp: Let_def)
  finally show "n = \<dots>" .
qed

lemma apply_policy_keys [simp]:
  "is_reasoning (apply_reasoning_id_policy item policy) = is_reasoning item"
  "call_pair_key (apply_reasoning_id_policy item policy) = call_pair_key item"
  "output_pair_key (apply_reasoning_id_policy item policy) = output_pair_key item"
  by (cases item; cases policy; simp)+

lemma apply_policy_idem [simp]:
  "apply_reasoning_id_policy (apply_reasoning_id_policy item policy) policy = apply_reasoning_id_policy item policy"
  by (cases item; cases policy) (simp_all add: without_id_def)

lemma apply_policy_dedupe_key:
  "dedupe_key (apply_reasoning_id_policy item policy) = Some k \<Longrightarrow> dedupe_key item = Some k"
  by (cases item; cases policy) (simp_all add: without_id_def)

lemma into_items_normalize:
  assumes "normalize sha to_vec self items = Inr n"
  shows "into_items n = map (\<lambda>e. apply_reasoning_id_policy (pi_item e) (nz_reasoning_id_policy self)) (paired_entries self items)"
  by (subst normalize_Inr(1) [OF assms]) (simp add: into_items_def comp_def Let_def)

lemma paired_survivors:
  assumes "nz_orphan_policy self \<noteq> PreserveOrphans" and "e \<in> set (paired_entries self items)"
  shows "\<not> orphan_in (nz_orphan_policy self) (deduplicate_preferring_latest items) e"
proof (cases "entry_reasoning e")
  case True
  then show ?thesis by (rule reasoning_not_orphan)
next
  case False
  have "e \<in> set (filter (\<lambda>e. \<not> entry_reasoning e) (paired_entries self items))" using assms(2) False by simp
  then show ?thesis unfolding paired_entries_def prune_orphans_spec [OF assms(1)] prune_spec_plain by simp
qed

lemma paired_kept:
  assumes "nz_orphan_policy self \<noteq> PreserveOrphans" and "e \<in> set (deduplicate_preferring_latest items)"
    and "\<not> entry_reasoning e" and "\<not> orphan_in (nz_orphan_policy self) (deduplicate_preferring_latest items) e"
  shows "e \<in> set (paired_entries self items)"
proof -
  have "e \<in> set (filter (\<lambda>e. \<not> entry_reasoning e) (paired_entries self items))"
    using assms unfolding paired_entries_def prune_orphans_spec [OF assms(1)] prune_spec_plain by simp
  then show ?thesis by simp
qed

lemma pair_key_cases:
  "call_pair_key item = Some k \<Longrightarrow> output_pair_key item = None \<and> \<not> is_reasoning item"
  "output_pair_key item = Some k \<Longrightarrow> call_pair_key item = None \<and> \<not> is_reasoning item"
  by (cases item; simp)+

lemma paired_in_prune: "e \<in> set (paired_entries self items) \<Longrightarrow> e \<in> set (deduplicate_preferring_latest items)"
  by (cases "nz_orphan_policy self = PreserveOrphans")
    (simp add: paired_entries_def prune_orphans_def, metis paired_entries_def prune_orphans_spec prune_spec_subset)

text \<open>A surviving call has a surviving output; under \<open>DropUnpaired\<close> the converse holds too.\<close>

lemma paired_call_has_output:
  assumes "nz_orphan_policy self \<noteq> PreserveOrphans" and "e \<in> set (paired_entries self items)"
    and "call_pair_key (pi_item e) = Some k"
  shows "\<exists>f\<in>set (paired_entries self items). output_pair_key (pi_item f) = Some k"
proof -
  let ?D = "deduplicate_preferring_latest items"
  obtain f where f: "f \<in> set ?D" "output_pair_key (pi_item f) = Some k"
    using paired_survivors [OF assms(1,2)] assms(3)
    by (auto simp: orphan_in_def is_orphan_def in_set_map_filter pair_key_cases(1))
  have "e \<in> set ?D" using assms(2) by (rule paired_in_prune)
  then have "\<not> orphan_in (nz_orphan_policy self) ?D f"
    using f assms(3) by (auto simp: orphan_in_def is_orphan_def in_set_map_filter pair_key_cases(2))
  then show ?thesis using paired_kept [OF assms(1) f(1)] f(2) pair_key_cases(2) by blast
qed

lemma paired_output_has_call:
  assumes "nz_orphan_policy self = DropUnpaired" and "e \<in> set (paired_entries self items)"
    and "output_pair_key (pi_item e) = Some k"
  shows "\<exists>f\<in>set (paired_entries self items). call_pair_key (pi_item f) = Some k"
proof -
  let ?D = "deduplicate_preferring_latest items"
  have np: "nz_orphan_policy self \<noteq> PreserveOrphans" using assms(1) by simp
  obtain f where f: "f \<in> set ?D" "call_pair_key (pi_item f) = Some k"
    using paired_survivors [OF np assms(2)] assms(1,3)
    by (auto simp: orphan_in_def is_orphan_def in_set_map_filter pair_key_cases(2))
  have "e \<in> set ?D" using assms(2) by (rule paired_in_prune)
  then have "\<not> orphan_in (nz_orphan_policy self) ?D f"
    using f assms(3) by (auto simp: orphan_in_def is_orphan_def in_set_map_filter pair_key_cases(1))
  then show ?thesis using paired_kept [OF np f(1)] f(2) pair_key_cases(1) by blast
qed

lemma paired_not_orphan:
  assumes "nz_orphan_policy self \<noteq> PreserveOrphans" and "e \<in> set (paired_entries self items)"
  shows "\<not> orphan_in (nz_orphan_policy self) (paired_entries self items) e"
  using paired_call_has_output [OF assms] paired_output_has_call [OF _ assms(2)]
  by (auto simp: orphan_in_def is_orphan_def in_set_map_filter split: option.splits)

lemma paired_fixpoint:
  assumes "nz_orphan_policy self \<noteq> PreserveOrphans"
  shows "prune_spec entry_reasoning (orphan_in (nz_orphan_policy self) (paired_entries self items)) (paired_entries self items)
    = paired_entries self items"
  using prune_spec_again [of entry_reasoning "orphan_in (nz_orphan_policy self) (deduplicate_preferring_latest items)"
      "deduplicate_preferring_latest items"] paired_not_orphan [OF assms]
  unfolding paired_entries_def prune_orphans_spec [OF assms] by blast

lemma distinct_keys_prune:
  "distinct (List.map_filter key es) \<Longrightarrow> distinct (List.map_filter key (prune_spec reasoning orphan es))"
  by (induction es)
    (auto simp: map_filter_Cons_split in_set_map_filter split: option.splits dest: prune_spec_subset)

lemma distinct_keys_map:
  assumes "\<And>e k. key' (g e) = Some k \<Longrightarrow> key e = Some k" and "distinct (List.map_filter key es)"
  shows "distinct (List.map_filter key' (map g es))"
  using assms(2)
proof (induction es)
  case (Cons e es)
  show ?case
  proof (cases "key' (g e)")
    case (Some k)
    then have "k \<notin> keys_of key es" using Cons.prems assms(1) [OF Some] by (simp add: map_filter_Cons_split)
    then have "k \<notin> keys_of key' (map g es)" using assms(1) by (auto simp: keys_of_iff)
    then show ?thesis using Cons Some assms(1) [OF Some] by (simp add: map_filter_Cons_split)
  qed (use Cons in \<open>simp add: map_filter_Cons_split split: option.splits\<close>)
qed (simp add: List.map_filter_simps)

lemma paired_keys_distinct: "distinct (List.map_filter entry_key (paired_entries self items))"
proof -
  have d: "distinct (List.map_filter entry_key (deduplicate_preferring_latest items))"
    unfolding deduplicate_spec by (rule pending.dedupe_spec_distinct)
  show ?thesis
  proof (cases "nz_orphan_policy self = PreserveOrphans")
    case True
    then show ?thesis using d by (simp add: paired_entries_def prune_orphans_def)
  next
    case False
    show ?thesis unfolding paired_entries_def prune_orphans_spec [OF False] using d by (rule distinct_keys_prune)
  qed
qed

lemma paired_entries_again:
  fixes self items
  defines "Q \<equiv> map (\<lambda>e. pending_new (apply_reasoning_id_policy (pi_item e) (nz_reasoning_id_policy self)) (pi_item_id e))
    (paired_entries self items)"
  shows "paired_entries self Q = Q"
proof -
  let ?P = "paired_entries self items" and ?pol = "nz_orphan_policy self"
  let ?g = "\<lambda>e. pending_new (apply_reasoning_id_policy (pi_item e) (nz_reasoning_id_policy self)) (pi_item_id e)"
  have "distinct (List.map_filter entry_key Q)"
    unfolding Q_def using paired_keys_distinct
    by (rule distinct_keys_map [rotated]) (auto simp: pending_new_def dest: apply_policy_dedupe_key)
  then have dedupe: "deduplicate_preferring_latest Q = Q"
    unfolding deduplicate_preferring_latest_def by (rule pending.dedupe_with_id)
  show ?thesis
  proof (cases "?pol = PreserveOrphans")
    case True
    then show ?thesis using dedupe by (simp add: paired_entries_def prune_orphans_def)
  next
    case False
    have "List.map_filter (\<lambda>e. call_pair_key (pi_item e)) Q = List.map_filter (\<lambda>e. call_pair_key (pi_item e)) ?P"
      "List.map_filter (\<lambda>e. output_pair_key (pi_item e)) Q = List.map_filter (\<lambda>e. output_pair_key (pi_item e)) ?P"
      by (simp_all add: Q_def List.map_filter_def filter_map comp_def pending_new_def)
    then have "orphan_in ?pol Q (?g e) = orphan_in ?pol ?P e" for e
      by (simp add: orphan_in_def is_orphan_def pending_new_def)
    then have "prune_spec entry_reasoning (orphan_in ?pol Q) Q = map ?g (prune_spec entry_reasoning (orphan_in ?pol ?P) ?P)"
      unfolding Q_def by (intro prune_spec_map) (simp_all add: pending_new_def)
    also have "\<dots> = Q" unfolding paired_fixpoint [OF False] Q_def ..
    finally have "prune_spec entry_reasoning (orphan_in ?pol Q) Q = Q" .
    then show ?thesis unfolding paired_entries_def [of self Q] dedupe prune_orphans_spec [OF False] .
  qed
qed

section \<open>Properties of the prepared input\<close>

text \<open>C35. Deduplication computes its reference: every identity occurs once in the result, with the
  value of its last occurrence, at the first occurrence of calls, reasoning and approval requests and at
  the last occurrence of everything else. No identity is lost, and items without one keep their order.\<close>

theorem deduplication_keeps_latest_at_anchor:
  "deduplicate_preferring_latest items = dedupe_spec entry_key entry_earliest [] items
   \<and> distinct (List.map_filter entry_key (deduplicate_preferring_latest items))
   \<and> keys_of entry_key (deduplicate_preferring_latest items) = keys_of entry_key items
   \<and> filter (\<lambda>e. entry_key e = None) (deduplicate_preferring_latest items) = filter (\<lambda>e. entry_key e = None) items"
proof (intro conjI)
  show "deduplicate_preferring_latest items = dedupe_spec entry_key entry_earliest [] items" by (rule deduplicate_spec)
  show "distinct (List.map_filter entry_key (deduplicate_preferring_latest items))"
    unfolding deduplicate_spec by (rule pending.dedupe_spec_distinct)
  show "keys_of entry_key (deduplicate_preferring_latest items) = keys_of entry_key items"
    unfolding deduplicate_spec
    by (rule set_eqI) (simp only: pending.dedupe_spec_keys, simp add: in_set_map_filter List.map_filter_simps)
  show "filter (\<lambda>e. entry_key e = None) (deduplicate_preferring_latest items) = filter (\<lambda>e. entry_key e = None) items"
    unfolding deduplicate_spec by (rule pending.dedupe_spec_unkeyed)
qed

text \<open>C34. In input prepared under a policy that drops orphans, no call goes unanswered: every tool call and
  every handoff that is sent is sent together with an output of the same kind and call identifier; when
  unpaired items are dropped, every output is sent together with its call too.\<close>

theorem no_call_goes_unanswered:
  assumes "normalize sha to_vec self items = Inr n" and "nz_orphan_policy self \<noteq> PreserveOrphans"
    and "item \<in> set (into_items n)"
  shows "(call_pair_key item = Some k \<longrightarrow> (\<exists>out\<in>set (into_items n). output_pair_key out = Some k))
    \<and> (nz_orphan_policy self = DropUnpaired \<and> output_pair_key item = Some k \<longrightarrow>
         (\<exists>call\<in>set (into_items n). call_pair_key call = Some k))"
proof -
  obtain e where e: "e \<in> set (paired_entries self items)"
      and item: "item = apply_reasoning_id_policy (pi_item e) (nz_reasoning_id_policy self)"
    using assms(3) unfolding into_items_normalize [OF assms(1)] by auto
  have "\<exists>out\<in>set (into_items n). output_pair_key out = Some k" if "call_pair_key item = Some k"
    using paired_call_has_output [OF assms(2) e, of k] that item unfolding into_items_normalize [OF assms(1)] by simp
  moreover have "\<exists>call\<in>set (into_items n). call_pair_key call = Some k"
    if "nz_orphan_policy self = DropUnpaired" "output_pair_key item = Some k"
    using paired_output_has_call [OF that(1) e, of k] that(2) item unfolding into_items_normalize [OF assms(1)] by simp
  ultimately show ?thesis by blast
qed

text \<open>Pruning never separates reasoning from the item it belongs to: the reasoning items that survive
  are exactly those whose next non-reasoning item exists and survives, each still followed by that same
  item; and of the other items exactly the orphans are dropped.\<close>

theorem reasoning_keeps_its_follower:
  assumes "policy \<noteq> PreserveOrphans"
  shows "reasoning_pairs entry_reasoning (prune_orphans items policy)
         = filter (\<lambda>(r, f). \<exists>g. f = Some g \<and> \<not> orphan_in policy items g) (reasoning_pairs entry_reasoning items)
    \<and> filter (\<lambda>e. \<not> entry_reasoning e) (prune_orphans items policy)
         = filter (\<lambda>e. \<not> entry_reasoning e \<and> \<not> orphan_in policy items e) items"
  unfolding prune_orphans_spec [OF assms] by (rule conjI [OF reasoning_pairs_prune_spec prune_spec_plain])

text \<open>C36. Preparing model input is idempotent: what was prepared is prepared again to itself, under every
  combination of policies.\<close>

theorem normalization_idempotent:
  assumes "normalize_model_items sha to_vec self items = Inr n"
  shows "normalize_model_items sha to_vec self (into_items n) = Inr n"
proof -
  let ?ap = "\<lambda>item. apply_reasoning_id_policy item (nz_reasoning_id_policy self)"
  let ?in = "map (\<lambda>item. pending_new item None) items"
  let ?P = "paired_entries self ?in"
  have norm: "normalize sha to_vec self ?in = Inr n" using assms by (simp add: normalize_model_items_def)
  have none: "pi_item_id e = None" if "e \<in> set ?P" for e
    using paired_entries_subset [OF that] by (auto simp: pending_new_def)
  define Q where "Q = map (\<lambda>e. pending_new (?ap (pi_item e)) (pi_item_id e)) ?P"
  have Q: "map (\<lambda>item. pending_new item None) (into_items n) = Q"
    unfolding into_items_normalize [OF norm] Q_def using none by simp
  have "paired_entries self Q = Q" unfolding Q_def by (rule paired_entries_again)
  then have "normalize sha to_vec self Q = collect_results (map (\<lambda>entry.
      result_bind (digest_compute sha to_vec (?ap (pi_item entry))) (\<lambda>digest.
        Inr \<lparr> ni_item = ?ap (pi_item entry), ni_occurrence_key =
          map_option (\<lambda>item_id. \<lparr> ok_item_id = item_id, ok_digest = digest \<rparr>) (pi_item_id entry) \<rparr>)) Q)"
    by (simp add: normalize_def paired_entries_def Let_def)
  also have "\<dots> = normalize sha to_vec self ?in"
    unfolding normalize_def paired_entries_def [symmetric] Let_def by (simp add: Q_def pending_new_def comp_def)
  finally show ?thesis using norm unfolding normalize_model_items_def Q by simp
qed

text \<open>Everything prepared from session records is the projection of one of them, under the reasoning
  policy, and carries that record's identifier and the digest of exactly what is sent.\<close>

theorem prepared_items_are_records:
  assumes "normalize_run_items sha to_vec self items = Inr n" and "e \<in> set n"
  shows "\<exists>r\<in>set items. \<exists>m d. to_model_input r = Some m
    \<and> ni_item e = apply_reasoning_id_policy m (nz_reasoning_id_policy self)
    \<and> digest_compute sha to_vec (ni_item e) = Inr d
    \<and> ni_occurrence_key e = Some \<lparr> ok_item_id = ri_id r, ok_digest = d \<rparr>"
proof -
  let ?in = "List.map_filter (\<lambda>r. map_option (\<lambda>item. pending_new item (Some (ri_id r))) (to_model_input r)) items"
  have norm: "normalize sha to_vec self ?in = Inr n" using assms(1) by (simp add: normalize_run_items_def)
  obtain p where p: "p \<in> set (paired_entries self ?in)"
    and e: "e = (let item = apply_reasoning_id_policy (pi_item p) (nz_reasoning_id_policy self) in
      \<lparr> ni_item = item, ni_occurrence_key = map_option (\<lambda>item_id. \<lparr> ok_item_id = item_id,
          ok_digest = projr (digest_compute sha to_vec item) \<rparr>) (pi_item_id p) \<rparr>)"
    using assms(2) by (subst (asm) normalize_Inr(1) [OF norm]) auto
  obtain r m where r: "r \<in> set items" "to_model_input r = Some m" "p = pending_new m (Some (ri_id r))"
    using paired_entries_subset [OF p] by (auto simp: in_set_map_filter)
  obtain d where "digest_compute sha to_vec (apply_reasoning_id_policy (pi_item p) (nz_reasoning_id_policy self)) = Inr d"
    using normalize_Inr(2) [OF norm p] by blast
  then show ?thesis using r e by (auto simp: pending_new_def Let_def intro!: bexI [of _ r])
qed

section \<open>A concrete history\<close>

text \<open>A reasoning item sent twice under one identifier, a call with its output, a call without one, and a
  reasoning item whose follower is that call.\<close>

definition sample_call :: "string \<Rightarrow> nat tool_call" where
  "sample_call i = tool_call_new (lit i) (lit ''read'') 0"

definition sample_output :: "string \<Rightarrow> nat tool_call_output" where
  "sample_output i = tool_call_output_new (lit i) 1"

definition sample_history :: "nat model_input_item list" where
  "sample_history =
     [Reasoning (with_id (lit ''r1'') reasoning_new), ToolCall (sample_call ''a''), ToolCallOutput (sample_output ''a''),
      Reasoning (with_id (lit ''r2'') reasoning_new), ToolCall (sample_call ''b'')]"

definition sample_encoding :: "nat model_input_item \<Rightarrow> unit + nat list" where
  "sample_encoding item = Inr (model_item_label item)"

lemmas sample_defs = sample_history_def sample_call_def sample_output_def tool_call_new_def tool_call_output_new_def
  reasoning_new_def with_id_def

lemmas normalize_defs = normalize_def deduplicate_preferring_latest_def dedupe_with_def prune_orphans_def Let_def
  List.map_filter_simps is_orphan_def drop_dangling_def pending_new_def digest_compute_def

lemma sample_normalized:
  "normalize_model_items id sample_encoding normalizer_new sample_history =
   Inr (map (\<lambda>item. \<lparr> ni_item = item, ni_occurrence_key = None \<rparr>) (take 3 sample_history))"
  unfolding normalize_model_items_def
  by (simp add: normalize_defs normalizer_new_def sample_defs sample_encoding_def upt_rec)

theorem no_call_goes_unanswered_witness:
  "ToolCall (sample_call ''a'') \<in> set (take 3 sample_history) \<and>
   list_ex (\<lambda>out. output_pair_key out = Some (PTool (lit ''a''))) (take 3 sample_history)"
proof -
  let ?n = "map (\<lambda>item. \<lparr> ni_item = item, ni_occurrence_key = None \<rparr>) (take 3 sample_history)"
  have n: "normalize id sample_encoding normalizer_new (map (\<lambda>item. pending_new item None) sample_history) = Inr ?n"
    using sample_normalized by (simp add: normalize_model_items_def)
  have items: "into_items ?n = take 3 sample_history" by (simp add: into_items_def comp_def)
  have call: "ToolCall (sample_call ''a'') \<in> set (take 3 sample_history)" by (simp add: sample_history_def)
  have "\<exists>out\<in>set (take 3 sample_history). output_pair_key out = Some (PTool (lit ''a''))"
    using no_call_goes_unanswered [OF n, of "ToolCall (sample_call ''a'')" "PTool (lit ''a'')"] call items
    by (simp add: normalizer_new_def sample_call_def tool_call_new_def)
  then show ?thesis using call by (auto simp: list_ex_iff)
qed

theorem reasoning_keeps_its_follower_witness:
  "map (\<lambda>(r, f). (model_item_label (pi_item r), map_option (\<lambda>e. model_item_call_id (pi_item e)) f))
     (reasoning_pairs entry_reasoning (prune_orphans (map (\<lambda>item. pending_new item None) sample_history) DropUnpaired))
   = [(lit ''reasoning'', Some (Some (lit ''a'')))]"
  unfolding reasoning_keeps_its_follower [of DropUnpaired, simplified, THEN conjunct1]
  by (simp add: sample_defs pending_new_def orphan_in_def is_orphan_def follower_def List.map_filter_simps)

theorem normalization_idempotent_witness:
  "normalize_model_items id sample_encoding normalizer_new (take 3 sample_history)
   = Inr (map (\<lambda>item. \<lparr> ni_item = item, ni_occurrence_key = None \<rparr>) (take 3 sample_history))"
  using normalization_idempotent [OF sample_normalized] by (simp add: into_items_def comp_def)

theorem prepared_items_are_records_witness:
  "map (\<lambda>e. map_option ok_item_id (ni_occurrence_key e))
     (projr (normalize_run_items id sample_encoding normalizer_new
       [run_item_new (lit ''i'') (RMessage (message_text RoleUser (lit ''hi'')))]))
   = [Some (lit ''i'')]"
proof -
  let ?r = "run_item_new (lit ''i'') (RMessage (message_text RoleUser (lit ''hi''))) :: nat run_item"
  obtain e where n: "normalize_run_items id sample_encoding normalizer_new [?r] = Inr [e]"
    by (simp add: normalize_run_items_def normalize_defs normalizer_new_def sample_encoding_def run_item_new_def
        to_model_input_def message_text_def upt_rec)
  from prepared_items_are_records [OF n, of e] have "map_option ok_item_id (ni_occurrence_key e) = Some (lit ''i'')"
    by (auto simp: run_item_new_def)
  then show ?thesis using n by simp
qed

end
