(* ===== verification/Cancel_Tree.thy ===== *)
theory Cancel_Tree
  imports Budget
begin

text \<open>
  The cancellation contract, \<^verbatim>\<open>ra-core/src/cancel.rs\<close>. Reason slots live in a store, a scope is a handle
  that addresses its slot and its token. The token tree itself is third-party code
  (\<^verbatim>\<open>tokio_util::sync::CancellationToken\<close>): its operations are the argument \<open>ops\<close>, and what its documentation
  promises of them is the locale \<open>cancellation_tokens\<close>. \<^verbatim>\<open>Instant::now\<close> is the argument \<open>now\<close>. \<^verbatim>\<open>cancel\<close> is
  modelled twice: as one call, and as the three atomic actions it performs, interleaved with those of
  other threads.
\<close>

section \<open>Reasons and levels\<close>

datatype cancel_reason =
  UserInterrupt | Shutdown | DeadlineReason | Timeout | Superseded | PeerFailure | Unspecified | CustomReason ustring

fun reason_code :: "cancel_reason \<Rightarrow> ustring" where
  "reason_code UserInterrupt = lit ''user_interrupt''"
| "reason_code Shutdown = lit ''shutdown''"
| "reason_code DeadlineReason = lit ''deadline''"
| "reason_code Timeout = lit ''timeout''"
| "reason_code Superseded = lit ''superseded''"
| "reason_code PeerFailure = lit ''peer_failure''"
| "reason_code Unspecified = lit ''unspecified''"
| "reason_code (CustomReason label) = label"

fun is_expiry :: "cancel_reason \<Rightarrow> bool" where
  "is_expiry DeadlineReason = True"
| "is_expiry Timeout = True"
| "is_expiry _ = False"

fun is_user_initiated :: "cancel_reason \<Rightarrow> bool" where
  "is_user_initiated UserInterrupt = True"
| "is_user_initiated Shutdown = True"
| "is_user_initiated _ = False"

text \<open>The phrases of the source, as scalar values.\<close>

fun user_message :: "cancel_reason \<Rightarrow> ustring" where
  "user_message UserInterrupt = [29992, 25143, 20013, 26029]"
| "user_message Shutdown = [31243, 24207, 27491, 22312, 36864, 20986]"
| "user_message DeadlineReason = [24050, 36229, 36807, 26102, 38388, 19978, 38480]"
| "user_message Timeout = [25805, 20316, 36229, 26102]"
| "user_message Superseded = [32467, 26524, 24050, 19981, 20877, 38656, 35201]"
| "user_message PeerFailure = [21516, 25209, 27425, 30340, 20854, 23427, 20219, 21153, 22833, 36133]"
| "user_message Unspecified = [26410, 35760, 24405, 21407, 22240]"
| "user_message (CustomReason label) = label"

text \<open>\<^verbatim>\<open>Error::Cancelled\<close> with its text; the machine-readable reason is lost here.\<close>

datatype cancel_error = Cancelled ustring

definition error_from_reason :: "cancel_reason \<Rightarrow> cancel_error" where
  "error_from_reason reason = Cancelled (user_message reason)"

datatype scope_kind = RunScope | TurnScope | ToolScope | ProcessScope | CustomScope ustring

fun scope_label :: "scope_kind \<Rightarrow> ustring" where
  "scope_label RunScope = lit ''run''"
| "scope_label TurnScope = lit ''turn''"
| "scope_label ToolScope = lit ''tool''"
| "scope_label ProcessScope = lit ''process''"
| "scope_label (CustomScope label) = label"

section \<open>Slots, tokens and scopes\<close>

record reason_slot =
  sl_own :: "cancel_reason option"
  sl_kind :: scope_kind
  sl_parent :: "nat option"

record ('t, 'k) token_ops =
  tk_new :: "'t \<Rightarrow> 'k \<times> 't"
  tk_child :: "'k \<Rightarrow> 't \<Rightarrow> 'k \<times> 't"
  tk_cancel :: "'k \<Rightarrow> 't \<Rightarrow> 't"
  tk_is_cancelled :: "'t \<Rightarrow> 'k \<Rightarrow> bool"

record 't cancel_heap =
  ch_slots :: "reason_slot list"
  ch_tokens :: 't

record 'k cancel_scope =
  cs_kind :: scope_kind
  cs_token :: 'k
  cs_slot :: nat
  cs_deadline :: "nat option"

text \<open>A slot links to one allocated before it, so the walk up the chain ends.\<close>

function lookup :: "reason_slot list \<Rightarrow> nat \<Rightarrow> (cancel_reason \<times> scope_kind) option" where
  "lookup slots a =
     (if a < length slots
      then case sl_own (slots ! a) of
          Some reason \<Rightarrow> Some (reason, sl_kind (slots ! a))
        | None \<Rightarrow> (case sl_parent (slots ! a) of
            None \<Rightarrow> None
          | Some p \<Rightarrow> if p < a then lookup slots p else None)
      else None)"
  by pat_completeness auto
termination by (relation "measure snd") auto

declare lookup.simps [simp del]

definition scope_root :: "('t, 'k) token_ops \<Rightarrow> 't cancel_heap \<Rightarrow> 'k cancel_scope \<times> 't cancel_heap" where
  "scope_root ops h =
     (let (token, tokens) = tk_new ops (ch_tokens h) in
      (\<lparr> cs_kind = RunScope, cs_token = token, cs_slot = length (ch_slots h), cs_deadline = None \<rparr>,
       \<lparr> ch_slots = ch_slots h @ [\<lparr> sl_own = None, sl_kind = RunScope, sl_parent = None \<rparr>], ch_tokens = tokens \<rparr>))"

definition scope_child :: "('t, 'k) token_ops \<Rightarrow> 'k cancel_scope \<Rightarrow> scope_kind \<Rightarrow> 't cancel_heap
    \<Rightarrow> 'k cancel_scope \<times> 't cancel_heap" where
  "scope_child ops self kind h =
     (let (token, tokens) = tk_child ops (cs_token self) (ch_tokens h) in
      (\<lparr> cs_kind = kind, cs_token = token, cs_slot = length (ch_slots h), cs_deadline = cs_deadline self \<rparr>,
       \<lparr> ch_slots = ch_slots h @ [\<lparr> sl_own = None, sl_kind = kind, sl_parent = Some (cs_slot self) \<rparr>], ch_tokens = tokens \<rparr>))"

definition scope_with_deadline :: "'k cancel_scope \<Rightarrow> nat \<Rightarrow> 'k cancel_scope" where
  "scope_with_deadline self deadline =
     self \<lparr> cs_deadline := Some (case cs_deadline self of None \<Rightarrow> deadline | Some current \<Rightarrow> min current deadline) \<rparr>"

definition is_cancelled :: "('t, 'k) token_ops \<Rightarrow> 't cancel_heap \<Rightarrow> 'k cancel_scope \<Rightarrow> bool" where
  "is_cancelled ops h self = tk_is_cancelled ops (ch_tokens h) (cs_token self)"

definition scope_reason :: "('t, 'k) token_ops \<Rightarrow> 't cancel_heap \<Rightarrow> 'k cancel_scope \<Rightarrow> cancel_reason option" where
  "scope_reason ops h self =
     (if \<not> is_cancelled ops h self then None
      else Some (case lookup (ch_slots h) (cs_slot self) of None \<Rightarrow> Unspecified | Some (reason, _) \<Rightarrow> reason))"

definition cancelled_scope :: "('t, 'k) token_ops \<Rightarrow> 't cancel_heap \<Rightarrow> 'k cancel_scope \<Rightarrow> scope_kind option" where
  "cancelled_scope ops h self =
     (if \<not> is_cancelled ops h self then None
      else Some (case lookup (ch_slots h) (cs_slot self) of None \<Rightarrow> cs_kind self | Some (_, kind) \<Rightarrow> kind))"

text \<open>\<^verbatim>\<open>OnceLock::set\<close>: the first writer wins.\<close>

definition set_own :: "cancel_reason \<Rightarrow> nat \<Rightarrow> reason_slot list \<Rightarrow> reason_slot list" where
  "set_own reason a slots =
     (if sl_own (slots ! a) = None then slots[a := (slots ! a) \<lparr> sl_own := Some reason \<rparr>] else slots)"

definition scope_cancel :: "('t, 'k) token_ops \<Rightarrow> 'k cancel_scope \<Rightarrow> cancel_reason \<Rightarrow> 't cancel_heap \<Rightarrow> 't cancel_heap" where
  "scope_cancel ops self reason h =
     (if is_cancelled ops h self then h
      else \<lparr> ch_slots = set_own reason (cs_slot self) (ch_slots h),
             ch_tokens = tk_cancel ops (cs_token self) (ch_tokens h) \<rparr>)"

definition ensure_not_cancelled ::
  "('t, 'k) token_ops \<Rightarrow> nat \<Rightarrow> 'k cancel_scope \<Rightarrow> 't cancel_heap \<Rightarrow> (cancel_error + unit) \<times> 't cancel_heap" where
  "ensure_not_cancelled ops now self h =
     (let h' = (case cs_deadline self of
                  Some deadline \<Rightarrow> if deadline_is_expired now deadline then scope_cancel ops self DeadlineReason h else h
                | None \<Rightarrow> h)
      in (case scope_reason ops h' self of Some reason \<Rightarrow> Inl (error_from_reason reason) | None \<Rightarrow> Inr (), h'))"

text \<open>\<^verbatim>\<open>run\<close>: \<open>select\<close> is what awaiting the two futures yields, the output or the wake-up, together with the
  store at that moment.\<close>

definition scope_run ::
  "('t, 'k) token_ops \<Rightarrow> nat \<Rightarrow> 'k cancel_scope \<Rightarrow> ('t cancel_heap \<Rightarrow> ('o + unit) \<times> 't cancel_heap) \<Rightarrow> 't cancel_heap
   \<Rightarrow> (cancel_error + 'o) \<times> 't cancel_heap" where
  "scope_run ops now self select h =
     (case ensure_not_cancelled ops now self h of
        (Inl e, h1) \<Rightarrow> (Inl e, h1)
      | (Inr _, h1) \<Rightarrow>
          (case select h1 of
             (Inl output, h2) \<Rightarrow> (Inr output, h2)
           | (Inr _, h2) \<Rightarrow>
               (Inl (error_from_reason (case scope_reason ops h2 self of Some r \<Rightarrow> r | None \<Rightarrow> Unspecified)), h2)))"

record 'k cancel_on_drop =
  cd_scope :: "'k cancel_scope"
  cd_reason :: "cancel_reason option"

definition cancel_on_drop :: "'k cancel_scope \<Rightarrow> cancel_reason \<Rightarrow> 'k cancel_on_drop" where
  "cancel_on_drop self reason = \<lparr> cd_scope = self, cd_reason = Some reason \<rparr>"

definition drop_guard :: "('t, 'k) token_ops \<Rightarrow> 'k cancel_on_drop \<Rightarrow> 't cancel_heap \<Rightarrow> 't cancel_heap" where
  "drop_guard ops self h = (case cd_reason self of Some reason \<Rightarrow> scope_cancel ops (cd_scope self) reason h | None \<Rightarrow> h)"

text \<open>\<^verbatim>\<open>disarm\<close> empties the guard, clones the scope out of it, and drops the empty guard.\<close>

definition disarm :: "('t, 'k) token_ops \<Rightarrow> 'k cancel_on_drop \<Rightarrow> 't cancel_heap \<Rightarrow> 'k cancel_scope \<times> 't cancel_heap" where
  "disarm ops self h =
     (let emptied = self \<lparr> cd_reason := None \<rparr> in (cd_scope emptied, drop_guard ops emptied h))"

section \<open>What the token tree promises\<close>

text \<open>\<open>live\<close> are the tokens handed out so far and \<open>descends st a b\<close> says that \<open>b\<close> is \<open>a\<close> or was derived from it.
  A new token is not cancelled; a child starts cancelled exactly when its parent is; cancelling reaches the
  token and everything derived from it, and nothing else; what is derived from a cancelled token is cancelled.\<close>

locale cancellation_tokens =
  fixes ops :: "('t, 'k) token_ops" and live :: "'t \<Rightarrow> 'k \<Rightarrow> bool" and descends :: "'t \<Rightarrow> 'k \<Rightarrow> 'k \<Rightarrow> bool"
  assumes new_token: "tk_new ops st = (t, st') \<Longrightarrow>
      \<not> live st t \<and> (\<forall>x. live st' x \<longleftrightarrow> live st x \<or> x = t) \<and> \<not> tk_is_cancelled ops st' t
      \<and> (\<forall>x. live st x \<longrightarrow> tk_is_cancelled ops st' x = tk_is_cancelled ops st x)
      \<and> (\<forall>a b. live st a \<longrightarrow> live st b \<longrightarrow> descends st' a b = descends st a b)
      \<and> (\<forall>a. live st' a \<longrightarrow> descends st' a t = (a = t)) \<and> (\<forall>b. live st b \<longrightarrow> \<not> descends st' t b)"
    and child_token: "live st p \<Longrightarrow> tk_child ops p st = (t, st') \<Longrightarrow>
      \<not> live st t \<and> (\<forall>x. live st' x \<longleftrightarrow> live st x \<or> x = t) \<and> tk_is_cancelled ops st' t = tk_is_cancelled ops st p
      \<and> (\<forall>x. live st x \<longrightarrow> tk_is_cancelled ops st' x = tk_is_cancelled ops st x)
      \<and> (\<forall>a b. live st a \<longrightarrow> live st b \<longrightarrow> descends st' a b = descends st a b)
      \<and> (\<forall>a. live st' a \<longrightarrow> descends st' a t = (a = t \<or> descends st a p)) \<and> (\<forall>b. live st b \<longrightarrow> \<not> descends st' t b)"
    and cancel_token: "live st t \<Longrightarrow>
      (\<forall>x. live (tk_cancel ops t st) x = live st x)
      \<and> (\<forall>x. live st x \<longrightarrow> tk_is_cancelled ops (tk_cancel ops t st) x = (tk_is_cancelled ops st x \<or> descends st t x))
      \<and> (\<forall>a b. live st a \<longrightarrow> live st b \<longrightarrow> descends (tk_cancel ops t st) a b = descends st a b)"
    and descends_refl: "live st t \<Longrightarrow> descends st t t"
    and cancelled_down: "live st a \<Longrightarrow> live st b \<Longrightarrow> descends st a b \<Longrightarrow> tk_is_cancelled ops st a \<Longrightarrow> tk_is_cancelled ops st b"

text \<open>A tree with these promises: a token is a position, with the token it was derived from and its own flag.\<close>

function tree_climb :: "((nat option \<times> bool) list \<Rightarrow> nat \<Rightarrow> bool) \<Rightarrow> (nat option \<times> bool) list \<Rightarrow> nat \<Rightarrow> bool" where
  "tree_climb P st t \<longleftrightarrow> t < length st \<and> (P st t \<or> (case fst (st ! t) of None \<Rightarrow> False | Some p \<Rightarrow> if p < t then tree_climb P st p else False))"
  by pat_completeness auto
termination by (relation "measure (\<lambda>(P, st, t). t)") auto

declare tree_climb.simps [simp del]

definition tree_ops :: "((nat option \<times> bool) list, nat) token_ops" where
  "tree_ops =
     \<lparr> tk_new = (\<lambda>st. (length st, st @ [(None, False)])),
       tk_child = (\<lambda>p st. (length st, st @ [(Some p, False)])),
       tk_cancel = (\<lambda>t st. st[t := (fst (st ! t), True)]),
       tk_is_cancelled = tree_climb (\<lambda>st t. snd (st ! t)) \<rparr>"

lemma tree_climb_append:
  assumes "\<And>t. t < length st \<Longrightarrow> P (st @ [x]) t = P st t"
  shows "t < length st \<Longrightarrow> tree_climb P (st @ [x]) t = tree_climb P st t"
proof (induction t rule: less_induct)
  case (less t)
  then show ?case
    using assms by (subst (1 2) tree_climb.simps) (auto simp: nth_append split: option.splits)
qed

lemma tree_append_flag:
  "x < length st \<Longrightarrow> tree_climb (\<lambda>st t. snd (st ! t)) (st @ [e]) x = tree_climb (\<lambda>st t. snd (st ! t)) st x"
  by (rule tree_climb_append) (simp add: nth_append)

lemma tree_append_above:
  "x < length st \<Longrightarrow> tree_climb (\<lambda>_ b. b = a) (st @ [e]) x = tree_climb (\<lambda>_ b. b = a) st x"
  by (rule tree_climb_append) simp

lemma tree_climb_cancel:
  "t < length st \<Longrightarrow> tree_climb (\<lambda>st t. snd (st ! t)) (st[t := (fst (st ! t), True)]) x
   \<longleftrightarrow> tree_climb (\<lambda>st t. snd (st ! t)) st x \<or> tree_climb (\<lambda>st b. b = t) st x"
proof (induction x rule: less_induct)
  case (less x)
  have keep: "fst (st[t := (fst (st ! t), True)] ! x) = fst (st ! x)" if "x < length st"
    using that less.prems by (simp add: nth_list_update)
  show ?case
    using less keep by (subst (1 2 3) tree_climb.simps) (auto simp: nth_list_update split: option.splits)
qed

lemma tree_climb_same:
  assumes "\<And>x. x < length st \<Longrightarrow> fst (st' ! x) = fst (st ! x)" "length st' = length st"
  shows "tree_climb (\<lambda>_ b. b = a) st' x = tree_climb (\<lambda>_ b. b = a) st x"
proof (induction x rule: less_induct)
  case (less x)
  then show ?case using assms by (subst (1 2) tree_climb.simps) (auto split: option.splits)
qed

lemma tree_climb_bound: "tree_climb (\<lambda>_ b. b = a) st x \<Longrightarrow> a \<le> x \<and> x < length st"
proof (induction x rule: less_induct)
  case (less x)
  have "x < length st \<and> (x = a \<or> (case fst (st ! x) of None \<Rightarrow> False | Some p \<Rightarrow> p < x \<and> tree_climb (\<lambda>_ b. b = a) st p))"
    using less.prems by (subst (asm) tree_climb.simps) (auto split: option.splits if_splits)
  then show ?case using less.IH by (auto split: option.splits) (meson less_or_eq_imp_le order_trans)
qed

lemma tree_climb_down:
  "tree_climb (\<lambda>_ b. b = a) st b \<Longrightarrow> tree_climb P st a \<Longrightarrow> tree_climb P st b"
proof (induction b rule: less_induct)
  case (less b)
  have "b < length st \<and> (b = a \<or> (\<exists>p. fst (st ! b) = Some p \<and> p < b \<and> tree_climb (\<lambda>_ b. b = a) st p))"
    using less.prems(1) by (subst (asm) tree_climb.simps) (auto split: option.splits if_splits)
  then consider "b = a" | p where "b < length st" "fst (st ! b) = Some p" "p < b" "tree_climb (\<lambda>_ b. b = a) st p" by blast
  then show ?case
  proof cases
    case 2
    then show ?thesis using less.IH less.prems(2) tree_climb.simps [of P st b] by simp
  qed (use less.prems(2) in simp)
qed

interpretation token_tree: cancellation_tokens tree_ops "\<lambda>st t. t < length st" "\<lambda>st a b. tree_climb (\<lambda>_ b. b = a) st b"
proof unfold_locales
  fix st st' t
  assume "tk_new tree_ops st = (t, st')"
  then have eq: "t = length st" "st' = st @ [(None, False)]" by (simp_all add: tree_ops_def)
  have old: "tree_climb (\<lambda>st t. snd (st ! t)) st' x = tree_climb (\<lambda>st t. snd (st ! t)) st x"
      "tree_climb (\<lambda>_ b. b = a) st' x = tree_climb (\<lambda>_ b. b = a) st x" if "x < length st" for x a
    unfolding eq using that by (rule tree_append_flag, rule tree_append_above)
  have new: "\<not> tree_climb (\<lambda>st t. snd (st ! t)) st' t" "tree_climb (\<lambda>_ b. b = a) st' t = (a = t)" for a
    using tree_climb.simps [of "\<lambda>st t. snd (st ! t)" st' t] tree_climb.simps [of "\<lambda>_ b. b = a" st' t] by (auto simp: eq)
  have up: "\<not> tree_climb (\<lambda>_ b. b = t) st' b" if "b < length st" for b
    using tree_climb_bound [of t st' b] that eq by auto
  show "\<not> t < length st \<and> (\<forall>x. (x < length st') = (x < length st \<or> x = t)) \<and> \<not> tk_is_cancelled tree_ops st' t
      \<and> (\<forall>x<length st. tk_is_cancelled tree_ops st' x = tk_is_cancelled tree_ops st x)
      \<and> (\<forall>a b. a < length st \<longrightarrow> b < length st \<longrightarrow> tree_climb (\<lambda>_ b. b = a) st' b = tree_climb (\<lambda>_ b. b = a) st b)
      \<and> (\<forall>a<length st'. tree_climb (\<lambda>_ b. b = a) st' t = (a = t)) \<and> (\<forall>b<length st. \<not> tree_climb (\<lambda>_ b. b = t) st' b)"
    using old new up by (auto simp: tree_ops_def eq)
next
  fix st p t st'
  assume p: "p < length st" and "tk_child tree_ops p st = (t, st')"
  then have eq: "t = length st" "st' = st @ [(Some p, False)]" by (simp_all add: tree_ops_def)
  have old: "tree_climb (\<lambda>st t. snd (st ! t)) st' x = tree_climb (\<lambda>st t. snd (st ! t)) st x"
      "tree_climb (\<lambda>_ b. b = a) st' x = tree_climb (\<lambda>_ b. b = a) st x" if "x < length st" for x a
    unfolding eq using that by (rule tree_append_flag, rule tree_append_above)
  have new: "tree_climb (\<lambda>st t. snd (st ! t)) st' t = tree_climb (\<lambda>st t. snd (st ! t)) st p"
      "tree_climb (\<lambda>_ b. b = a) st' t = (a = t \<or> tree_climb (\<lambda>_ b. b = a) st p)" for a
    using old p tree_climb.simps [of "\<lambda>st t. snd (st ! t)" st' t] tree_climb.simps [of "\<lambda>_ b. b = a" st' t] by (auto simp: eq)
  have up: "\<not> tree_climb (\<lambda>_ b. b = t) st' b" if "b < length st" for b
    using tree_climb_bound [of t st' b] that eq by auto
  show "\<not> t < length st \<and> (\<forall>x. (x < length st') = (x < length st \<or> x = t))
      \<and> tk_is_cancelled tree_ops st' t = tk_is_cancelled tree_ops st p
      \<and> (\<forall>x<length st. tk_is_cancelled tree_ops st' x = tk_is_cancelled tree_ops st x)
      \<and> (\<forall>a b. a < length st \<longrightarrow> b < length st \<longrightarrow> tree_climb (\<lambda>_ b. b = a) st' b = tree_climb (\<lambda>_ b. b = a) st b)
      \<and> (\<forall>a<length st'. tree_climb (\<lambda>_ b. b = a) st' t = (a = t \<or> tree_climb (\<lambda>_ b. b = a) st p))
      \<and> (\<forall>b<length st. \<not> tree_climb (\<lambda>_ b. b = t) st' b)"
    using old new up by (auto simp: tree_ops_def eq)
next
  fix st :: "(nat option \<times> bool) list" and t
  assume t: "t < length st"
  have "tree_climb (\<lambda>_ b. b = a) (st[t := (fst (st ! t), True)]) x = tree_climb (\<lambda>_ b. b = a) st x" for a x
    using t by (intro tree_climb_same) (auto simp: nth_list_update)
  then show "(\<forall>x. (x < length (tk_cancel tree_ops t st)) = (x < length st))
      \<and> (\<forall>x<length st. tk_is_cancelled tree_ops (tk_cancel tree_ops t st) x
          = (tk_is_cancelled tree_ops st x \<or> tree_climb (\<lambda>_ b. b = t) st x))
      \<and> (\<forall>a b. a < length st \<longrightarrow> b < length st \<longrightarrow>
          tree_climb (\<lambda>_ b. b = a) (tk_cancel tree_ops t st) b = tree_climb (\<lambda>_ b. b = a) st b)"
    using tree_climb_cancel [OF t] by (simp add: tree_ops_def)
next
  fix st :: "(nat option \<times> bool) list" and t
  assume "t < length st"
  then show "tree_climb (\<lambda>_ b. b = t) st t" by (subst tree_climb.simps) simp
next
  fix st :: "(nat option \<times> bool) list" and a b
  assume "tree_climb (\<lambda>_ b. b = a) st b" "tk_is_cancelled tree_ops st a"
  then show "tk_is_cancelled tree_ops st b" by (auto simp: tree_ops_def intro: tree_climb_down)
qed

section \<open>Threads that cancel concurrently\<close>

text \<open>A call of \<^verbatim>\<open>cancel\<close> that found its scope not cancelled has still to record its reason, and then to
  signal. The handles in existence are kept as a set: any of them may be used by any thread.\<close>

datatype 'k pending_cancel = RecordReason "'k cancel_scope" cancel_reason | SignalToken "'k cancel_scope"

record ('t, 'k) cancel_machine =
  cm_heap :: "'t cancel_heap"
  cm_scopes :: "'k cancel_scope set"
  cm_pending :: "'k pending_cancel list"

definition machine_init :: "'t \<Rightarrow> ('t, 'k) cancel_machine" where
  "machine_init st = \<lparr> cm_heap = \<lparr> ch_slots = [], ch_tokens = st \<rparr>, cm_scopes = {}, cm_pending = [] \<rparr>"

definition record_reason :: "'k cancel_scope \<Rightarrow> cancel_reason \<Rightarrow> 't cancel_heap \<Rightarrow> 't cancel_heap" where
  "record_reason self reason h = h \<lparr> ch_slots := set_own reason (cs_slot self) (ch_slots h) \<rparr>"

definition signal_token :: "('t, 'k) token_ops \<Rightarrow> 'k cancel_scope \<Rightarrow> 't cancel_heap \<Rightarrow> 't cancel_heap" where
  "signal_token ops self h = h \<lparr> ch_tokens := tk_cancel ops (cs_token self) (ch_tokens h) \<rparr>"

inductive cancel_step :: "('t, 'k) token_ops \<Rightarrow> ('t, 'k) cancel_machine \<Rightarrow> ('t, 'k) cancel_machine \<Rightarrow> bool" for ops where
  step_root: "scope_root ops (cm_heap m) = (s, h) \<Longrightarrow>
     cancel_step ops m (m \<lparr> cm_heap := h, cm_scopes := insert s (cm_scopes m) \<rparr>)"
| step_child: "s \<in> cm_scopes m \<Longrightarrow> scope_child ops s kind (cm_heap m) = (c, h) \<Longrightarrow>
     cancel_step ops m (m \<lparr> cm_heap := h, cm_scopes := insert c (cm_scopes m) \<rparr>)"
| step_tighten: "s \<in> cm_scopes m \<Longrightarrow>
     cancel_step ops m (m \<lparr> cm_scopes := insert (scope_with_deadline s d) (cm_scopes m) \<rparr>)"
| step_begin: "s \<in> cm_scopes m \<Longrightarrow> \<not> is_cancelled ops (cm_heap m) s \<Longrightarrow>
     cancel_step ops m (m \<lparr> cm_pending := RecordReason s reason # cm_pending m \<rparr>)"
| step_record: "cm_pending m = xs @ RecordReason s reason # ys \<Longrightarrow>
     cancel_step ops m (m \<lparr> cm_heap := record_reason s reason (cm_heap m), cm_pending := xs @ SignalToken s # ys \<rparr>)"
| step_signal: "cm_pending m = xs @ SignalToken s # ys \<Longrightarrow>
     cancel_step ops m (m \<lparr> cm_heap := signal_token ops s (cm_heap m), cm_pending := xs @ ys \<rparr>)"

text \<open>Calls that do not overlap: each operation of the module runs to its end.\<close>

inductive call_step :: "('t, 'k) token_ops \<Rightarrow> ('t, 'k) cancel_machine \<Rightarrow> ('t, 'k) cancel_machine \<Rightarrow> bool" for ops where
  call_root: "scope_root ops (cm_heap m) = (s, h) \<Longrightarrow>
     call_step ops m (m \<lparr> cm_heap := h, cm_scopes := insert s (cm_scopes m) \<rparr>)"
| call_child: "s \<in> cm_scopes m \<Longrightarrow> scope_child ops s kind (cm_heap m) = (c, h) \<Longrightarrow>
     call_step ops m (m \<lparr> cm_heap := h, cm_scopes := insert c (cm_scopes m) \<rparr>)"
| call_tighten: "s \<in> cm_scopes m \<Longrightarrow>
     call_step ops m (m \<lparr> cm_scopes := insert (scope_with_deadline s d) (cm_scopes m) \<rparr>)"
| call_cancel: "s \<in> cm_scopes m \<Longrightarrow>
     call_step ops m (m \<lparr> cm_heap := scope_cancel ops s reason (cm_heap m) \<rparr>)"
| call_check: "s \<in> cm_scopes m \<Longrightarrow>
     call_step ops m (m \<lparr> cm_heap := snd (ensure_not_cancelled ops now s (cm_heap m)) \<rparr>)"
| call_drop: "cd_scope g \<in> cm_scopes m \<Longrightarrow>
     call_step ops m (m \<lparr> cm_heap := drop_guard ops g (cm_heap m) \<rparr>)"

text \<open>A checkpoint and the drop of a guard do nothing or cancel.\<close>

lemma ensure_heap_cases:
  "snd (ensure_not_cancelled ops now s h) = h \<or> snd (ensure_not_cancelled ops now s h) = scope_cancel ops s DeadlineReason h"
  by (auto simp: ensure_not_cancelled_def Let_def split: option.splits)

lemma drop_heap_cases:
  "drop_guard ops g h = h \<or> (\<exists>r. drop_guard ops g h = scope_cancel ops (cd_scope g) r h)"
  by (auto simp: drop_guard_def split: option.splits)

lemma scope_cancel_split:
  "scope_cancel ops s r h = (if is_cancelled ops h s then h else signal_token ops s (record_reason s r h))"
  by (simp add: scope_cancel_def signal_token_def record_reason_def)

lemma cancel_as_steps:
  assumes "s \<in> cm_scopes m"
  shows "(cancel_step ops)\<^sup>*\<^sup>* m (m \<lparr> cm_heap := scope_cancel ops s r (cm_heap m) \<rparr>)"
proof (cases "is_cancelled ops (cm_heap m) s")
  case True
  then show ?thesis by (simp add: scope_cancel_def)
next
  case False
  let ?m1 = "m \<lparr> cm_pending := RecordReason s r # cm_pending m \<rparr>"
  let ?m2 = "?m1 \<lparr> cm_heap := record_reason s r (cm_heap ?m1), cm_pending := [] @ SignalToken s # cm_pending m \<rparr>"
  let ?m3 = "?m2 \<lparr> cm_heap := signal_token ops s (cm_heap ?m2), cm_pending := [] @ cm_pending m \<rparr>"
  have "cancel_step ops m ?m1" using assms False by (rule step_begin)
  moreover have "cancel_step ops ?m1 ?m2" by (rule step_record) simp
  moreover have "cancel_step ops ?m2 ?m3" by (rule step_signal) simp
  ultimately have "(cancel_step ops)\<^sup>*\<^sup>* m ?m3" by (meson converse_rtranclp_into_rtranclp r_into_rtranclp)
  moreover have "?m3 = m \<lparr> cm_heap := scope_cancel ops s r (cm_heap m) \<rparr>" using False by (simp add: scope_cancel_split)
  ultimately show ?thesis by simp
qed

lemma call_as_steps: "call_step ops m m' \<Longrightarrow> (cancel_step ops)\<^sup>*\<^sup>* m m'"
proof (induction rule: call_step.induct)
  case (call_check s m now)
  then show ?case using ensure_heap_cases [of ops now s "cm_heap m"] cancel_as_steps by fastforce
next
  case (call_drop g m)
  then show ?case using drop_heap_cases [of ops g "cm_heap m"] cancel_as_steps by fastforce
qed (auto intro: step_root step_child step_tighten cancel_as_steps)

lemma calls_as_steps: "(call_step ops)\<^sup>*\<^sup>* m m' \<Longrightarrow> (cancel_step ops)\<^sup>*\<^sup>* m m'"
  by (induction rule: rtranclp_induct) (auto dest: call_as_steps)

section \<open>The slot chain\<close>

function above :: "reason_slot list \<Rightarrow> nat \<Rightarrow> nat \<Rightarrow> bool" where
  "above slots a b \<longleftrightarrow> b < length slots \<and>
     (b = a \<or> (case sl_parent (slots ! b) of None \<Rightarrow> False | Some p \<Rightarrow> if p < b then above slots a p else False))"
  by pat_completeness auto
termination by (relation "measure (\<lambda>(slots, a, b). b)") auto

declare above.simps [simp del]

lemma above_refl: "a < length slots \<Longrightarrow> above slots a a"
  by (subst above.simps) simp

lemma above_append: "b < length slots \<Longrightarrow> above (slots @ [x]) a b = above slots a b"
proof (induction b rule: less_induct)
  case (less b)
  then show ?case by (subst (1 2) above.simps) (auto simp: nth_append split: option.splits)
qed

lemma above_new:
  assumes "sl_parent x = Some p" "p < length slots"
  shows "above (slots @ [x]) a (length slots) \<longleftrightarrow> a = length slots \<or> above slots a p"
  using assms above.simps [of "slots @ [x]" a "length slots"] above_append [OF assms(2), of x a] by auto

lemma above_new_root: "sl_parent x = None \<Longrightarrow> above (slots @ [x]) a (length slots) \<longleftrightarrow> a = length slots"
  using above.simps [of "slots @ [x]" a "length slots"] by auto

lemma above_bound: "above slots a b \<Longrightarrow> a \<le> b \<and> b < length slots"
proof (induction b rule: less_induct)
  case (less b)
  have "b < length slots \<and> (b = a \<or> (\<exists>p. p < b \<and> above slots a p))"
    using less.prems by (subst (asm) above.simps) (auto split: option.splits if_splits)
  then show ?case using less.IH by (meson le_trans less_imp_le_nat order_refl)
qed

lemma set_own_fields [simp]:
  "length (set_own r i slots) = length slots"
  "sl_parent (set_own r i slots ! b) = sl_parent (slots ! b)"
  "sl_kind (set_own r i slots ! b) = sl_kind (slots ! b)"
  by (cases "i < length slots"; cases "b = i"; simp add: set_own_def list_update_beyond)+

lemma set_own_own:
  "b < length slots \<Longrightarrow>
   sl_own (set_own r i slots ! b) = (if b = i \<and> sl_own (slots ! b) = None then Some r else sl_own (slots ! b))"
  by (auto simp: set_own_def nth_list_update)

lemma above_set_own: "above (set_own r i slots) a b = above slots a b"
proof (induction b rule: less_induct)
  case (less b)
  then show ?case by (subst (1 2) above.simps) (auto split: option.splits)
qed

lemma lookup_append: "b < length slots \<Longrightarrow> lookup (slots @ [x]) b = lookup slots b"
proof (induction b rule: less_induct)
  case (less b)
  then show ?case by (subst (1 2) lookup.simps) (auto simp: nth_append split: option.splits)
qed

lemma lookup_new:
  assumes "sl_own x = None" "sl_parent x = Some p" "p < length slots"
  shows "lookup (slots @ [x]) (length slots) = lookup slots p"
  using assms lookup.simps [of "slots @ [x]" "length slots"] lookup_append [OF assms(3), of x] by simp

lemma lookup_above: "above slots a b \<Longrightarrow> sl_own (slots ! a) \<noteq> None \<Longrightarrow> lookup slots b \<noteq> None"
proof (induction b rule: less_induct)
  case (less b)
  have "b < length slots \<and> (b = a \<or> (\<exists>p. sl_parent (slots ! b) = Some p \<and> p < b \<and> above slots a p))"
    using less.prems(1) by (subst (asm) above.simps) (auto split: option.splits if_splits)
  then show ?case using less by (subst lookup.simps) (auto split: option.splits)
qed

lemma lookup_set_own_Some:
  "lookup slots b = Some x \<Longrightarrow> lookup (set_own r i slots) b \<noteq> None"
proof (induction b rule: less_induct)
  case (less b)
  have b: "b < length slots" using less.prems by (subst (asm) lookup.simps) (auto split: if_splits)
  then show ?case
    using less by (subst lookup.simps, subst (asm) (2) lookup.simps)
      (auto simp: set_own_own split: option.splits if_splits)
qed

lemma lookup_Some_above:
  "lookup slots b = Some (r, k) \<Longrightarrow>
   \<exists>a. above slots a b \<and> a < length slots \<and> sl_own (slots ! a) = Some r \<and> sl_kind (slots ! a) = k"
proof (induction b rule: less_induct)
  case (less b)
  have b: "b < length slots" using less.prems by (subst (asm) lookup.simps) (auto split: if_splits)
  show ?case
  proof (cases "sl_own (slots ! b)")
    case None
    then obtain p where p: "sl_parent (slots ! b) = Some p" "p < b" "lookup slots p = Some (r, k)"
      using less.prems b by (subst (asm) lookup.simps) (auto split: option.splits if_splits)
    from less.IH [OF p(2,3)] show ?thesis using b p above.simps [of slots _ b] by auto
  next
    case (Some q)
    then show ?thesis using less.prems b above_refl [OF b] lookup.simps [of slots b] by auto
  qed
qed

lemma lookup_changes:
  "lookup slots b = Some x \<Longrightarrow> lookup (set_own r i slots) b \<noteq> Some x \<Longrightarrow> lookup slots i \<noteq> None"
proof (induction b rule: less_induct)
  case (less b)
  have b: "b < length slots" using less.prems(1) by (subst (asm) lookup.simps) (auto split: if_splits)
  show ?case
  proof (cases "b = i \<or> sl_own (slots ! b) \<noteq> None")
    case True
    then show ?thesis
      using less.prems b lookup.simps [of slots b] lookup.simps [of "set_own r i slots" b] by (auto simp: set_own_own split: option.splits)
  next
    case False
    then obtain p where p: "sl_parent (slots ! b) = Some p" "p < b" "lookup slots p = Some x"
      using less.prems(1) b lookup.simps [of slots b] by (auto split: option.splits if_splits)
    moreover have "lookup (set_own r i slots) p \<noteq> Some x"
      using less.prems(2) b False p lookup.simps [of "set_own r i slots" b] by (auto simp: set_own_own)
    ultimately show ?thesis using less.IH by blast
  qed
qed

section \<open>Invariants\<close>

text \<open>Every handle addresses a slot and a token; whenever a token descends from another, the slots do too; a
  cancelled scope finds a root cause; a thread about to signal has its reason recorded.\<close>

definition store_ok ::
  "('t, 'k) token_ops \<Rightarrow> ('t \<Rightarrow> 'k \<Rightarrow> bool) \<Rightarrow> ('t \<Rightarrow> 'k \<Rightarrow> 'k \<Rightarrow> bool) \<Rightarrow> reason_slot list \<Rightarrow> 't
   \<Rightarrow> 'k cancel_scope set \<Rightarrow> 'k pending_cancel list \<Rightarrow> bool" where
  "store_ok ops live descends slots tokens scopes pending \<longleftrightarrow>
     (\<forall>s\<in>scopes. cs_slot s < length slots \<and> live tokens (cs_token s))
     \<and> (\<forall>s\<in>scopes. \<forall>c\<in>scopes. descends tokens (cs_token s) (cs_token c) \<longrightarrow> above slots (cs_slot s) (cs_slot c))
     \<and> (\<forall>c\<in>scopes. tk_is_cancelled ops tokens (cs_token c) \<longrightarrow> lookup slots (cs_slot c) \<noteq> None)
     \<and> (\<forall>p\<in>set pending. case p of RecordReason s _ \<Rightarrow> s \<in> scopes
          | SignalToken s \<Rightarrow> s \<in> scopes \<and> sl_own (slots ! cs_slot s) \<noteq> None)"

text \<open>Between calls the slots and tokens form the same tree, and a recorded reason means a cancelled scope.\<close>

definition quiet_ok ::
  "('t, 'k) token_ops \<Rightarrow> ('t \<Rightarrow> 'k \<Rightarrow> 'k \<Rightarrow> bool) \<Rightarrow> reason_slot list \<Rightarrow> 't \<Rightarrow> 'k cancel_scope set \<Rightarrow> bool" where
  "quiet_ok ops descends slots tokens scopes \<longleftrightarrow>
     (\<forall>s\<in>scopes. \<forall>c\<in>scopes. above slots (cs_slot s) (cs_slot c) \<longrightarrow> descends tokens (cs_token s) (cs_token c))
     \<and> (\<forall>a<length slots. \<exists>s\<in>scopes. cs_slot s = a)
     \<and> (\<forall>s\<in>scopes. sl_own (slots ! cs_slot s) \<noteq> None \<longrightarrow> tk_is_cancelled ops tokens (cs_token s))"

abbreviation machine_ok where
  "machine_ok ops live descends m \<equiv>
     store_ok ops live descends (ch_slots (cm_heap m)) (ch_tokens (cm_heap m)) (cm_scopes m) (cm_pending m)"

abbreviation machine_quiet where
  "machine_quiet ops descends m \<equiv>
     quiet_ok ops descends (ch_slots (cm_heap m)) (ch_tokens (cm_heap m)) (cm_scopes m) \<and> cm_pending m = []"

lemma store_okI:
  assumes "\<And>s. s \<in> scopes \<Longrightarrow> cs_slot s < length slots" "\<And>s. s \<in> scopes \<Longrightarrow> live tokens (cs_token s)"
    and "\<And>s c. s \<in> scopes \<Longrightarrow> c \<in> scopes \<Longrightarrow> descends tokens (cs_token s) (cs_token c) \<Longrightarrow> above slots (cs_slot s) (cs_slot c)"
    and "\<And>c. c \<in> scopes \<Longrightarrow> tk_is_cancelled ops tokens (cs_token c) \<Longrightarrow> lookup slots (cs_slot c) \<noteq> None"
    and "\<And>s r. RecordReason s r \<in> set pending \<Longrightarrow> s \<in> scopes" "\<And>s. SignalToken s \<in> set pending \<Longrightarrow> s \<in> scopes"
    and "\<And>s. SignalToken s \<in> set pending \<Longrightarrow> sl_own (slots ! cs_slot s) \<noteq> None"
  shows "store_ok ops live descends slots tokens scopes pending"
  using assms by (auto simp: store_ok_def split: pending_cancel.splits)

lemma store_okD:
  assumes "store_ok ops live descends slots tokens scopes pending"
  shows "s \<in> scopes \<Longrightarrow> cs_slot s < length slots" "s \<in> scopes \<Longrightarrow> live tokens (cs_token s)"
    and "s \<in> scopes \<Longrightarrow> c \<in> scopes \<Longrightarrow> descends tokens (cs_token s) (cs_token c) \<Longrightarrow> above slots (cs_slot s) (cs_slot c)"
    and "c \<in> scopes \<Longrightarrow> tk_is_cancelled ops tokens (cs_token c) \<Longrightarrow> lookup slots (cs_slot c) \<noteq> None"
    and "RecordReason s r \<in> set pending \<Longrightarrow> s \<in> scopes" "SignalToken s \<in> set pending \<Longrightarrow> s \<in> scopes"
    and "SignalToken s \<in> set pending \<Longrightarrow> sl_own (slots ! cs_slot s) \<noteq> None"
  using assms by (fastforce simp: store_ok_def)+

lemma quiet_okI:
  assumes "\<And>s c. s \<in> scopes \<Longrightarrow> c \<in> scopes \<Longrightarrow> above slots (cs_slot s) (cs_slot c) \<Longrightarrow> descends tokens (cs_token s) (cs_token c)"
    and "\<And>a. a < length slots \<Longrightarrow> \<exists>s\<in>scopes. cs_slot s = a"
    and "\<And>s. s \<in> scopes \<Longrightarrow> sl_own (slots ! cs_slot s) \<noteq> None \<Longrightarrow> tk_is_cancelled ops tokens (cs_token s)"
  shows "quiet_ok ops descends slots tokens scopes"
  using assms by (simp add: quiet_ok_def)

lemma quiet_okD:
  assumes "quiet_ok ops descends slots tokens scopes"
  shows "s \<in> scopes \<Longrightarrow> c \<in> scopes \<Longrightarrow> above slots (cs_slot s) (cs_slot c) \<Longrightarrow> descends tokens (cs_token s) (cs_token c)"
    and "a < length slots \<Longrightarrow> \<exists>s\<in>scopes. cs_slot s = a"
    and "s \<in> scopes \<Longrightarrow> sl_own (slots ! cs_slot s) \<noteq> None \<Longrightarrow> tk_is_cancelled ops tokens (cs_token s)"
  using assms by (simp_all add: quiet_ok_def)

text \<open>A token state grows by \<open>t\<close>, which descends from the tokens that \<open>up\<close> holds of.\<close>

definition token_grows ::
  "('t, 'k) token_ops \<Rightarrow> ('t \<Rightarrow> 'k \<Rightarrow> bool) \<Rightarrow> ('t \<Rightarrow> 'k \<Rightarrow> 'k \<Rightarrow> bool) \<Rightarrow> 't \<Rightarrow> 'k \<Rightarrow> 't \<Rightarrow> ('k \<Rightarrow> bool) \<Rightarrow> bool" where
  "token_grows ops live descends st t st' up \<longleftrightarrow>
     \<not> live st t \<and> (\<forall>x. live st' x \<longleftrightarrow> live st x \<or> x = t)
     \<and> (\<forall>x. live st x \<longrightarrow> tk_is_cancelled ops st' x = tk_is_cancelled ops st x)
     \<and> (\<forall>a b. live st a \<longrightarrow> live st b \<longrightarrow> descends st' a b = descends st a b)
     \<and> (\<forall>a. live st' a \<longrightarrow> descends st' a t = (a = t \<or> up a)) \<and> (\<forall>b. live st b \<longrightarrow> \<not> descends st' t b)"

context cancellation_tokens
begin

lemma new_grows:
  "tk_new ops st = (t, st') \<Longrightarrow> token_grows ops live descends st t st' (\<lambda>_. False) \<and> \<not> tk_is_cancelled ops st' t"
  using new_token [of st t st'] by (auto simp: token_grows_def)

lemma child_grows:
  "live st p \<Longrightarrow> tk_child ops p st = (t, st') \<Longrightarrow>
   token_grows ops live descends st t st' (\<lambda>a. descends st a p) \<and> tk_is_cancelled ops st' t = tk_is_cancelled ops st p"
  using child_token [of st p t st'] by (auto simp: token_grows_def)

lemma cancel_facts:
  assumes "live st t"
  shows "live (tk_cancel ops t st) x = live st x"
    and "live st x \<Longrightarrow> tk_is_cancelled ops (tk_cancel ops t st) x = (tk_is_cancelled ops st x \<or> descends st t x)"
    and "live st a \<Longrightarrow> live st b \<Longrightarrow> descends (tk_cancel ops t st) a b = descends st a b"
  using cancel_token [OF assms] by auto

lemma alloc_ok:
  assumes ok: "store_ok ops live descends slots tokens scopes pending"
    and grows: "token_grows ops live descends tokens (cs_token c) tokens' up"
    and c: "cs_slot c = length slots" "sl_own x = None"
    and new_up: "\<And>s. s \<in> scopes \<Longrightarrow> up (cs_token s) \<Longrightarrow> above (slots @ [x]) (cs_slot s) (cs_slot c)"
    and new_reason: "tk_is_cancelled ops tokens' (cs_token c) \<Longrightarrow> lookup (slots @ [x]) (cs_slot c) \<noteq> None"
  shows "store_ok ops live descends (slots @ [x]) tokens' (insert c scopes) pending"
proof (rule store_okI)
  note old = store_okD [OF ok]
  show "cs_slot s < length (slots @ [x])" "live tokens' (cs_token s)" if "s \<in> insert c scopes" for s
    using that old(1,2) [of s] c grows by (auto simp: token_grows_def)
  show "above (slots @ [x]) (cs_slot s) (cs_slot d)"
    if "s \<in> insert c scopes" "d \<in> insert c scopes" "descends tokens' (cs_token s) (cs_token d)" for s d
  proof (cases "d = c"; cases "s = c")
    assume "d = c" "s = c"
    then show ?thesis using c by (simp add: above_refl)
  next
    assume "d = c" "s \<noteq> c"
    then show ?thesis using that old(2) [of s] grows new_up by (auto simp: token_grows_def)
  next
    assume "d \<noteq> c" "s = c"
    then show ?thesis using that old(2) [of d] grows by (auto simp: token_grows_def)
  next
    assume "d \<noteq> c" "s \<noteq> c"
    then show ?thesis using that old(1,2) [of d] old(2,3) [of s] grows by (auto simp: token_grows_def above_append)
  qed
  show "lookup (slots @ [x]) (cs_slot s) \<noteq> None" if "s \<in> insert c scopes" "tk_is_cancelled ops tokens' (cs_token s)" for s
    using that new_reason old(1,2,4) [of s] grows by (auto simp: token_grows_def lookup_append)
  show "s \<in> insert c scopes" if "RecordReason s r \<in> set pending" for s r using old(5) [OF that] by simp
  show "s \<in> insert c scopes" if "SignalToken s \<in> set pending" for s using old(6) [OF that] by simp
  show "sl_own ((slots @ [x]) ! cs_slot s) \<noteq> None" if "SignalToken s \<in> set pending" for s
    using old(7) [OF that] old(1) [OF old(6) [OF that]] by (simp add: nth_append)
qed

lemma record_ok:
  assumes ok: "store_ok ops live descends slots tokens scopes (xs @ RecordReason s r # ys)"
  shows "store_ok ops live descends (set_own r (cs_slot s) slots) tokens scopes (xs @ SignalToken s # ys)"
proof (rule store_okI)
  note old = store_okD [OF ok]
  have s: "s \<in> scopes" using old(5) [of s r] by simp
  show "cs_slot c < length (set_own r (cs_slot s) slots)" "live tokens (cs_token c)" if "c \<in> scopes" for c
    using that old(1,2) by simp_all
  show "above (set_own r (cs_slot s) slots) (cs_slot a) (cs_slot c)"
    if "a \<in> scopes" "c \<in> scopes" "descends tokens (cs_token a) (cs_token c)" for a c
    using that old(3) by (simp add: above_set_own)
  show "lookup (set_own r (cs_slot s) slots) (cs_slot c) \<noteq> None" if "c \<in> scopes" "tk_is_cancelled ops tokens (cs_token c)" for c
    using old(4) [OF that] lookup_set_own_Some by blast
  show "a \<in> scopes" if "RecordReason a q \<in> set (xs @ SignalToken s # ys)" for a q using that old(5) [of a q] by auto
  show "a \<in> scopes" if "SignalToken a \<in> set (xs @ SignalToken s # ys)" for a using that old(6) [of a] s by auto
  show "sl_own (set_own r (cs_slot s) slots ! cs_slot a) \<noteq> None" if "SignalToken a \<in> set (xs @ SignalToken s # ys)" for a
    using that old(6,7) [of a] s old(1) [of a] old(1) [OF s] by (auto simp: set_own_own)
qed

lemma signal_ok:
  assumes ok: "store_ok ops live descends slots tokens scopes (xs @ SignalToken s # ys)"
  shows "store_ok ops live descends slots (tk_cancel ops (cs_token s) tokens) scopes (xs @ ys)"
proof (rule store_okI)
  note old = store_okD [OF ok]
  have s: "s \<in> scopes" "sl_own (slots ! cs_slot s) \<noteq> None" using old(6,7) [of s] by simp_all
  note facts = cancel_facts [OF old(2) [OF s(1)]]
  show "cs_slot c < length slots" "live (tk_cancel ops (cs_token s) tokens) (cs_token c)" if "c \<in> scopes" for c
    using that old(1,2) facts(1) by simp_all
  show "above slots (cs_slot a) (cs_slot c)"
    if "a \<in> scopes" "c \<in> scopes" "descends (tk_cancel ops (cs_token s) tokens) (cs_token a) (cs_token c)" for a c
    using that old(2,3) facts(3) by simp
  show "lookup slots (cs_slot c) \<noteq> None"
    if "c \<in> scopes" "tk_is_cancelled ops (tk_cancel ops (cs_token s) tokens) (cs_token c)" for c
    using that facts(2) [OF old(2) [OF that(1)]] old(4) [OF that(1)] lookup_above [OF old(3) [OF s(1) that(1)] s(2)] by auto
  show "a \<in> scopes" if "RecordReason a q \<in> set (xs @ ys)" for a q using that old(5) [of a q] by auto
  show "a \<in> scopes" if "SignalToken a \<in> set (xs @ ys)" for a using that old(6) [of a] by auto
  show "sl_own (slots ! cs_slot a) \<noteq> None" if "SignalToken a \<in> set (xs @ ys)" for a using that old(7) [of a] by auto
qed

lemma begin_ok:
  "store_ok ops live descends slots tokens scopes pending \<Longrightarrow> s \<in> scopes \<Longrightarrow>
   store_ok ops live descends slots tokens scopes (RecordReason s r # pending)"
  by (auto simp: store_ok_def)

lemma child_ok:
  assumes ok: "store_ok ops live descends slots tokens scopes pending" and p: "p \<in> scopes"
    and tok: "tk_child ops (cs_token p) tokens = (cs_token c, tokens')"
    and c: "cs_slot c = length slots" "sl_own x = None" "sl_parent x = Some (cs_slot p)"
  shows "store_ok ops live descends (slots @ [x]) tokens' (insert c scopes) pending"
proof -
  note old = store_okD [OF ok]
  note grows = child_grows [OF old(2) [OF p] tok]
  show ?thesis
  proof (rule alloc_ok [OF ok _ c(1,2)])
    show "token_grows ops live descends tokens (cs_token c) tokens' (\<lambda>a. descends tokens a (cs_token p))" using grows by blast
    show "above (slots @ [x]) (cs_slot s) (cs_slot c)" if "s \<in> scopes" "descends tokens (cs_token s) (cs_token p)" for s
      using old(3) [OF that(1) p that(2)] old(1) [OF p] c by (simp add: above_new)
    show "lookup (slots @ [x]) (cs_slot c) \<noteq> None" if "tk_is_cancelled ops tokens' (cs_token c)"
      using that grows old(4) [OF p] old(1) [OF p] c by (simp add: lookup_new)
  qed
qed

lemma root_ok:
  assumes ok: "store_ok ops live descends slots tokens scopes pending"
    and tok: "tk_new ops tokens = (cs_token c, tokens')" and c: "cs_slot c = length slots" "sl_own x = None"
  shows "store_ok ops live descends (slots @ [x]) tokens' (insert c scopes) pending"
proof (rule alloc_ok [OF ok _ c])
  show "token_grows ops live descends tokens (cs_token c) tokens' (\<lambda>_. False)" using new_grows [OF tok] by blast
qed (use new_grows [OF tok] in simp_all)

lemma tighten_ok:
  "store_ok ops live descends slots tokens scopes pending \<Longrightarrow> s \<in> scopes \<Longrightarrow>
   store_ok ops live descends slots tokens (insert (scope_with_deadline s d) scopes) pending"
  by (auto simp: store_ok_def scope_with_deadline_def split: pending_cancel.splits)

lemma step_ok: "cancel_step ops m m' \<Longrightarrow> machine_ok ops live descends m \<Longrightarrow> machine_ok ops live descends m'"
proof (induction rule: cancel_step.induct)
  case (step_root m s h)
  then show ?case by (auto simp: scope_root_def Let_def split: prod.splits intro!: root_ok)
next
  case (step_child s m kind c h)
  then show ?case by (auto simp: scope_child_def Let_def split: prod.splits intro!: child_ok)
next
  case (step_tighten s m d)
  then show ?case by (simp add: tighten_ok)
next
  case (step_begin s m reason)
  then show ?case by (simp add: begin_ok)
next
  case (step_record m xs s reason ys)
  then show ?case using record_ok by (simp add: record_reason_def)
next
  case (step_signal m xs s ys)
  then show ?case using signal_ok by (simp add: signal_token_def)
qed

lemma steps_ok: "(cancel_step ops)\<^sup>*\<^sup>* m m' \<Longrightarrow> machine_ok ops live descends m \<Longrightarrow> machine_ok ops live descends m'"
  by (induction rule: rtranclp_induct) (auto dest: step_ok)

lemma init_ok: "machine_ok ops live descends (machine_init st)" "machine_quiet ops descends (machine_init st)"
  by (simp_all add: machine_init_def store_ok_def quiet_ok_def)

lemma alloc_quiet:
  assumes ok: "store_ok ops live descends slots tokens scopes pending" and q: "quiet_ok ops descends slots tokens scopes"
    and grows: "token_grows ops live descends tokens (cs_token c) tokens' up"
    and c: "cs_slot c = length slots" "sl_own x = None"
    and new_up: "\<And>s. s \<in> scopes \<Longrightarrow> above (slots @ [x]) (cs_slot s) (cs_slot c) \<Longrightarrow> up (cs_token s)"
  shows "quiet_ok ops descends (slots @ [x]) tokens' (insert c scopes)"
proof (rule quiet_okI)
  note old = store_okD [OF ok] and quiet = quiet_okD [OF q]
  show "descends tokens' (cs_token s) (cs_token d)"
    if "s \<in> insert c scopes" "d \<in> insert c scopes" "above (slots @ [x]) (cs_slot s) (cs_slot d)" for s d
  proof (cases "d = c"; cases "s = c")
    assume "d = c" "s = c"
    then show ?thesis using grows by (auto simp: token_grows_def)
  next
    assume "d = c" "s \<noteq> c"
    then show ?thesis using that old(2) [of s] grows new_up by (auto simp: token_grows_def)
  next
    assume "d \<noteq> c" "s = c"
    then show ?thesis using that old(1) [of d] c above_bound [OF that(3)] by auto
  next
    assume "d \<noteq> c" "s \<noteq> c"
    then show ?thesis using that old(1,2) [of d] old(2) [of s] quiet(1) grows by (auto simp: token_grows_def above_append)
  qed
  show "\<exists>s\<in>insert c scopes. cs_slot s = a" if "a < length (slots @ [x])" for a
    using that quiet(2) [of a] c by (cases "a = length slots") auto
  show "tk_is_cancelled ops tokens' (cs_token s)"
    if "s \<in> insert c scopes" "sl_own ((slots @ [x]) ! cs_slot s) \<noteq> None" for s
    using that old(1,2) [of s] quiet(3) [of s] c grows by (auto simp: nth_append token_grows_def)
qed

lemma cancel_quiet:
  assumes ok: "store_ok ops live descends slots tokens scopes pending" and q: "quiet_ok ops descends slots tokens scopes"
    and s: "s \<in> scopes"
  shows "quiet_ok ops descends (set_own r (cs_slot s) slots) (tk_cancel ops (cs_token s) tokens) scopes"
proof (rule quiet_okI)
  note old = store_okD [OF ok] and quiet = quiet_okD [OF q]
  note facts = cancel_facts [OF old(2) [OF s]]
  show "descends (tk_cancel ops (cs_token s) tokens) (cs_token a) (cs_token c)"
    if "a \<in> scopes" "c \<in> scopes" "above (set_own r (cs_slot s) slots) (cs_slot a) (cs_slot c)" for a c
    using that quiet(1) old(2) facts(3) by (simp add: above_set_own)
  show "\<exists>c\<in>scopes. cs_slot c = a" if "a < length (set_own r (cs_slot s) slots)" for a using that quiet(2) by simp
  show "tk_is_cancelled ops (tk_cancel ops (cs_token s) tokens) (cs_token c)"
    if "c \<in> scopes" "sl_own (set_own r (cs_slot s) slots ! cs_slot c) \<noteq> None" for c
  proof (cases "cs_slot c = cs_slot s")
    case True
    then have "above slots (cs_slot s) (cs_slot c)" using old(1) [OF s] by (simp add: above_refl)
    then show ?thesis using quiet(1) [OF s that(1)] facts(2) [OF old(2) [OF that(1)]] by blast
  next
    case False
    then show ?thesis using that quiet(3) [OF that(1)] facts(2) [OF old(2) [OF that(1)]] old(1) [OF that(1)] by (auto simp: set_own_own)
  qed
qed

lemma call_ok:
  assumes "call_step ops m m'" "machine_ok ops live descends m" "machine_quiet ops descends m"
  shows "machine_ok ops live descends m' \<and> machine_quiet ops descends m'"
proof
  show "machine_ok ops live descends m'" using call_as_steps [OF assms(1)] assms(2) by (rule steps_ok)
  have cancel: "machine_quiet ops descends (m \<lparr> cm_heap := scope_cancel ops s r (cm_heap m) \<rparr>)" if "s \<in> cm_scopes m" for s r
    using cancel_quiet [OF assms(2) _ that] assms(3) by (simp add: scope_cancel_def)
  from assms show "machine_quiet ops descends m'"
  proof (induction rule: call_step.induct)
    case (call_root m s h)
    obtain t st where t: "tk_new ops (ch_tokens (cm_heap m)) = (t, st)" by (cases "tk_new ops (ch_tokens (cm_heap m))")
    have "quiet_ok ops descends (ch_slots (cm_heap m) @ [x]) st (insert c (cm_scopes m))"
      if "cs_slot c = length (ch_slots (cm_heap m))" "cs_token c = t" "sl_own x = None" "sl_parent x = None" for c x
    proof (rule alloc_quiet [OF call_root(2)])
      show "token_grows ops live descends (ch_tokens (cm_heap m)) (cs_token c) st (\<lambda>_. False)" using new_grows [OF t] that by simp
      show "False" if "s \<in> cm_scopes m" "above (ch_slots (cm_heap m) @ [x]) (cs_slot s) (cs_slot c)" for s
        using that store_okD(1) [OF call_root(2)] \<open>cs_slot c = _\<close> \<open>sl_parent x = None\<close> by (fastforce simp: above_new_root)
    qed (use that call_root(3) in auto)
    then show ?case using call_root t by (auto simp: scope_root_def)
  next
    case (call_child s m kind d h)
    obtain t st where t: "tk_child ops (cs_token s) (ch_tokens (cm_heap m)) = (t, st)"
      by (cases "tk_child ops (cs_token s) (ch_tokens (cm_heap m))")
    note live_s = store_okD(2) [OF call_child(3,1)] and slot_s = store_okD(1) [OF call_child(3,1)]
    have "quiet_ok ops descends (ch_slots (cm_heap m) @ [x]) st (insert c (cm_scopes m))"
      if "cs_slot c = length (ch_slots (cm_heap m))" "cs_token c = t" "sl_own x = None" "sl_parent x = Some (cs_slot s)" for c x
    proof (rule alloc_quiet [OF call_child(3)])
      show "token_grows ops live descends (ch_tokens (cm_heap m)) (cs_token c) st (\<lambda>a. descends (ch_tokens (cm_heap m)) a (cs_token s))"
        using child_grows [OF live_s t] that by simp
      show "descends (ch_tokens (cm_heap m)) (cs_token a) (cs_token s)"
        if "a \<in> cm_scopes m" "above (ch_slots (cm_heap m) @ [x]) (cs_slot a) (cs_slot c)" for a
        using that store_okD(1) [OF call_child(3) that(1)] quiet_okD(1) [of ops descends, OF _ that(1) call_child(1)] call_child(4)
          \<open>cs_slot c = _\<close> \<open>sl_parent x = _\<close> slot_s by (auto simp: above_new)
    qed (use that call_child(4) in auto)
    then show ?case using call_child t by (auto simp: scope_child_def)
  next
    case (call_tighten s m d)
    then show ?case by (auto simp: quiet_ok_def scope_with_deadline_def)
  next
    case (call_cancel s m reason)
    then show ?case using cancel_quiet [OF call_cancel(2) _ call_cancel(1)] by (simp add: scope_cancel_def)
  next
    case (call_check s m now)
    then show ?case using ensure_heap_cases [of ops now s "cm_heap m"] cancel_quiet [OF call_check(2) _ call_check(1)]
      by (auto simp: scope_cancel_def)
  next
    case (call_drop g m)
    then show ?case using drop_heap_cases [of ops g "cm_heap m"] cancel_quiet [OF call_drop(2) _ call_drop(1)]
      by (auto simp: scope_cancel_def)
  qed
qed

lemma calls_ok:
  "(call_step ops)\<^sup>*\<^sup>* m m' \<Longrightarrow> machine_ok ops live descends m \<Longrightarrow> machine_quiet ops descends m \<Longrightarrow>
   machine_ok ops live descends m' \<and> machine_quiet ops descends m'"
  by (induction rule: rtranclp_induct) (auto dest: call_ok)

lemma recorded_cause_means_cancelled:
  assumes ok: "store_ok ops live descends slots tokens scopes pending" and q: "quiet_ok ops descends slots tokens scopes"
    and s: "s \<in> scopes" and "lookup slots (cs_slot s) \<noteq> None"
  shows "tk_is_cancelled ops tokens (cs_token s)"
proof -
  obtain r k a where a: "above slots a (cs_slot s)" "a < length slots" "sl_own (slots ! a) = Some r"
    using assms(4) lookup_Some_above [of slots "cs_slot s"] by fastforce
  then obtain d where d: "d \<in> scopes" "cs_slot d = a" using quiet_okD(2) [OF q] by blast
  have "tk_is_cancelled ops tokens (cs_token d)" using quiet_okD(3) [OF q d(1)] a(3) d(2) by simp
  moreover have "descends tokens (cs_token d) (cs_token s)" using quiet_okD(1) [OF q d(1) s] a(1) d(2) by simp
  ultimately show ?thesis using cancelled_down store_okD(2) [OF ok] d(1) s by blast
qed

lemma cancel_keeps_cause:
  assumes ok: "store_ok ops live descends slots tokens scopes pending" and q: "quiet_ok ops descends slots tokens scopes"
    and s: "s \<in> scopes" "\<not> tk_is_cancelled ops tokens (cs_token s)" and c: "lookup slots (cs_slot c) = Some x"
  shows "lookup (set_own r (cs_slot s) slots) (cs_slot c) = Some x"
  using lookup_changes [OF c] recorded_cause_means_cancelled [OF ok q s(1)] s(2) by blast

lemma call_keeps_cause:
  assumes "call_step ops m m'" "machine_ok ops live descends m" "machine_quiet ops descends m"
    and "c \<in> cm_scopes m" "is_cancelled ops (cm_heap m) c"
  shows "c \<in> cm_scopes m' \<and> is_cancelled ops (cm_heap m') c
    \<and> lookup (ch_slots (cm_heap m')) (cs_slot c) = lookup (ch_slots (cm_heap m)) (cs_slot c)"
proof -
  obtain x where x: "lookup (ch_slots (cm_heap m)) (cs_slot c) = Some x"
    using store_okD(4) [OF assms(2,4)] assms(5) by (auto simp: is_cancelled_def)
  have cancel: "is_cancelled ops (scope_cancel ops s r (cm_heap m)) c
      \<and> lookup (ch_slots (scope_cancel ops s r (cm_heap m))) (cs_slot c) = lookup (ch_slots (cm_heap m)) (cs_slot c)"
    if "s \<in> cm_scopes m" for s r
    using cancel_keeps_cause [OF assms(2) _ that _ x] cancel_facts(2) [OF store_okD(2) [OF assms(2) that] store_okD(2) [OF assms(2,4)]]
      assms(3,5) x by (auto simp: scope_cancel_def is_cancelled_def)
  have slot: "cs_slot c < length (ch_slots (cm_heap m))" and live: "live (ch_tokens (cm_heap m)) (cs_token c)"
    using store_okD(1,2) [OF assms(2,4)] by blast+
  from assms(1) show ?thesis
  proof cases
    case (call_root s h)
    then show ?thesis
      using assms(4,5) slot live new_token [of "ch_tokens (cm_heap m)"]
      by (auto simp: scope_root_def is_cancelled_def lookup_append split: prod.splits)
  next
    case (call_child s kind d h)
    then show ?thesis
      using assms(4,5) slot live child_token [OF store_okD(2) [OF assms(2) call_child(2)]]
      by (auto simp: scope_child_def is_cancelled_def lookup_append split: prod.splits)
  next
    case (call_tighten s d)
    then show ?thesis using assms(4,5) by simp
  next
    case (call_cancel s reason)
    then show ?thesis using assms(4) cancel by simp
  next
    case (call_check s now)
    then show ?thesis using assms(4,5) cancel ensure_heap_cases [of ops now s "cm_heap m"] by auto
  next
    case (call_drop g)
    then show ?thesis using assms(4,5) cancel drop_heap_cases [of ops g "cm_heap m"] by auto
  qed
qed

lemma calls_keep_cause:
  assumes "(call_step ops)\<^sup>*\<^sup>* m m'" "machine_ok ops live descends m" "machine_quiet ops descends m"
    and "c \<in> cm_scopes m" "is_cancelled ops (cm_heap m) c"
  shows "c \<in> cm_scopes m' \<and> is_cancelled ops (cm_heap m') c
    \<and> lookup (ch_slots (cm_heap m')) (cs_slot c) = lookup (ch_slots (cm_heap m)) (cs_slot c)"
  using assms(1)
proof (induction rule: rtranclp_induct)
  case (step y z)
  have "machine_ok ops live descends y" "machine_quiet ops descends y" using calls_ok [OF step(1) assms(2,3)] by blast+
  then show ?case using call_keeps_cause [OF step(2), of c] step.IH by auto
qed (use assms in simp)

lemma cancel_reaches:
  assumes ok: "machine_ok ops live descends m" and q: "machine_quiet ops descends m"
    and s: "s \<in> cm_scopes m" and c: "c \<in> cm_scopes m"
  shows "is_cancelled ops (scope_cancel ops s r (cm_heap m)) c
    \<longleftrightarrow> is_cancelled ops (cm_heap m) c \<or> above (ch_slots (cm_heap m)) (cs_slot s) (cs_slot c)"
proof -
  note lives = store_okD(2) [OF ok s] store_okD(2) [OF ok c]
  have al: "descends (ch_tokens (cm_heap m)) (cs_token s) (cs_token c) \<longleftrightarrow> above (ch_slots (cm_heap m)) (cs_slot s) (cs_slot c)"
    using store_okD(3) [OF ok s c] quiet_okD(1) [of ops descends, OF _ s c] q by blast
  show ?thesis
    using cancel_facts(2) [OF lives] al cancelled_down [OF lives] by (auto simp: scope_cancel_def is_cancelled_def)
qed

lemma cancel_self: "live (ch_tokens h) (cs_token s) \<Longrightarrow> is_cancelled ops (scope_cancel ops s r h) s"
  using cancel_facts(2) [of "ch_tokens h" "cs_token s" "cs_token s"] descends_refl by (auto simp: scope_cancel_def is_cancelled_def)

end

section \<open>Properties of the cancellation contract\<close>

lemma scope_reason_lookup:
  "is_cancelled ops h c \<Longrightarrow> lookup (ch_slots h) (cs_slot c) = Some (r, k) \<Longrightarrow>
   scope_reason ops h c = Some r \<and> cancelled_scope ops h c = Some k"
  by (simp add: scope_reason_def cancelled_scope_def)


text \<open>When calls do not overlap, the first root cause is final: from the moment a scope is cancelled, no
  later sequence of calls, on it or on any other scope, changes the reason it reports or the level the
  reason is attributed to, and it stays cancelled.\<close>

theorem first_cause_is_final:
  assumes "cancellation_tokens ops live descends" and "(call_step ops)\<^sup>*\<^sup>* (machine_init st) m"
    and "(call_step ops)\<^sup>*\<^sup>* m m'" and "c \<in> cm_scopes m" and "is_cancelled ops (cm_heap m) c"
  shows "is_cancelled ops (cm_heap m') c \<and> scope_reason ops (cm_heap m') c = scope_reason ops (cm_heap m) c
    \<and> cancelled_scope ops (cm_heap m') c = cancelled_scope ops (cm_heap m) c"
proof -
  have "machine_ok ops live descends m \<and> machine_quiet ops descends m"
    using cancellation_tokens.calls_ok [OF assms(1,2)] cancellation_tokens.init_ok [OF assms(1)] by blast
  then have "is_cancelled ops (cm_heap m') c \<and> lookup (ch_slots (cm_heap m')) (cs_slot c) = lookup (ch_slots (cm_heap m)) (cs_slot c)"
    using cancellation_tokens.calls_keep_cause [OF assms(1,3) _ _ assms(4,5)] by blast
  then show ?thesis using assms(5) by (simp add: scope_reason_def cancelled_scope_def)
qed

text \<open>Cancellation propagates downward only: cancelling a scope cancels exactly that scope and the
  scopes derived from it, whether they were derived directly or through other scopes; every other scope,
  the parent among them, is as it was.\<close>

theorem cancel_propagates_downward_only:
  assumes "cancellation_tokens ops live descends" and "(call_step ops)\<^sup>*\<^sup>* (machine_init st) m"
    and "s \<in> cm_scopes m" and "c \<in> cm_scopes m"
  shows "is_cancelled ops (scope_cancel ops s r (cm_heap m)) c
    \<longleftrightarrow> is_cancelled ops (cm_heap m) c \<or> above (ch_slots (cm_heap m)) (cs_slot s) (cs_slot c)"
  using cancellation_tokens.calls_ok [OF assms(1,2)] cancellation_tokens.init_ok [OF assms(1)]
    cancellation_tokens.cancel_reaches [OF assms(1) _ _ assms(3,4)] by blast

text \<open>C39. A checkpoint passes exactly when the scope is not cancelled and its deadline has not expired, and
  then changes nothing; otherwise the scope is cancelled afterwards, by an expired deadline if by nothing
  before, and the checkpoint and \<^verbatim>\<open>run\<close> report its reason without starting the work.\<close>

theorem checkpoint_enforces_deadline:
  assumes "cancellation_tokens ops live descends" and "live (ch_tokens h) (cs_token s)"
    and checkpoint: "ensure_not_cancelled ops now s h = (result, h')"
  shows "(result = Inr () \<longleftrightarrow> \<not> is_cancelled ops h s \<and> (case cs_deadline s of Some d \<Rightarrow> now < d | None \<Rightarrow> True))
    \<and> (case result of
         Inr _ \<Rightarrow> h' = h
       | Inl e \<Rightarrow> is_cancelled ops h' s \<and> map_option error_from_reason (scope_reason ops h' s) = Some e
           \<and> scope_run ops now s select h = (Inl e, h'))"
proof -
  note self = cancellation_tokens.cancel_self [OF assms(1,2)]
  have expired: "deadline_is_expired now d \<longleftrightarrow> \<not> now < d" for d
    by (auto simp: deadline_is_expired_def deadline_remaining_def)
  have passes: "result = Inr () \<longleftrightarrow> \<not> is_cancelled ops h s \<and> (case cs_deadline s of Some d \<Rightarrow> now < d | None \<Rightarrow> True)"
  proof -
    have "fst (ensure_not_cancelled ops now s h) = Inr () \<longleftrightarrow>
        \<not> is_cancelled ops h s \<and> (case cs_deadline s of Some d \<Rightarrow> now < d | None \<Rightarrow> True)"
      using self [of DeadlineReason]
      by (auto simp: ensure_not_cancelled_def Let_def expired scope_reason_def split: option.splits)
    then show ?thesis using checkpoint by simp
  qed
  have "snd (ensure_not_cancelled ops now s h) = h" if "result = Inr ()"
    using that passes by (auto simp: ensure_not_cancelled_def Let_def expired split: option.splits)
  then have "h' = h" if "result = Inr ()" using that checkpoint by simp
  moreover have "is_cancelled ops h' s \<and> map_option error_from_reason (scope_reason ops h' s) = Some e
      \<and> scope_run ops now s select h = (Inl e, h')" if e: "result = Inl e" for e
  proof -
    have "map_option error_from_reason (scope_reason ops h' s) = Some e"
      using checkpoint e by (auto simp: ensure_not_cancelled_def Let_def split: option.splits)
    moreover from this have "is_cancelled ops h' s" by (auto simp: scope_reason_def split: if_splits)
    ultimately show ?thesis using checkpoint e by (simp add: scope_run_def)
  qed
  ultimately show ?thesis using passes by (auto split: sum.splits)
qed

lemma deadline_only_tightens:
  "\<exists>e. cs_deadline (scope_with_deadline s d) = Some e \<and> e \<le> d \<and> (\<forall>c. cs_deadline s = Some c \<longrightarrow> e \<le> c)"
  "cs_deadline (fst (scope_child ops s kind h)) = cs_deadline s"
  by (auto simp: scope_with_deadline_def scope_child_def split: option.splits prod.splits)

lemma disarmed_guard_cancels_nothing: "disarm ops (cancel_on_drop s r) h = (s, h)"
  by (simp add: disarm_def cancel_on_drop_def drop_guard_def)

section \<open>A run with one tool\<close>

definition demo_run :: "nat cancel_scope" where
  "demo_run = \<lparr> cs_kind = RunScope, cs_token = 0, cs_slot = 0, cs_deadline = None \<rparr>"

definition demo_tool :: "nat cancel_scope" where
  "demo_tool = \<lparr> cs_kind = ToolScope, cs_token = 1, cs_slot = 1, cs_deadline = None \<rparr>"

definition demo_machine :: "((nat option \<times> bool) list, nat) cancel_machine" where
  "demo_machine =
     \<lparr> cm_heap = \<lparr> ch_slots = [\<lparr> sl_own = None, sl_kind = RunScope, sl_parent = None \<rparr>,
                              \<lparr> sl_own = None, sl_kind = ToolScope, sl_parent = Some 0 \<rparr>],
                  ch_tokens = [(None, False), (Some 0, False)] \<rparr>,
       cm_scopes = {demo_tool, demo_run}, cm_pending = [] \<rparr>"

lemma demo_machine_reachable: "(call_step tree_ops)\<^sup>*\<^sup>* (machine_init []) demo_machine"
proof -
  let ?m0 = "machine_init [] :: ((nat option \<times> bool) list, nat) cancel_machine"
  let ?h1 = "\<lparr> ch_slots = [\<lparr> sl_own = None, sl_kind = RunScope, sl_parent = None \<rparr>], ch_tokens = [(None, False)] \<rparr>"
  let ?m1 = "?m0 \<lparr> cm_heap := ?h1, cm_scopes := insert demo_run (cm_scopes ?m0) \<rparr>"
  have "call_step tree_ops ?m0 ?m1"
    by (rule call_root) (simp add: scope_root_def machine_init_def tree_ops_def demo_run_def)
  moreover have "call_step tree_ops ?m1 (?m1 \<lparr> cm_heap := cm_heap demo_machine, cm_scopes := insert demo_tool (cm_scopes ?m1) \<rparr>)"
    by (rule call_child [of demo_run _ _ ToolScope])
      (simp_all add: scope_child_def tree_ops_def demo_run_def demo_tool_def demo_machine_def)
  moreover have "?m1 \<lparr> cm_heap := cm_heap demo_machine, cm_scopes := insert demo_tool (cm_scopes ?m1) \<rparr> = demo_machine"
    by (simp add: demo_machine_def machine_init_def)
  ultimately show ?thesis by (metis converse_rtranclp_into_rtranclp r_into_rtranclp)
qed

lemmas demo_defs = demo_machine_def demo_run_def demo_tool_def

lemma demo_eval:
  "is_cancelled tree_ops (scope_cancel tree_ops demo_tool Timeout (cm_heap demo_machine)) demo_tool"
  "scope_reason tree_ops (scope_cancel tree_ops demo_tool Timeout (cm_heap demo_machine)) demo_tool = Some Timeout"
  "\<not> is_cancelled tree_ops (cm_heap demo_machine) demo_tool" "\<not> is_cancelled tree_ops (cm_heap demo_machine) demo_run"
  "above (ch_slots (cm_heap demo_machine)) 0 1" "\<not> above (ch_slots (cm_heap demo_machine)) 1 0"
  by (simp_all add: demo_defs scope_reason_def is_cancelled_def scope_cancel_def tree_ops_def tree_climb.simps set_own_def
      lookup.simps above.simps)


theorem first_cause_is_final_witness:
  "scope_reason tree_ops (scope_cancel tree_ops demo_run UserInterrupt
     (scope_cancel tree_ops demo_tool Timeout (cm_heap demo_machine))) demo_tool = Some Timeout"
proof -
  let ?m = "demo_machine \<lparr> cm_heap := scope_cancel tree_ops demo_tool Timeout (cm_heap demo_machine) \<rparr>"
  let ?m' = "?m \<lparr> cm_heap := scope_cancel tree_ops demo_run UserInterrupt (cm_heap ?m) \<rparr>"
  have "call_step tree_ops demo_machine ?m" by (rule call_cancel) (simp add: demo_machine_def)
  then have r: "(call_step tree_ops)\<^sup>*\<^sup>* (machine_init []) ?m" using demo_machine_reachable by (rule rtranclp.rtrancl_into_rtrancl [rotated])
  have "call_step tree_ops ?m ?m'" by (rule call_cancel) (simp add: demo_machine_def)
  then have "(call_step tree_ops)\<^sup>*\<^sup>* ?m ?m'" by (rule r_into_rtranclp)
  from first_cause_is_final [OF token_tree.cancellation_tokens_axioms r this, of demo_tool] demo_eval
  show ?thesis by (simp add: demo_machine_def)
qed

theorem cancel_propagates_downward_only_witness:
  "is_cancelled tree_ops (scope_cancel tree_ops demo_run Shutdown (cm_heap demo_machine)) demo_tool
   \<and> \<not> is_cancelled tree_ops (scope_cancel tree_ops demo_tool Timeout (cm_heap demo_machine)) demo_run"
  using cancel_propagates_downward_only [OF token_tree.cancellation_tokens_axioms demo_machine_reachable, of demo_run demo_tool Shutdown]
    cancel_propagates_downward_only [OF token_tree.cancellation_tokens_axioms demo_machine_reachable, of demo_tool demo_run Timeout] demo_eval
  by (simp add: demo_machine_def) (simp add: demo_tool_def demo_run_def)

theorem checkpoint_enforces_deadline_witness:
  "fst (ensure_not_cancelled tree_ops 7 (scope_with_deadline demo_tool 9) (cm_heap demo_machine)) = Inr ()
   \<and> fst (ensure_not_cancelled tree_ops 9 (scope_with_deadline demo_tool 9) (cm_heap demo_machine)) \<noteq> Inr ()"
proof -
  let ?s = "scope_with_deadline demo_tool 9"
  have live: "cs_token ?s < length (ch_tokens (cm_heap demo_machine))"
    and quiet: "\<not> is_cancelled tree_ops (cm_heap demo_machine) ?s"
    using demo_eval(3) by (simp_all add: demo_defs scope_with_deadline_def is_cancelled_def)
  have "fst (ensure_not_cancelled tree_ops now ?s (cm_heap demo_machine)) = Inr () \<longleftrightarrow> now < 9" for now
    using checkpoint_enforces_deadline [OF token_tree.cancellation_tokens_axioms live prod.collapse [symmetric], THEN conjunct1, of now] quiet
    by (simp add: scope_with_deadline_def demo_tool_def)
  then show ?thesis by simp
qed

text \<open>When two calls overlap, a root cause that was already reported can change. The tool's own call has
  checked that the tool is not cancelled when the run is interrupted; the tool then reports the
  interrupt; once the first call records its reason, the tool reports that instead.\<close>

lemma overlapping_calls_rewrite_cause:
  "\<exists>m m'. (cancel_step tree_ops)\<^sup>*\<^sup>* (machine_init []) m \<and> cancel_step tree_ops m m'
     \<and> scope_reason tree_ops (cm_heap m) demo_tool = Some UserInterrupt
     \<and> scope_reason tree_ops (cm_heap m') demo_tool = Some Timeout"
proof -
  let ?m1 = "demo_machine \<lparr> cm_pending := [RecordReason demo_tool Timeout] \<rparr>"
  let ?m2 = "?m1 \<lparr> cm_heap := scope_cancel tree_ops demo_run UserInterrupt (cm_heap ?m1) \<rparr>"
  let ?m3 = "?m2 \<lparr> cm_heap := record_reason demo_tool Timeout (cm_heap ?m2), cm_pending := [] @ SignalToken demo_tool # [] \<rparr>"
  have "cancel_step tree_ops demo_machine (demo_machine \<lparr> cm_pending := RecordReason demo_tool Timeout # cm_pending demo_machine \<rparr>)"
    using demo_eval(3) by (intro step_begin) (simp_all add: demo_machine_def)
  then have "cancel_step tree_ops demo_machine ?m1" by (simp add: demo_machine_def)
  moreover have "(cancel_step tree_ops)\<^sup>*\<^sup>* ?m1 ?m2" by (rule cancel_as_steps) (simp add: demo_machine_def)
  ultimately have reach: "(cancel_step tree_ops)\<^sup>*\<^sup>* (machine_init []) ?m2"
    using calls_as_steps [OF demo_machine_reachable] by (meson r_into_rtranclp rtranclp_trans)
  have "cancel_step tree_ops ?m2 ?m3" by (rule step_record) simp
  moreover have "scope_reason tree_ops (cm_heap ?m2) demo_tool = Some UserInterrupt"
    "scope_reason tree_ops (cm_heap ?m3) demo_tool = Some Timeout"
    by (simp_all add: demo_defs scope_reason_def is_cancelled_def scope_cancel_def tree_ops_def tree_climb.simps set_own_def
        lookup.simps record_reason_def)
  ultimately show ?thesis using reach by blast
qed

end
