(* ===== verification/Error_Taxonomy.thy ===== *)
theory Error_Taxonomy
  imports Budget
begin

text \<open>
  The error taxonomy, \<^verbatim>\<open>ra-core/src/error.rs\<close>, and the provider facts an error carries in its chain of
  sources, \<^verbatim>\<open>ra-core/src/model/retry/normalized.rs\<close>. A boxed source is one of the types that can be told
  apart by a downcast here, the normalized facts or an error of this module, or anything else with its own
  source. The run state, nested run and guardrail evidence an error may carry are opaque (\<open>'s\<close>). The
  localized texts of \<^verbatim>\<open>user_message\<close> and \<^verbatim>\<open>Display\<close> are not modelled.
\<close>

section \<open>Recoverability and failure kinds\<close>

datatype recovery_tier = Retryable | RetryableWithChange | NeedsIntervention | Fatal | CancelledTier

definition tier_is_retryable :: "recovery_tier \<Rightarrow> bool" where
  "tier_is_retryable self \<longleftrightarrow> self = Retryable"

definition tier_is_recoverable :: "recovery_tier \<Rightarrow> bool" where
  "tier_is_recoverable self \<longleftrightarrow> self = Retryable \<or> self = RetryableWithChange"

definition tier_is_failure :: "recovery_tier \<Rightarrow> bool" where
  "tier_is_failure self \<longleftrightarrow> self \<noteq> CancelledTier"

datatype provider_error_kind =
  PNetwork | PRateLimit | PTimeout | PServerError | PAuth | PBadRequest | PConflict | PRefusal | PBehavior | PContextOverflow

datatype tool_failure_kind =
  TNotFound | TInvalidInput | TTimeout | TExecutionFailed | TRepeatedCall | TNoProgress | TPermissionDenied | TCancelled

datatype sandbox_error_kind = SDenied | SUnavailable | SResourceLimit | SSetup

datatype session_error_kind = SessionNotFound | SessionCorrupted | SessionIo | SessionVersionMismatch

datatype protocol_error_kind = PrFrame | PrTransport | PrHandshake | PrTimeout

datatype guardrail_stage = StageInput | StageOutput | StageToolInput | StageToolOutput

datatype replay_safety = SafetyUnknown | Safe | Unsafe

section \<open>Errors and their sources\<close>

datatype 's core_error =
  RunError "'s core_error" 's "'s option"
| ConfigError ustring "'s boxed_error option"
| CallerError ustring "'s boxed_error option"
| InvalidFinalOutput ustring "'s boxed_error option"
| ProviderError provider_error_kind ustring "'s boxed_error option"
| ToolError tool_failure_kind ustring ustring "'s boxed_error option"
| SandboxError sandbox_error_kind ustring "'s boxed_error option"
| SessionError session_error_kind ustring "'s boxed_error option"
| ProtocolError protocol_error_kind ustring "'s boxed_error option"
| BudgetError budget_kind ustring
| GuardrailError guardrail_stage ustring ustring "'s option"
| CancelledError ustring
and 's boxed_error =
  BoxedNormalized "'s normalized_provider_error" | BoxedCore "'s core_error" | BoxedOther "'s boxed_error option"
and 's normalized_provider_error =
  Normalized (ne_kind: provider_error_kind) (ne_message: ustring) (ne_status_code: "nat option")
    (ne_error_code: "ustring option") (ne_request_id: "ustring option") (ne_retry_after: "nat option")
    (ne_should_retry: "bool option") (ne_replay_safety: replay_safety) (ne_source: "'s boxed_error option")

definition normalized_new :: "provider_error_kind \<Rightarrow> ustring \<Rightarrow> 's normalized_provider_error" where
  "normalized_new kind message = Normalized kind message None None None None None SafetyUnknown None"

fun with_replay_safety :: "replay_safety \<Rightarrow> 's normalized_provider_error \<Rightarrow> 's normalized_provider_error" where
  "with_replay_safety s (Normalized k m st ec ri ra sr _ src) = Normalized k m st ec ri ra sr s src"

fun normalized_with_source :: "'s boxed_error \<Rightarrow> 's normalized_provider_error \<Rightarrow> 's normalized_provider_error" where
  "normalized_with_source source (Normalized k m st ec ri ra sr s _) = Normalized k m st ec ri ra sr s (Some source)"

definition ne_is_timeout :: "'s normalized_provider_error \<Rightarrow> bool" where
  "ne_is_timeout self \<longleftrightarrow> ne_kind self = PTimeout"

definition ne_is_network_error :: "'s normalized_provider_error \<Rightarrow> bool" where
  "ne_is_network_error self \<longleftrightarrow> ne_kind self = PNetwork"

definition with_run_state :: "'s core_error \<Rightarrow> 's \<Rightarrow> 's core_error" where
  "with_run_state self state = RunError self state None"

fun with_context :: "ustring \<Rightarrow> 's core_error \<Rightarrow> 's core_error" where
  "with_context context (RunError error state nested) = RunError (with_context context error) state nested"
| "with_context context (ConfigError m src) = ConfigError (context @ [58, 32] @ m) src"
| "with_context context (CallerError m src) = CallerError (context @ [58, 32] @ m) src"
| "with_context context (InvalidFinalOutput m src) = InvalidFinalOutput (context @ [58, 32] @ m) src"
| "with_context context (ProviderError k m src) = ProviderError k (context @ [58, 32] @ m) src"
| "with_context context (ToolError k t m src) = ToolError k t (context @ [58, 32] @ m) src"
| "with_context context (SandboxError k m src) = SandboxError k (context @ [58, 32] @ m) src"
| "with_context context (SessionError k m src) = SessionError k (context @ [58, 32] @ m) src"
| "with_context context (ProtocolError k m src) = ProtocolError k (context @ [58, 32] @ m) src"
| "with_context context (BudgetError k m) = BudgetError k (context @ [58, 32] @ m)"
| "with_context context (GuardrailError st g m e) = GuardrailError st g (context @ [58, 32] @ m) e"
| "with_context context (CancelledError r) = CancelledError r"

fun with_source :: "'s boxed_error \<Rightarrow> 's core_error \<Rightarrow> 's core_error" where
  "with_source src (RunError error state nested) = RunError (with_source src error) state nested"
| "with_source src (ConfigError m _) = ConfigError m (Some src)"
| "with_source src (CallerError m _) = CallerError m (Some src)"
| "with_source src (InvalidFinalOutput m _) = InvalidFinalOutput m (Some src)"
| "with_source src (ProviderError k m _) = ProviderError k m (Some src)"
| "with_source src (ToolError k t m _) = ToolError k t m (Some src)"
| "with_source src (SandboxError k m _) = SandboxError k m (Some src)"
| "with_source src (SessionError k m _) = SessionError k m (Some src)"
| "with_source src (ProtocolError k m _) = ProtocolError k m (Some src)"
| "with_source src (BudgetError k m) = BudgetError k m"
| "with_source src (GuardrailError st g m e) = GuardrailError st g m e"
| "with_source src (CancelledError r) = CancelledError r"

fun with_guardrail_evidence :: "'s \<Rightarrow> 's core_error \<Rightarrow> 's core_error" where
  "with_guardrail_evidence collected (RunError error state nested) =
     RunError (with_guardrail_evidence collected error) state nested"
| "with_guardrail_evidence collected (GuardrailError st g m _) = GuardrailError st g m (Some collected)"
| "with_guardrail_evidence collected other = other"

fun guardrail_evidence :: "'s core_error \<Rightarrow> 's option" where
  "guardrail_evidence (RunError error _ _) = guardrail_evidence error"
| "guardrail_evidence (GuardrailError _ _ _ evidence) = evidence"
| "guardrail_evidence _ = None"

section \<open>What to do about an error\<close>

fun provider_recoverability :: "provider_error_kind \<Rightarrow> recovery_tier" where
  "provider_recoverability PNetwork = Retryable"
| "provider_recoverability PRateLimit = Retryable"
| "provider_recoverability PTimeout = Retryable"
| "provider_recoverability PServerError = Retryable"
| "provider_recoverability PConflict = Retryable"
| "provider_recoverability PRefusal = RetryableWithChange"
| "provider_recoverability PBehavior = RetryableWithChange"
| "provider_recoverability PContextOverflow = RetryableWithChange"
| "provider_recoverability PAuth = NeedsIntervention"
| "provider_recoverability PBadRequest = Fatal"

fun tool_recoverability :: "tool_failure_kind \<Rightarrow> recovery_tier" where
  "tool_recoverability TTimeout = Retryable"
| "tool_recoverability TInvalidInput = RetryableWithChange"
| "tool_recoverability TExecutionFailed = RetryableWithChange"
| "tool_recoverability TRepeatedCall = RetryableWithChange"
| "tool_recoverability TNoProgress = RetryableWithChange"
| "tool_recoverability TPermissionDenied = NeedsIntervention"
| "tool_recoverability TNotFound = Fatal"
| "tool_recoverability TCancelled = CancelledTier"

fun recoverability :: "'s core_error \<Rightarrow> recovery_tier" where
  "recoverability (RunError error _ _) = recoverability error"
| "recoverability (CancelledError _) = CancelledTier"
| "recoverability (CallerError _ _) = Fatal"
| "recoverability (InvalidFinalOutput _ _) = RetryableWithChange"
| "recoverability (ConfigError _ _) = NeedsIntervention"
| "recoverability (BudgetError _ _) = NeedsIntervention"
| "recoverability (GuardrailError _ _ _ _) = Fatal"
| "recoverability (ProviderError kind _ _) = provider_recoverability kind"
| "recoverability (ToolError kind _ _ _) = tool_recoverability kind"
| "recoverability (SandboxError kind _ _) = (case kind of SResourceLimit \<Rightarrow> RetryableWithChange | _ \<Rightarrow> NeedsIntervention)"
| "recoverability (SessionError kind _ _) = (case kind of SessionIo \<Rightarrow> Retryable | _ \<Rightarrow> NeedsIntervention)"
| "recoverability (ProtocolError kind _ _) =
     (case kind of PrTransport \<Rightarrow> Retryable | PrTimeout \<Rightarrow> Retryable | PrFrame \<Rightarrow> Fatal | PrHandshake \<Rightarrow> NeedsIntervention)"

definition error_is_retryable :: "'s core_error \<Rightarrow> bool" where
  "error_is_retryable self = tier_is_retryable (recoverability self)"

definition error_is_cancelled :: "'s core_error \<Rightarrow> bool" where
  "error_is_cancelled self \<longleftrightarrow> recoverability self = CancelledTier"

fun is_control_signal :: "'s core_error \<Rightarrow> bool" where
  "is_control_signal (RunError error _ _) = is_control_signal error"
| "is_control_signal (BudgetError _ _) = True"
| "is_control_signal (GuardrailError _ _ _ _) = True"
| "is_control_signal other = error_is_cancelled other"

fun budget_code :: "budget_kind \<Rightarrow> ustring" where
  "budget_code MaxTurns = lit ''budget.max_turns''"
| "budget_code Tokens = lit ''budget.tokens''"
| "budget_code Cost = lit ''budget.cost''"
| "budget_code WallClock = lit ''budget.wall_clock''"

fun guardrail_code :: "guardrail_stage \<Rightarrow> ustring" where
  "guardrail_code StageInput = lit ''guardrail.input''"
| "guardrail_code StageOutput = lit ''guardrail.output''"
| "guardrail_code StageToolInput = lit ''guardrail.tool_input''"
| "guardrail_code StageToolOutput = lit ''guardrail.tool_output''"

fun provider_code :: "provider_error_kind \<Rightarrow> ustring" where
  "provider_code PNetwork = lit ''provider.network''"
| "provider_code PRateLimit = lit ''provider.rate_limit''"
| "provider_code PTimeout = lit ''provider.timeout''"
| "provider_code PServerError = lit ''provider.server_error''"
| "provider_code PAuth = lit ''provider.auth''"
| "provider_code PBadRequest = lit ''provider.bad_request''"
| "provider_code PConflict = lit ''provider.conflict''"
| "provider_code PRefusal = lit ''provider.refusal''"
| "provider_code PBehavior = lit ''provider.behavior''"
| "provider_code PContextOverflow = lit ''provider.context_overflow''"

fun tool_code :: "tool_failure_kind \<Rightarrow> ustring" where
  "tool_code TNotFound = lit ''tool.not_found''"
| "tool_code TInvalidInput = lit ''tool.invalid_input''"
| "tool_code TTimeout = lit ''tool.timeout''"
| "tool_code TExecutionFailed = lit ''tool.execution_failed''"
| "tool_code TRepeatedCall = lit ''tool.repeated_call''"
| "tool_code TNoProgress = lit ''tool.no_progress''"
| "tool_code TPermissionDenied = lit ''tool.permission_denied''"
| "tool_code TCancelled = lit ''tool.cancelled''"

fun sandbox_code :: "sandbox_error_kind \<Rightarrow> ustring" where
  "sandbox_code SDenied = lit ''sandbox.denied''"
| "sandbox_code SUnavailable = lit ''sandbox.unavailable''"
| "sandbox_code SResourceLimit = lit ''sandbox.resource_limit''"
| "sandbox_code SSetup = lit ''sandbox.setup''"

fun session_code :: "session_error_kind \<Rightarrow> ustring" where
  "session_code SessionNotFound = lit ''session.not_found''"
| "session_code SessionCorrupted = lit ''session.corrupted''"
| "session_code SessionIo = lit ''session.io''"
| "session_code SessionVersionMismatch = lit ''session.version_mismatch''"

fun protocol_code :: "protocol_error_kind \<Rightarrow> ustring" where
  "protocol_code PrFrame = lit ''protocol.frame''"
| "protocol_code PrTransport = lit ''protocol.transport''"
| "protocol_code PrHandshake = lit ''protocol.handshake''"
| "protocol_code PrTimeout = lit ''protocol.timeout''"

fun error_code :: "'s core_error \<Rightarrow> ustring" where
  "error_code (RunError error _ _) = error_code error"
| "error_code (ConfigError _ _) = lit ''config''"
| "error_code (CallerError _ _) = lit ''caller''"
| "error_code (InvalidFinalOutput _ _) = lit ''output.invalid_final_output''"
| "error_code (CancelledError _) = lit ''cancelled''"
| "error_code (BudgetError kind _) = budget_code kind"
| "error_code (GuardrailError stage _ _ _) = guardrail_code stage"
| "error_code (ProviderError kind _ _) = provider_code kind"
| "error_code (ToolError kind _ _ _) = tool_code kind"
| "error_code (SandboxError kind _ _) = sandbox_code kind"
| "error_code (SessionError kind _ _) = session_code kind"
| "error_code (ProtocolError kind _ _) = protocol_code kind"

section \<open>Normalized provider facts\<close>

text \<open>\<^verbatim>\<open>StdError::source\<close> of an error, and of a boxed one.\<close>

fun error_source :: "'s core_error \<Rightarrow> 's boxed_error option" where
  "error_source (RunError error _ _) = Some (BoxedCore error)"
| "error_source (ConfigError _ src) = src"
| "error_source (CallerError _ src) = src"
| "error_source (InvalidFinalOutput _ src) = src"
| "error_source (ProviderError _ _ src) = src"
| "error_source (ToolError _ _ _ src) = src"
| "error_source (SandboxError _ _ src) = src"
| "error_source (SessionError _ _ src) = src"
| "error_source (ProtocolError _ _ src) = src"
| "error_source _ = None"

fun boxed_source :: "'s boxed_error \<Rightarrow> 's boxed_error option" where
  "boxed_source (BoxedNormalized n) = ne_source n"
| "boxed_source (BoxedCore e) = error_source e"
| "boxed_source (BoxedOther src) = src"

lemma boxed_source_size:
  "boxed_source b = Some c \<Longrightarrow> size c < size b"
proof (cases b)
  case (BoxedNormalized n)
  then show "boxed_source b = Some c \<Longrightarrow> size c < size b" by (cases n) auto
next
  case (BoxedCore e)
  then show "boxed_source b = Some c \<Longrightarrow> size c < size b" by (cases e) auto
qed auto

function find_normalized :: "'s boxed_error option \<Rightarrow> 's normalized_provider_error option" where
  "find_normalized None = None"
| "find_normalized (Some current) =
     (case current of BoxedNormalized n \<Rightarrow> Some n | _ \<Rightarrow> find_normalized (boxed_source current))"
  by pat_completeness auto
termination
proof (relation "measure (\<lambda>source. case source of None \<Rightarrow> 0 | Some b \<Rightarrow> Suc (size b))")
  show "(boxed_source c, Some c) \<in> measure (\<lambda>source. case source of None \<Rightarrow> 0 | Some b \<Rightarrow> Suc (size b))"
    for c :: "'s boxed_error"
    using boxed_source_size [of c] by (auto split: option.splits)
  then show "(boxed_source c, Some c) \<in> measure (\<lambda>source. case source of None \<Rightarrow> 0 | Some b \<Rightarrow> Suc (size b))"
    for c :: "'s boxed_error" .
qed simp

definition normalized_from_error :: "'s core_error \<Rightarrow> 's normalized_provider_error option" where
  "normalized_from_error error = find_normalized (error_source error)"

definition into_error :: "'s normalized_provider_error \<Rightarrow> 's core_error" where
  "into_error self = with_source (BoxedNormalized self) (ProviderError (ne_kind self) (ne_message self) None)"

definition restate ::
  "provider_error_kind \<Rightarrow> ustring \<Rightarrow> 's boxed_error option \<Rightarrow> replay_safety \<Rightarrow> 's core_error" where
  "restate kind message source s =
     into_error
       (case source of
          Some (BoxedNormalized n) \<Rightarrow> with_replay_safety s n
        | Some other \<Rightarrow> normalized_with_source other (with_replay_safety s (normalized_new kind message))
        | None \<Rightarrow> with_replay_safety s (normalized_new kind message))"

fun stamp_replay_safety :: "'s core_error \<Rightarrow> replay_safety \<Rightarrow> 's core_error" where
  "stamp_replay_safety (ProviderError kind message source) s = restate kind message source s"
| "stamp_replay_safety other s = other"

definition replay_safety_of :: "'s core_error \<Rightarrow> replay_safety" where
  "replay_safety_of error =
     (case normalized_from_error error of None \<Rightarrow> SafetyUnknown | Some n \<Rightarrow> ne_replay_safety n)"

section \<open>Lemmas\<close>

lemma with_replay_safety_fields [simp]:
  "ne_replay_safety (with_replay_safety s n) = s" "ne_kind (with_replay_safety s n) = ne_kind n"
  "ne_message (with_replay_safety s n) = ne_message n" "ne_retry_after (with_replay_safety s n) = ne_retry_after n"
  by (cases n; simp)+

lemma normalized_with_source_fields [simp]:
  "ne_replay_safety (normalized_with_source b n) = ne_replay_safety n" "ne_kind (normalized_with_source b n) = ne_kind n"
  by (cases n; simp)+

lemma normalized_from_into [simp]: "normalized_from_error (into_error n) = Some n"
  by (simp add: normalized_from_error_def into_error_def)

lemma context_keeps_recoverability [simp]: "recoverability (with_context c e) = recoverability e"
  by (induction c e rule: with_context.induct) simp_all

lemma source_keeps_recoverability [simp]: "recoverability (with_source b e) = recoverability e"
  by (induction b e rule: with_source.induct) simp_all

lemma context_keeps_code [simp]: "error_code (with_context c e) = error_code e"
  by (induction c e rule: with_context.induct) simp_all

lemma stamped_safety:
  "replay_safety_of (stamp_replay_safety (ProviderError kind message source) s) = s"
  by (auto simp: restate_def replay_safety_of_def split: option.splits boxed_error.splits)

text \<open>Stamping a verdict on a normalized error rebuilds it from the recorded facts: context added since is
  dropped.\<close>

lemma stamping_drops_added_context:
  "stamp_replay_safety (with_context context (into_error n)) s = into_error (with_replay_safety s n)"
  by (cases n) (simp add: into_error_def restate_def)

end
