(* ===== verification/Model_Retry.thy ===== *)
theory Model_Retry
  imports Error_Taxonomy Run_Item
begin

text \<open>
  Retrying a failed model call: the settings, advice, delays and policies of \<^verbatim>\<open>ra-core/src/model/retry.rs\<close>
  and \<^verbatim>\<open>ra-core/src/model/retry/*.rs\<close>, and the gate and the loop of \<^verbatim>\<open>ra-runtime/src/runner.rs\<close> that
  execute them (\<^verbatim>\<open>evaluate_retry\<close>, \<^verbatim>\<open>call_model\<close>). A duration is a number of nanoseconds. The arithmetic on
  \<^verbatim>\<open>f64\<close> is the record \<open>fl\<close> of the operations the code uses. A policy and an adapter are trait objects and the
  turn's scope decides whether waiting ends early: what evaluating, asking, sampling and sleeping yield are
  the functions of the record \<open>env\<close>, over a world \<open>'w\<close>.
\<close>

section \<open>Settings\<close>

record ('f, 'v) retry_backoff_settings =
  bs_schema_version :: u32
  bs_initial_delay :: "nat option"
  bs_max_delay :: "nat option"
  bs_multiplier :: "'f option"
  bs_jitter :: "bool option"
  bs_unknown :: "'v unknown"

definition backoff_settings_new :: "('f, 'v) retry_backoff_settings" where
  "backoff_settings_new =
     \<lparr> bs_schema_version = 1, bs_initial_delay = None, bs_max_delay = None, bs_multiplier = None, bs_jitter = None,
       bs_unknown = Map.empty \<rparr>"

definition override_if_some :: "'a option \<Rightarrow> 'a option \<Rightarrow> 'a option" where
  "override_if_some target incoming = (case incoming of Some _ \<Rightarrow> incoming | None \<Rightarrow> target)"

definition backoff_merge_layer ::
  "('f, 'v) retry_backoff_settings option \<Rightarrow> ('f, 'v) retry_backoff_settings option \<Rightarrow> ('f, 'v) retry_backoff_settings option" where
  "backoff_merge_layer resolved layer =
     (case layer of
        None \<Rightarrow> resolved
      | Some l \<Rightarrow>
          let target = (case resolved of Some t \<Rightarrow> t | None \<Rightarrow> backoff_settings_new) in
          Some (target
            \<lparr> bs_initial_delay := override_if_some (bs_initial_delay target) (bs_initial_delay l),
              bs_max_delay := override_if_some (bs_max_delay target) (bs_max_delay l),
              bs_multiplier := override_if_some (bs_multiplier target) (bs_multiplier l),
              bs_jitter := override_if_some (bs_jitter target) (bs_jitter l),
              bs_unknown := extend_from (bs_unknown target) (bs_unknown l) \<rparr>))"

definition backoff_merge :: "('f, 'v) retry_backoff_settings option list \<Rightarrow> ('f, 'v) retry_backoff_settings option" where
  "backoff_merge layers = foldl backoff_merge_layer None layers"

record ('f, 'v, 'p) model_retry_settings =
  rt_schema_version :: u32
  rt_max_retries :: "u32 option"
  rt_backoff :: "('f, 'v) retry_backoff_settings option"
  rt_policy :: "'p option"
  rt_unknown :: "'v unknown"

definition retry_settings_new :: "('f, 'v, 'p) model_retry_settings" where
  "retry_settings_new =
     \<lparr> rt_schema_version = 1, rt_max_retries = None, rt_backoff = None, rt_policy = None, rt_unknown = Map.empty \<rparr>"

definition retry_merge_layer ::
  "('f, 'v, 'p) model_retry_settings option \<Rightarrow> ('f, 'v, 'p) model_retry_settings option \<Rightarrow> ('f, 'v, 'p) model_retry_settings option" where
  "retry_merge_layer resolved layer =
     (case layer of
        None \<Rightarrow> resolved
      | Some l \<Rightarrow>
          let target = (case resolved of Some t \<Rightarrow> t | None \<Rightarrow> retry_settings_new) in
          Some (target
            \<lparr> rt_max_retries := override_if_some (rt_max_retries target) (rt_max_retries l),
              rt_backoff := backoff_merge [rt_backoff target, rt_backoff l],
              rt_policy := (if rt_policy l \<noteq> None then rt_policy l else rt_policy target),
              rt_unknown := extend_from (rt_unknown target) (rt_unknown l) \<rparr>))"

definition retry_merge :: "('f, 'v, 'p) model_retry_settings option list \<Rightarrow> ('f, 'v, 'p) model_retry_settings option" where
  "retry_merge layers = foldl retry_merge_layer None layers"

section \<open>Advice and decisions\<close>

record retry_advice =
  rad_suggested :: "bool option"
  rad_retry_after :: "nat option"
  rad_replay_safety :: replay_safety
  rad_reason :: "ustring option"

definition retry_advice_new :: retry_advice where
  "retry_advice_new = \<lparr> rad_suggested = None, rad_retry_after = None, rad_replay_safety = SafetyUnknown, rad_reason = None \<rparr>"

record retry_decision =
  rd_retry :: bool
  rd_delay :: "nat option"
  rd_reason :: "ustring option"
  rd_replay_approved :: bool

definition no_retry :: retry_decision where
  "no_retry = \<lparr> rd_retry = False, rd_delay = None, rd_reason = None, rd_replay_approved = False \<rparr>"

definition decide_retry :: retry_decision where
  "decide_retry = \<lparr> rd_retry = True, rd_delay = None, rd_reason = None, rd_replay_approved = False \<rparr>"

record 's retry_policy_context =
  rx_error :: "'s core_error"
  rx_attempt :: u32
  rx_max_retries :: u32
  rx_streaming :: bool
  rx_provider_advice :: "retry_advice option"

definition rx_normalized :: "'s retry_policy_context \<Rightarrow> 's normalized_provider_error option" where
  "rx_normalized self = normalized_from_error (rx_error self)"

text \<open>The built-in policies.\<close>

definition never_retry_policy :: "'s retry_policy_context \<Rightarrow> retry_decision" where
  "never_retry_policy context = no_retry"

definition provider_suggested_policy :: "'s retry_policy_context \<Rightarrow> retry_decision" where
  "provider_suggested_policy context =
     (case rx_provider_advice context of
        None \<Rightarrow> no_retry
      | Some advice \<Rightarrow>
          if rad_suggested advice \<noteq> Some True then no_retry
          else
            let d1 = (case rad_retry_after advice of Some delay \<Rightarrow> decide_retry \<lparr> rd_delay := Some delay \<rparr> | None \<Rightarrow> decide_retry);
                d2 = (case rad_reason advice of Some reason \<Rightarrow> d1 \<lparr> rd_reason := Some reason \<rparr> | None \<Rightarrow> d1)
            in if rad_replay_safety advice = Safe then d2 \<lparr> rd_replay_approved := True \<rparr> else d2)"

definition network_error_policy :: "'s retry_policy_context \<Rightarrow> retry_decision" where
  "network_error_policy context =
     (case rx_normalized context of
        Some n \<Rightarrow> if ne_is_network_error n \<or> ne_is_timeout n then decide_retry else no_retry
      | None \<Rightarrow> no_retry)"

definition retry_after_policy :: "'s retry_policy_context \<Rightarrow> retry_decision" where
  "retry_after_policy context =
     (case (case Option.bind (rx_provider_advice context) rad_retry_after of
              Some delay \<Rightarrow> Some delay
            | None \<Rightarrow> Option.bind (rx_normalized context) ne_retry_after) of
        Some delay \<Rightarrow> decide_retry \<lparr> rd_delay := Some delay \<rparr>
      | None \<Rightarrow> no_retry)"

section \<open>Delays\<close>

record 'f delay_f64 =
  df_of_duration :: "nat \<Rightarrow> 'f"
  df_powi :: "'f \<Rightarrow> nat \<Rightarrow> 'f"
  df_mul :: "'f \<Rightarrow> 'f \<Rightarrow> 'f"
  df_min :: "'f \<Rightarrow> 'f \<Rightarrow> 'f"
  df_max :: "'f \<Rightarrow> 'f \<Rightarrow> 'f"
  df_sub :: "'f \<Rightarrow> 'f \<Rightarrow> 'f"
  df_is_finite :: "'f \<Rightarrow> bool"
  df_is_nan :: "'f \<Rightarrow> bool"
  df_clamp_unit :: "'f \<Rightarrow> 'f"
  df_try_duration :: "'f \<Rightarrow> nat option"
  df_mul_duration :: "nat \<Rightarrow> 'f \<Rightarrow> nat"
  df_zero :: 'f
  df_one :: 'f
  df_two :: 'f
  df_quarter :: 'f

definition DEFAULT_INITIAL_DELAY :: nat where "DEFAULT_INITIAL_DELAY = 500000000"
definition DEFAULT_MAX_DELAY :: nat where "DEFAULT_MAX_DELAY = 8000000000"
definition MAX_HONORED_RETRY_AFTER :: nat where "MAX_HONORED_RETRY_AFTER = 60000000000"

definition jitter_sample_new :: "'f delay_f64 \<Rightarrow> 'f \<Rightarrow> 'f" where
  "jitter_sample_new fl sample = (if df_is_nan fl sample then df_zero fl else df_clamp_unit fl sample)"

record 'f retry_backoff =
  bo_initial_delay :: nat
  bo_max_delay :: nat
  bo_multiplier :: 'f
  bo_jitter :: bool

definition backoff_new :: "'f delay_f64 \<Rightarrow> 'f retry_backoff" where
  "backoff_new fl =
     \<lparr> bo_initial_delay = DEFAULT_INITIAL_DELAY, bo_max_delay = DEFAULT_MAX_DELAY, bo_multiplier = df_two fl, bo_jitter = True \<rparr>"

definition backoff_from_settings :: "'f delay_f64 \<Rightarrow> ('f, 'v) retry_backoff_settings option \<Rightarrow> 'f retry_backoff" where
  "backoff_from_settings fl settings =
     (case settings of
        None \<Rightarrow> backoff_new fl
      | Some s \<Rightarrow>
          \<lparr> bo_initial_delay = (case bs_initial_delay s of Some d \<Rightarrow> d | None \<Rightarrow> bo_initial_delay (backoff_new fl)),
            bo_max_delay = (case bs_max_delay s of Some d \<Rightarrow> d | None \<Rightarrow> bo_max_delay (backoff_new fl)),
            bo_multiplier = (case bs_multiplier s of
                Some m \<Rightarrow> if df_is_finite fl m then df_max fl m (df_one fl) else df_two fl
              | None \<Rightarrow> bo_multiplier (backoff_new fl)),
            bo_jitter = (case bs_jitter s of Some j \<Rightarrow> j | None \<Rightarrow> bo_jitter (backoff_new fl)) \<rparr>)"

text \<open>\<^verbatim>\<open>i32::try_from(attempt).unwrap_or(i32::MAX)\<close>.\<close>

definition backoff_exponent :: "u32 \<Rightarrow> nat" where
  "backoff_exponent attempt = (if unat attempt \<le> 2 ^ 31 - 1 then unat attempt else 2 ^ 31 - 1)"

definition base_delay :: "'f delay_f64 \<Rightarrow> 'f retry_backoff \<Rightarrow> u32 \<Rightarrow> nat" where
  "base_delay fl self attempt =
     (let seconds = df_mul fl (df_of_duration fl (bo_initial_delay self)) (df_powi fl (bo_multiplier self) (backoff_exponent attempt)) in
      if \<not> df_is_finite fl seconds then bo_max_delay self
      else let capped = df_min fl seconds (df_of_duration fl (bo_max_delay self)) in
           case df_try_duration fl capped of Some d \<Rightarrow> d | None \<Rightarrow> bo_max_delay self)"

definition backoff_delay :: "'f delay_f64 \<Rightarrow> 'f retry_backoff \<Rightarrow> u32 \<Rightarrow> nat option \<Rightarrow> 'f \<Rightarrow> nat" where
  "backoff_delay fl self attempt retry_after sample =
     (let computed =
        (let base = base_delay fl self attempt in
         if \<not> bo_jitter self then base
         else df_mul_duration fl base (df_sub fl (df_one fl) (df_mul fl (df_quarter fl) sample)))
      in case retry_after of
        Some d \<Rightarrow> if 0 < d \<and> d \<le> MAX_HONORED_RETRY_AFTER then d else computed
      | None \<Rightarrow> computed)"

section \<open>The gate\<close>

record call_consumption =
  cc_published :: bool
  cc_dispatched :: bool

definition consumption_any :: "call_consumption \<Rightarrow> bool" where
  "consumption_any self \<longleftrightarrow> cc_published self \<or> cc_dispatched self"

datatype conversation_continuation = NoContinuation | PreviousResponseId ustring | ConversationId ustring

definition is_server_managed :: "conversation_continuation \<Rightarrow> bool" where
  "is_server_managed self \<longleftrightarrow> self \<noteq> NoContinuation"

record ('s, 'p, 'f, 'w) retry_env =
  re_advice :: "'s core_error \<Rightarrow> u32 \<Rightarrow> conversation_continuation \<Rightarrow> 'w \<Rightarrow> retry_advice option"
  re_evaluate :: "'p \<Rightarrow> 's retry_policy_context \<Rightarrow> 'w \<Rightarrow> ('s core_error + retry_decision) \<times> 'w"
  re_random :: "'w \<Rightarrow> 'f \<times> 'w"
  re_sleep :: "nat \<Rightarrow> 'w \<Rightarrow> ('s core_error + unit) \<times> 'w"

definition advised_safety :: "retry_advice option \<Rightarrow> 's core_error \<Rightarrow> replay_safety" where
  "advised_safety advice error = (case advice of None \<Rightarrow> replay_safety_of error | Some a \<Rightarrow> rad_replay_safety a)"

definition evaluate_retry ::
  "'f delay_f64 \<Rightarrow> ('s, 'p, 'f, 'w) retry_env \<Rightarrow> ('f, 'v, 'p) model_retry_settings option \<Rightarrow> conversation_continuation
   \<Rightarrow> u32 \<Rightarrow> u32 \<Rightarrow> 's core_error \<Rightarrow> call_consumption \<Rightarrow> 'w \<Rightarrow> ('s core_error + (retry_decision \<times> nat) option) \<times> 'w" where
  "evaluate_retry fl env retry_settings continuation attempt max_retries error consumed w =
     (if max_retries \<le> attempt \<or> error_is_cancelled error \<or> \<not> error_is_retryable error then (Inr None, w)
      else case retry_settings of None \<Rightarrow> (Inr None, w) | Some settings \<Rightarrow>
      case rt_policy settings of None \<Rightarrow> (Inr None, w) | Some policy \<Rightarrow>
      if consumption_any consumed then (Inr None, w)
      else
        let advice = re_advice env error attempt continuation w in
        if advised_safety advice error = Unsafe then (Inr None, w)
        else case re_evaluate env policy
            \<lparr> rx_error = error, rx_attempt = attempt, rx_max_retries = max_retries, rx_streaming = True,
              rx_provider_advice = advice \<rparr> w of
          (Inl e, w1) \<Rightarrow> (Inl e, w1)
        | (Inr decision, w1) \<Rightarrow>
            if \<not> rd_retry decision then (Inr None, w1)
            else if advised_safety advice error \<noteq> Safe \<and> is_server_managed continuation \<and> \<not> rd_replay_approved decision
            then (Inr None, w1)
            else case rd_delay decision of
                Some delay \<Rightarrow> (Inr (Some (decision, delay)), w1)
              | None \<Rightarrow>
                  let (sample, w2) = re_random env w1 in
                  (Inr (Some (decision,
                     backoff_delay fl (backoff_from_settings fl (rt_backoff settings)) attempt
                       (case Option.bind advice rad_retry_after of
                          Some d \<Rightarrow> Some d
                        | None \<Rightarrow> Option.bind (normalized_from_error error) ne_retry_after)
                       (jitter_sample_new fl sample))), w2))"

section \<open>The loop\<close>

record 'v model_response =
  mr_schema_version :: u32
  mr_output :: "'v run_item list"
  mr_usage :: "'v usage"
  mr_response_id :: "ustring option"
  mr_request_id :: "ustring option"
  mr_unknown :: "'v unknown"

definition model_response_new :: "'v run_item list \<Rightarrow> 'v model_response" where
  "model_response_new output =
     \<lparr> mr_schema_version = 1, mr_output = output, mr_usage = from_request (request_usage_new 0 0), mr_response_id = None,
       mr_request_id = None, mr_unknown = Map.empty \<rparr>"

definition to_input_items :: "'v model_response \<Rightarrow> 'v model_input_item list" where
  "to_input_items self = List.map_filter to_model_input (mr_output self)"

definition prepend_failed_attempts :: "'v usage \<Rightarrow> u32 \<Rightarrow> 'v usage" where
  "prepend_failed_attempts usage failed_attempts =
     accumulate (((\<lambda>augmented. accumulate augmented (from_request (request_usage_new 0 0))) ^^ unat failed_attempts) usage_default) usage"

lemma evaluate_retry_Some:
  assumes "evaluate_retry fl env settings continuation attempt max_retries error consumed w = (Inr (Some d), w')"
  shows "attempt < max_retries" "\<not> error_is_cancelled error" "error_is_retryable error" "\<not> consumption_any consumed"
    and "advised_safety (re_advice env error attempt continuation w) error \<noteq> Unsafe"
    and "rd_retry (fst d)"
    and "is_server_managed continuation \<longrightarrow>
      advised_safety (re_advice env error attempt continuation w) error = Safe \<or> rd_replay_approved (fst d)"
    and "\<exists>s p. settings = Some s \<and> rt_policy s = Some p"
  using assms
  by (auto simp: evaluate_retry_def Let_def split: if_splits option.splits sum.splits prod.splits)

lemma unat_saturating_inc: "a < b \<Longrightarrow> unat (saturating_add a (1 :: u32)) = Suc (unat a)"
proof -
  assume "a < b"
  then have "unat a < unat b" by (simp add: word_less_nat_alt)
  then have "unat a + 1 \<le> 2 ^ 32 - 1" using unat_le_max [of b] by simp
  then show ?thesis by (simp add: sat_simps)
qed

text \<open>What one physical request yields: its response or error, what it let out of the runtime, and the
  world after it.\<close>

type_synonym ('s, 'v, 'w) model_attempt = "u32 \<Rightarrow> 'w \<Rightarrow> ('s core_error + 'v model_response) \<times> call_consumption \<times> 'w"

function call_model_loop ::
  "'f delay_f64 \<Rightarrow> ('s, 'p, 'f, 'w) retry_env \<Rightarrow> ('s, 'v, 'w) model_attempt \<Rightarrow> ('f, 'v, 'p) model_retry_settings option
   \<Rightarrow> conversation_continuation \<Rightarrow> u32 \<Rightarrow> u32 \<Rightarrow> u32 \<Rightarrow> 'w \<Rightarrow> ('s core_error + 'v model_response) \<times> 'w" where
  "call_model_loop fl env request retry_settings continuation max_retries attempt failed_attempts w =
     (case request attempt w of
        (Inr response, _, w1) \<Rightarrow>
          (Inr (if 0 < failed_attempts
                then response \<lparr> mr_usage := prepend_failed_attempts (mr_usage response) failed_attempts \<rparr> else response), w1)
      | (Inl error, consumed, w1) \<Rightarrow>
          (case evaluate_retry fl env retry_settings continuation attempt max_retries error consumed w1 of
             (Inl e, w2) \<Rightarrow> (Inl e, w2)
           | (Inr None, w2) \<Rightarrow> (Inl error, w2)
           | (Inr (Some (decision, delay)), w2) \<Rightarrow>
               (case re_sleep env delay w2 of
                  (Inl e, w3) \<Rightarrow> (Inl e, w3)
                | (Inr _, w3) \<Rightarrow>
                    call_model_loop fl env request retry_settings continuation max_retries
                      (saturating_add attempt 1) (saturating_add failed_attempts 1) w3)))"
  by pat_completeness auto

termination
  by (relation "measure (\<lambda>(fl, env, request, settings, continuation, max_retries, attempt, failed, w). unat max_retries - unat attempt)")
    (auto simp: unat_saturating_inc word_less_nat_alt dest!: evaluate_retry_Some(1) [OF sym])

declare call_model_loop.simps [simp del]

text \<open>Of a \<^verbatim>\<open>ModelRequest\<close>, the fields the loop reads; a cache plan names the prefix it was made for by the
  hash of its bytes.\<close>

record cache_plan =
  cp_prefix_hash :: ustring
  cp_cache_scope :: "ustring option"

record ('f, 'v, 'p) call_request =
  rq_system_instructions :: "ustring option"
  rq_retry :: "('f, 'v, 'p) model_retry_settings option"
  rq_continuation :: conversation_continuation
  rq_cache_plan :: "cache_plan option"

definition validate_cache_plan :: "(ustring \<Rightarrow> ustring) \<Rightarrow> ('f, 'v, 'p) call_request \<Rightarrow> 's core_error + unit" where
  "validate_cache_plan content_hash self =
     (case rq_cache_plan self of
        None \<Rightarrow> Inr ()
      | Some plan \<Rightarrow>
          (case rq_system_instructions self of
             None \<Rightarrow> Inl (CallerError (lit ''a prompt cache plan requires stable system instructions'') None)
           | Some instructions \<Rightarrow>
               if cp_prefix_hash plan \<noteq> content_hash instructions
               then Inl (CallerError (lit ''prompt cache plan names prefix hash `'' @ cp_prefix_hash plan
                      @ lit ''`, but stable system instructions hash to `'' @ content_hash instructions @ lit ''`'') None)
               else Inr ()))"

definition call_model ::
  "'f delay_f64 \<Rightarrow> (ustring \<Rightarrow> ustring) \<Rightarrow> ('s, 'p, 'f, 'w) retry_env \<Rightarrow> ('s, 'v, 'w) model_attempt \<Rightarrow> ('f, 'v, 'p) call_request
   \<Rightarrow> 'w \<Rightarrow> ('s core_error + 'v model_response) \<times> 'w" where
  "call_model fl content_hash env attempt_model model_request w =
     (case validate_cache_plan content_hash model_request of
        Inl e \<Rightarrow> (Inl e, w)
      | Inr _ \<Rightarrow>
          let retry_settings = rq_retry model_request;
              max_retries = (case Option.bind retry_settings rt_max_retries of Some m \<Rightarrow> m | None \<Rightarrow> 0)
          in call_model_loop fl env attempt_model retry_settings (rq_continuation model_request) max_retries 0 0 w)"

section \<open>Layered settings\<close>

text \<open>The last layer that says anything decides.\<close>

definition last_some :: "'a option list \<Rightarrow> 'a option" where
  "last_some xs = (let ys = filter (\<lambda>x. x \<noteq> None) xs in if ys = [] then None else last ys)"

lemma last_some_snoc: "last_some (xs @ [x]) = override_if_some (last_some xs) x"
  by (cases x) (simp_all add: last_some_def override_if_some_def Let_def)

lemma last_some_Nil [simp]: "last_some [] = None"
  by (simp add: last_some_def)

lemma override_None [simp]: "override_if_some x None = x" "override_if_some None x = x"
  by (simp_all add: override_if_some_def split: option.splits)

lemma backoff_merge_snoc: "backoff_merge (layers @ [l]) = backoff_merge_layer (backoff_merge layers) l"
  by (simp add: backoff_merge_def)

lemma retry_merge_snoc: "retry_merge (layers @ [l]) = retry_merge_layer (retry_merge layers) l"
  by (simp add: retry_merge_def)

lemma backoff_layer_fields:
  "Option.bind (backoff_merge_layer r l) bs_initial_delay = override_if_some (Option.bind r bs_initial_delay) (Option.bind l bs_initial_delay)"
  "Option.bind (backoff_merge_layer r l) bs_max_delay = override_if_some (Option.bind r bs_max_delay) (Option.bind l bs_max_delay)"
  "Option.bind (backoff_merge_layer r l) bs_multiplier = override_if_some (Option.bind r bs_multiplier) (Option.bind l bs_multiplier)"
  "Option.bind (backoff_merge_layer r l) bs_jitter = override_if_some (Option.bind r bs_jitter) (Option.bind l bs_jitter)"
  by (cases l; cases r; simp add: backoff_merge_layer_def backoff_settings_new_def Let_def)+

lemma backoff_merge_two: "backoff_merge [a, b] = backoff_merge_layer (backoff_merge_layer None a) b"
  by (simp add: backoff_merge_def)

lemma backoff_merge_pair_fields:
  "Option.bind (backoff_merge [a, b]) bs_initial_delay = override_if_some (Option.bind a bs_initial_delay) (Option.bind b bs_initial_delay)"
  "Option.bind (backoff_merge [a, b]) bs_max_delay = override_if_some (Option.bind a bs_max_delay) (Option.bind b bs_max_delay)"
  "Option.bind (backoff_merge [a, b]) bs_multiplier = override_if_some (Option.bind a bs_multiplier) (Option.bind b bs_multiplier)"
  "Option.bind (backoff_merge [a, b]) bs_jitter = override_if_some (Option.bind a bs_jitter) (Option.bind b bs_jitter)"
  by (simp_all add: backoff_merge_two backoff_layer_fields)

lemma retry_layer_fields:
  "Option.bind (retry_merge_layer r l) rt_max_retries = override_if_some (Option.bind r rt_max_retries) (Option.bind l rt_max_retries)"
  "Option.bind (retry_merge_layer r l) rt_policy = override_if_some (Option.bind r rt_policy) (Option.bind l rt_policy)"
  by (cases l; cases r; auto simp: retry_merge_layer_def retry_settings_new_def Let_def override_if_some_def split: option.splits)+

lemma retry_layer_backoff:
  "l \<noteq> None \<Longrightarrow> Option.bind (retry_merge_layer r l) rt_backoff = backoff_merge [Option.bind r rt_backoff, Option.bind l rt_backoff]"
  "retry_merge_layer r None = r"
  by (cases r; auto simp: retry_merge_layer_def retry_settings_new_def Let_def)+

lemma retry_layer_backoff_fields:
  "Option.bind (Option.bind (retry_merge_layer r l) rt_backoff) bs_initial_delay
   = override_if_some (Option.bind (Option.bind r rt_backoff) bs_initial_delay) (Option.bind (Option.bind l rt_backoff) bs_initial_delay)"
  "Option.bind (Option.bind (retry_merge_layer r l) rt_backoff) bs_max_delay
   = override_if_some (Option.bind (Option.bind r rt_backoff) bs_max_delay) (Option.bind (Option.bind l rt_backoff) bs_max_delay)"
  "Option.bind (Option.bind (retry_merge_layer r l) rt_backoff) bs_multiplier
   = override_if_some (Option.bind (Option.bind r rt_backoff) bs_multiplier) (Option.bind (Option.bind l rt_backoff) bs_multiplier)"
  "Option.bind (Option.bind (retry_merge_layer r l) rt_backoff) bs_jitter
   = override_if_some (Option.bind (Option.bind r rt_backoff) bs_jitter) (Option.bind (Option.bind l rt_backoff) bs_jitter)"
  by (cases l; simp add: retry_layer_backoff backoff_merge_pair_fields)+

lemma retry_merge_field:
  assumes "g None = None" "\<And>r l. g (retry_merge_layer r l) = override_if_some (g r) (g l)"
  shows "g (retry_merge layers) = last_some (map g layers)"
proof (induction layers rule: rev_induct)
  case Nil
  then show ?case using assms(1) by (simp add: retry_merge_def)
next
  case (snoc l layers)
  then show ?case by (simp add: retry_merge_snoc assms(2) last_some_snoc)
qed

text \<open>Layered retry settings resolve field by field: each setting, and each setting of the nested
  backoff, is the one of the last layer that sets it, and is unset exactly when no layer sets it.\<close>

theorem retry_layers_last_wins:
  "Option.bind (retry_merge layers) rt_max_retries = last_some (map (\<lambda>l. Option.bind l rt_max_retries) layers)
   \<and> Option.bind (retry_merge layers) rt_policy = last_some (map (\<lambda>l. Option.bind l rt_policy) layers)
   \<and> Option.bind (Option.bind (retry_merge layers) rt_backoff) bs_initial_delay
   = last_some (map (\<lambda>l. Option.bind (Option.bind l rt_backoff) bs_initial_delay) layers)
   \<and> Option.bind (Option.bind (retry_merge layers) rt_backoff) bs_max_delay
   = last_some (map (\<lambda>l. Option.bind (Option.bind l rt_backoff) bs_max_delay) layers)
   \<and> Option.bind (Option.bind (retry_merge layers) rt_backoff) bs_multiplier
   = last_some (map (\<lambda>l. Option.bind (Option.bind l rt_backoff) bs_multiplier) layers)
   \<and> Option.bind (Option.bind (retry_merge layers) rt_backoff) bs_jitter
   = last_some (map (\<lambda>l. Option.bind (Option.bind l rt_backoff) bs_jitter) layers)"
  by (intro conjI; rule retry_merge_field, simp, (rule retry_layer_fields retry_layer_backoff_fields))

section \<open>Delays\<close>

text \<open>A delay the endpoint asked for is honoured exactly when it is positive and at most a minute.\<close>

lemma honoured_retry_after: "0 < d \<Longrightarrow> d \<le> MAX_HONORED_RETRY_AFTER \<Longrightarrow> backoff_delay fl b attempt (Some d) sample = d"
  by (simp add: backoff_delay_def)

lemma ignored_retry_after:
  "d = 0 \<or> MAX_HONORED_RETRY_AFTER < d \<Longrightarrow> backoff_delay fl b attempt (Some d) sample = backoff_delay fl b attempt None sample"
  by (auto simp: backoff_delay_def Let_def)

section \<open>The attempts of a call\<close>

text \<open>The same environment and request, with a log of the attempts beside the world.\<close>

type_synonym ('s, 'v) attempt_log = "(u32 \<times> ('s core_error + 'v model_response) \<times> call_consumption) list"

definition logged_env :: "('s, 'p, 'f, 'w) retry_env \<Rightarrow> ('s, 'p, 'f, 'w \<times> ('s, 'v) attempt_log) retry_env" where
  "logged_env env =
     \<lparr> re_advice = (\<lambda>e a c (w, log). re_advice env e a c w),
       re_evaluate = (\<lambda>p x (w, log). case re_evaluate env p x w of (r, w1) \<Rightarrow> (r, (w1, log))),
       re_random = (\<lambda>(w, log). case re_random env w of (r, w1) \<Rightarrow> (r, (w1, log))),
       re_sleep = (\<lambda>d (w, log). case re_sleep env d w of (r, w1) \<Rightarrow> (r, (w1, log))) \<rparr>"

definition logged_request :: "('s, 'v, 'w) model_attempt \<Rightarrow> ('s, 'v, 'w \<times> ('s, 'v) attempt_log) model_attempt" where
  "logged_request request attempt wl =
     (case wl of (w, log) \<Rightarrow> case request attempt w of (r, c, w1) \<Rightarrow> (r, c, (w1, log @ [(attempt, r, c)])))"

lemma evaluate_retry_keeps_log:
  "evaluate_retry fl (logged_env env) settings continuation attempt max_retries error consumed (w, log) = (r, (w', log'))
   \<Longrightarrow> log' = log"
  by (auto simp: evaluate_retry_def logged_env_def Let_def split: if_splits option.splits sum.splits prod.splits)

text \<open>A failed attempt that may be followed by another one.\<close>

definition may_be_repeated :: "u32 \<times> ('s core_error + 'v model_response) \<times> call_consumption \<Rightarrow> bool" where
  "may_be_repeated entry \<longleftrightarrow>
     (case entry of (_, Inl error, consumed) \<Rightarrow>
        error_is_retryable error \<and> \<not> error_is_cancelled error \<and> \<not> consumption_any consumed
      | _ \<Rightarrow> False)"

lemma usage_entries_prepended:
  "u_request_usage_entries (prepend_failed_attempts usage n) =
   replicate (unat n) (request_usage_new 0 0) @ u_request_usage_entries usage"
proof -
  have "u_request_usage_entries (((\<lambda>a. accumulate a (from_request (request_usage_new 0 0))) ^^ k) usage_default)
      = replicate k (request_usage_new 0 0)" for k
    by (induction k) (simp_all add: accumulate_def from_request_def usage_default_def replicate_append_same)
  then show ?thesis by (simp add: prepend_failed_attempts_def accumulate_def)
qed

lemma call_model_loop_log:
  fixes max_retries attempt failed :: u32
  assumes "call_model_loop fl (logged_env env) (logged_request request) settings continuation max_retries attempt failed (w, log) = (res, (w', log'))"
    and "failed \<le> attempt" "attempt \<le> max_retries"
  shows "\<exists>new. log' = log @ new \<and> new \<noteq> [] \<and> length new \<le> Suc (unat max_retries - unat attempt)
    \<and> map (\<lambda>entry. unat (fst entry)) new = [unat attempt..<unat attempt + length new]
    \<and> list_all may_be_repeated (butlast new)
    \<and> (case res of Inl _ \<Rightarrow> True | Inr response \<Rightarrow> \<exists>a settled c. last new = (a, Inr settled, c)
        \<and> mr_output response = mr_output settled
        \<and> u_request_usage_entries (mr_usage response)
          = replicate (unat failed + (length new - 1)) (request_usage_new 0 0) @ u_request_usage_entries (mr_usage settled))"
  using assms
proof (induction "unat max_retries - unat attempt" arbitrary: attempt failed w log rule: less_induct)
  case less
  obtain r c w1 where req: "request attempt w = (r, c, w1)" by (cases "request attempt w")
  let ?log = "log @ [(attempt, r, c)]"
  have lreq: "logged_request request attempt (w, log) = (r, c, (w1, ?log))" using req by (simp add: logged_request_def)
  show ?case
  proof (cases r)
    case (Inr response)
    then show ?thesis
      using less.prems lreq by (subst (asm) call_model_loop.simps) (auto simp: usage_entries_prepended word_gt_0 intro!: exI [of _ "[(attempt, r, c)]"])
  next
    case (Inl error)
    obtain ev w2 log2 where ev: "evaluate_retry fl (logged_env env) settings continuation attempt max_retries error c (w1, ?log) = (ev, (w2, log2))"
      by (metis surj_pair)
    have log2: "log2 = ?log" using evaluate_retry_keeps_log [OF ev] .
    consider (stop) e where "res = Inl e" "log' = ?log"
      | (again) d w3 where "ev = Inr (Some d)"
          "call_model_loop fl (logged_env env) (logged_request request) settings continuation max_retries
            (saturating_add attempt 1) (saturating_add failed 1) (w3, ?log) = (res, (w', log'))"
      using less.prems(1) lreq Inl ev log2
      by (subst (asm) call_model_loop.simps) (auto simp: logged_env_def split: sum.splits option.splits prod.splits)
    then show ?thesis
    proof cases
      case stop
      then show ?thesis by (intro exI [of _ "[(attempt, r, c)]"]) simp
    next
      case (again d w3)
      note gate = evaluate_retry_Some [OF ev [unfolded again(1)]]
      have att: "unat (saturating_add attempt 1) = Suc (unat attempt)" using unat_saturating_inc gate(1) by blast
      have fl': "failed < max_retries" using less.prems(2) gate(1) by (simp add: word_le_nat_alt word_less_nat_alt)
      have fail: "unat (saturating_add failed 1) = Suc (unat failed)" using unat_saturating_inc [OF fl'] .
      have lt: "unat attempt < unat max_retries" using gate(1) by (simp add: word_less_nat_alt)
      have "\<exists>new. log' = ?log @ new \<and> new \<noteq> [] \<and> length new \<le> Suc (unat max_retries - unat (saturating_add attempt 1))
        \<and> map (\<lambda>entry. unat (fst entry)) new = [unat (saturating_add attempt 1)..<unat (saturating_add attempt 1) + length new]
        \<and> list_all may_be_repeated (butlast new)
        \<and> (case res of Inl _ \<Rightarrow> True | Inr response \<Rightarrow> \<exists>a settled c. last new = (a, Inr settled, c)
            \<and> mr_output response = mr_output settled
            \<and> u_request_usage_entries (mr_usage response)
              = replicate (unat (saturating_add failed 1) + (length new - 1)) (request_usage_new 0 0) @ u_request_usage_entries (mr_usage settled))"
        using less.hyps [OF _ again(2)] att fail lt less.prems(2) by (simp add: word_le_nat_alt)
      then obtain new where new: "log' = ?log @ new" "new \<noteq> []" "length new \<le> Suc (unat max_retries - Suc (unat attempt))"
          "map (\<lambda>entry. unat (fst entry)) new = [Suc (unat attempt)..<Suc (unat attempt) + length new]"
          "list_all may_be_repeated (butlast new)"
          "case res of Inl _ \<Rightarrow> True | Inr response \<Rightarrow> \<exists>a settled c. last new = (a, Inr settled, c)
            \<and> mr_output response = mr_output settled
            \<and> u_request_usage_entries (mr_usage response)
              = replicate (Suc (unat failed) + (length new - 1)) (request_usage_new 0 0) @ u_request_usage_entries (mr_usage settled)"
        unfolding att fail by blast
      have "may_be_repeated (attempt, r, c)" using Inl gate by (simp add: may_be_repeated_def)
      moreover obtain k where "length new = Suc k" using new(2) by (cases new) auto
      ultimately show ?thesis
        using new lt
        by (intro exI [of _ "(attempt, r, c) # new"]) (auto simp: upt_conv_Cons simp del: upt_Suc split: sum.splits)
    qed
  qed
qed


text \<open>What the retry gate lets through: a retry is granted only while attempts are left, for a
  retryable failure that is no cancellation, with nothing consumed, when neither the adapter nor the
  error itself says the replay is unsafe and the policy asks for it; and where the provider manages the
  conversation, only if the replay is known to be safe or the policy approved it.\<close>

theorem retry_gate_is_safe:
  assumes "evaluate_retry fl env settings continuation attempt max_retries error consumed w = (Inr (Some (decision, delay)), w')"
  shows "attempt < max_retries \<and> error_is_retryable error \<and> \<not> error_is_cancelled error \<and> \<not> consumption_any consumed
    \<and> rd_retry decision \<and> advised_safety (re_advice env error attempt continuation w) error \<noteq> Unsafe
    \<and> (is_server_managed continuation \<longrightarrow>
        advised_safety (re_advice env error attempt continuation w) error = Safe \<or> rd_replay_approved decision)"
  using evaluate_retry_Some [OF assms] by auto

section \<open>A concrete call\<close>

definition demo_f64 :: "nat delay_f64" where
  "demo_f64 = \<lparr> df_of_duration = id, df_powi = power, df_mul = (*), df_min = min, df_max = max, df_sub = (-),
     df_is_finite = (\<lambda>_. True), df_is_nan = (\<lambda>_. False), df_clamp_unit = min 1, df_try_duration = Some,
     df_mul_duration = (*), df_zero = 0, df_one = 1, df_two = 2, df_quarter = 0 \<rparr>"

definition demo_env :: "(unit, unit, nat, nat) retry_env" where
  "demo_env = \<lparr> re_advice = (\<lambda>_ _ _ _. None), re_evaluate = (\<lambda>_ _ w. (Inr decide_retry, w)), re_random = (\<lambda>w. (0, w)),
     re_sleep = (\<lambda>_ w. (Inr (), w)) \<rparr>"

definition demo_settings :: "(nat, unit, unit) model_retry_settings" where
  "demo_settings = retry_settings_new \<lparr> rt_max_retries := Some 2, rt_policy := Some () \<rparr>"

text \<open>The first request times out, the second one answers.\<close>

definition demo_request :: "(unit, unit, nat) model_attempt" where
  "demo_request attempt w =
     (if attempt = 0 then (Inl (ProviderError PTimeout [] None), \<lparr> cc_published = False, cc_dispatched = False \<rparr>, w)
      else (Inr (model_response_new []), \<lparr> cc_published = True, cc_dispatched = False \<rparr>, w))"

lemma demo_gate:
  "evaluate_retry demo_f64 demo_env (Some demo_settings) NoContinuation 0 2 (ProviderError PTimeout [] None)
     \<lparr> cc_published = False, cc_dispatched = False \<rparr> 0 = (Inr (Some (decide_retry, 500000000)), 0)"
  by (simp add: evaluate_retry_def demo_settings_def demo_env_def consumption_any_def error_is_cancelled_def
      error_is_retryable_def tier_is_retryable_def advised_safety_def replay_safety_of_def normalized_from_error_def
      decide_retry_def is_server_managed_def backoff_delay_def backoff_from_settings_def backoff_new_def
      retry_settings_new_def base_delay_def demo_f64_def backoff_exponent_def DEFAULT_INITIAL_DELAY_def DEFAULT_MAX_DELAY_def
      jitter_sample_new_def)

theorem retry_gate_is_safe_witness:
  "(0::u32) < 2 \<and> rd_retry decide_retry \<and> error_is_retryable (ProviderError PTimeout [] None :: unit core_error)"
  using retry_gate_is_safe [OF demo_gate] by simp

lemma demo_call:
  "call_model demo_f64 id (logged_env demo_env) (logged_request demo_request)
     \<lparr> rq_system_instructions = None, rq_retry = Some demo_settings, rq_continuation = NoContinuation, rq_cache_plan = None \<rparr> (0, [])
   = (Inr (model_response_new [] \<lparr> mr_usage := prepend_failed_attempts (mr_usage (model_response_new [])) 1 \<rparr>),
      (0, [(0, Inl (ProviderError PTimeout [] None), \<lparr> cc_published = False, cc_dispatched = False \<rparr>),
           (1, Inr (model_response_new []), \<lparr> cc_published = True, cc_dispatched = False \<rparr>)]))"
proof -
  have max: "Option.bind (Some demo_settings) rt_max_retries = Some 2" by (simp add: demo_settings_def)
  have gate: "evaluate_retry demo_f64 (logged_env demo_env) (Some demo_settings) NoContinuation 0 2
      (ProviderError PTimeout [] None :: unit core_error) \<lparr> cc_published = False, cc_dispatched = False \<rparr> (0, log)
      = (Inr (Some (decide_retry, 500000000)), (0, log))" for log :: "(unit, unit) attempt_log"
    by (simp add: evaluate_retry_def demo_settings_def demo_env_def logged_env_def consumption_any_def error_is_cancelled_def
        error_is_retryable_def tier_is_retryable_def advised_safety_def replay_safety_of_def normalized_from_error_def
        decide_retry_def is_server_managed_def backoff_delay_def backoff_from_settings_def backoff_new_def
        retry_settings_new_def base_delay_def demo_f64_def backoff_exponent_def DEFAULT_INITIAL_DELAY_def DEFAULT_MAX_DELAY_def
        jitter_sample_new_def)
  have inc: "saturating_add 0 (1 :: u32) = 1" by (simp add: saturating_add_def)
  show ?thesis
    apply (simp only: call_model_def Let_def validate_cache_plan_def call_request.simps max option.case sum.case)
    apply (subst call_model_loop.simps)
    apply (simp add: logged_request_def demo_request_def gate inc)
    apply (subst call_model_loop.simps)
    apply (simp add: logged_request_def demo_request_def logged_env_def demo_env_def inc)
    done
qed


end
