(* ===== verification/Admission_Gate.thy ===== *)
theory Admission_Gate
  imports Budget "HOL-Library.List_Lexorder" "HOL-Library.Product_Lexorder" "HOL-Library.Option_ord" "HOL-Library.Multiset"
begin

text \<open>
  Concurrent tool calls. Resource identities and claims (\<^verbatim>\<open>ra-core/src/tool/resource.rs\<close>), the gate that
  admits the calls of one response (\<^verbatim>\<open>ResourceAdmissionGate\<close> in \<^verbatim>\<open>ra-runtime/src/turn/batch.rs\<close>), and the
  order in which a dispatch task goes through slot, checks, permits and invocation (\<^verbatim>\<open>spawn_dispatch_task\<close> there,
  \<^verbatim>\<open>run_chain\<close> in \<^verbatim>\<open>tool/dispatch.rs\<close>) as a step relation on the tasks of a turn. The lock and the semaphore of tokio
  are arguments with the laws of the locale \<open>admission_primitives\<close>. Shown: calls that run at the same time
  hold no conflicting claims, and the tasks never block each other for good.
\<close>

section \<open>Resources and claims\<close>

datatype resource_kind = Workspace | Process | CustomKind ustring

definition kind_known :: "ustring \<Rightarrow> resource_kind option" where
  "kind_known name =
     (if name = lit ''workspace'' then Some Workspace else if name = lit ''process'' then Some Process else None)"

definition kind_custom :: "ustring \<Rightarrow> resource_kind" where
  "kind_custom name = (case kind_known name of Some k \<Rightarrow> k | None \<Rightarrow> CustomKind name)"

fun kind_as_str :: "resource_kind \<Rightarrow> ustring" where
  "kind_as_str Workspace = lit ''workspace''"
| "kind_as_str Process = lit ''process''"
| "kind_as_str (CustomKind name) = name"

datatype resource_id = ResourceId (rid_kind: resource_kind) (rid_value: ustring)

datatype resource_error = InvalidKindName | InvalidResourceValue

definition clean_name :: "ustring \<Rightarrow> bool" where
  "clean_name v \<longleftrightarrow> \<not> (v = [] \<or> trim v \<noteq> v \<or> list_ex is_control v)"

definition resource_id_new :: "resource_kind \<Rightarrow> ustring \<Rightarrow> resource_error + resource_id" where
  "resource_id_new kind v =
     (case (case kind of
              CustomKind name \<Rightarrow> if \<not> clean_name name then Inl InvalidKindName else Inr (kind_custom name)
            | other \<Rightarrow> Inr other) of
        Inl e \<Rightarrow> Inl e
      | Inr kind' \<Rightarrow> if \<not> clean_name v then Inl InvalidResourceValue else Inr (ResourceId kind' v))"

datatype resource_access = Shared | Exclusive

definition access_conflicts :: "resource_access \<Rightarrow> resource_access \<Rightarrow> bool" where
  "access_conflicts a b \<longleftrightarrow> a = Exclusive \<or> b = Exclusive"

datatype resource_claim = ResourceClaim (rc_resource: resource_id) (rc_access: resource_access)

definition claims_conflict :: "resource_claim \<Rightarrow> resource_claim \<Rightarrow> bool" where
  "claims_conflict a b \<longleftrightarrow> rc_resource a = rc_resource b \<and> access_conflicts (rc_access a) (rc_access b)"

text \<open>The derived order compares the variant, then the name within it, then the value.\<close>

fun kind_rank :: "resource_kind \<Rightarrow> nat \<times> ustring" where
  "kind_rank Workspace = (0, [])"
| "kind_rank Process = (1, [])"
| "kind_rank (CustomKind name) = (2, name)"

definition resource_rank :: "resource_id \<Rightarrow> (nat \<times> ustring) \<times> ustring" where
  "resource_rank r = (kind_rank (rid_kind r), rid_value r)"

lemma resource_rank_inject [simp]: "resource_rank a = resource_rank b \<longleftrightarrow> a = b"
  by (cases a; cases b; cases "rid_kind a"; cases "rid_kind b") (auto simp: resource_rank_def)

instantiation resource_id :: linorder
begin

definition less_eq_resource_id :: "resource_id \<Rightarrow> resource_id \<Rightarrow> bool" where
  "less_eq_resource_id a b \<longleftrightarrow> resource_rank a \<le> resource_rank b"

definition less_resource_id :: "resource_id \<Rightarrow> resource_id \<Rightarrow> bool" where
  "less_resource_id a b \<longleftrightarrow> resource_rank a < resource_rank b"

instance
  by standard
    (auto simp only: less_eq_resource_id_def less_resource_id_def resource_rank_inject [symmetric] dest: order.antisym)

end

text \<open>Claims are folded into a list that keeps one claim per resource, the strongest, and sorted by resource.\<close>

fun fold_claim :: "resource_claim \<Rightarrow> resource_claim list \<Rightarrow> resource_claim list" where
  "fold_claim claim [] = [claim]"
| "fold_claim claim (c # result) =
     (if rc_resource c = rc_resource claim
      then (if rc_access claim = Exclusive then ResourceClaim (rc_resource c) Exclusive else c) # result
      else c # fold_claim claim result)"

definition deduplicate :: "resource_claim list \<Rightarrow> resource_claim list" where
  "deduplicate claims = sort_key rc_resource (fold fold_claim claims [])"

section \<open>The gate\<close>

text \<open>What the gate uses of \<^verbatim>\<open>tokio::sync::RwLock\<close> and \<^verbatim>\<open>Semaphore\<close>: locks live in a store under
  addresses; polling the future of \<^verbatim>\<open>read_owned\<close> or \<^verbatim>\<open>write_owned\<close> enqueues it, it completes when it is ready, and
  dropping the future or its guard withdraws it.\<close>

record ('l, 'm) gate_ops =
  rw_new :: "'l \<Rightarrow> nat \<times> 'l"
  rw_enqueue :: "nat \<Rightarrow> nat \<Rightarrow> resource_access \<Rightarrow> 'l \<Rightarrow> 'l"
  rw_ready :: "nat \<Rightarrow> nat \<Rightarrow> 'l \<Rightarrow> bool"
  rw_take :: "nat \<Rightarrow> nat \<Rightarrow> 'l \<Rightarrow> 'l"
  rw_forget :: "nat \<Rightarrow> nat \<Rightarrow> 'l \<Rightarrow> 'l"
  rw_release :: "nat \<Rightarrow> nat \<Rightarrow> 'l \<Rightarrow> 'l"
  rw_known :: "'l \<Rightarrow> nat set"
  rw_holders :: "'l \<Rightarrow> nat \<Rightarrow> (nat \<times> resource_access) set"
  rw_waiters :: "'l \<Rightarrow> nat \<Rightarrow> (nat \<times> resource_access) set"
  sm_new :: "nat \<Rightarrow> 'm"
  sm_free :: "'m \<Rightarrow> nat"
  sm_take :: "'m \<Rightarrow> 'm"
  sm_put :: "'m \<Rightarrow> 'm"
  sm_max :: nat

record ('l, 'm) admission_gate =
  ga_locks :: 'l
  ga_global :: nat
  ga_resource_locks :: "resource_id \<rightharpoonup> nat"
  ga_slots :: 'm

definition gate_new :: "('l, 'm) gate_ops \<Rightarrow> nat \<Rightarrow> 'l \<Rightarrow> ('l, 'm) admission_gate" where
  "gate_new ops slots l =
     (let (a, l') = rw_new ops l
      in \<lparr> ga_locks = l', ga_global = a, ga_resource_locks = Map.empty, ga_slots = sm_new ops slots \<rparr>)"

definition get_or_create_lock ::
  "('l, 'm) gate_ops \<Rightarrow> resource_id \<Rightarrow> ('l, 'm) admission_gate \<Rightarrow> nat \<times> ('l, 'm) admission_gate" where
  "get_or_create_lock ops resource g =
     (case ga_resource_locks g resource of
        Some a \<Rightarrow> (a, g)
      | None \<Rightarrow>
          let (a, l) = rw_new ops (ga_locks g)
          in (a, g \<lparr> ga_locks := l, ga_resource_locks := (ga_resource_locks g)(resource \<mapsto> a) \<rparr>))"

datatype tool_concurrency = ExclusiveTool | ParallelTool

text \<open>A lock is named by the resource it protects, the global gate by \<open>None\<close>, which precedes every
  resource.\<close>

type_synonym lock_key = "resource_id option"

definition gate_lock ::
  "('l, 'm) gate_ops \<Rightarrow> lock_key \<Rightarrow> ('l, 'm) admission_gate \<Rightarrow> nat \<times> ('l, 'm) admission_gate" where
  "gate_lock ops key g = (case key of None \<Rightarrow> (ga_global g, g) | Some resource \<Rightarrow> get_or_create_lock ops resource g)"

text \<open>The permits \<^verbatim>\<open>acquire_permits\<close> takes, in its order.\<close>

definition permit_plan :: "tool_concurrency \<Rightarrow> resource_claim list \<Rightarrow> (lock_key \<times> resource_access) list" where
  "permit_plan concurrency claims =
     (case concurrency of
        ExclusiveTool \<Rightarrow> [(None, Exclusive)]
      | ParallelTool \<Rightarrow>
          (None, Shared) # (if claims = [] then []
                            else map (\<lambda>claim. (Some (rc_resource claim), rc_access claim)) (deduplicate claims)))"

section \<open>Dispatch tasks\<close>

text \<open>A permit is the lock it was taken on, its address and the access. A task waits for its slot, runs the
  checks ahead of admission, acquires its permits one by one, invokes the tool, drops the permits and
  settles its output; the slot is held from the first check to the end.\<close>

type_synonym permit = "lock_key \<times> nat \<times> resource_access"

datatype task_phase =
  WantSlot
| Checking
| Acquiring tool_concurrency "resource_claim list" "permit list" "(lock_key \<times> resource_access) list"
| Waiting tool_concurrency "resource_claim list" "permit list" permit "(lock_key \<times> resource_access) list"
| Invoking tool_concurrency "resource_claim list" "permit list"
| Settling
| Finished

record ('l, 'm) turn_tasks =
  tt_gate :: "('l, 'm) admission_gate"
  tt_phases :: "task_phase list"

definition drop_permits :: "('l, 'm) gate_ops \<Rightarrow> nat \<Rightarrow> permit list \<Rightarrow> 'l \<Rightarrow> 'l" where
  "drop_permits ops t held l = fold (\<lambda>(_, a, _). rw_release ops a t) held l"

definition set_phase_of :: "nat \<Rightarrow> task_phase \<Rightarrow> ('l, 'm) turn_tasks \<Rightarrow> ('l, 'm) turn_tasks" where
  "set_phase_of t p s = s \<lparr> tt_phases := (tt_phases s)[t := p] \<rparr>"

definition with_locks :: "('l \<Rightarrow> 'l) \<Rightarrow> ('l, 'm) turn_tasks \<Rightarrow> ('l, 'm) turn_tasks" where
  "with_locks f s = s \<lparr> tt_gate := (tt_gate s) \<lparr> ga_locks := f (ga_locks (tt_gate s)) \<rparr> \<rparr>"

definition with_slots :: "('m \<Rightarrow> 'm) \<Rightarrow> ('l, 'm) turn_tasks \<Rightarrow> ('l, 'm) turn_tasks" where
  "with_slots f s = s \<lparr> tt_gate := (tt_gate s) \<lparr> ga_slots := f (ga_slots (tt_gate s)) \<rparr> \<rparr>"

inductive admit_step :: "('l, 'm) gate_ops \<Rightarrow> ('l, 'm) turn_tasks \<Rightarrow> ('l, 'm) turn_tasks \<Rightarrow> bool" for ops where
  take_slot:
    "t < length (tt_phases s) \<Longrightarrow> tt_phases s ! t = WantSlot \<Longrightarrow> 0 < sm_free ops (ga_slots (tt_gate s)) \<Longrightarrow>
     admit_step ops s (set_phase_of t Checking (with_slots (sm_take ops) s))"
| refuse:
    "t < length (tt_phases s) \<Longrightarrow> tt_phases s ! t = Checking \<Longrightarrow> admit_step ops s (set_phase_of t Settling s)"
| declare_claims:
    "t < length (tt_phases s) \<Longrightarrow> tt_phases s ! t = Checking \<Longrightarrow>
     admit_step ops s (set_phase_of t (Acquiring concurrency claims [] (permit_plan concurrency claims)) s)"
| enqueue:
    "t < length (tt_phases s) \<Longrightarrow> tt_phases s ! t = Acquiring concurrency claims held ((key, access) # todo) \<Longrightarrow>
     gate_lock ops key (tt_gate s) = (a, g) \<Longrightarrow>
     admit_step ops s (set_phase_of t (Waiting concurrency claims held (key, a, access) todo)
       (with_locks (rw_enqueue ops a t access) (s \<lparr> tt_gate := g \<rparr>)))"
| acquire:
    "t < length (tt_phases s) \<Longrightarrow> tt_phases s ! t = Waiting concurrency claims held (key, a, access) todo \<Longrightarrow>
     rw_ready ops a t (ga_locks (tt_gate s)) \<Longrightarrow>
     admit_step ops s (set_phase_of t (Acquiring concurrency claims (held @ [(key, a, access)]) todo)
       (with_locks (rw_take ops a t) s))"
| invoke:
    "t < length (tt_phases s) \<Longrightarrow> tt_phases s ! t = Acquiring concurrency claims held [] \<Longrightarrow>
     admit_step ops s (set_phase_of t (Invoking concurrency claims held) s)"
| invoked:
    "t < length (tt_phases s) \<Longrightarrow> tt_phases s ! t = Invoking concurrency claims held \<Longrightarrow>
     admit_step ops s (set_phase_of t Settling (with_locks (drop_permits ops t held) s))"
| settle:
    "t < length (tt_phases s) \<Longrightarrow> tt_phases s ! t = Settling \<Longrightarrow>
     admit_step ops s (set_phase_of t Finished (with_slots (sm_put ops) s))"

text \<open>A cancelled task returns early from whatever it awaits: the pending future, the permits and the slot
  are dropped.\<close>

fun phase_held :: "task_phase \<Rightarrow> permit list" where
  "phase_held (Acquiring _ _ held _) = held"
| "phase_held (Waiting _ _ held _ _) = held"
| "phase_held (Invoking _ _ held) = held"
| "phase_held _ = []"

fun phase_wait :: "task_phase \<Rightarrow> permit option" where
  "phase_wait (Waiting _ _ _ p _) = Some p"
| "phase_wait _ = None"

definition phase_slot :: "task_phase \<Rightarrow> bool" where
  "phase_slot p \<longleftrightarrow> p \<noteq> WantSlot \<and> p \<noteq> Finished"

definition abandon :: "('l, 'm) gate_ops \<Rightarrow> nat \<Rightarrow> task_phase \<Rightarrow> ('l, 'm) turn_tasks \<Rightarrow> ('l, 'm) turn_tasks" where
  "abandon ops t p s =
     set_phase_of t Finished
       (with_slots (if phase_slot p then sm_put ops else id)
         (with_locks (\<lambda>l. drop_permits ops t (phase_held p)
            (case phase_wait p of Some (_, a, _) \<Rightarrow> rw_forget ops a t l | None \<Rightarrow> l)) s))"

inductive turn_step :: "('l, 'm) gate_ops \<Rightarrow> ('l, 'm) turn_tasks \<Rightarrow> ('l, 'm) turn_tasks \<Rightarrow> bool" for ops where
  run: "admit_step ops s s' \<Longrightarrow> turn_step ops s s'"
| cancel: "t < length (tt_phases s) \<Longrightarrow> tt_phases s ! t \<noteq> Finished \<Longrightarrow> turn_step ops s (abandon ops t (tt_phases s ! t) s)"
| spawn: "turn_step ops s (s \<lparr> tt_phases := tt_phases s @ [WantSlot] \<rparr>)"

definition turn_start :: "('l, 'm) gate_ops \<Rightarrow> nat \<Rightarrow> 'l \<Rightarrow> ('l, 'm) turn_tasks" where
  "turn_start ops slots l = \<lparr> tt_gate = gate_new ops slots l, tt_phases = [] \<rparr>"

abbreviation turn_reaches :: "('l, 'm) gate_ops \<Rightarrow> ('l, 'm) turn_tasks \<Rightarrow> ('l, 'm) turn_tasks \<Rightarrow> bool" where
  "turn_reaches ops \<equiv> (turn_step ops)\<^sup>*\<^sup>*"

section \<open>Claims are kept at their strongest\<close>

lemma fold_claim_resources: "rc_resource ` set (fold_claim c xs) = insert (rc_resource c) (rc_resource ` set xs)"
  by (induction xs) auto

lemma fold_claim_distinct:
  "distinct (map rc_resource xs) \<Longrightarrow> distinct (map rc_resource (fold_claim c xs))"
proof (induction xs)
  case (Cons x xs)
  then show ?case using fold_claim_resources [of c xs] by (auto simp: image_iff)
qed simp

lemma fold_claim_exclusive:
  "ResourceClaim r Exclusive \<in> set (fold_claim c xs) \<longleftrightarrow> c = ResourceClaim r Exclusive \<or> ResourceClaim r Exclusive \<in> set xs"
proof (induction xs)
  case (Cons x xs)
  then show ?case by (cases x; cases c) auto
qed auto

lemma fold_claims:
  "rc_resource ` set (fold fold_claim cs xs) = rc_resource ` set cs \<union> rc_resource ` set xs"
  "distinct (map rc_resource xs) \<Longrightarrow> distinct (map rc_resource (fold fold_claim cs xs))"
  "ResourceClaim r Exclusive \<in> set (fold fold_claim cs xs) \<longleftrightarrow> ResourceClaim r Exclusive \<in> set cs \<union> set xs"
  by (induction cs arbitrary: xs) (auto simp: fold_claim_resources fold_claim_distinct fold_claim_exclusive)

lemma deduplicate_facts:
  "rc_resource ` set (deduplicate claims) = rc_resource ` set claims"
  "sorted_wrt (<) (map rc_resource (deduplicate claims))"
  "ResourceClaim r Exclusive \<in> set (deduplicate claims) \<longleftrightarrow> ResourceClaim r Exclusive \<in> set claims"
proof -
  show "rc_resource ` set (deduplicate claims) = rc_resource ` set claims"
    by (simp add: deduplicate_def fold_claims)
  have "distinct (map rc_resource (deduplicate claims))"
    using fold_claims(2) [of "[]" claims] by (simp add: deduplicate_def distinct_map) 
  then show "sorted_wrt (<) (map rc_resource (deduplicate claims))"
    by (simp add: strict_sorted_iff deduplicate_def)
  show "ResourceClaim r Exclusive \<in> set (deduplicate claims) \<longleftrightarrow> ResourceClaim r Exclusive \<in> set claims"
    by (simp add: deduplicate_def fold_claims)
qed

lemma permit_plan_sorted: "sorted_wrt (<) (map fst (permit_plan concurrency claims))"
proof (cases concurrency)
  case ParallelTool
  have "sorted_wrt (<) (map (\<lambda>claim. Some (rc_resource claim)) (deduplicate claims))"
    using deduplicate_facts(2) [of claims] by (simp add: sorted_wrt_map)
  then show ?thesis using ParallelTool by (simp add: permit_plan_def comp_def)
qed (simp add: permit_plan_def)

lemma permit_plan_covers:
  assumes "claim \<in> set claims"
  obtains access where "(Some (rc_resource claim), access) \<in> set (permit_plan ParallelTool claims)"
    and "rc_access claim = Exclusive \<Longrightarrow> access = Exclusive"
proof -
  have plan: "set (permit_plan ParallelTool claims)
      = insert (None, Shared) ((\<lambda>c. (Some (rc_resource c), rc_access c)) ` set (deduplicate claims))"
    using assms by (auto simp: permit_plan_def)
  show ?thesis
  proof (cases "rc_access claim")
    case Exclusive
    then have "ResourceClaim (rc_resource claim) Exclusive \<in> set (deduplicate claims)"
      using assms deduplicate_facts(3) by (cases claim) auto
    then have "(Some (rc_resource claim), Exclusive) \<in> set (permit_plan ParallelTool claims)"
      unfolding plan by (intro insertI2) (rule image_eqI [rotated], assumption, simp)
    then show ?thesis by (rule that) simp
  next
    case Shared
    have "rc_resource claim \<in> rc_resource ` set (deduplicate claims)"
      unfolding deduplicate_facts(1) using assms by simp
    then obtain c where c: "c \<in> set (deduplicate claims)" "rc_resource claim = rc_resource c" by (rule imageE)
    then have "(Some (rc_resource claim), rc_access c) \<in> set (permit_plan ParallelTool claims)"
      unfolding plan by (intro insertI2) (rule image_eqI [rotated], assumption, simp)
    then show ?thesis by (rule that) (simp add: Shared)
  qed
qed

section \<open>What the locks promise\<close>

locale admission_primitives =
  fixes ops :: "('l, 'm) gate_ops"
  assumes new_law: "rw_new ops l = (a, l') \<Longrightarrow> a \<notin> rw_known ops l \<and> rw_known ops l' = insert a (rw_known ops l)
      \<and> rw_holders ops l' = rw_holders ops l \<and> rw_waiters ops l' = rw_waiters ops l"
    and unknown_law: "a \<notin> rw_known ops l \<Longrightarrow> rw_holders ops l a = {} \<and> rw_waiters ops l a = {}"
    and enqueue_law: "a \<in> rw_known ops l \<Longrightarrow> rw_known ops (rw_enqueue ops a t access l) = rw_known ops l
      \<and> rw_holders ops (rw_enqueue ops a t access l) = rw_holders ops l
      \<and> rw_waiters ops (rw_enqueue ops a t access l) = (rw_waiters ops l)(a := insert (t, access) (rw_waiters ops l a))"
    and take_law: "rw_ready ops a t l \<Longrightarrow> {b. (t, b) \<in> rw_waiters ops l a} = {access} \<Longrightarrow>
      rw_known ops (rw_take ops a t l) = rw_known ops l
      \<and> rw_holders ops (rw_take ops a t l) = (rw_holders ops l)(a := insert (t, access) (rw_holders ops l a))
      \<and> rw_waiters ops (rw_take ops a t l) = (rw_waiters ops l)(a := {w \<in> rw_waiters ops l a. fst w \<noteq> t})"
    and exclusion_law: "rw_ready ops a t l \<Longrightarrow> {b. (t, b) \<in> rw_waiters ops l a} = {access} \<Longrightarrow> (u, other) \<in> rw_holders ops l a \<Longrightarrow>
      \<not> access_conflicts access other"
    and forget_law: "rw_known ops (rw_forget ops a t l) = rw_known ops l
      \<and> rw_holders ops (rw_forget ops a t l) = rw_holders ops l
      \<and> rw_waiters ops (rw_forget ops a t l) = (rw_waiters ops l)(a := {w \<in> rw_waiters ops l a. fst w \<noteq> t})"
    and release_law: "rw_known ops (rw_release ops a t l) = rw_known ops l
      \<and> rw_holders ops (rw_release ops a t l) = (rw_holders ops l)(a := {h \<in> rw_holders ops l a. fst h \<noteq> t})
      \<and> rw_waiters ops (rw_release ops a t l) = rw_waiters ops l"
    and progress_law: "rw_waiters ops l a \<noteq> {} \<Longrightarrow> rw_holders ops l a = {} \<Longrightarrow> \<exists>t. t \<in> fst ` rw_waiters ops l a \<and> rw_ready ops a t l"
    and slot_new_law: "sm_free ops (sm_new ops n) = n"
    and slot_take_law: "0 < sm_free ops m \<Longrightarrow> sm_free ops (sm_take ops m) = sm_free ops m - 1"
    and slot_put_law: "sm_free ops (sm_put ops m) = Suc (sm_free ops m)"
    and slot_max_law: "0 < sm_max ops"

section \<open>The invariant\<close>

definition lock_addr :: "('l, 'm) admission_gate \<Rightarrow> lock_key \<rightharpoonup> nat" where
  "lock_addr g key = (case key of None \<Rightarrow> Some (ga_global g) | Some resource \<Rightarrow> ga_resource_locks g resource)"

abbreviation wanted :: "permit list \<Rightarrow> (lock_key \<times> resource_access) list" where
  "wanted \<equiv> map (\<lambda>(key, _, access). (key, access))"

text \<open>The permits a task holds, waits for and has still to ask for are its plan, in order.\<close>

fun on_plan :: "task_phase \<Rightarrow> bool" where
  "on_plan (Acquiring concurrency claims held todo) \<longleftrightarrow> wanted held @ todo = permit_plan concurrency claims"
| "on_plan (Waiting concurrency claims held p todo) \<longleftrightarrow> wanted (held @ [p]) @ todo = permit_plan concurrency claims"
| "on_plan (Invoking concurrency claims held) \<longleftrightarrow> wanted held = permit_plan concurrency claims"
| "on_plan _ \<longleftrightarrow> True"

definition phase_permits :: "task_phase \<Rightarrow> permit list" where
  "phase_permits p = phase_held p @ (case phase_wait p of Some q \<Rightarrow> [q] | None \<Rightarrow> [])"

definition phase_ok :: "('l, 'm) admission_gate \<Rightarrow> task_phase \<Rightarrow> bool" where
  "phase_ok g p \<longleftrightarrow> on_plan p \<and> (\<forall>(key, a, access) \<in> set (phase_permits p). lock_addr g key = Some a)"

definition held_by :: "task_phase list \<Rightarrow> nat \<Rightarrow> (nat \<times> resource_access) set" where
  "held_by ps a = {(t, access). t < length ps \<and> (\<exists>key. (key, a, access) \<in> set (phase_held (ps ! t)))}"

definition awaited_by :: "task_phase list \<Rightarrow> nat \<Rightarrow> (nat \<times> resource_access) set" where
  "awaited_by ps a = {(t, access). t < length ps \<and> (\<exists>key. phase_wait (ps ! t) = Some (key, a, access))}"

definition addresses_ok :: "('l, 'm) gate_ops \<Rightarrow> ('l, 'm) admission_gate \<Rightarrow> bool" where
  "addresses_ok ops g \<longleftrightarrow>
     (\<forall>key a. lock_addr g key = Some a \<longrightarrow> a \<in> rw_known ops (ga_locks g) \<and> (\<forall>key'. lock_addr g key' = Some a \<longrightarrow> key' = key))"

definition tasks_ok :: "('l, 'm) gate_ops \<Rightarrow> nat \<Rightarrow> ('l, 'm) turn_tasks \<Rightarrow> bool" where
  "tasks_ok ops n s \<longleftrightarrow>
     addresses_ok ops (tt_gate s)
     \<and> (\<forall>t < length (tt_phases s). phase_ok (tt_gate s) (tt_phases s ! t))
     \<and> rw_holders ops (ga_locks (tt_gate s)) = held_by (tt_phases s)
     \<and> rw_waiters ops (ga_locks (tt_gate s)) = awaited_by (tt_phases s)
     \<and> (\<forall>a t u b c. (t, b) \<in> held_by (tt_phases s) a \<longrightarrow> (u, c) \<in> held_by (tt_phases s) a \<longrightarrow> t \<noteq> u \<longrightarrow> \<not> access_conflicts b c)
     \<and> sm_free ops (ga_slots (tt_gate s)) + length (filter phase_slot (tt_phases s)) = n"

lemma held_by_update:
  "t < length ps \<Longrightarrow> held_by (ps[t := p]) a =
     {h \<in> held_by ps a. fst h \<noteq> t} \<union> {(t, access) | access. \<exists>key. (key, a, access) \<in> set (phase_held p)}"
  by (auto simp: held_by_def nth_list_update split: if_splits)

lemma awaited_by_update:
  "t < length ps \<Longrightarrow> awaited_by (ps[t := p]) a =
     {w \<in> awaited_by ps a. fst w \<noteq> t} \<union> {(t, access) | access. \<exists>key. phase_wait p = Some (key, a, access)}"
  by (auto simp: awaited_by_def nth_list_update split: if_splits)

lemma slots_update:
  "t < length ps \<Longrightarrow> length (filter phase_slot (ps[t := p])) + (if phase_slot (ps ! t) then 1 else 0)
     = length (filter phase_slot ps) + (if phase_slot p then 1 else 0)"
proof (induction ps arbitrary: t)
  case (Cons x ps)
  then show ?case using Cons.IH [of "t - 1"] by (cases t) auto
qed simp

lemma held_by_snoc [simp]: "held_by (ps @ [WantSlot]) = held_by ps" "awaited_by (ps @ [WantSlot]) = awaited_by ps"
  by (auto simp: held_by_def awaited_by_def nth_append fun_eq_iff split: if_splits)

lemma access_conflicts_commute: "access_conflicts b c \<longleftrightarrow> access_conflicts c b"
  by (auto simp: access_conflicts_def)

lemma tasks_okD:
  assumes "tasks_ok ops n s"
  shows "addresses_ok ops (tt_gate s)"
    and "t < length (tt_phases s) \<Longrightarrow> phase_ok (tt_gate s) (tt_phases s ! t)"
    and "rw_holders ops (ga_locks (tt_gate s)) = held_by (tt_phases s)"
    and "rw_waiters ops (ga_locks (tt_gate s)) = awaited_by (tt_phases s)"
    and "(t, b) \<in> held_by (tt_phases s) a \<Longrightarrow> (u, c) \<in> held_by (tt_phases s) a \<Longrightarrow> t \<noteq> u \<Longrightarrow> \<not> access_conflicts b c"
    and "sm_free ops (ga_slots (tt_gate s)) + length (filter phase_slot (tt_phases s)) = n"
  using assms unfolding tasks_ok_def by blast+

text \<open>One task moves on: what has to be shown of the gate and of its new phase.\<close>

lemma tasks_ok_move:
  assumes ok: "tasks_ok ops n s" and t: "t < length (tt_phases s)"
    and addr: "addresses_ok ops g" and ext: "\<And>key a. lock_addr (tt_gate s) key = Some a \<Longrightarrow> lock_addr g key = Some a"
    and p: "phase_ok g p"
    and holders: "\<And>a. rw_holders ops (ga_locks g) a =
      {h \<in> held_by (tt_phases s) a. fst h \<noteq> t} \<union> {(t, access) | access. \<exists>key. (key, a, access) \<in> set (phase_held p)}"
    and waiters: "\<And>a. rw_waiters ops (ga_locks g) a =
      {w \<in> awaited_by (tt_phases s) a. fst w \<noteq> t} \<union> {(t, access) | access. \<exists>key. phase_wait p = Some (key, a, access)}"
    and fresh: "\<And>key a access u b. (key, a, access) \<in> set (phase_held p) \<Longrightarrow> (u, b) \<in> held_by (tt_phases s) a \<Longrightarrow> u \<noteq> t \<Longrightarrow>
      \<not> access_conflicts access b"
    and slots: "sm_free ops (ga_slots g) + (if phase_slot p then 1 else 0)
      = sm_free ops (ga_slots (tt_gate s)) + (if phase_slot (tt_phases s ! t) then 1 else 0)"
  shows "tasks_ok ops n \<lparr> tt_gate = g, tt_phases = (tt_phases s)[t := p] \<rparr>"
proof -
  note D = tasks_okD [OF ok]
  have phases: "phase_ok g ((tt_phases s)[t := p] ! u)" if "u < length (tt_phases s)" for u
    using D(2) [OF that] ext p by (cases "u = t") (auto simp: phase_ok_def t)
  have excl: "\<not> access_conflicts b c"
    if h: "(v, b) \<in> held_by ((tt_phases s)[t := p]) a" "(u, c) \<in> held_by ((tt_phases s)[t := p]) a" "v \<noteq> u" for a v u b c
  proof -
    consider "v = t" "u \<noteq> t" | "u = t" "v \<noteq> t" | "v \<noteq> t" "u \<noteq> t" using h(3) by blast
    then show ?thesis
    proof cases
      case 1
      then show ?thesis using h(1,2) fresh [of _ a b u c] by (auto simp: held_by_update [OF t])
    next
      case 2
      then show ?thesis using h(1,2) fresh [of _ a c v b] access_conflicts_commute by (auto simp: held_by_update [OF t])
    next
      case 3
      then show ?thesis using h D(5) [of v b a u c] by (auto simp: held_by_update [OF t])
    qed
  qed
  show ?thesis
    unfolding tasks_ok_def turn_tasks.simps
    using addr phases holders waiters excl slots D(6) slots_update [OF t, of p]
    by (auto simp: fun_eq_iff held_by_update [OF t] awaited_by_update [OF t])
qed

lemma set_phase_of_eq: "set_phase_of t p s = \<lparr> tt_gate = tt_gate s, tt_phases = (tt_phases s)[t := p] \<rparr>"
  by (simp add: set_phase_of_def)

lemma held_by_task: "t < length ps \<Longrightarrow> (t, access) \<in> held_by ps a \<longleftrightarrow> (\<exists>key. (key, a, access) \<in> set (phase_held (ps ! t)))"
  by (simp add: held_by_def)

lemma awaited_by_task: "t < length ps \<Longrightarrow> (t, access) \<in> awaited_by ps a \<longleftrightarrow> (\<exists>key. phase_wait (ps ! t) = Some (key, a, access))"
  by (simp add: awaited_by_def)

text \<open>What a set of holders or waiters is when the entries of one task are known.\<close>

lemma split_task: "X = {h \<in> X. fst h \<noteq> t} \<union> {(t, b) | b. (t, b) \<in> X}"
  by auto

lemma held_by_split:
  "t < length ps \<Longrightarrow> held_by ps a =
     {h \<in> held_by ps a. fst h \<noteq> t} \<union> {(t, access) | access. \<exists>key. (key, a, access) \<in> set (phase_held (ps ! t))}"
  using held_by_update [of t ps "ps ! t" a] by simp

lemma awaited_by_split:
  "t < length ps \<Longrightarrow> awaited_by ps a =
     {w \<in> awaited_by ps a. fst w \<noteq> t} \<union> {(t, access) | access. \<exists>key. phase_wait (ps ! t) = Some (key, a, access)}"
  using awaited_by_update [of t ps "ps ! t" a] by simp

text \<open>A move that leaves the locks alone.\<close>

lemma tasks_ok_quiet:
  assumes ok: "tasks_ok ops n s" and t: "t < length (tt_phases s)" and p: "on_plan p"
    and same: "phase_held p = phase_held (tt_phases s ! t)" "phase_wait p = None" "phase_wait (tt_phases s ! t) = None"
    and slots: "sm_free ops (f (ga_slots (tt_gate s))) + (if phase_slot p then 1 else 0)
      = sm_free ops (ga_slots (tt_gate s)) + (if phase_slot (tt_phases s ! t) then 1 else 0)"
  shows "tasks_ok ops n (set_phase_of t p (with_slots f s))"
proof -
  let ?g = "(tt_gate s) \<lparr> ga_slots := f (ga_slots (tt_gate s)) \<rparr>"
  note D = tasks_okD [OF ok]
  have la: "lock_addr ?g = lock_addr (tt_gate s)" by (auto simp: lock_addr_def fun_eq_iff split: option.splits)
  have phase: "phase_ok ?g p"
    using D(2) [OF t] p same by (simp add: phase_ok_def phase_permits_def la)
  have "tasks_ok ops n \<lparr> tt_gate = ?g, tt_phases = (tt_phases s)[t := p] \<rparr>"
  proof (rule tasks_ok_move [OF ok t _ _ phase])
    show "addresses_ok ops ?g" using D(1) by (simp add: addresses_ok_def la)
    show "rw_holders ops (ga_locks ?g) a = {h \<in> held_by (tt_phases s) a. fst h \<noteq> t}
        \<union> {(t, access) | access. \<exists>key. (key, a, access) \<in> set (phase_held p)}" for a
      using D(3) held_by_split [OF t, of a] same(1) by simp
    show "rw_waiters ops (ga_locks ?g) a = {w \<in> awaited_by (tt_phases s) a. fst w \<noteq> t}
        \<union> {(t, access) | access. \<exists>key. phase_wait p = Some (key, a, access)}" for a
      using D(4) awaited_by_split [OF t, of a] same(2,3) by simp
    show "\<not> access_conflicts access b"
      if "(key, a, access) \<in> set (phase_held p)" "(u, b) \<in> held_by (tt_phases s) a" "u \<noteq> t" for key a access u b
      using D(5) [of t access a u b] that held_by_task [OF t] same(1) by auto
  qed (use slots la in auto)
  then show ?thesis by (simp add: set_phase_of_eq with_slots_def)
qed

lemma with_slots_id [simp]: "with_slots id s = s"
  by (simp add: with_slots_def)

context admission_primitives
begin

lemma gate_lock_facts:
  assumes "gate_lock ops key g = (a, g')" and "addresses_ok ops g"
  shows "lock_addr g' key = Some a" and "addresses_ok ops g'" and "a \<in> rw_known ops (ga_locks g')"
    and "lock_addr g k = Some b \<Longrightarrow> lock_addr g' k = Some b"
    and "rw_holders ops (ga_locks g') = rw_holders ops (ga_locks g)"
    and "rw_waiters ops (ga_locks g') = rw_waiters ops (ga_locks g)"
    and "ga_slots g' = ga_slots g"
proof -
  have "lock_addr g' key = Some a \<and> addresses_ok ops g' \<and> (\<forall>k b. lock_addr g k = Some b \<longrightarrow> lock_addr g' k = Some b)
    \<and> rw_holders ops (ga_locks g') = rw_holders ops (ga_locks g) \<and> rw_waiters ops (ga_locks g') = rw_waiters ops (ga_locks g)
    \<and> ga_slots g' = ga_slots g"
  proof (cases "lock_addr g key")
    case (Some c)
    then have "a = c \<and> g' = g" using assms(1) by (auto simp: gate_lock_def get_or_create_lock_def lock_addr_def split: option.splits)
    then show ?thesis using Some assms(2) by simp
  next
    case None
    then obtain r where r: "key = Some r" "ga_resource_locks g r = None" by (auto simp: lock_addr_def split: option.splits)
    obtain c l where new: "rw_new ops (ga_locks g) = (c, l)" by (cases "rw_new ops (ga_locks g)")
    have g': "a = c" "g' = g \<lparr> ga_locks := l, ga_resource_locks := (ga_resource_locks g)(r \<mapsto> c) \<rparr>"
      using assms(1) r new by (auto simp: gate_lock_def get_or_create_lock_def)
    have la: "lock_addr g' = (lock_addr g)(Some r \<mapsto> c)" using g' by (auto simp: lock_addr_def fun_eq_iff split: option.splits)
    have known: "rw_known ops (ga_locks g') = insert c (rw_known ops (ga_locks g))" "c \<notin> rw_known ops (ga_locks g)"
      using new_law [OF new] g' by simp_all
    have "addresses_ok ops g'"
      using assms(2) known unfolding addresses_ok_def la by (auto split: if_splits)
    then show ?thesis using la r None new_law [OF new] g' by auto
  qed
  then show "lock_addr g' key = Some a" "addresses_ok ops g'" "lock_addr g k = Some b \<Longrightarrow> lock_addr g' k = Some b"
    "rw_holders ops (ga_locks g') = rw_holders ops (ga_locks g)" "rw_waiters ops (ga_locks g') = rw_waiters ops (ga_locks g)"
    "ga_slots g' = ga_slots g" "a \<in> rw_known ops (ga_locks g')"
    unfolding addresses_ok_def by blast+
qed

lemma drop_permits_facts:
  "rw_known ops (drop_permits ops t held l) = rw_known ops l"
  "rw_waiters ops (drop_permits ops t held l) = rw_waiters ops l"
  "rw_holders ops (drop_permits ops t held l) a =
     (if \<exists>key access. (key, a, access) \<in> set held then {h \<in> rw_holders ops l a. fst h \<noteq> t} else rw_holders ops l a)"
proof -
  have "rw_known ops (drop_permits ops t held l) = rw_known ops l
    \<and> rw_waiters ops (drop_permits ops t held l) = rw_waiters ops l
    \<and> rw_holders ops (drop_permits ops t held l) a =
       (if \<exists>key access. (key, a, access) \<in> set held then {h \<in> rw_holders ops l a. fst h \<noteq> t} else rw_holders ops l a)"
    using release_law
  proof (induction held arbitrary: l)
    case (Cons h held)
    obtain k b c where h: "h = (k, b, c)" by (cases h)
    have "drop_permits ops t (h # held) l = drop_permits ops t held (rw_release ops b t l)"
      by (simp add: drop_permits_def h)
    then show ?case using Cons.IH [of "rw_release ops b t l", OF Cons.prems] Cons.prems [of b t l] by (auto simp: h)
  qed (simp add: drop_permits_def)
  then show "rw_known ops (drop_permits ops t held l) = rw_known ops l"
    "rw_waiters ops (drop_permits ops t held l) = rw_waiters ops l"
    "rw_holders ops (drop_permits ops t held l) a =
     (if \<exists>key access. (key, a, access) \<in> set held then {h \<in> rw_holders ops l a. fst h \<noteq> t} else rw_holders ops l a)"
    by blast+
qed

text \<open>Dropping everything a task has: the end of the invocation, and cancellation in any phase.\<close>

lemma tasks_ok_dropped:
  assumes ok: "tasks_ok ops n s" and t: "t < length (tt_phases s)"
    and p: "on_plan p" "phase_permits p = []"
    and slots: "sm_free ops (f (ga_slots (tt_gate s))) + (if phase_slot p then 1 else 0)
      = sm_free ops (ga_slots (tt_gate s)) + (if phase_slot (tt_phases s ! t) then 1 else 0)"
  shows "tasks_ok ops n (set_phase_of t p (with_slots f (with_locks (\<lambda>l. drop_permits ops t (phase_held (tt_phases s ! t))
            (case phase_wait (tt_phases s ! t) of Some (_, a, _) \<Rightarrow> rw_forget ops a t l | None \<Rightarrow> l)) s)))"
proof -
  let ?q = "tt_phases s ! t" and ?l = "ga_locks (tt_gate s)"
  let ?l1 = "case phase_wait ?q of Some (_, a, _) \<Rightarrow> rw_forget ops a t ?l | None \<Rightarrow> ?l"
  let ?l2 = "drop_permits ops t (phase_held ?q) ?l1"
  let ?g = "(tt_gate s) \<lparr> ga_locks := ?l2, ga_slots := f (ga_slots (tt_gate s)) \<rparr>"
  note D = tasks_okD [OF ok]
  have la: "lock_addr ?g = lock_addr (tt_gate s)" by (auto simp: lock_addr_def fun_eq_iff split: option.splits)
  have l1: "rw_known ops ?l1 = rw_known ops ?l" "rw_holders ops ?l1 = rw_holders ops ?l"
    using forget_law by (auto split: option.splits)
  have none: "phase_held p = []" "phase_wait p = None" using p(2) by (auto simp: phase_permits_def split: option.splits)
  have waits: "rw_waiters ops ?l1 a = {w \<in> awaited_by (tt_phases s) a. fst w \<noteq> t}" for a
  proof (cases "phase_wait ?q")
    case None
    then show ?thesis using awaited_by_split [OF t, of a] D(4) by simp
  next
    case (Some q)
    obtain k b c where q: "q = (k, b, c)" by (cases q)
    have "rw_waiters ops ?l1 a = (if a = b then {w \<in> awaited_by (tt_phases s) a. fst w \<noteq> t} else awaited_by (tt_phases s) a)"
      using forget_law [of b t ?l] Some q D(4) by simp
    moreover have "awaited_by (tt_phases s) a = {w \<in> awaited_by (tt_phases s) a. fst w \<noteq> t}" if "a \<noteq> b"
      using awaited_by_split [OF t, of a] Some q that by auto
    ultimately show ?thesis by auto
  qed
  have phase: "phase_ok ?g p" using p by (simp add: phase_ok_def)
  have "tasks_ok ops n \<lparr> tt_gate = ?g, tt_phases = (tt_phases s)[t := p] \<rparr>"
  proof (rule tasks_ok_move [OF ok t _ _ phase])
    show "addresses_ok ops ?g" using D(1) l1 drop_permits_facts(1) by (simp add: addresses_ok_def la)
    show "rw_holders ops (ga_locks ?g) a = {h \<in> held_by (tt_phases s) a. fst h \<noteq> t}
        \<union> {(t, access) | access. \<exists>key. (key, a, access) \<in> set (phase_held p)}" for a
      using none l1 D(3) drop_permits_facts(3) held_by_task [OF t] by auto
    show "rw_waiters ops (ga_locks ?g) a = {w \<in> awaited_by (tt_phases s) a. fst w \<noteq> t}
        \<union> {(t, access) | access. \<exists>key. phase_wait p = Some (key, a, access)}" for a
      using none waits drop_permits_facts(2) by simp
  qed (use slots la none in auto)
  then show ?thesis by (simp add: set_phase_of_eq with_slots_def with_locks_def)
qed

lemma admit_step_ok:
  assumes "admit_step ops s s'" and "tasks_ok ops n s"
  shows "tasks_ok ops n s'"
  using assms
proof (induction rule: admit_step.induct)
  case (take_slot t s)
  then show ?case using slot_take_law by (intro tasks_ok_quiet) (auto simp: phase_slot_def)
next
  case (refuse t s)
  then show ?case using tasks_ok_quiet [where f = id, OF refuse.prems] by (simp add: phase_slot_def)
next
  case (declare_claims t s concurrency claims)
  then show ?case using tasks_ok_quiet [where f = id, OF declare_claims.prems] by (simp add: phase_slot_def)
next
  case (enqueue t s concurrency claims held key access todo a g)
  let ?p = "Waiting concurrency claims held (key, a, access) todo"
  let ?g = "g \<lparr> ga_locks := rw_enqueue ops a t access (ga_locks g) \<rparr>"
  note D = tasks_okD [OF enqueue.prems] and G = gate_lock_facts [OF enqueue.hyps(3) tasks_okD(1) [OF enqueue.prems]]
  note E = enqueue_law [OF G(3)]
  have la: "lock_addr ?g = lock_addr g" by (auto simp: lock_addr_def fun_eq_iff split: option.splits)
  have phase: "phase_ok ?g ?p"
    using D(2) [OF enqueue.hyps(1)] enqueue.hyps(2) G(1,4) by (auto simp: phase_ok_def phase_permits_def la)
  have "tasks_ok ops n \<lparr> tt_gate = ?g, tt_phases = (tt_phases s)[t := ?p] \<rparr>"
  proof (rule tasks_ok_move [OF enqueue.prems enqueue.hyps(1) _ _ phase])
    show "addresses_ok ops ?g" using G(2) E by (simp add: addresses_ok_def la)
    show "rw_holders ops (ga_locks ?g) b = {h \<in> held_by (tt_phases s) b. fst h \<noteq> t}
        \<union> {(t, access) | access. \<exists>key. (key, b, access) \<in> set (phase_held ?p)}" for b
      using E G(5) D(3) held_by_split [OF enqueue.hyps(1), of b] enqueue.hyps(2) by simp
    show "rw_waiters ops (ga_locks ?g) b = {w \<in> awaited_by (tt_phases s) b. fst w \<noteq> t}
        \<union> {(t, access) | access. \<exists>key. phase_wait ?p = Some (key, b, access)}" for b
      using E G(6) D(4) awaited_by_split [OF enqueue.hyps(1), of b] enqueue.hyps(2) by auto
    show "\<not> access_conflicts ac b"
      if "(k, c, ac) \<in> set (phase_held ?p)" "(u, b) \<in> held_by (tt_phases s) c" "u \<noteq> t" for k c ac u b
      using D(5) [of t ac c u b] that held_by_task [OF enqueue.hyps(1)] enqueue.hyps(2) by auto
  qed (use G(4,7) la enqueue.hyps(2) in \<open>auto simp: phase_slot_def\<close>)
  then show ?case by (simp add: set_phase_of_eq with_locks_def)
next
  case (acquire t s concurrency claims held key a access todo)
  let ?p = "Acquiring concurrency claims (held @ [(key, a, access)]) todo"
  let ?l = "ga_locks (tt_gate s)"
  let ?g = "(tt_gate s) \<lparr> ga_locks := rw_take ops a t ?l \<rparr>"
  note D = tasks_okD [OF acquire.prems]
  have own: "{b. (t, b) \<in> rw_waiters ops ?l a} = {access}"
    using D(4) awaited_by_task [OF acquire.hyps(1)] acquire.hyps(2) by auto
  note T = take_law [OF acquire.hyps(3) own]
  have la: "lock_addr ?g = lock_addr (tt_gate s)" by (auto simp: lock_addr_def fun_eq_iff split: option.splits)
  have phase: "phase_ok ?g ?p"
    using D(2) [OF acquire.hyps(1)] acquire.hyps(2) by (auto simp: phase_ok_def phase_permits_def la)
  have "tasks_ok ops n \<lparr> tt_gate = ?g, tt_phases = (tt_phases s)[t := ?p] \<rparr>"
  proof (rule tasks_ok_move [OF acquire.prems acquire.hyps(1) _ _ phase])
    show "addresses_ok ops ?g" using D(1) T by (simp add: addresses_ok_def la)
    show "rw_holders ops (ga_locks ?g) b = {h \<in> held_by (tt_phases s) b. fst h \<noteq> t}
        \<union> {(t, access) | access. \<exists>key. (key, b, access) \<in> set (phase_held ?p)}" for b
      using T D(3) held_by_split [OF acquire.hyps(1), of b] acquire.hyps(2) by auto
    show "rw_waiters ops (ga_locks ?g) b = {w \<in> awaited_by (tt_phases s) b. fst w \<noteq> t}
        \<union> {(t, access) | access. \<exists>key. phase_wait ?p = Some (key, b, access)}" for b
      using T D(4) awaited_by_split [OF acquire.hyps(1), of b] acquire.hyps(2) by auto
    show "\<not> access_conflicts ac b"
      if h: "(k, c, ac) \<in> set (phase_held ?p)" "(u, b) \<in> held_by (tt_phases s) c" "u \<noteq> t" for k c ac u b
    proof (cases "(k, c, ac) \<in> set held")
      case True
      then show ?thesis using D(5) [of t ac c u b] h held_by_task [OF acquire.hyps(1)] acquire.hyps(2) by auto
    next
      case False
      then have "c = a" "ac = access" using h(1) by auto
      then show ?thesis using exclusion_law [OF acquire.hyps(3) own, of u b] h(2) D(3) by auto
    qed
  qed (use la acquire.hyps(2) in \<open>auto simp: phase_slot_def\<close>)
  then show ?case by (simp add: set_phase_of_eq with_locks_def)
next
  case (invoke t s concurrency claims held)
  have "on_plan (Invoking concurrency claims held)"
    using tasks_okD(2) [OF invoke.prems invoke.hyps(1)] invoke.hyps(2) by (simp add: phase_ok_def)
  then show ?case using tasks_ok_quiet [where f = id, OF invoke.prems] invoke.hyps by (simp add: phase_slot_def)
next
  case (invoked t s concurrency claims held)
  then show ?case using tasks_ok_dropped [OF invoked.prems invoked.hyps(1), of Settling id]
    by (simp add: phase_slot_def phase_permits_def)
next
  case (settle t s)
  then show ?case using slot_put_law by (intro tasks_ok_quiet) (auto simp: phase_slot_def)
qed

end

section \<open>Progress\<close>

lemma phase_ok_addr:
  "phase_ok g p \<Longrightarrow> (key, a, access) \<in> set (phase_held p) \<Longrightarrow> lock_addr g key = Some a"
  "phase_ok g p \<Longrightarrow> phase_wait p = Some (key, a, access) \<Longrightarrow> lock_addr g key = Some a"
  by (fastforce simp: phase_ok_def phase_permits_def)+

lemma on_plan_sorted:
  assumes "on_plan p" "phase_wait p = Some (key, a, access)" "(key', a', access') \<in> set (phase_held p)"
  shows "key' < key"
proof -
  obtain concurrency claims held todo where p: "p = Waiting concurrency claims held (key, a, access) todo"
    using assms(2) by (cases p) auto
  have "sorted_wrt (<) (map fst (wanted (held @ [(key, a, access)]) @ todo))"
    using assms(1) permit_plan_sorted [of concurrency claims] p by simp
  then show ?thesis using assms(3) p by (auto simp: sorted_wrt_append)
qed

text \<open>A task that neither waits for a slot nor for a lock can always move on.\<close>

lemma free_task_moves:
  assumes "t < length (tt_phases s)" "tt_phases s ! t \<notin> {WantSlot, Finished}" "phase_wait (tt_phases s ! t) = None"
  shows "\<exists>s'. admit_step ops s s'"
proof (cases "tt_phases s ! t")
  case (Acquiring concurrency claims held todo)
  show ?thesis
  proof (cases todo)
    case Nil
    then show ?thesis using assms(1) Acquiring admit_step.invoke by blast
  next
    case (Cons x todo')
    then show ?thesis using assms(1) Acquiring admit_step.enqueue by (metis surj_pair)
  qed
qed (use assms in \<open>auto intro: admit_step.intros\<close>)

context admission_primitives
begin

lemma tasks_never_stuck:
  assumes ok: "tasks_ok ops n s" and slots: "0 < n" and stuck: "\<And>s'. \<not> admit_step ops s s'"
  shows "set (tt_phases s) \<subseteq> {Finished}"
proof -
  let ?ps = "tt_phases s" and ?l = "ga_locks (tt_gate s)"
  let ?keys = "{key. \<exists>t a access. t < length ?ps \<and> phase_wait (?ps ! t) = Some (key, a, access)}"
  note D = tasks_okD [OF ok]
  have blocked: "?ps ! t \<in> {WantSlot, Finished} \<or> phase_wait (?ps ! t) \<noteq> None" if "t < length ?ps" for t
    using free_task_moves [OF that, of ops] stuck by blast
  have "?keys \<subseteq> (\<lambda>t. fst (the (phase_wait (?ps ! t)))) ` {..<length ?ps}" by (force simp: image_iff)
  then have fin: "finite ?keys" by (rule finite_subset) simp
  have nobody: "?keys = {}"
  proof (rule ccontr)
    assume "?keys \<noteq> {}"
    then have "Max ?keys \<in> ?keys" using fin by (rule Max_in [rotated])
    then obtain t a access where t: "t < length ?ps" "phase_wait (?ps ! t) = Some (Max ?keys, a, access)" by blast
    have waits: "rw_waiters ops ?l a \<noteq> {}" using D(4) awaited_by_task [OF t(1)] t(2) by auto
    show False
    proof (cases "rw_holders ops ?l a = {}")
      case True
      then obtain u where u: "u \<in> fst ` rw_waiters ops ?l a" "rw_ready ops a u ?l" using progress_law [OF waits] by blast
      then obtain key b where u': "u < length ?ps" "phase_wait (?ps ! u) = Some (key, a, b)"
        using D(4) by (auto simp: awaited_by_def)
      then obtain c cl h todo where "?ps ! u = Waiting c cl h (key, a, b) todo" by (cases "?ps ! u") auto
      then show False using admit_step.acquire [OF u'(1) _ u(2)] stuck by blast
    next
      case False
      then obtain u b key where u: "u < length ?ps" "(key, a, b) \<in> set (phase_held (?ps ! u))"
        using D(3) by (auto simp: held_by_def)
      then obtain key' a' b' where w: "phase_wait (?ps ! u) = Some (key', a', b')"
        using blocked [OF u(1)] by (cases "?ps ! u") auto
      have "lock_addr (tt_gate s) key = Some a" "lock_addr (tt_gate s) (Max ?keys) = Some a"
        using phase_ok_addr(1) [OF D(2) [OF u(1)] u(2)] phase_ok_addr(2) [OF D(2) [OF t(1)] t(2)] by simp_all
      then have "key = Max ?keys" using D(1) unfolding addresses_ok_def by blast
      moreover have "key < key'" using on_plan_sorted [OF _ w u(2)] D(2) [OF u(1)] by (simp add: phase_ok_def)
      moreover have "key' \<le> Max ?keys" using fin u(1) w by (intro Max_ge) auto
      ultimately show False by simp
    qed
  qed
  then have idle: "?ps ! t \<in> {WantSlot, Finished}" if "t < length ?ps" for t using blocked [OF that] that by (auto split: option.splits)
  have "\<not> phase_slot p" if p: "p \<in> set ?ps" for p
  proof -
    obtain t where "t < length ?ps" "?ps ! t = p" using p by (auto simp: in_set_conv_nth)
    then show ?thesis using idle [of t] by (auto simp: phase_slot_def)
  qed
  then have "filter phase_slot ?ps = []" by (simp add: filter_empty_conv)
  then have "0 < sm_free ops (ga_slots (tt_gate s))" using D(6) slots by simp
  then have "?ps ! t \<noteq> WantSlot" if "t < length ?ps" for t using admit_step.take_slot [OF that] stuck by blast
  then have "?ps ! t = Finished" if "t < length ?ps" for t using idle that by blast
  then show ?thesis by (auto simp: in_set_conv_nth)
qed

lemma turn_start_ok:
  assumes "rw_known ops l = {}"
  shows "tasks_ok ops n (turn_start ops n l)"
proof -
  obtain a l' where new: "rw_new ops l = (a, l')" by (cases "rw_new ops l")
  have la: "lock_addr \<lparr> ga_locks = l', ga_global = a, ga_resource_locks = Map.empty, ga_slots = sm_new ops n \<rparr>
      = [None \<mapsto> a]"
    by (auto simp: lock_addr_def fun_eq_iff split: option.splits)
  have none: "rw_holders ops l = (\<lambda>_. {})" "rw_waiters ops l = (\<lambda>_. {})"
    using unknown_law [of _ l] assms by (auto simp: fun_eq_iff)
  show ?thesis
    using new_law [OF new] none la slot_new_law [of n]
    by (auto simp: tasks_ok_def turn_start_def gate_new_def new addresses_ok_def held_by_def awaited_by_def fun_eq_iff split: if_splits)
qed

lemma turn_step_ok:
  assumes "turn_step ops s s'" and "tasks_ok ops n s"
  shows "tasks_ok ops n s'"
  using assms
proof (induction rule: turn_step.induct)
  case (run s s')
  then show ?case by (rule admit_step_ok)
next
  case (cancel t s)
  then show ?case unfolding abandon_def using slot_put_law
    by (intro tasks_ok_dropped) (auto simp: phase_slot_def phase_permits_def)
next
  case (spawn s)
  then show ?case by (auto simp: tasks_ok_def nth_append phase_ok_def phase_permits_def phase_slot_def less_Suc_eq)
qed

lemma turn_reaches_ok:
  assumes "turn_reaches ops (turn_start ops n l) s" and "rw_known ops l = {}"
  shows "tasks_ok ops n s"
  using assms(1) by (induction rule: rtranclp_induct) (auto intro: turn_start_ok [OF assms(2)] turn_step_ok)

end

section \<open>Every schedule ends\<close>

fun phase_rank :: "task_phase \<Rightarrow> nat \<times> nat" where
  "phase_rank WantSlot = (5, 0)"
| "phase_rank Checking = (4, 0)"
| "phase_rank (Acquiring _ _ _ todo) = (3, 2 * length todo)"
| "phase_rank (Waiting _ _ _ _ todo) = (3, 2 * length todo + 1)"
| "phase_rank (Invoking _ _ _) = (2, 0)"
| "phase_rank Settling = (1, 0)"
| "phase_rank Finished = (0, 0)"

abbreviation phase_below :: "(task_phase \<times> task_phase) set" where
  "phase_below \<equiv> inv_image (less_than <*lex*> less_than) phase_rank"

lemma admit_step_moves_one:
  "admit_step ops s s' \<Longrightarrow> \<exists>t p. t < length (tt_phases s) \<and> tt_phases s' = (tt_phases s)[t := p] \<and> (p, tt_phases s ! t) \<in> phase_below"
proof (induction rule: admit_step.induct)
  case (enqueue t s concurrency claims held key access todo a g)
  then show ?case by (intro exI [of _ t] exI [of _ "Waiting concurrency claims held (key, a, access) todo"])
      (simp add: set_phase_of_def with_locks_def in_lex_prod)
qed (rule exI, rule exI, simp add: set_phase_of_def with_locks_def with_slots_def in_lex_prod, fastforce?)+

lemma admit_step_wf: "wf {(s', s). admit_step ops s s'}"
proof (rule wf_subset)
  show "wf (inv_image (mult1 phase_below) (\<lambda>s. mset (tt_phases s)))"
    by (intro wf_inv_image wf_mult1 wf_lex_prod wf_less_than)
  show "{(s', s). admit_step ops s s'} \<subseteq> inv_image (mult1 phase_below) (\<lambda>s. mset (tt_phases s))"
  proof clarsimp
    fix s s' assume "admit_step ops s s'"
    then obtain t p where m: "t < length (tt_phases s)" "tt_phases s' = (tt_phases s)[t := p]" "(p, tt_phases s ! t) \<in> phase_below"
      using admit_step_moves_one by blast
    let ?M = "mset (tt_phases s) - {#tt_phases s ! t#}"
    have M: "mset (tt_phases s) = add_mset (tt_phases s ! t) ?M" "mset (tt_phases s') = ?M + {#p#}"
      using m(1,2) by (simp_all add: mset_update)
    show "(mset (tt_phases s'), mset (tt_phases s)) \<in> mult1 phase_below"
      using m(3) by (intro mult1I [OF M]) simp
  qed
qed

lemma admission_completes:
  assumes "admission_primitives ops" and "tasks_ok ops n s" and "0 < n"
  shows "\<exists>s'. (admit_step ops)\<^sup>*\<^sup>* s s' \<and> set (tt_phases s') \<subseteq> {Finished}"
  using assms(2)
proof (induction s rule: wf_induct_rule [OF admit_step_wf [of ops]])
  case (1 s)
  show ?case
  proof (cases "\<exists>s'. admit_step ops s s'")
    case True
    then obtain s' where step: "admit_step ops s s'" by blast
    then have "\<exists>s''. (admit_step ops)\<^sup>*\<^sup>* s' s'' \<and> set (tt_phases s'') \<subseteq> {Finished}"
      using "1.IH" [of s'] admission_primitives.admit_step_ok [OF assms(1) step "1.prems"] by simp
    then show ?thesis using step by (meson converse_rtranclp_into_rtranclp)
  next
    case False
    then show ?thesis using admission_primitives.tasks_never_stuck [OF assms(1) "1.prems" assms(3)] by blast
  qed
qed

section \<open>The limits of a run\<close>

text \<open>Of the configuration of a run, what bounds its tool calls (\<^verbatim>\<open>validate_config\<close> in
  \<^verbatim>\<open>ra-runtime/src/runner.rs\<close>).\<close>

record run_limits =
  lim_budget :: budget_limit
  lim_max_function_tool_concurrency :: "nat option"

definition validate_config :: "run_limits \<Rightarrow> ustring + unit" where
  "validate_config config =
     (case budget_validate (lim_budget config) of
        Inl e \<Rightarrow> Inl e
      | Inr _ \<Rightarrow>
          if lim_max_function_tool_concurrency config = Some 0
          then Inl (lit ''`max_function_tool_concurrency` must be at least 1; zero would permanently queue every tool call'')
          else Inr ())"

definition turn_slots :: "('l, 'm) gate_ops \<Rightarrow> run_limits \<Rightarrow> nat" where
  "turn_slots ops config = (case lim_max_function_tool_concurrency config of Some n \<Rightarrow> n | None \<Rightarrow> sm_max ops)"

section \<open>Properties\<close>

text \<open>C22. Tool calls that run at the same time do not conflict: while a call declared exclusive is invoked, no
  other call of the turn is; and of two calls invoked at once, no claim of one conflicts with a claim of
  the other. This holds in every state the tasks of a turn can reach, whatever is cancelled or started on
  the way.\<close>

theorem concurrent_calls_do_not_conflict:
  assumes "admission_primitives ops" and "rw_known ops l = {}" and "turn_reaches ops (turn_start ops n l) s"
    and "t < length (tt_phases s)" and "u < length (tt_phases s)" and "t \<noteq> u"
    and "tt_phases s ! t = Invoking c claims held" and "tt_phases s ! u = Invoking d others kept"
  shows "c = ParallelTool \<and> d = ParallelTool \<and> (\<forall>x \<in> set claims. \<forall>y \<in> set others. \<not> claims_conflict x y)"
proof -
  note D = tasks_okD [OF admission_primitives.turn_reaches_ok [OF assms(1,3,2)]]
  have ok: "phase_ok (tt_gate s) (Invoking c claims held)" "phase_ok (tt_gate s) (Invoking d others kept)"
    using D(2) assms(4,5,7,8) by metis+
  have apart: "\<not> access_conflicts a b" if k: "(key, a) \<in> set (permit_plan c claims)" "(key, b) \<in> set (permit_plan d others)" for key a b
  proof -
    have "(key, a) \<in> set (wanted held)" "(key, b) \<in> set (wanted kept)" using ok k by (simp_all add: phase_ok_def)
    then obtain p q where h: "(key, p, a) \<in> set held" "(key, q, b) \<in> set kept" by auto
    then have "p = q" using phase_ok_addr(1) [OF ok(1), of key p a] phase_ok_addr(1) [OF ok(2), of key q b] by simp
    then show ?thesis using D(5) [of t a p u b] h assms(4-8) by (auto simp: held_by_task)
  qed
  have par: "c = ParallelTool" "d = ParallelTool"
    using apart [of None] by (cases c; cases d; auto simp: permit_plan_def access_conflicts_def)+
  have "\<not> claims_conflict x y" if xy: "x \<in> set claims" "y \<in> set others" for x y
  proof -
    obtain a where a: "(Some (rc_resource x), a) \<in> set (permit_plan c claims)" "rc_access x = Exclusive \<Longrightarrow> a = Exclusive"
      using permit_plan_covers [OF xy(1)] par by blast
    obtain b where b: "(Some (rc_resource y), b) \<in> set (permit_plan d others)" "rc_access y = Exclusive \<Longrightarrow> b = Exclusive"
      using permit_plan_covers [OF xy(2)] par by blast
    show ?thesis using apart [of "Some (rc_resource x)" a b] a b by (auto simp: claims_conflict_def access_conflicts_def)
  qed
  then show ?thesis using par by blast
qed


section \<open>A fair lock\<close>

text \<open>Locks that serve their waiters in the order they came. A store is a list of locks, a lock its holders and
  its queue.\<close>

type_synonym fifo_locks = "((nat \<times> resource_access) list \<times> (nat \<times> resource_access) list) list"

definition fifo_ready :: "nat \<Rightarrow> nat \<Rightarrow> fifo_locks \<Rightarrow> bool" where
  "fifo_ready a t l \<longleftrightarrow> a < length l
     \<and> (case l ! a of
          (holders, (u, access) # _) \<Rightarrow> u = t \<and> list_all (\<lambda>(_, other). \<not> access_conflicts access other) holders
        | _ \<Rightarrow> False)"

definition fifo_take :: "nat \<Rightarrow> nat \<Rightarrow> fifo_locks \<Rightarrow> fifo_locks" where
  "fifo_take a t l =
     (case l ! a of
        (holders, (u, access) # queue) \<Rightarrow> l[a := ((u, access) # holders, filter (\<lambda>w. fst w \<noteq> t) queue)]
      | _ \<Rightarrow> l)"

definition fifo_ops :: "(fifo_locks, nat) gate_ops" where
  "fifo_ops =
     \<lparr> rw_new = (\<lambda>l. (length l, l @ [([], [])])),
       rw_enqueue = (\<lambda>a t access l. l[a := (fst (l ! a), snd (l ! a) @ [(t, access)])]),
       rw_ready = fifo_ready, rw_take = fifo_take,
       rw_forget = (\<lambda>a t l. l[a := (fst (l ! a), filter (\<lambda>w. fst w \<noteq> t) (snd (l ! a)))]),
       rw_release = (\<lambda>a t l. l[a := (filter (\<lambda>h. fst h \<noteq> t) (fst (l ! a)), snd (l ! a))]),
       rw_known = (\<lambda>l. {..<length l}),
       rw_holders = (\<lambda>l a. if a < length l then set (fst (l ! a)) else {}),
       rw_waiters = (\<lambda>l a. if a < length l then set (snd (l ! a)) else {}),
       sm_new = id, sm_free = id, sm_take = (\<lambda>m. m - 1), sm_put = Suc, sm_max = 64 \<rparr>"

lemma fifo_readyE:
  assumes "fifo_ready a t l"
  obtains holders access queue where "a < length l" "l ! a = (holders, (t, access) # queue)"
    "\<And>u other. (u, other) \<in> set holders \<Longrightarrow> \<not> access_conflicts access other"
  using assms by (auto simp: fifo_ready_def list_all_iff split: prod.splits list.splits)

lemma fifo_take_law:
  assumes "fifo_ready a t l" and "{b. (t, b) \<in> set (snd (l ! a))} = {access}"
  shows "length (fifo_take a t l) = length l"
    and "fifo_take a t l ! b = (if b = a then ((t, access) # fst (l ! a), filter (\<lambda>w. fst w \<noteq> t) (snd (l ! a))) else l ! b)"
proof -
  obtain holders c queue where r: "a < length l" "l ! a = (holders, (t, c) # queue)" using assms(1) by (rule fifo_readyE)
  then have "c = access" using assms(2) by auto
  then show "length (fifo_take a t l) = length l"
    "fifo_take a t l ! b = (if b = a then ((t, access) # fst (l ! a), filter (\<lambda>w. fst w \<noteq> t) (snd (l ! a))) else l ! b)"
    using r by (auto simp: fifo_take_def nth_list_update)
qed

interpretation fifo: admission_primitives fifo_ops
proof
  fix a t access l
  assume r: "rw_ready fifo_ops a t l" and w: "{b. (t, b) \<in> rw_waiters fifo_ops l a} = {access}"
  have ready: "fifo_ready a t l" "{b. (t, b) \<in> set (snd (l ! a))} = {access}"
    using r w by (auto simp: fifo_ops_def split: if_splits)
  have a: "a < length l" using ready(1) by (rule fifo_readyE)
  show "rw_known fifo_ops (rw_take fifo_ops a t l) = rw_known fifo_ops l
      \<and> rw_holders fifo_ops (rw_take fifo_ops a t l) = (rw_holders fifo_ops l)(a := insert (t, access) (rw_holders fifo_ops l a))
      \<and> rw_waiters fifo_ops (rw_take fifo_ops a t l) = (rw_waiters fifo_ops l)(a := {w \<in> rw_waiters fifo_ops l a. fst w \<noteq> t})"
    using a fifo_take_law [OF ready] by (auto simp: fifo_ops_def fun_eq_iff)
next
  fix a t access l u other
  assume "rw_ready fifo_ops a t l" "{b. (t, b) \<in> rw_waiters fifo_ops l a} = {access}" "(u, other) \<in> rw_holders fifo_ops l a"
  then have "fifo_ready a t l" "(t, c) \<in> set (snd (l ! a)) \<longleftrightarrow> c = access" "(u, other) \<in> set (fst (l ! a))" for c
    by (auto simp: fifo_ops_def split: if_splits)
  note facts = this
  obtain holders b queue where "l ! a = (holders, (t, b) # queue)" "\<And>u other. (u, other) \<in> set holders \<Longrightarrow> \<not> access_conflicts b other"
    using facts(1) by (rule fifo_readyE) blast
  then show "\<not> access_conflicts access other" using facts(2) [of b] facts(3) by auto
next
  fix a l
  assume "rw_waiters fifo_ops l a \<noteq> {}" "rw_holders fifo_ops l a = {}"
  then show "\<exists>t. t \<in> fst ` rw_waiters fifo_ops l a \<and> rw_ready fifo_ops a t l"
    by (cases "snd (l ! a)") (auto simp: fifo_ops_def fifo_ready_def split: if_splits prod.splits list.splits)
qed (auto simp: fifo_ops_def fun_eq_iff nth_append nth_list_update split: if_splits)

section \<open>Two readers of one workspace\<close>

text \<open>The next step of a task as a function, for a task that is to run with the given claims.\<close>

definition advance ::
  "('l, 'm) gate_ops \<Rightarrow> resource_claim list \<Rightarrow> nat \<Rightarrow> ('l, 'm) turn_tasks \<Rightarrow> ('l, 'm) turn_tasks option" where
  "advance ops claims t s =
     (if length (tt_phases s) \<le> t then None
      else case tt_phases s ! t of
        WantSlot \<Rightarrow>
          if 0 < sm_free ops (ga_slots (tt_gate s)) then Some (set_phase_of t Checking (with_slots (sm_take ops) s)) else None
      | Checking \<Rightarrow> Some (set_phase_of t (Acquiring ParallelTool claims [] (permit_plan ParallelTool claims)) s)
      | Acquiring c cl held ((key, access) # todo) \<Rightarrow>
          (case gate_lock ops key (tt_gate s) of (a, g) \<Rightarrow>
             Some (set_phase_of t (Waiting c cl held (key, a, access) todo)
               (with_locks (rw_enqueue ops a t access) (s \<lparr> tt_gate := g \<rparr>))))
      | Acquiring c cl held [] \<Rightarrow> Some (set_phase_of t (Invoking c cl held) s)
      | Waiting c cl held (key, a, access) todo \<Rightarrow>
          if rw_ready ops a t (ga_locks (tt_gate s))
          then Some (set_phase_of t (Acquiring c cl (held @ [(key, a, access)]) todo) (with_locks (rw_take ops a t) s)) else None
      | _ \<Rightarrow> None)"

lemma advance_step: "advance ops claims t s = Some s' \<Longrightarrow> admit_step ops s s'"
  by (auto simp: advance_def not_le intro: admit_step.intros split: if_splits task_phase.splits list.splits prod.splits)

fun advance_all ::
  "('l, 'm) gate_ops \<Rightarrow> resource_claim list \<Rightarrow> nat list \<Rightarrow> ('l, 'm) turn_tasks \<Rightarrow> ('l, 'm) turn_tasks option" where
  "advance_all ops claims [] s = Some s"
| "advance_all ops claims (t # ts) s = Option.bind (advance ops claims t s) (advance_all ops claims ts)"

lemma advance_all_reaches: "advance_all ops claims ts s = Some s' \<Longrightarrow> turn_reaches ops s s'"
proof (induction ts arbitrary: s)
  case (Cons t ts)
  then obtain s1 where "advance ops claims t s = Some s1" "turn_reaches ops s1 s'" by (auto split: bind_splits)
  then show ?case using turn_step.run [OF advance_step] by (meson converse_rtranclp_into_rtranclp)
qed simp

definition demo_read :: resource_claim where
  "demo_read = ResourceClaim (ResourceId Workspace (lit ''main'')) Shared"

definition demo_turn :: "(fifo_locks, nat) turn_tasks" where
  "demo_turn = (turn_start fifo_ops 4 []) \<lparr> tt_phases := [WantSlot, WantSlot] \<rparr>"

lemma demo_turn_reached: "turn_reaches fifo_ops (turn_start fifo_ops 4 []) demo_turn"
proof -
  have "turn_step fifo_ops (turn_start fifo_ops 4 []) ((turn_start fifo_ops 4 []) \<lparr> tt_phases := [WantSlot] \<rparr>)"
    using turn_step.spawn [of fifo_ops "turn_start fifo_ops 4 []"] by (simp add: turn_start_def)
  moreover have "turn_step fifo_ops ((turn_start fifo_ops 4 []) \<lparr> tt_phases := [WantSlot] \<rparr>) demo_turn"
    using turn_step.spawn [of fifo_ops "(turn_start fifo_ops 4 []) \<lparr> tt_phases := [WantSlot] \<rparr>"] by (simp add: demo_turn_def)
  ultimately show ?thesis by (meson converse_rtranclp_into_rtranclp r_into_rtranclp)
qed

lemma demo_turn_runs:
  "map_option tt_phases (advance_all fifo_ops [demo_read] [0, 1, 0, 1, 0, 1, 0, 1, 0, 1, 0, 1, 0, 1] demo_turn)
   = Some (replicate 2 (Invoking ParallelTool [demo_read] [(None, 0, Shared), (Some (rc_resource demo_read), 1, Shared)]))"
  by (simp add: demo_turn_def demo_read_def turn_start_def gate_new_def advance_def fifo_ops_def fifo_ready_def fifo_take_def
      set_phase_of_def with_slots_def with_locks_def gate_lock_def get_or_create_lock_def permit_plan_def deduplicate_def
      access_conflicts_def numeral_2_eq_2)

theorem concurrent_calls_do_not_conflict_witness:
  "\<exists>s c d held kept. turn_reaches fifo_ops (turn_start fifo_ops 4 []) s \<and> tt_phases s ! 0 = Invoking c [demo_read] held
     \<and> tt_phases s ! 1 = Invoking d [demo_read] kept \<and> c = ParallelTool \<and> d = ParallelTool \<and> \<not> claims_conflict demo_read demo_read"
proof -
  obtain s where s: "advance_all fifo_ops [demo_read] [0, 1, 0, 1, 0, 1, 0, 1, 0, 1, 0, 1, 0, 1] demo_turn = Some s"
      "tt_phases s = replicate 2 (Invoking ParallelTool [demo_read] [(None, 0, Shared), (Some (rc_resource demo_read), 1, Shared)])"
    using demo_turn_runs by auto
  have reach: "turn_reaches fifo_ops (turn_start fifo_ops 4 []) s"
    using demo_turn_reached advance_all_reaches [OF s(1)] by (rule rtranclp_trans)
  have empty: "rw_known fifo_ops [] = {}" by (simp add: fifo_ops_def)
  show ?thesis
    using concurrent_calls_do_not_conflict [OF fifo.admission_primitives_axioms empty reach, of 0 1] s(2) reach
    by (auto simp: numeral_2_eq_2)
qed


end
