(* ===== verification/Turn_Surface.thy ===== *)
theory Turn_Surface
  imports Run_Item "HOL-Library.List_Lexorder" "HOL-Library.Multiset"
begin

text \<open>
  What one turn puts in front of the model: the tools and handoffs of \<^verbatim>\<open>TurnActionSurface\<close>
  (\<^verbatim>\<open>ra-runtime/src/turn/prepare.rs\<close>), the resolution of name collisions among them, and the lookups by which
  a call of the model is mapped back to the action it was offered. A tool is what the runtime reads of
  the trait object; of the definitions the provider is sent (\<^verbatim>\<open>ra-core/src/model/request.rs\<close>) the fields that name
  and route a call.
\<close>

section \<open>Definitions\<close>

datatype model_tool_kind = FunctionTool | CustomTool | SearchTool | HostedTool

record model_tool_definition =
  md_name :: ustring
  md_kind :: model_tool_kind
  md_namespace :: "ustring option"
  md_defer_loading :: bool

definition definition_qualified_name :: "model_tool_definition \<Rightarrow> ustring" where
  "definition_qualified_name self = (case md_namespace self of Some ns \<Rightarrow> ns @ [46] @ md_name self | None \<Rightarrow> md_name self)"

definition checked_namespace :: "ustring option \<Rightarrow> tool_error + ustring option" where
  "checked_namespace ns = (case ns of None \<Rightarrow> Inr None | Some n \<Rightarrow> result_bind (validate_namespace n) (\<lambda>_. Inr (Some n)))"

definition definition_lookup_key :: "model_tool_definition \<Rightarrow> tool_error + 'v tool_lookup_key" where
  "definition_lookup_key self =
     (if md_defer_loading self \<and> md_kind self = FunctionTool \<and> md_namespace self = None then deferred_top_level (md_name self)
      else result_bind (checked_namespace (md_namespace self)) (for_call (md_name self)))"

datatype tool_exposure = Advertised | Deferred | Hidden

datatype tool_availability = Enabled | Disabled | Dynamic | DynamicForProtocol

text \<open>A tool as the runtime reads it. \<open>tl_handle\<close> is the identity of the shared object, which
  \<^verbatim>\<open>Arc::ptr_eq\<close> compares.\<close>

record 'v action_tool =
  tl_handle :: nat
  tl_origin :: "'v tool_origin"
  tl_definition :: model_tool_definition
  tl_description :: "ustring option"
  tl_title :: "ustring option"
  tl_exposure :: tool_exposure
  tl_availability :: tool_availability

definition is_advertised :: "'v action_tool \<Rightarrow> bool" where
  "is_advertised tool \<longleftrightarrow> tl_exposure tool = Advertised"

definition is_discoverable :: "'v action_tool \<Rightarrow> bool" where
  "is_discoverable tool \<longleftrightarrow> tl_exposure tool = Deferred"

definition can_reach_model_surface :: "'v action_tool \<Rightarrow> bool" where
  "can_reach_model_surface tool \<longleftrightarrow>
     (case tl_availability tool of Enabled \<Rightarrow> True | Dynamic \<Rightarrow> True | DynamicForProtocol \<Rightarrow> True | Disabled \<Rightarrow> False)
     \<and> (case tl_exposure tool of Advertised \<Rightarrow> True | Deferred \<Rightarrow> True | Hidden \<Rightarrow> False)"

text \<open>The definition a tool is routed by: deferred exactly when the tool is discovered rather than shown.\<close>

definition routed_definition :: "'v action_tool \<Rightarrow> model_tool_definition" where
  "routed_definition tool = (tl_definition tool) \<lparr> md_defer_loading := is_discoverable tool \<rparr>"

datatype history_projection = ProjectNone | ProjectFull | ProjectLastItems nat | ProjectSummary

definition requires_summarizer :: "history_projection \<Rightarrow> bool" where
  "requires_summarizer p \<longleftrightarrow> p = ProjectSummary"

record handoff_spec =
  hs_name :: ustring
  hs_target_agent :: ustring
  hs_history_projection :: history_projection

text \<open>Of the agent that would take over, \<^verbatim>\<open>AgentSpec\<close>, its identity.\<close>

record prepared_handoff =
  ph_spec :: handoff_spec
  ph_target :: ustring
  ph_declaration :: "nat option"

definition ph_name :: "prepared_handoff \<Rightarrow> ustring" where
  "ph_name self = hs_name (ph_spec self)"

definition ph_target_agent :: "prepared_handoff \<Rightarrow> ustring" where
  "ph_target_agent self = hs_target_agent (ph_spec self)"

datatype collision_policy = WarnPolicy | ErrorPolicy

text \<open>\<open>CallbackFailed\<close> carries the error of third-party code: availability callbacks and hosted resolvers.\<close>

datatype 'e surface_error =
  InvalidToolKey tool_error | NameAdvertisedTwice ustring | CallbackFailed 'e
| HandoffTargetUnknown ustring | HandoffTargetMismatch ustring ustring | SummaryProjection ustring
| HostedIdentityChanged | TooManyActions nat nat | TooManyBytes nat nat | TableTooLarge

definition prepared_handoff_new :: "handoff_spec \<Rightarrow> ustring \<Rightarrow> 'e surface_error + prepared_handoff" where
  "prepared_handoff_new spec target =
     (if hs_target_agent spec \<noteq> target then Inl (HandoffTargetMismatch (hs_target_agent spec) target)
      else if requires_summarizer (hs_history_projection spec) then Inl (SummaryProjection (hs_target_agent spec))
      else Inr \<lparr> ph_spec = spec, ph_target = target, ph_declaration = None \<rparr>)"

datatype tool_declaration = LocalDeclaration ustring bool | HostedDeclaration model_tool_definition

fun is_hosted_declaration :: "tool_declaration \<Rightarrow> bool" where
  "is_hosted_declaration (HostedDeclaration _) = True"
| "is_hosted_declaration (LocalDeclaration _ _) = False"

record 'v turn_surface =
  sf_declarations :: "tool_declaration list"
  sf_tools :: "'v action_tool list"
  sf_tool_names :: "ustring list"
  sf_tool_keys :: "'v tool_lookup_key list"
  sf_handoffs :: "prepared_handoff list"
  sf_tool_search :: "'v action_tool option"

section \<open>What is available\<close>

text \<open>Availability is decided before the surface is built. \<open>enabled\<close> is the callback of a dynamic tool. When several
  callbacks fail the source reports the one that fails first in time, here the first declared.\<close>

datatype surface_mode = Normal | Resume

definition availability_decision ::
  "('v action_tool \<Rightarrow> 'e + bool) \<Rightarrow> surface_mode \<Rightarrow> 'v action_tool \<Rightarrow> 'e + bool" where
  "availability_decision enabled mode tool =
     (case tl_availability tool of
        Disabled \<Rightarrow> Inr False
      | Dynamic \<Rightarrow> enabled tool
      | Enabled \<Rightarrow> Inr True
      | DynamicForProtocol \<Rightarrow> Inr (mode = Normal))"

record 'v enabled_tools =
  en_advertised :: "'v action_tool list"
  en_protocol_tools :: "nat set"

fun keep_enabled :: "('v action_tool \<times> bool) list \<Rightarrow> 'v enabled_tools \<Rightarrow> 'v enabled_tools" where
  "keep_enabled [] acc = acc"
| "keep_enabled ((tool, on) # rest) acc =
     (if on \<and> (is_advertised tool \<or> is_discoverable tool)
      then keep_enabled rest
        \<lparr> en_advertised = en_advertised acc @ [tool],
          en_protocol_tools =
            (if tl_availability tool = DynamicForProtocol then insert (length (en_advertised acc)) (en_protocol_tools acc)
             else en_protocol_tools acc) \<rparr>
      else keep_enabled rest acc)"

definition resolve_enabled_inventory ::
  "('v action_tool \<Rightarrow> 'e + bool) \<Rightarrow> surface_mode \<Rightarrow> 'v action_tool list \<Rightarrow> 'e surface_error + 'v enabled_tools" where
  "resolve_enabled_inventory enabled mode tools =
     (case collect_results (map (availability_decision enabled mode) tools) of
        Inl e \<Rightarrow> Inl (CallbackFailed e)
      | Inr decisions \<Rightarrow> Inr (keep_enabled (zip tools decisions) \<lparr> en_advertised = [], en_protocol_tools = {} \<rparr>))"

definition resolve_protocol ::
  "('v action_tool \<Rightarrow> 'e + bool) \<Rightarrow> 'v enabled_tools \<Rightarrow> 'e surface_error + 'v enabled_tools" where
  "resolve_protocol enabled_for_protocol self =
     (case collect_results (map (\<lambda>(i, tool). if i \<in> en_protocol_tools self then enabled_for_protocol tool else Inr True)
         (enumerate 0 (en_advertised self))) of
        Inl e \<Rightarrow> Inl (CallbackFailed e)
      | Inr decisions \<Rightarrow>
          Inr \<lparr> en_advertised = map fst (filter snd (zip (en_advertised self) decisions)), en_protocol_tools = {} \<rparr>)"

fun resolve_handoffs_from ::
  "(ustring \<Rightarrow> bool) \<Rightarrow> nat \<Rightarrow> (handoff_spec \<times> bool) list \<Rightarrow> 'e surface_error + prepared_handoff list" where
  "resolve_handoffs_from registered i [] = Inr []"
| "resolve_handoffs_from registered i ((handoff, on) # rest) =
     (if \<not> on then resolve_handoffs_from registered (Suc i) rest
      else if \<not> registered (hs_target_agent handoff) then Inl (HandoffTargetUnknown (hs_target_agent handoff))
      else result_bind (prepared_handoff_new handoff (hs_target_agent handoff)) (\<lambda>prepared.
           result_bind (resolve_handoffs_from registered (Suc i) rest) (\<lambda>prepared_rest.
             Inr (prepared \<lparr> ph_declaration := Some i \<rparr> # prepared_rest))))"

definition resolve_handoffs ::
  "(handoff_spec \<Rightarrow> 'e + bool) \<Rightarrow> (ustring \<Rightarrow> bool) \<Rightarrow> handoff_spec list \<Rightarrow> 'e surface_error + prepared_handoff list" where
  "resolve_handoffs enabled registered handoffs =
     (case collect_results (map enabled handoffs) of
        Inl e \<Rightarrow> Inl (CallbackFailed e)
      | Inr decisions \<Rightarrow> resolve_handoffs_from registered 0 (zip handoffs decisions))"

section \<open>Collisions\<close>

datatype action_owner = ToolOwner nat | HandoffOwner nat

fun is_handoff_owner :: "action_owner \<Rightarrow> bool" where
  "is_handoff_owner (HandoffOwner _) = True"
| "is_handoff_owner (ToolOwner _) = False"

fun owner_namespaced :: "'v tool_lookup_key list \<Rightarrow> action_owner \<Rightarrow> bool" where
  "owner_namespaced keys (ToolOwner i) \<longleftrightarrow> lk_namespace (keys ! i) \<noteq> None"
| "owner_namespaced keys (HandoffOwner _) \<longleftrightarrow> False"

fun owner_deferred :: "'v tool_lookup_key list \<Rightarrow> action_owner \<Rightarrow> bool" where
  "owner_deferred keys (ToolOwner i) \<longleftrightarrow> lk_kind (keys ! i) = DeferredTopLevel"
| "owner_deferred keys (HandoffOwner _) \<longleftrightarrow> False"

definition split_model_name_owners ::
  "ustring \<Rightarrow> action_owner list \<Rightarrow> 'v tool_lookup_key list \<Rightarrow> (ustring \<times> action_owner list) list" where
  "split_model_name_owners name entries keys =
     (if list_ex (owner_namespaced keys) entries then [(name, entries)]
      else [(name, filter (owner_deferred keys) entries), (name, filter (\<lambda>e. \<not> owner_deferred keys e) entries)])"

text \<open>The owners of a name in the order they were declared, tools first.\<close>

definition owners_of :: "ustring list \<Rightarrow> ustring list \<Rightarrow> ustring \<Rightarrow> action_owner list" where
  "owners_of tool_names handoff_names name =
     map ToolOwner (filter (\<lambda>i. tool_names ! i = name) [0..<length tool_names])
     @ map HandoffOwner (filter (\<lambda>j. handoff_names ! j = name) [0..<length handoff_names])"

definition owner_groups :: "ustring list \<Rightarrow> ustring list \<Rightarrow> 'v tool_lookup_key list \<Rightarrow> (ustring \<times> action_owner list) list" where
  "owner_groups tool_names handoff_names keys =
     concat (map (\<lambda>name. split_model_name_owners name (owners_of tool_names handoff_names name) keys)
       (sort (remdups (tool_names @ handoff_names))))"

definition collision_winner :: "action_owner list \<Rightarrow> action_owner option" where
  "collision_winner entries =
     (case find is_handoff_owner (rev entries) of
        Some e \<Rightarrow> Some e
      | None \<Rightarrow> if entries = [] then None else Some (last entries))"

fun discard_owner :: "action_owner \<Rightarrow> bool list \<times> bool list \<Rightarrow> bool list \<times> bool list" where
  "discard_owner (ToolOwner i) (tools, handoffs) = (tools[i := False], handoffs)"
| "discard_owner (HandoffOwner j) (tools, handoffs) = (tools, handoffs[j := False])"

fun resolve_collisions ::
  "collision_policy \<Rightarrow> (ustring \<times> action_owner list) list \<Rightarrow> bool list \<times> bool list \<Rightarrow> 'e surface_error + bool list \<times> bool list" where
  "resolve_collisions policy [] retained = Inr retained"
| "resolve_collisions policy ((name, entries) # groups) retained =
     (if length entries < 2 then resolve_collisions policy groups retained
      else if policy = ErrorPolicy then Inl (NameAdvertisedTwice name)
      else case collision_winner entries of
        None \<Rightarrow> resolve_collisions policy groups retained
      | Some winner \<Rightarrow>
          resolve_collisions policy groups (fold discard_owner (filter (\<lambda>e. e \<noteq> winner) entries) retained))"

definition retain :: "bool list \<Rightarrow> 'a list \<Rightarrow> 'a list" where
  "retain flags xs = map fst (filter snd (zip xs flags))"

definition surface_new ::
  "'v action_tool list \<Rightarrow> prepared_handoff list \<Rightarrow> collision_policy \<Rightarrow> 'e surface_error + 'v turn_surface" where
  "surface_new tools handoffs policy =
     (case collect_results (map (\<lambda>tool. definition_lookup_key (routed_definition tool)) tools) of
        Inl e \<Rightarrow> Inl (InvalidToolKey e)
      | Inr tool_keys \<Rightarrow>
          let tool_names = map (\<lambda>tool. definition_qualified_name (tl_definition tool)) tools;
              handoff_names = map ph_name handoffs
          in result_bind
               (resolve_collisions policy (owner_groups tool_names handoff_names tool_keys)
                 (replicate (length tools) True, replicate (length handoffs) True))
               (\<lambda>(retained_tools, retained_handoffs).
                 Inr \<lparr> sf_declarations = [], sf_tools = retain retained_tools tools, sf_tool_names = retain retained_tools tool_names,
                       sf_tool_keys = retain retained_tools tool_keys, sf_handoffs = retain retained_handoffs handoffs,
                       sf_tool_search = None \<rparr>))"

section \<open>Lookups\<close>

definition find_tool_in :: "'v turn_surface \<Rightarrow> ustring option \<Rightarrow> ustring \<Rightarrow> 'v action_tool option" where
  "find_tool_in self namespace name =
     (case result_bind (checked_namespace namespace) (for_call name) of
        Inl _ \<Rightarrow> None
      | Inr key \<Rightarrow>
          map_option fst (find (\<lambda>(tool, candidate). lookup_eq candidate key) (rev (zip (sf_tools self) (sf_tool_keys self)))))"

definition find_handoff :: "'v turn_surface \<Rightarrow> ustring \<Rightarrow> prepared_handoff option" where
  "find_handoff self name = find (\<lambda>h. ph_name h = name) (rev (sf_handoffs self))"

definition find_tool :: "'v turn_surface \<Rightarrow> ustring \<Rightarrow> 'v action_tool option" where
  "find_tool self name = find_tool_in self None name"

definition advertises_handoff_to :: "'v turn_surface \<Rightarrow> ustring \<Rightarrow> bool" where
  "advertises_handoff_to self target = list_ex (\<lambda>h. ph_target_agent h = target) (sf_handoffs self)"

definition advertised_names :: "'v turn_surface \<Rightarrow> ustring list" where
  "advertised_names self =
     map fst (filter (\<lambda>(_, tool). is_advertised tool) (zip (sf_tool_names self) (sf_tools self)))
     @ map ph_name (sf_handoffs self)
     @ List.map_filter (\<lambda>d. case d of HostedDeclaration tool \<Rightarrow> Some (md_name tool) | LocalDeclaration _ _ \<Rightarrow> None)
         (sf_declarations self)"

section \<open>The table sent to the provider\<close>

text \<open>\<open>build_search\<close> is the generated discovery tool of \<^verbatim>\<open>agent.tool_search_cache\<close>.\<close>

definition into_surface ::
  "('v action_tool list \<Rightarrow> 'e + 'v action_tool option) \<Rightarrow> collision_policy \<Rightarrow> 'v enabled_tools \<Rightarrow> prepared_handoff list
   \<Rightarrow> 'e surface_error + 'v turn_surface" where
  "into_surface build_search policy inventory handoffs =
     result_bind (surface_new (en_advertised inventory) handoffs policy) (\<lambda>surface.
       case build_search (sf_tools surface) of
         Inl e \<Rightarrow> Inl (CallbackFailed e)
       | Inr search \<Rightarrow> Inr (surface \<lparr> sf_tool_search := search \<rparr>))"

text \<open>An agent declares local tools, fixed hosted ones, and hosted ones a resolver decides for the turn.\<close>

datatype ('v, 'e) agent_tool =
  LocalTool "'v action_tool" | HostedAgentTool model_tool_definition
| DynamicHosted model_tool_definition "'v action_tool list \<Rightarrow> 'e + model_tool_definition option"

fun is_local :: "('v, 'e) agent_tool \<Rightarrow> bool" where
  "is_local (LocalTool _) = True"
| "is_local _ = False"

definition declare_tool :: "tool_declaration \<Rightarrow> 'v turn_surface \<Rightarrow> 'v turn_surface" where
  "declare_tool d surface = surface \<lparr> sf_declarations := sf_declarations surface @ [d] \<rparr>"

fun resolve_declaration :: "('v, 'e) agent_tool \<Rightarrow> 'v turn_surface \<Rightarrow> 'e surface_error + 'v turn_surface" where
  "resolve_declaration (DynamicHosted preview resolver) surface =
     (case resolver (sf_tools surface) of
        Inl e \<Rightarrow> Inl (CallbackFailed e)
      | Inr None \<Rightarrow> Inr surface
      | Inr (Some tool) \<Rightarrow>
          if md_kind tool \<noteq> HostedTool \<or> md_name tool \<noteq> md_name preview \<or> md_namespace tool \<noteq> None \<or> md_defer_loading tool
          then Inl HostedIdentityChanged
          else Inr (declare_tool (HostedDeclaration tool) surface))"
| "resolve_declaration (HostedAgentTool tool) surface = Inr (declare_tool (HostedDeclaration tool) surface)"
| "resolve_declaration (LocalTool tool) surface =
     Inr (if list_ex (\<lambda>enabled. tl_handle enabled = tl_handle tool) (sf_tools surface)
          then declare_tool (LocalDeclaration (definition_qualified_name (tl_definition tool)) (md_defer_loading (tl_definition tool))) surface
          else surface)"

fun resolve_declarations :: "('v, 'e) agent_tool list \<Rightarrow> 'v turn_surface \<Rightarrow> 'e surface_error + 'v turn_surface" where
  "resolve_declarations [] surface = Inr surface"
| "resolve_declarations (d # ds) surface = result_bind (resolve_declaration d surface) (resolve_declarations ds)"

definition resolve_hosted_declarations :: "('v, 'e) agent_tool list \<Rightarrow> 'v turn_surface \<Rightarrow> 'e surface_error + 'v turn_surface" where
  "resolve_hosted_declarations declared surface =
     (if list_all is_local declared then Inr surface else resolve_declarations declared surface)"

definition local_definitions :: "'v turn_surface \<Rightarrow> model_tool_definition list" where
  "local_definitions self =
     map tl_definition (filter is_advertised (sf_tools self) @ (case sf_tool_search self of None \<Rightarrow> [] | Some t \<Rightarrow> [t]))"

fun remove_first :: "('a \<Rightarrow> bool) \<Rightarrow> 'a list \<Rightarrow> ('a \<times> 'a list) option" where
  "remove_first p [] = None"
| "remove_first p (x # xs) = (if p x then Some (x, xs) else map_option (map_prod id ((#) x)) (remove_first p xs))"

fun place_declarations ::
  "tool_declaration list \<Rightarrow> model_tool_definition list \<Rightarrow> model_tool_definition list \<Rightarrow> model_tool_definition list" where
  "place_declarations [] ordered definitions = ordered @ definitions"
| "place_declarations (HostedDeclaration tool # ds) ordered definitions = place_declarations ds (ordered @ [tool]) definitions"
| "place_declarations (LocalDeclaration name defer_loading # ds) ordered definitions =
     (case remove_first (\<lambda>tool. definition_qualified_name tool = name \<and> md_defer_loading tool = defer_loading) definitions of
        None \<Rightarrow> place_declarations ds ordered definitions
      | Some (tool, rest) \<Rightarrow> place_declarations ds (ordered @ [tool]) rest)"

fun declared_local_name :: "tool_declaration \<Rightarrow> ustring option" where
  "declared_local_name (LocalDeclaration name _) = Some name"
| "declared_local_name (HostedDeclaration _) = None"

definition tool_definitions :: "'v turn_surface \<Rightarrow> model_tool_definition list" where
  "tool_definitions self =
     (let definitions = local_definitions self in
      if \<not> list_ex is_hosted_declaration (sf_declarations self) then definitions
      else let local_names = List.map_filter declared_local_name (sf_declarations self);
               undeclared = (\<lambda>tool. definition_qualified_name tool \<notin> set local_names \<and> md_kind tool \<noteq> SearchTool)
           in place_declarations (sf_declarations self) (filter undeclared definitions) (filter (\<lambda>tool. \<not> undeclared tool) definitions))"

definition advertised_count :: "'v turn_surface \<Rightarrow> nat" where
  "advertised_count self =
     length (filter is_advertised (sf_tools self)) + (if sf_tool_search self = None then 0 else 1)
     + length (filter is_hosted_declaration (sf_declarations self)) + length (sf_handoffs self)"

text \<open>A rendered definition is measured in bytes by \<open>table_bytes\<close> and \<open>handoff_bytes\<close>, the JSON renderings of
  \<^verbatim>\<open>ra-core/src/model/request.rs\<close>; a total beyond the machine's \<^verbatim>\<open>usize\<close> is an error.\<close>

record 'e table_ops =
  table_bytes :: "model_tool_definition list \<Rightarrow> 'e surface_error + u64"
  handoff_bytes :: "handoff_spec \<Rightarrow> 'e surface_error + u64"

definition checked_add_bytes :: "u64 \<Rightarrow> u64 \<Rightarrow> 'e surface_error + u64" where
  "checked_add_bytes a b = (if unat a + unat b < 2 ^ 64 then Inr (a + b) else Inl TableTooLarge)"

fun add_handoff_bytes :: "'e table_ops \<Rightarrow> prepared_handoff list \<Rightarrow> u64 \<Rightarrow> 'e surface_error + u64" where
  "add_handoff_bytes ops [] acc = Inr acc"
| "add_handoff_bytes ops (h # hs) acc =
     result_bind (handoff_bytes ops (ph_spec h)) (\<lambda>bytes.
     result_bind (checked_add_bytes acc bytes) (add_handoff_bytes ops hs))"

definition advertised_bytes :: "'e table_ops \<Rightarrow> 'v turn_surface \<Rightarrow> 'e surface_error + u64" where
  "advertised_bytes ops self =
     result_bind (table_bytes ops (tool_definitions self)) (add_handoff_bytes ops (sf_handoffs self))"

record action_surface_budget =
  sb_max_advertised :: nat
  sb_max_advertised_bytes :: "u64 option"

definition surface_budget_validate :: "'e table_ops \<Rightarrow> action_surface_budget \<Rightarrow> 'v turn_surface \<Rightarrow> 'e surface_error + unit" where
  "surface_budget_validate ops self surface =
     (if advertised_count surface > sb_max_advertised self
      then Inl (TooManyActions (advertised_count surface) (sb_max_advertised self))
      else case sb_max_advertised_bytes self of
          None \<Rightarrow> Inr ()
        | Some max_bytes \<Rightarrow> result_bind (advertised_bytes ops surface) (\<lambda>bytes.
            if bytes > max_bytes then Inl (TooManyBytes (unat bytes) (unat max_bytes)) else Inr ()))"

section \<open>Preparing the surface of a turn\<close>

text \<open>The stages of \<^verbatim>\<open>prepare_turn\<close> that produce the surface, in their order. The callbacks, the tool resolver, the agent
  registry and the discovery index are third-party or injected code: the fields of \<open>surface_env\<close>. What the
  agent declares is \<open>surface_agent\<close>. Cancellation between the stages is not part of this model.\<close>

record ('v, 'e) surface_env =
  se_enabled :: "'v action_tool \<Rightarrow> 'e + bool"
  se_enabled_for_protocol :: "'v action_tool \<Rightarrow> 'e + bool"
  se_handoff_enabled :: "handoff_spec \<Rightarrow> 'e + bool"
  se_registered :: "ustring \<Rightarrow> bool"
  se_resolver :: "(ustring set \<Rightarrow> 'e + 'v action_tool list) option"
  se_requires_reserved_tool_names :: bool
  se_build_search :: "'v action_tool list \<Rightarrow> 'e + 'v action_tool option"
  se_table :: "'e table_ops"

record ('v, 'e) surface_agent =
  sa_tools :: "'v action_tool list"
  sa_handoffs :: "handoff_spec list"
  sa_declared :: "('v, 'e) agent_tool list"

definition reserved_names :: "('v, 'e) surface_env \<Rightarrow> ('v, 'e) surface_agent \<Rightarrow> 'e surface_error + ustring set" where
  "reserved_names env agent =
     (if \<not> se_requires_reserved_tool_names env then Inr {}
      else case collect_results (map (se_handoff_enabled env) (sa_handoffs agent)) of
          Inl e \<Rightarrow> Inl (CallbackFailed e)
        | Inr on \<Rightarrow> Inr (set (map (\<lambda>tool. definition_qualified_name (tl_definition tool)) (sa_tools agent))
            \<union> hs_name ` set (map fst (filter snd (zip (sa_handoffs agent) on)))))"

definition declared_inventory :: "('v, 'e) surface_env \<Rightarrow> ('v, 'e) surface_agent \<Rightarrow> 'e surface_error + 'v action_tool list" where
  "declared_inventory env agent =
     (case se_resolver env of
        None \<Rightarrow> Inr (sa_tools agent)
      | Some resolver \<Rightarrow> result_bind (reserved_names env agent) (\<lambda>reserved.
          case resolver reserved of Inl e \<Rightarrow> Inl (CallbackFailed e) | Inr tools \<Rightarrow> Inr (tools @ sa_tools agent)))"

definition local_surface ::
  "('v, 'e) surface_env \<Rightarrow> collision_policy \<Rightarrow> action_surface_budget \<Rightarrow> 'v enabled_tools \<Rightarrow> prepared_handoff list
   \<Rightarrow> 'e surface_error + 'v turn_surface" where
  "local_surface env policy budget inventory handoffs =
     (if en_protocol_tools inventory \<noteq> {}
      then result_bind (resolve_protocol (se_enabled_for_protocol env) inventory) (\<lambda>inventory.
           into_surface (se_build_search env) policy inventory handoffs)
      else result_bind (into_surface (se_build_search env) policy inventory handoffs) (\<lambda>surface.
           result_bind (surface_budget_validate (se_table env) budget surface) (\<lambda>_. Inr surface)))"

definition prepare_surface ::
  "('v, 'e) surface_env \<Rightarrow> ('v, 'e) surface_agent \<Rightarrow> collision_policy \<Rightarrow> action_surface_budget
   \<Rightarrow> 'e surface_error + 'v turn_surface" where
  "prepare_surface env agent policy budget =
     result_bind (declared_inventory env agent) (\<lambda>tools.
     result_bind (resolve_enabled_inventory (se_enabled env) Normal tools) (\<lambda>inventory.
     result_bind (resolve_handoffs (se_handoff_enabled env) (se_registered env) (sa_handoffs agent)) (\<lambda>handoffs.
     result_bind (local_surface env policy budget inventory handoffs) (\<lambda>surface.
     result_bind (resolve_hosted_declarations (sa_declared agent) surface) (\<lambda>surface.
     result_bind (surface_budget_validate (se_table env) budget surface) (\<lambda>_. Inr surface))))))"

section \<open>What is retained\<close>

lemma retain_nths: "length flags = length xs \<Longrightarrow> retain flags xs = map ((!) xs) (filter ((!) flags) [0..<length xs])"
proof (induction xs arbitrary: flags rule: rev_induct)
  case (snoc x xs)
  then obtain fs f where f: "flags = fs @ [f]" "length fs = length xs" by (cases flags rule: rev_cases) auto
  have "map ((!) (xs @ [x])) (filter ((!) (fs @ [f])) [0..<length xs]) = map ((!) xs) (filter ((!) fs) [0..<length xs])"
    using f(2) by (auto simp: nth_append intro!: map_cong filter_cong)
  then show ?case using snoc.IH [of fs] f unfolding f(1) by (simp add: retain_def) (simp add: nth_append)
qed (simp add: retain_def)

text \<open>The entries a collision removes.\<close>

definition group_losers :: "ustring \<times> action_owner list \<Rightarrow> action_owner list" where
  "group_losers g = (if length (snd g) < 2 then [] else filter (\<lambda>e. Some e \<noteq> collision_winner (snd g)) (snd g))"

fun owner_flag :: "bool list \<times> bool list \<Rightarrow> action_owner \<Rightarrow> bool" where
  "owner_flag (tools, handoffs) (ToolOwner i) \<longleftrightarrow> i < length tools \<and> tools ! i"
| "owner_flag (tools, handoffs) (HandoffOwner j) \<longleftrightarrow> j < length handoffs \<and> handoffs ! j"

lemma flag_update: "k < length xs \<Longrightarrow> xs[i := False] ! k \<longleftrightarrow> k \<noteq> i \<and> xs ! k"
  by (cases "k = i") auto

lemma fold_discard_owner:
  "(owner_flag (fold discard_owner es r) e \<longleftrightarrow> owner_flag r e \<and> e \<notin> set es)
   \<and> map_prod length length (fold discard_owner es r) = map_prod length length r"
proof (induction es arbitrary: r)
  case (Cons x es)
  have "owner_flag (discard_owner x r) e \<longleftrightarrow> owner_flag r e \<and> e \<noteq> x"
    by (cases r; cases x; cases e) (auto simp: flag_update)
  moreover have "map_prod length length (discard_owner x r) = map_prod length length r" by (cases r; cases x) auto
  ultimately show ?case using Cons [of "discard_owner x r"] by auto
qed simp

lemma collision_winner_in: "es \<noteq> [] \<Longrightarrow> \<exists>w \<in> set es. collision_winner es = Some w"
proof (cases "find is_handoff_owner (rev es)")
  case (Some w)
  then have "w \<in> set (rev es)" unfolding find_Some_split by (metis in_set_conv_decomp)
  then show "es \<noteq> [] \<Longrightarrow> \<exists>w \<in> set es. collision_winner es = Some w" using Some by (simp add: collision_winner_def)
qed (simp add: collision_winner_def)

lemma resolve_collisions_flags:
  "(resolve_collisions policy groups r :: 'e surface_error + bool list \<times> bool list) = Inr r' \<Longrightarrow>
     (owner_flag r' e \<longleftrightarrow> owner_flag r e \<and> e \<notin> set (concat (map group_losers groups)))
     \<and> map_prod length length r' = map_prod length length r"
proof (induction policy groups r rule: resolve_collisions.induct)
  case (2 policy name entries groups r)
  show ?case
  proof (cases "length entries < 2")
    case True
    then show ?thesis using 2 by (simp add: group_losers_def)
  next
    case False
    then obtain w where w: "collision_winner entries = Some w" using collision_winner_in [of entries] by fastforce
    have p: "policy \<noteq> ErrorPolicy" using 2(4) False by auto
    have r': "(resolve_collisions policy groups (fold discard_owner (filter (\<lambda>e. e \<noteq> w) entries) r)
        :: 'e surface_error + bool list \<times> bool list) = Inr r'"
      using 2(4) False w p by simp
    have losers: "group_losers (name, entries) = filter (\<lambda>e. e \<noteq> w) entries" using False w by (auto simp: group_losers_def)
    show ?thesis using 2(3) [OF False p w r'] losers fold_discard_owner [of "filter (\<lambda>e. e \<noteq> w) entries" r] by auto
  qed
qed simp

section \<open>Unambiguous names\<close>

lemma owners_of_iff:
  "ToolOwner i \<in> set (owners_of tns hns name) \<longleftrightarrow> i < length tns \<and> tns ! i = name"
  "HandoffOwner j \<in> set (owners_of tns hns name) \<longleftrightarrow> j < length hns \<and> hns ! j = name"
  by (auto simp: owners_of_def)

text \<open>Entries of one name that are both deferred, or both not, or of a name that is also a qualified one,
  share a group.\<close>

lemma owners_share_group:
  assumes "e \<in> set (owners_of tns hns name)" "f \<in> set (owners_of tns hns name)"
    and "owner_deferred keys e = owner_deferred keys f" "name \<in> set (tns @ hns)"
  shows "\<exists>g \<in> set (owner_groups tns hns keys). e \<in> set (snd g) \<and> f \<in> set (snd g)"
proof -
  have "\<exists>g \<in> set (split_model_name_owners name (owners_of tns hns name) keys). e \<in> set (snd g) \<and> f \<in> set (snd g)"
    using assms by (cases "owner_deferred keys e") (auto simp: split_model_name_owners_def)
  then show ?thesis using assms(4) by (auto simp: owner_groups_def)
qed

lemma losers_of_group:
  assumes "g \<in> set groups" "e \<in> set (snd g)" "f \<in> set (snd g)" "e \<noteq> f"
  shows "e \<in> set (concat (map group_losers groups)) \<or> f \<in> set (concat (map group_losers groups))"
proof -
  have "2 \<le> length (snd g)" using assms(2-4) by (cases "snd g"; cases "tl (snd g)") auto
  then have "e \<in> set (group_losers g) \<or> f \<in> set (group_losers g)" using assms(2-4) by (auto simp: group_losers_def) (metis option.inject)
  then show ?thesis using assms(1) by auto
qed

lemma owner_name: "(name, es) \<in> set (owner_groups tns hns keys) \<Longrightarrow> set es \<subseteq> set (owners_of tns hns name)"
  by (auto simp: owner_groups_def split_model_name_owners_def split: if_splits)

lemma owners_of_inj: "e \<in> set (owners_of tns hns name) \<Longrightarrow> e \<in> set (owners_of tns hns name') \<Longrightarrow> name = name'"
  by (cases e) (auto simp: owners_of_iff)

lemma group_shares_name:
  assumes "g \<in> set (owner_groups tns hns keys)" "e \<in> set (snd g)" "e \<in> set (owners_of tns hns name)" "f \<in> set (snd g)"
  shows "f \<in> set (owners_of tns hns name)"
proof -
  have sub: "set (snd g) \<subseteq> set (owners_of tns hns (fst g))" using owner_name [of "fst g" "snd g" tns hns keys] assms(1) by simp
  then have "fst g = name" using owners_of_inj assms(2,3) by blast
  then show ?thesis using sub assms(4) by blast
qed

lemma owners_grouped_once:
  assumes "g \<in> set (owner_groups tns hns keys)" "g' \<in> set (owner_groups tns hns keys)" "e \<in> set (snd g)" "e \<in> set (snd g')"
  shows "g = g'"
proof -
  have "e \<in> set (owners_of tns hns (fst g))" "e \<in> set (owners_of tns hns (fst g'))"
    using owner_name [of "fst g" "snd g" tns hns keys] owner_name [of "fst g'" "snd g'" tns hns keys] assms by auto
  then have "fst g = fst g'" by (rule owners_of_inj)
  moreover have "g \<in> set (split_model_name_owners (fst g) (owners_of tns hns (fst g)) keys)"
    "g' \<in> set (split_model_name_owners (fst g') (owners_of tns hns (fst g')) keys)"
    using assms(1,2) by (auto simp: owner_groups_def split_model_name_owners_def split: if_splits)
  ultimately show ?thesis using assms(3,4) by (cases g; cases g') (auto simp: split_model_name_owners_def split: if_splits)
qed

text \<open>No collision removes every owner of a name.\<close>

lemma group_keeps_one:
  assumes "g \<in> set (owner_groups tns hns keys)" "snd g \<noteq> []"
  shows "\<exists>e \<in> set (snd g). e \<notin> set (concat (map group_losers (owner_groups tns hns keys)))"
proof -
  obtain w where w: "w \<in> set (snd g)" "collision_winner (snd g) = Some w" using collision_winner_in [OF assms(2)] by blast
  have "w \<notin> set (group_losers g')" if "g' \<in> set (owner_groups tns hns keys)" for g'
    using owners_grouped_once [OF assms(1) that w(1)] w by (auto simp: group_losers_def)
  then show ?thesis using w(1) by (intro bexI [of _ w]) auto
qed

lemma definition_lookup_key_shape:
  assumes "definition_lookup_key d = Inr k" and "md_namespace d \<noteq> Some (md_name d)"
  shows "lk_name k = md_name d \<and> lk_namespace k = md_namespace d
    \<and> lk_kind k = (case md_namespace d of Some _ \<Rightarrow> Namespaced
        | None \<Rightarrow> if md_defer_loading d \<and> md_kind d = FunctionTool then DeferredTopLevel else Bare)"
  using assms
  by (auto simp: definition_lookup_key_def checked_namespace_def result_bind_Inr_iff for_call_Inr_iff lookup_key_def
      deferred_top_level_def split: if_splits option.splits)

lemma surface_new_cases:
  assumes "(surface_new tools handoffs policy :: 'e surface_error + 'v turn_surface) = Inr s"
  obtains keys rt rh where "collect_results (map (\<lambda>tool. definition_lookup_key (routed_definition tool)) tools) = Inr keys"
    "(resolve_collisions policy (owner_groups (map (\<lambda>tool. definition_qualified_name (tl_definition tool)) tools) (map ph_name handoffs) keys)
       (replicate (length tools) True, replicate (length handoffs) True) :: 'e surface_error + bool list \<times> bool list) = Inr (rt, rh)"
    "s = \<lparr> sf_declarations = [], sf_tools = retain rt tools, sf_tool_names = retain rt (map (\<lambda>tool. definition_qualified_name (tl_definition tool)) tools),
           sf_tool_keys = retain rt keys, sf_handoffs = retain rh handoffs, sf_tool_search = None \<rparr>"
  using assms by (auto simp: surface_new_def Let_def result_bind_Inr_iff split: sum.splits prod.splits)

lemma distinct_retained:
  assumes "length flags = length xs"
    and "\<And>i j. i < length xs \<Longrightarrow> j < length xs \<Longrightarrow> i \<noteq> j \<Longrightarrow> flags ! i \<Longrightarrow> flags ! j \<Longrightarrow> f (xs ! i) \<noteq> f (xs ! j)"
  shows "distinct (map f (retain flags xs))"
  unfolding retain_nths [OF assms(1)] using assms(2) by (auto simp: distinct_map inj_on_def)

lemma owners_of_nonempty:
  assumes "name \<in> set (tns @ hns)"
  obtains e where "e \<in> set (owners_of tns hns name)"
proof -
  consider (tool) i where "i < length tns" "tns ! i = name" | (handoff) j where "j < length hns" "hns ! j = name"
    using assms by (auto simp: in_set_conv_nth)
  then show ?thesis
  proof cases
    case tool
    then show ?thesis using that [of "ToolOwner i"] by (simp add: owners_of_iff)
  next
    case handoff
    then show ?thesis using that [of "HandoffOwner j"] by (simp add: owners_of_iff)
  qed
qed

lemma find_in_set: "find P xs = Some x \<Longrightarrow> x \<in> set xs \<and> P x"
  by (auto simp: find_Some_iff)

lemma set_retain: "length flags = length xs \<Longrightarrow> set (retain flags xs) = {xs ! i | i. i < length xs \<and> flags ! i}"
  by (auto simp: retain_nths)

text \<open>What a resolved surface keeps: an owner is kept unless its group discards it.\<close>

abbreviation tool_names_of :: "'v action_tool list \<Rightarrow> ustring list" where
  "tool_names_of tools \<equiv> map (\<lambda>tool. definition_qualified_name (tl_definition tool)) tools"

definition kept_by ::
  "'v action_tool list \<Rightarrow> prepared_handoff list \<Rightarrow> 'v tool_lookup_key list \<Rightarrow> bool list \<times> bool list \<Rightarrow> bool" where
  "kept_by tools handoffs keys r \<longleftrightarrow>
     map (\<lambda>tool. definition_lookup_key (routed_definition tool)) tools = map Inr keys
     \<and> map_prod length length r = (length tools, length handoffs)
     \<and> (\<forall>e. owner_flag r e \<longleftrightarrow> owner_flag (replicate (length tools) True, replicate (length handoffs) True) e
          \<and> e \<notin> set (concat (map group_losers (owner_groups (tool_names_of tools) (map ph_name handoffs) keys))))"

lemma surface_new_kept:
  assumes "(surface_new tools handoffs policy :: 'e surface_error + 'v turn_surface) = Inr s"
  obtains keys rt rh where "kept_by tools handoffs keys (rt, rh)"
    "s = \<lparr> sf_declarations = [], sf_tools = retain rt tools, sf_tool_names = retain rt (tool_names_of tools),
           sf_tool_keys = retain rt keys, sf_handoffs = retain rh handoffs, sf_tool_search = None \<rparr>"
  using assms
proof (rule surface_new_cases)
  fix keys rt rh
  assume c: "collect_results (map (\<lambda>tool. definition_lookup_key (routed_definition tool)) tools) = Inr keys"
    and r: "(resolve_collisions policy (owner_groups (tool_names_of tools) (map ph_name handoffs) keys)
      (replicate (length tools) True, replicate (length handoffs) True) :: 'e surface_error + bool list \<times> bool list) = Inr (rt, rh)"
    and s: "s = \<lparr> sf_declarations = [], sf_tools = retain rt tools, sf_tool_names = retain rt (tool_names_of tools),
           sf_tool_keys = retain rt keys, sf_handoffs = retain rh handoffs, sf_tool_search = None \<rparr>"
  have "kept_by tools handoffs keys (rt, rh)"
    unfolding kept_by_def using c resolve_collisions_flags [OF r] by (simp add: collect_results_Inr)
  then show ?thesis using s by (rule that)
qed

lemma kept_lengths: "kept_by tools handoffs keys (rt, rh) \<Longrightarrow>
    length rt = length tools \<and> length rh = length handoffs \<and> length keys = length tools"
  by (auto simp: kept_by_def dest: arg_cong [of _ _ length])

lemma owners_in_range:
  assumes "e \<in> set (owners_of (tool_names_of tools) (map ph_name handoffs) name)"
  shows "owner_flag (replicate (length tools) True, replicate (length handoffs) True) e"
  using assms by - (cases e, auto simp: owners_of_iff)

lemma kept_unique:
  assumes k: "kept_by tools handoffs keys r"
    and "e \<in> set (owners_of (tool_names_of tools) (map ph_name handoffs) name)"
    and "f \<in> set (owners_of (tool_names_of tools) (map ph_name handoffs) name)"
    and "owner_deferred keys e = owner_deferred keys f" "owner_flag r e" "owner_flag r f"
  shows "e = f"
proof (rule ccontr)
  let ?tns = "tool_names_of tools" and ?hns = "map ph_name handoffs"
  assume ne: "e \<noteq> f"
  have "name \<in> set (?tns @ ?hns)" using assms(2) by - (cases e, auto simp: owners_of_iff)
  then obtain g where "g \<in> set (owner_groups ?tns ?hns keys)" "e \<in> set (snd g)" "f \<in> set (snd g)"
    using owners_share_group [OF assms(2,3,4)] by blast
  then show False using losers_of_group [OF _ _ _ ne] k assms(5,6) by (simp add: kept_by_def) blast
qed

lemma kept_exists:
  assumes k: "kept_by tools handoffs keys r" and n: "name \<in> set (tool_names_of tools @ map ph_name handoffs)"
  shows "\<exists>f \<in> set (owners_of (tool_names_of tools) (map ph_name handoffs) name). owner_flag r f"
proof -
  let ?tns = "tool_names_of tools" and ?hns = "map ph_name handoffs"
  obtain e where e: "e \<in> set (owners_of ?tns ?hns name)" using n by (rule owners_of_nonempty)
  then obtain g where g: "g \<in> set (owner_groups ?tns ?hns keys)" "e \<in> set (snd g)"
    using owners_share_group [OF e e refl n] by blast
  then have "snd g \<noteq> []" by auto
  then obtain f where f: "f \<in> set (snd g)" "f \<notin> set (concat (map group_losers (owner_groups ?tns ?hns keys)))"
    using group_keeps_one [OF g(1)] by blast
  have own: "f \<in> set (owners_of ?tns ?hns name)" using group_shares_name [OF g e f(1)] .
  then show ?thesis using f(2) k owners_in_range [OF own] unfolding kept_by_def by (intro bexI [of _ f]) auto
qed

lemma kept_names:
  assumes k: "kept_by tools handoffs keys (rt, rh)"
  shows "set (retain rt (tool_names_of tools)) \<union> ph_name ` set (retain rh handoffs) = set (tool_names_of tools @ map ph_name handoffs)"
    (is "?kept = ?all")
proof
  note len = kept_lengths [OF k]
  show "?kept \<subseteq> ?all" using len by (auto simp: set_retain)
  show "?all \<subseteq> ?kept"
  proof
    fix name assume "name \<in> ?all"
    then obtain f where f: "f \<in> set (owners_of (tool_names_of tools) (map ph_name handoffs) name)" "owner_flag (rt, rh) f"
      using kept_exists [OF k] by blast
    show "name \<in> ?kept"
    proof (cases f)
      case (ToolOwner i)
      then show ?thesis using f len by (force simp: owners_of_iff set_retain)
    next
      case (HandoffOwner j)
      then have "handoffs ! j \<in> set (retain rh handoffs)" "ph_name (handoffs ! j) = name"
        using f len by (auto simp: owners_of_iff set_retain)
      then show ?thesis by auto
    qed
  qed
qed

text \<open>The key of a tool outside a namespace of its own name determines the name it is advertised under.\<close>

lemma kept_key:
  assumes k: "kept_by tools handoffs keys r" and i: "i < length tools"
    and plain: "md_namespace (tl_definition (tools ! i)) \<noteq> Some (md_name (tl_definition (tools ! i)))"
  shows "tool_names_of tools ! i = surface_label (keys ! i)
    \<and> (lk_kind (keys ! i) = DeferredTopLevel \<longrightarrow> md_namespace (tl_definition (tools ! i)) = None)"
proof -
  have "definition_lookup_key (routed_definition (tools ! i)) = Inr (keys ! i)"
    using k i arg_cong [of _ _ "\<lambda>xs. xs ! i"] unfolding kept_by_def by (metis (no_types, lifting) length_map nth_map)
  then show ?thesis using definition_lookup_key_shape [of "routed_definition (tools ! i)" "keys ! i"] plain i
    by (auto simp: routed_definition_def definition_qualified_name_def surface_label_def split: option.splits)
qed

lemma find_handoff_retained:
  assumes "find_handoff s name = Some h" "sf_handoffs s = retain rh handoffs" "length rh = length handoffs"
  obtains j where "j < length handoffs" "rh ! j" "ph_name (handoffs ! j) = name"
proof -
  have "h \<in> set (sf_handoffs s) \<and> ph_name h = name" using find_in_set [OF assms(1) [unfolded find_handoff_def]] by simp
  then show ?thesis using that assms(2,3) by (auto simp: set_retain)
qed

lemma find_tool_retained:
  assumes "find_tool_in s None name = Some tool" "sf_tool_keys s = retain rt keys" "length rt = length keys"
  obtains i where "i < length keys" "rt ! i" "lookup_identity (keys ! i) = (Bare, name, None)"
proof -
  obtain key where key: "bare name = Inr key" "\<exists>k \<in> set (sf_tool_keys s). lookup_eq k key"
    using assms(1) by (auto simp: find_tool_in_def checked_namespace_def for_call_def result_bind_Inr_iff
        dest!: find_in_set set_zip_rightD split: sum.splits) blast
  then obtain i where i: "i < length keys" "rt ! i" "lookup_eq (keys ! i) key" using assms(2,3) by (auto simp: set_retain)
  have "lookup_identity key = (Bare, name, None)"
    using key(1) by (auto simp: bare_def result_bind_Inr_iff lookup_key_def lookup_identity_def)
  then show ?thesis using that [OF i(1,2)] i(3) by (simp add: lookup_eq_def)
qed


text \<open>Without the hypothesis the promise fails: a discovered top-level tool and a tool in a namespace of the
  same name are advertised under different names and both kept, yet a call resolves them by one key.\<close>

definition clash_tool :: "nat \<Rightarrow> ustring option \<Rightarrow> tool_exposure \<Rightarrow> 'v action_tool" where
  "clash_tool h ns exposure =
     \<lparr> tl_handle = h, tl_origin = origin_tool_search,
       tl_definition = \<lparr> md_name = lit ''a'', md_kind = FunctionTool, md_namespace = ns, md_defer_loading = False \<rparr>,
       tl_description = None, tl_title = None, tl_exposure = exposure, tl_availability = Enabled \<rparr>"

lemma clash_keys:
  "definition_lookup_key (routed_definition (clash_tool h None Deferred)) = Inr (lookup_key DeferredTopLevel (lit ''a'') None)"
  "definition_lookup_key (routed_definition (clash_tool h None Advertised)) = Inr (lookup_key Bare (lit ''a'') None)"
  "definition_lookup_key (routed_definition (clash_tool h (Some (lit ''a'')) Advertised)) = Inr (lookup_key DeferredTopLevel (lit ''a'') None)"
proof -
  have "label_ok (lit ''a'')" by (simp add: label_ok_def str_simps)
  then show
    "definition_lookup_key (routed_definition (clash_tool h None Deferred)) = Inr (lookup_key DeferredTopLevel (lit ''a'') None)"
    "definition_lookup_key (routed_definition (clash_tool h None Advertised)) = Inr (lookup_key Bare (lit ''a'') None)"
    "definition_lookup_key (routed_definition (clash_tool h (Some (lit ''a'')) Advertised)) = Inr (lookup_key DeferredTopLevel (lit ''a'') None)"
    by (simp_all add: definition_lookup_key_def routed_definition_def clash_tool_def is_discoverable_def deferred_top_level_def
        bare_def for_call_def checked_namespace_def validate_tool_name_Inr [THEN iffD2] validate_namespace_Inr [THEN iffD2]
        del: validate_tool_name_Inr validate_namespace_Inr)
qed

lemma clash_names:
  "definition_qualified_name (tl_definition (clash_tool h None e)) = lit ''a''"
  "definition_qualified_name (tl_definition (clash_tool h (Some (lit ''a'')) e)) = lit ''a.a''"
  by (simp_all add: clash_tool_def definition_qualified_name_def lit_def)

lemma upt_small: "[0..<Suc 0] = [0]" "[0..<Suc (Suc 0)] = [0, Suc 0]" "[0..<Suc (Suc (Suc 0))] = [0, Suc 0, Suc (Suc 0)]"
  by (simp_all add: upt_conv_Cons)

lemma clash_order: "lit ''a'' \<le> lit ''a.a''" "lit ''a.a'' \<le> lit ''a'' \<longleftrightarrow> False"
  by (simp_all add: lit_def)

lemmas surface_eval = surface_new_def Let_def clash_keys clash_names owner_groups_def owners_of_def split_model_name_owners_def
  collision_winner_def retain_def lookup_key_def upt_small clash_order

lemma namespace_of_own_name_is_ambiguous:
  "case (surface_new [clash_tool 0 None Deferred, clash_tool 1 (Some (lit ''a'')) Advertised] [] ErrorPolicy :: unit surface_error + nat turn_surface) of
     Inl _ \<Rightarrow> False
   | Inr s \<Rightarrow> map tl_handle (sf_tools s) = [0, 1] \<and> lookup_eq (sf_tool_keys s ! 0) (sf_tool_keys s ! 1)
       \<and> sf_tool_names s = [lit ''a'', lit ''a.a'']"
  by (simp add: surface_eval lookup_eq_def) (simp add: clash_tool_def)


section \<open>The table and its budget\<close>

lemma remove_first_mset: "remove_first p xs = Some (y, ys) \<Longrightarrow> mset xs = add_mset y (mset ys)"
  by (induction xs arbitrary: ys) (auto split: if_splits)

definition hosted_definitions :: "tool_declaration list \<Rightarrow> model_tool_definition list" where
  "hosted_definitions ds = List.map_filter (\<lambda>d. case d of HostedDeclaration tool \<Rightarrow> Some tool | LocalDeclaration _ _ \<Rightarrow> None) ds"

lemma place_declarations_mset:
  "mset (place_declarations ds ordered definitions) = mset ordered + mset definitions + mset (hosted_definitions ds)"
  by (induction ds ordered definitions rule: place_declarations.induct)
    (auto simp: hosted_definitions_def List.map_filter_simps dest: remove_first_mset split: option.splits)

lemma no_hosted_definitions: "\<not> list_ex is_hosted_declaration ds \<Longrightarrow> hosted_definitions ds = []"
  by (induction ds rule: list.induct) (auto simp: hosted_definitions_def List.map_filter_simps split: tool_declaration.splits)

lemma length_hosted_definitions: "length (hosted_definitions ds) = length (filter is_hosted_declaration ds)"
  by (induction ds) (auto simp: hosted_definitions_def List.map_filter_simps split: tool_declaration.splits)

lemma tool_definitions_mset:
  "mset (tool_definitions self) = mset (local_definitions self) + mset (hosted_definitions (sf_declarations self))"
  by (simp add: tool_definitions_def Let_def place_declarations_mset no_hosted_definitions)

lemma length_tool_definitions: "length (tool_definitions self) + length (sf_handoffs self) = advertised_count self"
proof -
  have "length (tool_definitions self) = length (local_definitions self) + length (hosted_definitions (sf_declarations self))"
    using arg_cong [OF tool_definitions_mset, of size self] by simp
  then show ?thesis
    by (simp add: advertised_count_def local_definitions_def length_hosted_definitions split: option.splits)
qed

lemma add_handoff_bytes_exact:
  "add_handoff_bytes ops hs acc = Inr n \<Longrightarrow>
     \<exists>bs. map (\<lambda>h. handoff_bytes ops (ph_spec h)) hs = map Inr bs \<and> unat n = unat acc + sum_list (map unat bs)"
proof (induction hs arbitrary: acc)
  case (Cons h hs)
  then obtain b where b: "handoff_bytes ops (ph_spec h) = Inr b" "unat acc + unat b < 2 ^ 64"
    and rest: "add_handoff_bytes ops hs (acc + b) = Inr n"
    by (auto simp: result_bind_Inr_iff checked_add_bytes_def split: if_splits)
  obtain bs where bs: "map (\<lambda>h. handoff_bytes ops (ph_spec h)) hs = map Inr bs" "unat n = unat (acc + b) + sum_list (map unat bs)"
    using Cons.IH [OF rest] by blast
  have "unat (acc + b) = unat acc + unat b" using b(2) by (simp add: unat_add_lem [THEN iffD1])
  then show ?case using b(1) bs by (intro exI [of _ "b # bs"]) simp
qed simp


definition sample_table_ops :: "unit table_ops" where
  "sample_table_ops = \<lparr> table_bytes = (\<lambda>ds. Inr (10 * word_of_nat (length ds))), handoff_bytes = (\<lambda>h. Inr 7) \<rparr>"

definition sample_surface :: "'v turn_surface" where
  "sample_surface =
     \<lparr> sf_declarations = [HostedDeclaration \<lparr> md_name = lit ''web'', md_kind = HostedTool, md_namespace = None, md_defer_loading = False \<rparr>,
         LocalDeclaration (lit ''a'') False],
       sf_tools = [clash_tool 1 None Advertised, clash_tool 0 None Deferred], sf_tool_names = [lit ''a'', lit ''a''],
       sf_tool_keys = [lookup_key Bare (lit ''a'') None, lookup_key DeferredTopLevel (lit ''a'') None],
       sf_handoffs = [\<lparr> ph_spec = \<lparr> hs_name = lit ''t'', hs_target_agent = lit ''b'', hs_history_projection = ProjectFull \<rparr>,
         ph_target = lit ''b'', ph_declaration = Some 0 \<rparr>], sf_tool_search = None \<rparr>"

lemmas table_eval = sample_surface_def tool_definitions_def local_definitions_def clash_tool_def is_advertised_def
  definition_qualified_name_def List.map_filter_simps


section \<open>What preparation lets through\<close>

lemma keep_enabled_advertised:
  "en_advertised (keep_enabled ps acc) =
     en_advertised acc @ map fst (filter (\<lambda>(tool, on). on \<and> (is_advertised tool \<or> is_discoverable tool)) ps)"
  by (induction ps acc rule: keep_enabled.induct) simp_all

definition protocol_slots :: "'v action_tool list \<Rightarrow> nat set" where
  "protocol_slots tools = {i. i < length tools \<and> tl_availability (tools ! i) = DynamicForProtocol}"

lemma protocol_slots_snoc:
  "protocol_slots (tools @ [tool]) =
     (if tl_availability tool = DynamicForProtocol then insert (length tools) (protocol_slots tools) else protocol_slots tools)"
  by (auto simp: protocol_slots_def nth_append less_Suc_eq)

lemma keep_enabled_protocol:
  "en_protocol_tools acc = protocol_slots (en_advertised acc) \<Longrightarrow>
   en_protocol_tools (keep_enabled ps acc) = protocol_slots (en_advertised (keep_enabled ps acc))"
  by (induction ps acc rule: keep_enabled.induct) (auto simp: protocol_slots_snoc)

text \<open>The decisions a tool has passed when it reaches the surface.\<close>

definition passed_availability :: "('v, 'e) surface_env \<Rightarrow> 'v action_tool \<Rightarrow> bool" where
  "passed_availability env tool \<longleftrightarrow>
     (case tl_availability tool of
        Disabled \<Rightarrow> False
      | Enabled \<Rightarrow> True
      | Dynamic \<Rightarrow> se_enabled env tool = Inr True
      | DynamicForProtocol \<Rightarrow> se_enabled_for_protocol env tool = Inr True)"

definition before_protocol :: "('v, 'e) surface_env \<Rightarrow> 'v action_tool \<Rightarrow> bool" where
  "before_protocol env tool \<longleftrightarrow> passed_availability env tool \<or> tl_availability tool = DynamicForProtocol"

lemma enabled_inventory:
  assumes "resolve_enabled_inventory (se_enabled env) Normal tools = Inr inventory"
  shows "en_protocol_tools inventory = protocol_slots (en_advertised inventory)"
    and "\<forall>tool \<in> set (en_advertised inventory). tool \<in> set tools \<and> tl_exposure tool \<noteq> Hidden \<and> before_protocol env tool"
proof -
  obtain ds where ds: "map (availability_decision (se_enabled env) Normal) tools = map Inr ds"
    and inv: "inventory = keep_enabled (zip tools ds) \<lparr> en_advertised = [], en_protocol_tools = {} \<rparr>"
    using assms by (auto simp: resolve_enabled_inventory_def collect_results_Inr split: sum.splits)
  show "en_protocol_tools inventory = protocol_slots (en_advertised inventory)"
    unfolding inv by (rule keep_enabled_protocol) (simp add: protocol_slots_def)
  show "\<forall>tool \<in> set (en_advertised inventory). tool \<in> set tools \<and> tl_exposure tool \<noteq> Hidden \<and> before_protocol env tool"
  proof
    fix tool assume "tool \<in> set (en_advertised inventory)"
    then have m: "(tool, True) \<in> set (zip tools ds)" and e: "is_advertised tool \<or> is_discoverable tool"
      by (auto simp: inv keep_enabled_advertised)
    then obtain i where i: "i < length tools" "tools ! i = tool" "i < length ds" "ds ! i" by (auto simp: set_zip)
    have "availability_decision (se_enabled env) Normal tool = Inr True"
      using arg_cong [OF ds, of "\<lambda>xs. xs ! i"] i by simp
    then have "before_protocol env tool"
      by (simp add: availability_decision_def before_protocol_def passed_availability_def split: tool_availability.splits)
    then show "tool \<in> set tools \<and> tl_exposure tool \<noteq> Hidden \<and> before_protocol env tool"
      using e i(1,2) by (auto simp: is_advertised_def is_discoverable_def)
  qed
qed

lemma protocol_inventory:
  assumes "resolve_protocol (se_enabled_for_protocol env) inventory = Inr inventory'"
    and "en_protocol_tools inventory = protocol_slots (en_advertised inventory)"
    and "\<forall>tool \<in> set (en_advertised inventory). P tool \<and> before_protocol env tool"
  shows "\<forall>tool \<in> set (en_advertised inventory'). P tool \<and> passed_availability env tool"
proof
  fix tool assume t: "tool \<in> set (en_advertised inventory')"
  obtain ds where ds: "map (\<lambda>(i, tool). if i \<in> en_protocol_tools inventory then se_enabled_for_protocol env tool else Inr True)
      (enumerate 0 (en_advertised inventory)) = map Inr ds"
    and inv: "en_advertised inventory' = map fst (filter snd (zip (en_advertised inventory) ds))"
    using assms(1) by (auto simp: resolve_protocol_def collect_results_Inr split: sum.splits)
  obtain i where i: "i < length (en_advertised inventory)" "en_advertised inventory ! i = tool" "i < length ds" "ds ! i"
    using t by (auto simp: inv set_zip)
  have "(if i \<in> en_protocol_tools inventory then se_enabled_for_protocol env tool else Inr True) = Inr True"
    using arg_cong [OF ds, of "\<lambda>xs. xs ! i"] i by (simp add: nth_enumerate_eq)
  moreover have "P tool \<and> before_protocol env tool" using assms(3) i by auto
  ultimately show "P tool \<and> passed_availability env tool"
    using assms(2) i by (auto simp: before_protocol_def passed_availability_def protocol_slots_def split: if_splits)
qed

text \<open>What a call is resolved by on a surface: the stored keys are those of the tools, and a handoff's declaration
  names the agent it is bound to.\<close>

definition routable :: "'v turn_surface \<Rightarrow> bool" where
  "routable s \<longleftrightarrow>
     map (\<lambda>tool. definition_lookup_key (routed_definition tool)) (sf_tools s) = map Inr (sf_tool_keys s)
     \<and> list_all (\<lambda>h. hs_target_agent (ph_spec h) = ph_target h) (sf_handoffs s)"

lemma retain_map: "length flags = length xs \<Longrightarrow> retain flags (map f xs) = map f (retain flags xs)"
  by (auto simp: retain_nths)

lemma retain_subset: "set (retain flags xs) \<subseteq> set xs"
  by (auto simp: retain_def dest: set_zip_leftD)

lemma surface_new_routable:
  assumes "(surface_new tools handoffs policy :: 'e surface_error + 'v turn_surface) = Inr s"
    and "list_all (\<lambda>h. hs_target_agent (ph_spec h) = ph_target h) handoffs"
  shows "routable s \<and> set (sf_tools s) \<subseteq> set tools \<and> set (sf_handoffs s) \<subseteq> set handoffs"
  using assms(1)
proof (rule surface_new_kept)
  fix keys rt rh assume k: "kept_by tools handoffs keys (rt, rh)"
    and s: "s = \<lparr> sf_declarations = [], sf_tools = retain rt tools, sf_tool_names = retain rt (tool_names_of tools),
      sf_tool_keys = retain rt keys, sf_handoffs = retain rh handoffs, sf_tool_search = None \<rparr>"
  have "map (\<lambda>tool. definition_lookup_key (routed_definition tool)) (retain rt tools) = map Inr (retain rt keys)"
    using k kept_lengths [OF k] by (simp add: kept_by_def flip: retain_map)
  then show ?thesis using assms(2) retain_subset [of rt tools] retain_subset [of rh handoffs]
    by (auto simp: routable_def s list_all_iff)
qed

lemma resolve_declaration_keeps:
  "resolve_declaration d s = Inr s1 \<Longrightarrow> s1 \<lparr> sf_declarations := [] \<rparr> = s \<lparr> sf_declarations := [] \<rparr>"
  by (cases "(d, s)" rule: resolve_declaration.cases)
    (auto simp: declare_tool_def split: sum.splits option.splits if_splits)

lemma resolve_declarations_keep:
  "resolve_declarations ds s = Inr s1 \<Longrightarrow> s1 \<lparr> sf_declarations := [] \<rparr> = s \<lparr> sf_declarations := [] \<rparr>"
proof (induction ds arbitrary: s)
  case (Cons d ds)
  then obtain a where a: "resolve_declaration d s = Inr a" "resolve_declarations ds a = Inr s1" by (auto simp: result_bind_Inr_iff)
  show ?case using Cons.IH [OF a(2)] resolve_declaration_keeps [OF a(1)] by simp
qed simp

lemma resolve_hosted_keeps:
  "resolve_hosted_declarations declared s = Inr s' \<Longrightarrow> s' \<lparr> sf_declarations := [] \<rparr> = s \<lparr> sf_declarations := [] \<rparr>"
  using resolve_declarations_keep by (auto simp: resolve_hosted_declarations_def split: if_splits)

lemma resolve_handoffs_from_Inr:
  "resolve_handoffs_from registered i hs = Inr prepared \<Longrightarrow>
     \<forall>h \<in> set prepared. hs_target_agent (ph_spec h) = ph_target h \<and> registered (ph_target h) \<and> (ph_spec h, True) \<in> set hs"
proof (induction hs arbitrary: i prepared)
  case (Cons x hs)
  then show ?case
    by (cases x) (fastforce simp: prepared_handoff_new_def result_bind_Inr_iff split: if_splits)
qed simp

lemma resolve_handoffs_bound:
  "resolve_handoffs enabled registered hs = Inr prepared \<Longrightarrow> list_all (\<lambda>h. hs_target_agent (ph_spec h) = ph_target h) prepared"
  by (auto simp: resolve_handoffs_def list_all_iff dest!: resolve_handoffs_from_Inr split: sum.splits)

lemma into_surface_Inr:
  assumes "(into_surface build policy inventory handoffs :: 'e surface_error + 'v turn_surface) = Inr s"
    and "list_all (\<lambda>h. hs_target_agent (ph_spec h) = ph_target h) handoffs"
  shows "routable s \<and> set (sf_tools s) \<subseteq> set (en_advertised inventory)"
proof -
  obtain s0 where s0: "(surface_new (en_advertised inventory) handoffs policy :: 'e surface_error + _) = Inr s0"
    and b: "(case build (sf_tools s0) of Inl e \<Rightarrow> Inl (CallbackFailed e) | Inr search \<Rightarrow> Inr (s0 \<lparr> sf_tool_search := search \<rparr>)) = Inr s"
    using assms(1) unfolding into_surface_def result_bind_Inr_iff by blast
  obtain search where "s = s0 \<lparr> sf_tool_search := search \<rparr>" using b by (cases "build (sf_tools s0)") auto
  then show ?thesis using surface_new_routable [OF s0 assms(2)] by (simp add: routable_def)
qed

lemma local_surface_Inr:
  assumes l: "local_surface env policy budget inventory handoffs = Inr s"
    and h: "list_all (\<lambda>h. hs_target_agent (ph_spec h) = ph_target h) handoffs"
    and p: "en_protocol_tools inventory = protocol_slots (en_advertised inventory)"
    and i: "\<forall>tool \<in> set (en_advertised inventory). P tool \<and> before_protocol env tool"
  shows "routable s \<and> (\<forall>tool \<in> set (sf_tools s). P tool \<and> passed_availability env tool)"
proof (cases "en_protocol_tools inventory = {}")
  case True
  then have "into_surface (se_build_search env) policy inventory handoffs = Inr s"
    using l by (auto simp: local_surface_def result_bind_Inr_iff)
  moreover have "\<forall>tool \<in> set (en_advertised inventory). P tool \<and> passed_availability env tool"
  proof
    fix tool assume t: "tool \<in> set (en_advertised inventory)"
    then have "tl_availability tool \<noteq> DynamicForProtocol" using True p by (auto simp: protocol_slots_def in_set_conv_nth)
    then show "P tool \<and> passed_availability env tool" using i t by (auto simp: before_protocol_def)
  qed
  ultimately show ?thesis using into_surface_Inr [OF _ h] by blast
next
  case False
  then obtain inventory' where r: "resolve_protocol (se_enabled_for_protocol env) inventory = Inr inventory'"
      "into_surface (se_build_search env) policy inventory' handoffs = Inr s"
    using l by (auto simp: local_surface_def result_bind_Inr_iff)
  show ?thesis using into_surface_Inr [OF r(2) h] protocol_inventory [OF r(1) p i] by blast
qed

lemma prepare_surface_Inr:
  assumes "prepare_surface env agent policy budget = Inr s"
  obtains tools where "declared_inventory env agent = Inr tools" "routable s"
    "\<forall>tool \<in> set (sf_tools s). tool \<in> set tools \<and> tl_exposure tool \<noteq> Hidden \<and> passed_availability env tool"
    "surface_budget_validate (se_table env) budget s = Inr ()"
proof -
  obtain tools inventory handoffs s0 where st: "declared_inventory env agent = Inr tools"
      "resolve_enabled_inventory (se_enabled env) Normal tools = Inr inventory"
      "resolve_handoffs (se_handoff_enabled env) (se_registered env) (sa_handoffs agent) = Inr handoffs"
      "local_surface env policy budget inventory handoffs = Inr s0"
      "resolve_hosted_declarations (sa_declared agent) s0 = Inr s" "surface_budget_validate (se_table env) budget s = Inr ()"
    using assms by (auto simp: prepare_surface_def result_bind_Inr_iff)
  have e: "\<forall>tool \<in> set (en_advertised inventory). (tool \<in> set tools \<and> tl_exposure tool \<noteq> Hidden) \<and> before_protocol env tool"
    using enabled_inventory(2) [OF st(2)] by blast
  have "routable s0 \<and> (\<forall>tool \<in> set (sf_tools s0). (tool \<in> set tools \<and> tl_exposure tool \<noteq> Hidden) \<and> passed_availability env tool)"
    using local_surface_Inr [OF st(4) resolve_handoffs_bound [OF st(3)] enabled_inventory(1) [OF st(2)] e] .
  moreover have "sf_tools s = sf_tools s0" "sf_tool_keys s = sf_tool_keys s0" "sf_handoffs s = sf_handoffs s0"
    using resolve_hosted_keeps [OF st(5)] by (cases s; cases s0; simp)+
  ultimately show ?thesis using that [OF st(1)] st(6) by (simp add: routable_def)
qed

end
