(* ===== verification/Turn_Response.thy ===== *)
theory Turn_Response
  imports Turn_Surface Tool_Use Model_Retry
begin

text \<open>
  One model response classified into bound actions: the records and builder of
  \<^verbatim>\<open>ra-core/src/step/processed.rs\<close>, the classification of \<^verbatim>\<open>ra-runtime/src/turn/process.rs\<close> against the surface of the
  turn, and the display metadata of \<^verbatim>\<open>ra-runtime/src/turn/mcp_metadata.rs\<close>. A builder and the finished value
  have the same fields and share one record; an ordered map that is filled and then emptied by key is a map.
\<close>

section \<open>Actions\<close>

record 'v tool_run_function =
  rf_item_id :: ustring
  rf_call :: "'v tool_call"
  rf_tool :: "'v action_tool"

record 'v tool_run_handoff =
  rh_item_id :: ustring
  rh_call :: "'v handoff_call"
  rh_spec :: handoff_spec
  rh_target :: ustring

record 'v tool_run_approval =
  ra_item_id :: ustring
  ra_request :: "'v mcp_approval_request"

record 'v tool_not_found =
  nf_item_id :: ustring
  nf_call :: "'v tool_call"

definition function_identity :: "'v tool_run_function \<Rightarrow> 'v tool_use" where
  "function_identity self = Tool (to_lookup_key (tl_origin (rf_tool self)))"

definition handoff_identity :: "'v tool_run_handoff \<Rightarrow> 'v tool_use" where
  "handoff_identity self = Handoff (hc_target_agent (rh_call self))"

definition approval_identity :: "'v tool_run_approval \<Rightarrow> 'v tool_use" where
  "approval_identity self = Mcp (ar_server (ra_request self)) (ar_tool_name (ra_request self))"

definition not_found_identity :: "'v tool_not_found \<Rightarrow> 'v tool_use" where
  "not_found_identity self = Unresolved (tc_name (nf_call self))"

record 'v processed_response =
  pr_new_items :: "'v run_item list"
  pr_handoffs :: "'v tool_run_handoff list"
  pr_functions :: "'v tool_run_function list"
  pr_mcp_approval_requests :: "'v tool_run_approval list"
  pr_tools_not_found :: "'v tool_not_found list"

definition interruptions :: "'v processed_response \<Rightarrow> 'v run_item list" where
  "interruptions self = filter (\<lambda>item. is_interruption (ri_kind item)) (pr_new_items self)"

definition has_interruptions :: "'v processed_response \<Rightarrow> bool" where
  "has_interruptions self \<longleftrightarrow> interruptions self \<noteq> []"

definition has_tools_or_approvals_to_run :: "'v processed_response \<Rightarrow> bool" where
  "has_tools_or_approvals_to_run self \<longleftrightarrow>
     pr_functions self \<noteq> [] \<or> pr_handoffs self \<noteq> [] \<or> pr_mcp_approval_requests self \<noteq> [] \<or> pr_tools_not_found self \<noteq> []"

section \<open>The builder\<close>

datatype response_error =
  CannotClassify ustring | InvalidCallKey tool_error | BoundToOtherName ustring
| HandoffDeclarationMismatch ustring ustring | HandoffItemMismatch ustring ustring
| AmbiguousHandoff ustring | HandoffNotAdvertised ustring
| DuplicateItem ustring | UnclassifiedItem ustring | DuplicateCall ustring | DuplicateRequest ustring

definition response_builder_new :: "'v processed_response" where
  "response_builder_new = \<lparr> pr_new_items = [], pr_handoffs = [], pr_functions = [], pr_mcp_approval_requests = [], pr_tools_not_found = [] \<rparr>"

definition builder_item :: "'v run_item \<Rightarrow> 'v processed_response \<Rightarrow> 'v processed_response" where
  "builder_item item self = self \<lparr> pr_new_items := pr_new_items self @ [item] \<rparr>"

definition tool_call_of :: "'v run_item \<Rightarrow> response_error + 'v tool_call" where
  "tool_call_of item = (case ri_kind item of RToolCall call \<Rightarrow> Inr call | kind \<Rightarrow> Inl (CannotClassify (run_kind_label kind)))"

definition call_key :: "'v tool_call \<Rightarrow> tool_error + 'v tool_lookup_key" where
  "call_key call = result_bind (checked_namespace (tc_namespace call)) (for_call (tc_name call))"

definition with_display_metadata :: "'v tool_call \<Rightarrow> 'v action_tool \<Rightarrow> 'v run_item \<Rightarrow> 'v run_item" where
  "with_display_metadata call tool item =
     (if tc_kind call = KFunction then with_tool_call_metadata (tl_description tool) (tl_title tool) item else item)"

definition builder_function ::
  "'v run_item \<Rightarrow> 'v action_tool \<Rightarrow> 'v processed_response \<Rightarrow> response_error + 'v processed_response" where
  "builder_function item tool self =
     result_bind (tool_call_of item) (\<lambda>call.
       case call_key call of
         Inl e \<Rightarrow> Inl (InvalidCallKey e)
       | Inr key \<Rightarrow>
           (case definition_lookup_key (routed_definition tool) of
              Inl e \<Rightarrow> Inl (InvalidCallKey e)
            | Inr tool_key \<Rightarrow>
                if \<not> lookup_eq key tool_key \<or> (tc_kind call = KToolSearch) \<noteq> (md_kind (routed_definition tool) = SearchTool)
                then Inl (BoundToOtherName (tc_name call))
                else Inr (self \<lparr>
                  pr_functions := pr_functions self @ [\<lparr> rf_item_id = ri_id item, rf_call = call, rf_tool = tool \<rparr>],
                  pr_new_items := pr_new_items self @ [with_display_metadata call tool item] \<rparr>)))"

definition handoff_call_of :: "'v run_item \<Rightarrow> ustring \<Rightarrow> response_error + 'v handoff_call" where
  "handoff_call_of item target =
     (case ri_kind item of
        RToolCall call \<Rightarrow>
          Inr ((handoff_call_new (tc_call_id call) target (tc_arguments call)) \<lparr> hc_tool_name := Some (tc_name call) \<rparr>)
      | RHandoffCall call \<Rightarrow>
          if hc_target_agent call \<noteq> target then Inl (HandoffItemMismatch (hc_target_agent call) target) else Inr call
      | kind \<Rightarrow> Inl (CannotClassify (run_kind_label kind)))"

definition builder_handoff ::
  "'v run_item \<Rightarrow> handoff_spec \<Rightarrow> ustring \<Rightarrow> 'v processed_response \<Rightarrow> response_error + 'v processed_response" where
  "builder_handoff item spec target self =
     (if hs_target_agent spec \<noteq> target then Inl (HandoffDeclarationMismatch (hs_target_agent spec) target)
      else result_bind (handoff_call_of item target) (\<lambda>call. Inr (self \<lparr>
           pr_handoffs := pr_handoffs self @ [\<lparr> rh_item_id = ri_id item, rh_call = call, rh_spec = spec, rh_target = target \<rparr>],
           pr_new_items := pr_new_items self @ [item] \<rparr>)))"

definition builder_mcp_approval :: "'v run_item \<Rightarrow> 'v processed_response \<Rightarrow> response_error + 'v processed_response" where
  "builder_mcp_approval item self =
     (case ri_kind item of
        RMcpApprovalRequest request \<Rightarrow>
          Inr (self \<lparr>
            pr_mcp_approval_requests := pr_mcp_approval_requests self @ [\<lparr> ra_item_id = ri_id item, ra_request = request \<rparr>],
            pr_new_items := pr_new_items self @ [item] \<rparr>)
      | kind \<Rightarrow> Inl (CannotClassify (run_kind_label kind)))"

definition builder_tool_not_found :: "'v run_item \<Rightarrow> 'v processed_response \<Rightarrow> response_error + 'v processed_response" where
  "builder_tool_not_found item self =
     result_bind (tool_call_of item) (\<lambda>call. Inr (self \<lparr>
       pr_tools_not_found := pr_tools_not_found self @ [\<lparr> nf_item_id = ri_id item, nf_call = call \<rparr>],
       pr_new_items := pr_new_items self @ [item] \<rparr>))"

text \<open>The first element that already occurred, as inserting into an ordered set reports it.\<close>

fun first_repeat :: "'a set \<Rightarrow> 'a list \<Rightarrow> 'a option" where
  "first_repeat seen [] = None"
| "first_repeat seen (x # xs) = (if x \<in> seen then Some x else first_repeat (insert x seen) xs)"

definition claimed :: "'v processed_response \<Rightarrow> ustring list" where
  "claimed self = map rf_item_id (pr_functions self) @ map rh_item_id (pr_handoffs self)
     @ map ra_item_id (pr_mcp_approval_requests self) @ map nf_item_id (pr_tools_not_found self)"

definition claimed_calls :: "'v processed_response \<Rightarrow> ustring list" where
  "claimed_calls self = map (\<lambda>a. tc_call_id (rf_call a)) (pr_functions self) @ map (\<lambda>a. hc_call_id (rh_call a)) (pr_handoffs self)
     @ map (\<lambda>a. tc_call_id (nf_call a)) (pr_tools_not_found self)"

definition response_build :: "'v processed_response \<Rightarrow> response_error + 'v processed_response" where
  "response_build self =
     (case first_repeat {} (map ri_id (pr_new_items self)) of
        Some i \<Rightarrow> Inl (DuplicateItem i)
      | None \<Rightarrow>
          (case find (\<lambda>item. requires_action_binding (ri_kind item) \<and> ri_id item \<notin> set (claimed self)) (pr_new_items self) of
             Some item \<Rightarrow> Inl (UnclassifiedItem (ri_id item))
           | None \<Rightarrow>
               (case first_repeat {} (claimed_calls self) of
                  Some c \<Rightarrow> Inl (DuplicateCall c)
                | None \<Rightarrow>
                    (case first_repeat {} (map (\<lambda>a. ar_request_id (ra_request a)) (pr_mcp_approval_requests self)) of
                       Some r \<Rightarrow> Inl (DuplicateRequest r)
                     | None \<Rightarrow> Inr self))))"

section \<open>Display metadata\<close>

fun json_get :: "'n json \<Rightarrow> ustring \<Rightarrow> 'n json option" where
  "json_get (JObject kvs) key = map_of kvs key"
| "json_get _ key = None"

fun json_as_str :: "'n json \<Rightarrow> ustring option" where
  "json_as_str (JString s) = Some s"
| "json_as_str _ = None"

fun json_as_array :: "'n json \<Rightarrow> 'n json list option" where
  "json_as_array (JArray xs) = Some xs"
| "json_as_array _ = None"

definition json_str_at :: "'n json \<Rightarrow> ustring \<Rightarrow> ustring option" where
  "json_str_at v key = Option.bind (json_get v key) json_as_str"

definition non_empty :: "ustring option \<Rightarrow> ustring option" where
  "non_empty v = (case v of Some (c # cs) \<Rightarrow> Some (c # cs) | _ \<Rightarrow> None)"

type_synonym metadata_map = "ustring \<times> ustring \<rightharpoonup> ustring option \<times> ustring option"

definition or_annotated_title :: "ustring option \<Rightarrow> 'n json option \<Rightarrow> ustring option" where
  "or_annotated_title title annotations =
     (case non_empty title of
        Some t \<Rightarrow> Some t
      | None \<Rightarrow> non_empty (Option.bind annotations (\<lambda>v. json_str_at v (lit ''title''))))"

definition collect_provider_tool :: "ustring \<Rightarrow> 'n json \<Rightarrow> metadata_map \<Rightarrow> metadata_map" where
  "collect_provider_tool server tool metadata =
     (case non_empty (json_str_at tool (lit ''name'')) of
        None \<Rightarrow> metadata
      | Some name \<Rightarrow> metadata((server, name) \<mapsto>
          (non_empty (json_str_at tool (lit ''description'')),
           or_annotated_title (json_str_at tool (lit ''title'')) (json_get tool (lit ''annotations'')))))"

definition collect_provider_list :: "'n json \<Rightarrow> metadata_map \<Rightarrow> metadata_map" where
  "collect_provider_list data metadata =
     (if json_str_at data (lit ''type'') \<noteq> Some (lit ''mcp_list_tools'') then metadata
      else case non_empty (json_str_at data (lit ''server_label'')) of
          None \<Rightarrow> metadata
        | Some server \<Rightarrow>
            (case Option.bind (json_get data (lit ''tools'')) json_as_array of
               None \<Rightarrow> metadata
             | Some tools \<Rightarrow> fold (collect_provider_tool server) tools metadata))"

definition collect_tool :: "ustring \<Rightarrow> 'n json mcp_tool \<Rightarrow> metadata_map \<Rightarrow> metadata_map" where
  "collect_tool server tool metadata =
     (if mt_name tool = [] then metadata
      else metadata((server, mt_name tool) \<mapsto>
        (non_empty (mt_description tool), or_annotated_title (mt_title tool) (mt_annotations tool))))"

definition collect_list :: "'n json run_item \<Rightarrow> metadata_map \<Rightarrow> metadata_map" where
  "collect_list item metadata =
     (case ri_kind item of
        RMcpListTools list \<Rightarrow>
          (case ml_provider_data list of
             Some data \<Rightarrow> collect_provider_list data metadata
           | None \<Rightarrow> if ml_server list = [] then metadata else fold (collect_tool (ml_server list)) (ml_tools list) metadata)
      | _ \<Rightarrow> metadata)"

definition collect_metadata :: "'n json run_item list \<Rightarrow> 'n json run_item list \<Rightarrow> metadata_map" where
  "collect_metadata existing_items output = fold collect_list (existing_items @ output) Map.empty"

definition enrich :: "'v run_item \<Rightarrow> metadata_map \<Rightarrow> 'v run_item" where
  "enrich item metadata =
     (case ri_kind item of
        RMcpCall call \<Rightarrow>
          (case metadata (mc_server call, mc_name call) of
             Some (description, title) \<Rightarrow> with_tool_call_metadata description title item
           | None \<Rightarrow> with_tool_call_metadata None None item)
      | _ \<Rightarrow> item)"

section \<open>Classification\<close>

definition resolve_typed_handoff :: "'v turn_surface \<Rightarrow> 'v handoff_call \<Rightarrow> response_error + prepared_handoff" where
  "resolve_typed_handoff surface call =
     (case hc_tool_name call of
        Some name \<Rightarrow>
          (case find_handoff surface name of None \<Rightarrow> Inl (HandoffNotAdvertised (hc_target_agent call)) | Some h \<Rightarrow> Inr h)
      | None \<Rightarrow>
          (case filter (\<lambda>h. ph_target_agent h = hc_target_agent call) (sf_handoffs surface) of
             [] \<Rightarrow> Inl (HandoffNotAdvertised (hc_target_agent call))
           | [h] \<Rightarrow> Inr h
           | _ \<Rightarrow> Inl (AmbiguousHandoff (hc_target_agent call))))"

definition classify_item ::
  "'v turn_surface \<Rightarrow> metadata_map \<Rightarrow> 'v run_item \<Rightarrow> 'v processed_response \<Rightarrow> response_error + 'v processed_response" where
  "classify_item surface metadata item builder =
     (case ri_kind item of
        RToolCall call \<Rightarrow>
          if tc_kind call = KToolSearch then
            (case sf_tool_search surface of
               Some tool \<Rightarrow> builder_function item tool builder
             | None \<Rightarrow> builder_tool_not_found item builder)
          else
            (case (if tc_namespace call = None then find_handoff surface (tc_name call) else None) of
               Some handoff \<Rightarrow> builder_handoff item (ph_spec handoff) (ph_target handoff) builder
             | None \<Rightarrow>
                 (case find_tool_in surface (tc_namespace call) (tc_name call) of
                    Some tool \<Rightarrow> builder_function item tool builder
                  | None \<Rightarrow> builder_tool_not_found item builder))
      | RHandoffCall call \<Rightarrow>
          result_bind (resolve_typed_handoff surface call) (\<lambda>handoff.
            builder_handoff item (ph_spec handoff) (ph_target handoff) builder)
      | RMcpApprovalRequest _ \<Rightarrow> builder_mcp_approval item builder
      | _ \<Rightarrow> Inr (builder_item (enrich item metadata) builder))"

fun classify_items ::
  "'v turn_surface \<Rightarrow> metadata_map \<Rightarrow> 'v run_item list \<Rightarrow> 'v processed_response \<Rightarrow> response_error + 'v processed_response" where
  "classify_items surface metadata [] builder = Inr builder"
| "classify_items surface metadata (item # items) builder =
     result_bind (classify_item surface metadata item builder) (classify_items surface metadata items)"

definition process_model_response_with_history ::
  "'n json model_response \<Rightarrow> 'n json turn_surface \<Rightarrow> 'n json run_item list \<Rightarrow> response_error + 'n json processed_response" where
  "process_model_response_with_history response surface existing_items =
     result_bind (classify_items surface (collect_metadata existing_items (mr_output response)) (mr_output response) response_builder_new)
       response_build"

definition process_model_response :: "'n json model_response \<Rightarrow> 'n json turn_surface \<Rightarrow> response_error + 'n json processed_response" where
  "process_model_response response surface = process_model_response_with_history response surface []"

section \<open>Projections in response order\<close>

record 'v ordered_action =
  oa_identity :: "'v tool_use"
  oa_call_id :: ustring
  oa_arguments :: 'v

definition function_action :: "'v tool_run_function \<Rightarrow> ustring \<times> 'v ordered_action" where
  "function_action a = (rf_item_id a, \<lparr> oa_identity = function_identity a, oa_call_id = tc_call_id (rf_call a), oa_arguments = tc_arguments (rf_call a) \<rparr>)"

definition handoff_action :: "'v tool_run_handoff \<Rightarrow> ustring \<times> 'v ordered_action" where
  "handoff_action a = (rh_item_id a, \<lparr> oa_identity = handoff_identity a, oa_call_id = hc_call_id (rh_call a), oa_arguments = hc_arguments (rh_call a) \<rparr>)"

definition approval_action :: "'v tool_run_approval \<Rightarrow> ustring \<times> 'v ordered_action" where
  "approval_action a = (ra_item_id a, \<lparr> oa_identity = approval_identity a, oa_call_id = ar_request_id (ra_request a), oa_arguments = ar_arguments (ra_request a) \<rparr>)"

definition not_found_action :: "'v tool_not_found \<Rightarrow> ustring \<times> 'v ordered_action" where
  "not_found_action a = (nf_item_id a, \<lparr> oa_identity = not_found_identity a, oa_call_id = tc_call_id (nf_call a), oa_arguments = tc_arguments (nf_call a) \<rparr>)"

definition action_entries :: "'v processed_response \<Rightarrow> (ustring \<times> 'v ordered_action) list" where
  "action_entries self = map function_action (pr_functions self) @ map handoff_action (pr_handoffs self)
     @ map approval_action (pr_mcp_approval_requests self) @ map not_found_action (pr_tools_not_found self)"

definition hosted_action :: "bool \<Rightarrow> 'n json run_item \<Rightarrow> 'n json ordered_action option" where
  "hosted_action include_search item =
     (case ri_kind item of
        RHostedToolCall call \<Rightarrow>
          Some \<lparr> oa_identity = Hosted (ht_name call), oa_call_id = ri_id item, oa_arguments = rp_payload (ht_raw call) \<rparr>
      | RToolSearchCall raw \<Rightarrow>
          if include_search then Some \<lparr> oa_identity = Hosted (lit ''tool_search''), oa_call_id = ri_id item, oa_arguments = rp_payload raw \<rparr> else None
      | RToolSearchOutput raw \<Rightarrow>
          if include_search then Some \<lparr> oa_identity = Hosted (lit ''tool_search''), oa_call_id = ri_id item, oa_arguments = rp_payload raw \<rparr> else None
      | RMcpCall call \<Rightarrow>
          Some \<lparr> oa_identity = Mcp (mc_server call) (mc_name call), oa_call_id = mc_id call, oa_arguments = JString (mc_arguments call) \<rparr>
      | _ \<Rightarrow> None)"

fun walk_items ::
  "bool \<Rightarrow> 'n json run_item list \<Rightarrow> (ustring \<rightharpoonup> 'n json ordered_action) \<Rightarrow> 'n json ordered_action list" where
  "walk_items include_search [] by_item = []"
| "walk_items include_search (item # items) by_item =
     (case hosted_action include_search item of
        Some a \<Rightarrow> a # walk_items include_search items by_item
      | None \<Rightarrow>
          (case by_item (ri_id item) of
             Some a \<Rightarrow> a # walk_items include_search items (by_item(ri_id item := None))
           | None \<Rightarrow> walk_items include_search items by_item))"

definition ordered_actions :: "bool \<Rightarrow> 'n json processed_response \<Rightarrow> 'n json ordered_action list" where
  "ordered_actions include_search self =
     walk_items include_search (pr_new_items self) (map_of (rev (action_entries self)))"

definition attempts ::
  "(nat list \<Rightarrow> ustring) \<Rightarrow> ('n json \<Rightarrow> ustring) \<Rightarrow> 'n json processed_response \<Rightarrow> 'n json tool_use_attempt list" where
  "attempts sha render self =
     map (\<lambda>a. tool_use_attempt_new sha render (oa_identity a) (oa_call_id a) (oa_arguments a)) (ordered_actions False self)"

fun unrepeated :: "action_key set \<Rightarrow> 'n json tool_use list \<Rightarrow> 'n json tool_use list" where
  "unrepeated seen [] = []"
| "unrepeated seen (u # us) = (if key_of u \<in> seen then unrepeated seen us else u # unrepeated (insert (key_of u) seen) us)"

definition tools_used :: "'n json processed_response \<Rightarrow> 'n json tool_use list" where
  "tools_used self = unrepeated {} (map oa_identity (ordered_actions True self))"

section \<open>What one item contributes\<close>

text \<open>A recorded item is the response's item, up to the display metadata of a call.\<close>

definition classified_from :: "'v run_item \<Rightarrow> 'v run_item \<Rightarrow> bool" where
  "classified_from classified original \<longleftrightarrow>
     classified = original
     \<or> (case ri_kind original of RToolCall _ \<Rightarrow> True | RMcpCall _ \<Rightarrow> True | _ \<Rightarrow> False)
       \<and> with_tool_call_metadata None None classified = with_tool_call_metadata None None original"

lemma classified_from_metadata:
  assumes "case ri_kind item of RToolCall _ \<Rightarrow> True | RMcpCall _ \<Rightarrow> True | _ \<Rightarrow> False"
  shows "classified_from (with_tool_call_metadata d t item) item"
  using assms by (simp add: classified_from_def with_tool_call_metadata_def)

lemma classified_from_refl [simp]: "classified_from item item"
  by (simp add: classified_from_def)

lemma classified_from_fields:
  "classified_from a b \<Longrightarrow> ri_id a = ri_id b \<and> ri_kind a = ri_kind b"
  by (cases a; cases b) (auto simp: classified_from_def with_tool_call_metadata_def)

lemma classified_from_enrich: "classified_from (enrich item metadata) item"
  by (auto simp: enrich_def split: run_item_kind.splits option.splits intro!: classified_from_metadata)

lemma classified_from_display: "tool_call_of item = Inr call \<Longrightarrow> classified_from (with_display_metadata call tool item) item"
  by (auto simp: with_display_metadata_def tool_call_of_def split: run_item_kind.splits intro!: classified_from_metadata)

text \<open>The ids that have to be claimed, the call ids that are claimed, and the requests a host has to answer.\<close>

definition binding_ids :: "'v run_item list \<Rightarrow> ustring list" where
  "binding_ids items = map ri_id (filter (\<lambda>item. requires_action_binding (ri_kind item)) items)"

fun paired_call_id :: "'v run_item_kind \<Rightarrow> ustring option" where
  "paired_call_id (RToolCall call) = Some (tc_call_id call)"
| "paired_call_id (RHandoffCall call) = Some (hc_call_id call)"
| "paired_call_id _ = None"

fun approval_request_id :: "'v run_item_kind \<Rightarrow> ustring option" where
  "approval_request_id (RMcpApprovalRequest request) = Some (ar_request_id request)"
| "approval_request_id _ = None"

fun answer_id :: "'v run_item_kind \<Rightarrow> ustring option" where
  "answer_id (RToolCall call) = Some (tc_call_id call)"
| "answer_id (RHandoffCall call) = Some (hc_call_id call)"
| "answer_id (RMcpApprovalRequest request) = Some (ar_request_id request)"
| "answer_id _ = None"

definition binding_pairs :: "'v run_item list \<Rightarrow> (ustring \<times> ustring) list" where
  "binding_pairs items = List.map_filter (\<lambda>item. map_option (Pair (ri_id item)) (answer_id (ri_kind item))) items"

definition call_ids_of :: "'v run_item list \<Rightarrow> ustring list" where
  "call_ids_of items = List.map_filter (\<lambda>item. paired_call_id (ri_kind item)) items"

definition request_ids_of :: "'v run_item list \<Rightarrow> ustring list" where
  "request_ids_of items = List.map_filter (\<lambda>item. approval_request_id (ri_kind item)) items"

lemma ids_snoc:
  "binding_ids (items @ [item]) = binding_ids items @ (if requires_action_binding (ri_kind item) then [ri_id item] else [])"
  "binding_pairs (items @ [item]) = binding_pairs items @ (case answer_id (ri_kind item) of None \<Rightarrow> [] | Some c \<Rightarrow> [(ri_id item, c)])"
  "call_ids_of (items @ [item]) = call_ids_of items @ (case paired_call_id (ri_kind item) of None \<Rightarrow> [] | Some c \<Rightarrow> [c])"
  "request_ids_of (items @ [item]) = request_ids_of items @ (case approval_request_id (ri_kind item) of None \<Rightarrow> [] | Some c \<Rightarrow> [c])"
  by (simp_all add: binding_ids_def binding_pairs_def call_ids_of_def request_ids_of_def List.map_filter_def split: option.splits)

lemma ids_Nil [simp]: "binding_ids [] = []" "binding_pairs [] = []" "call_ids_of [] = []" "request_ids_of [] = []"
  by (simp_all add: binding_ids_def binding_pairs_def call_ids_of_def request_ids_of_def)

text \<open>What a bound action promises about the surface it was bound from.\<close>

definition offered_function :: "'v turn_surface \<Rightarrow> 'v tool_run_function \<Rightarrow> bool" where
  "offered_function surface a \<longleftrightarrow>
     (if tc_kind (rf_call a) = KToolSearch then sf_tool_search surface = Some (rf_tool a) else rf_tool a \<in> set (sf_tools surface))
     \<and> (\<exists>key tool_key. call_key (rf_call a) = Inr key \<and> definition_lookup_key (routed_definition (rf_tool a)) = Inr tool_key
          \<and> lookup_eq key tool_key)"

definition offered_handoff :: "'v turn_surface \<Rightarrow> 'v tool_run_handoff \<Rightarrow> bool" where
  "offered_handoff surface a \<longleftrightarrow>
     rh_target a = hs_target_agent (rh_spec a) \<and> hc_target_agent (rh_call a) = rh_target a
     \<and> (\<exists>h \<in> set (sf_handoffs surface). ph_spec h = rh_spec a \<and> ph_target h = rh_target a
          \<and> (case hc_tool_name (rh_call a) of Some name \<Rightarrow> name = ph_name h | None \<Rightarrow> True))"

definition classification_of :: "'v turn_surface \<Rightarrow> 'v run_item list \<Rightarrow> 'v processed_response \<Rightarrow> bool" where
  "classification_of surface items b \<longleftrightarrow>
     list_all2 classified_from (pr_new_items b) items
     \<and> mset (map (map_prod id oa_call_id) (action_entries b)) = mset (binding_pairs items)
     \<and> mset (claimed_calls b) = mset (call_ids_of items)
     \<and> map (\<lambda>a. ar_request_id (ra_request a)) (pr_mcp_approval_requests b) = request_ids_of items
     \<and> list_all (offered_function surface) (pr_functions b) \<and> list_all (offered_handoff surface) (pr_handoffs b)"

lemmas entry_defs = action_entries_def function_action_def handoff_action_def approval_action_def not_found_action_def

lemma builder_function_Inr:
  assumes "builder_function item tool b = Inr b'"
  obtains call key tool_key where "ri_kind item = RToolCall call" "call_key call = Inr key"
    "definition_lookup_key (routed_definition tool) = Inr tool_key" "lookup_eq key tool_key"
    "(tc_kind call = KToolSearch) = (md_kind (routed_definition tool) = SearchTool)"
    "b' = b \<lparr> pr_functions := pr_functions b @ [\<lparr> rf_item_id = ri_id item, rf_call = call, rf_tool = tool \<rparr>],
       pr_new_items := pr_new_items b @ [with_display_metadata call tool item] \<rparr>"
  using assms
  by (auto simp: builder_function_def tool_call_of_def result_bind_Inr_iff split: run_item_kind.splits sum.splits if_splits)

lemma function_step:
  assumes "classification_of surface items b" "builder_function item tool b = Inr b'"
    and "\<And>call. ri_kind item = RToolCall call \<Longrightarrow>
      if tc_kind call = KToolSearch then sf_tool_search surface = Some tool else tool \<in> set (sf_tools surface)"
  shows "classification_of surface (items @ [item]) b'"
  using assms(2)
proof (rule builder_function_Inr)
  fix call key tool_key
  assume *: "ri_kind item = RToolCall call" "call_key call = Inr key"
    "definition_lookup_key (routed_definition tool) = Inr tool_key" "lookup_eq key tool_key"
    and b': "b' = b \<lparr> pr_functions := pr_functions b @ [\<lparr> rf_item_id = ri_id item, rf_call = call, rf_tool = tool \<rparr>],
       pr_new_items := pr_new_items b @ [with_display_metadata call tool item] \<rparr>"
  have "classified_from (with_display_metadata call tool item) item"
    using *(1) by (intro classified_from_display) (simp add: tool_call_of_def)
  moreover have "offered_function surface \<lparr> rf_item_id = ri_id item, rf_call = call, rf_tool = tool \<rparr>"
    using * assms(3) by (simp add: offered_function_def)
  ultimately show ?thesis using assms(1) *(1)
    by (simp add: classification_of_def b' entry_defs claimed_calls_def ids_snoc list_all2_appendI)
qed

lemma handoff_call_of_Inr:
  assumes "handoff_call_of item target = Inr call"
  shows "paired_call_id (ri_kind item) = Some (hc_call_id call) \<and> answer_id (ri_kind item) = Some (hc_call_id call)
    \<and> approval_request_id (ri_kind item) = None \<and> hc_target_agent call = target
    \<and> (case ri_kind item of RToolCall c \<Rightarrow> hc_tool_name call = Some (tc_name c) | RHandoffCall c \<Rightarrow> call = c | _ \<Rightarrow> False)"
  using assms by (auto simp: handoff_call_of_def handoff_call_new_def split: run_item_kind.splits if_splits)

lemma handoff_step:
  assumes "classification_of surface items b" "builder_handoff item (ph_spec h) (ph_target h) b = Inr b'"
    and "h \<in> set (sf_handoffs surface)"
    and "\<And>call. ri_kind item = RToolCall call \<Longrightarrow> ph_name h = tc_name call"
    and "\<And>call name. ri_kind item = RHandoffCall call \<Longrightarrow> hc_tool_name call = Some name \<Longrightarrow> ph_name h = name"
  shows "classification_of surface (items @ [item]) b'"
proof -
  obtain call where call: "hs_target_agent (ph_spec h) = ph_target h" "handoff_call_of item (ph_target h) = Inr call"
      "b' = b \<lparr> pr_handoffs := pr_handoffs b @ [\<lparr> rh_item_id = ri_id item, rh_call = call, rh_spec = ph_spec h, rh_target = ph_target h \<rparr>],
           pr_new_items := pr_new_items b @ [item] \<rparr>"
    using assms(2) by (auto simp: builder_handoff_def result_bind_Inr_iff split: if_splits)
  have "case hc_tool_name call of Some name \<Rightarrow> name = ph_name h | None \<Rightarrow> True"
    using handoff_call_of_Inr [OF call(2)] assms(4,5) by (auto split: run_item_kind.splits option.splits)
  then have "offered_handoff surface \<lparr> rh_item_id = ri_id item, rh_call = call, rh_spec = ph_spec h, rh_target = ph_target h \<rparr>"
    using call(1) handoff_call_of_Inr [OF call(2)] assms(3) by (auto simp: offered_handoff_def)
  then show ?thesis using assms(1) call(3) handoff_call_of_Inr [OF call(2)]
    by (simp add: classification_of_def entry_defs claimed_calls_def ids_snoc list_all2_appendI)
qed

lemma approval_step:
  assumes "classification_of surface items b" "builder_mcp_approval item b = Inr b'"
  shows "classification_of surface (items @ [item]) b'"
  using assms
  by (auto simp: builder_mcp_approval_def classification_of_def entry_defs claimed_calls_def ids_snoc
      intro!: list_all2_appendI split: run_item_kind.splits)

lemma not_found_step:
  assumes "classification_of surface items b" "builder_tool_not_found item b = Inr b'"
  shows "classification_of surface (items @ [item]) b'"
  using assms
  by (auto simp: builder_tool_not_found_def tool_call_of_def result_bind_Inr_iff classification_of_def entry_defs claimed_calls_def
      ids_snoc intro!: list_all2_appendI split: run_item_kind.splits)

lemma inert_step:
  assumes "classification_of surface items b" "\<not> requires_action_binding (ri_kind item)"
  shows "classification_of surface (items @ [item]) (builder_item (enrich item metadata) b)"
proof -
  have "paired_call_id (ri_kind item) = None" "approval_request_id (ri_kind item) = None" "answer_id (ri_kind item) = None"
    using assms(2) by (cases "ri_kind item", simp_all)+
  then show ?thesis using assms
    by (auto simp: builder_item_def classification_of_def entry_defs claimed_calls_def ids_snoc classified_from_enrich
        intro!: list_all2_appendI)
qed

lemma find_tool_in_surface: "find_tool_in s ns name = Some tool \<Longrightarrow> tool \<in> set (sf_tools s)"
  by (auto simp: find_tool_in_def dest!: find_in_set set_zip_leftD split: sum.splits)

lemma find_handoff_surface: "find_handoff s name = Some h \<Longrightarrow> h \<in> set (sf_handoffs s) \<and> ph_name h = name"
  using find_in_set [of "\<lambda>h. ph_name h = name" "rev (sf_handoffs s)"] by (simp add: find_handoff_def)

lemma resolve_typed_handoff_Inr:
  assumes "resolve_typed_handoff surface call = Inr h"
  shows "h \<in> set (sf_handoffs surface) \<and> (\<forall>name. hc_tool_name call = Some name \<longrightarrow> ph_name h = name)"
proof (cases "hc_tool_name call")
  case None
  then have "filter (\<lambda>h. ph_target_agent h = hc_target_agent call) (sf_handoffs surface) = [h]"
    using assms by (auto simp: resolve_typed_handoff_def split: list.splits)
  from arg_cong [OF this, of set] show ?thesis using None by auto
next
  case (Some name)
  then show ?thesis using assms find_handoff_surface by (auto simp: resolve_typed_handoff_def split: option.splits)
qed

lemma classify_item_step:
  assumes b: "classification_of surface items b" and c: "classify_item surface metadata item b = Inr b'"
  shows "classification_of surface (items @ [item]) b'"
proof (cases "requires_action_binding (ri_kind item)")
  case False
  then have "b' = builder_item (enrich item metadata) b" using c by (cases "ri_kind item") (auto simp: classify_item_def)
  then show ?thesis using inert_step [OF b False] by simp
next
  case True
  then consider (call) call where "ri_kind item = RToolCall call" | (typed) call where "ri_kind item = RHandoffCall call"
    | (approval) r where "ri_kind item = RMcpApprovalRequest r" by (cases "ri_kind item") auto
  then show ?thesis
  proof cases
    case approval
    then show ?thesis using approval_step [OF b] c by (simp add: classify_item_def)
  next
    case typed
    then obtain h where h: "resolve_typed_handoff surface call = Inr h" "builder_handoff item (ph_spec h) (ph_target h) b = Inr b'"
      using c by (auto simp: classify_item_def result_bind_Inr_iff)
    show ?thesis using resolve_typed_handoff_Inr [OF h(1)] typed by (intro handoff_step [OF b h(2)]) auto
  next
    case call
    consider (search) tool where "tc_kind call = KToolSearch" "sf_tool_search surface = Some tool" "builder_function item tool b = Inr b'"
      | (missing) "builder_tool_not_found item b = Inr b'"
      | (handoff) h where "find_handoff surface (tc_name call) = Some h" "builder_handoff item (ph_spec h) (ph_target h) b = Inr b'"
      | (tool) tool where "tc_kind call \<noteq> KToolSearch" "find_tool_in surface (tc_namespace call) (tc_name call) = Some tool"
          "builder_function item tool b = Inr b'"
      using c call by (auto simp: classify_item_def split: if_splits option.splits)
    then show ?thesis
    proof cases
      case search
      then show ?thesis using call by (intro function_step [OF b search(3)]) simp
    next
      case missing
      then show ?thesis by (rule not_found_step [OF b])
    next
      case handoff
      then show ?thesis using call find_handoff_surface [OF handoff(1)] by (intro handoff_step [OF b handoff(2)]) auto
    next
      case tool
      then show ?thesis using call find_tool_in_surface [OF tool(2)] by (intro function_step [OF b tool(3)]) simp
    qed
  qed
qed

lemma classify_items_step:
  "classification_of surface done b \<Longrightarrow> classify_items surface metadata items b = Inr b' \<Longrightarrow>
     classification_of surface (done @ items) b'"
proof (induction items arbitrary: "done" b)
  case (Cons item items)
  then obtain b1 where b1: "classify_item surface metadata item b = Inr b1" "classify_items surface metadata items b1 = Inr b'"
    by (auto simp: result_bind_Inr_iff)
  show ?case using Cons.IH [OF classify_item_step [OF Cons.prems(1) b1(1)] b1(2)] by simp
qed simp

lemma classification_of_new: "classification_of surface [] response_builder_new"
  by (simp add: classification_of_def response_builder_new_def entry_defs claimed_calls_def)

lemma first_repeat_None: "first_repeat seen xs = None \<longleftrightarrow> distinct xs \<and> set xs \<inter> seen = {}"
  by (induction xs arbitrary: seen) auto

lemma none_then_Inr: "(case x of Some y \<Rightarrow> Inl (f y) | None \<Rightarrow> r) = Inr p \<longleftrightarrow> x = None \<and> r = Inr p"
  by (cases x) simp_all

lemma response_build_Inr:
  "response_build b = Inr p \<longleftrightarrow> p = b \<and> distinct (map ri_id (pr_new_items b))
     \<and> (\<forall>item \<in> set (pr_new_items b). requires_action_binding (ri_kind item) \<longrightarrow> ri_id item \<in> set (claimed b))
     \<and> distinct (claimed_calls b) \<and> distinct (map (\<lambda>a. ar_request_id (ra_request a)) (pr_mcp_approval_requests b))"
  by (auto simp: response_build_def none_then_Inr first_repeat_None find_None_iff)

section \<open>Every call is answered exactly once\<close>

lemma claimed_entries: "claimed b = map fst (action_entries b)"
  by (simp add: claimed_def entry_defs o_def)

lemma binding_pairs_fst: "map fst (binding_pairs items) = binding_ids items"
proof (induction items rule: rev_induct)
  case (snoc item items)
  then show ?case by (cases "ri_kind item") (simp_all add: ids_snoc)
qed simp

lemma classified_ids:
  assumes "list_all2 classified_from xs ys"
  shows "map ri_id xs = map ri_id ys" "map ri_kind xs = map ri_kind ys"
  using assms by (induction rule: list_all2_induct) (auto dest: classified_from_fields)

lemma map_filter_rel:
  assumes "list_all2 R xs ys" and "\<And>x y. R x y \<Longrightarrow> f x = f y"
  shows "List.map_filter f xs = List.map_filter f ys"
  using assms by (induction rule: list_all2_induct) (auto simp: List.map_filter_simps split: option.splits)

lemma process_Inr:
  assumes "process_model_response_with_history response surface existing = Inr p"
  shows "classification_of surface (mr_output response) p" and "response_build p = Inr p"
proof -
  obtain b where b: "classify_items surface (collect_metadata existing (mr_output response)) (mr_output response) response_builder_new = Inr b"
      "response_build b = Inr p"
    using assms by (auto simp: process_model_response_with_history_def result_bind_Inr_iff)
  have "p = b" using b(2) by (simp add: response_build_Inr)
  then show "classification_of surface (mr_output response) p" "response_build p = Inr p"
    using classify_items_step [OF classification_of_new b(1)] b(2) by simp_all
qed

lemma process_entries:
  assumes "process_model_response_with_history response surface existing = Inr p"
  shows "distinct (map ri_id (mr_output response))"
    and "mset (claimed p) = mset (binding_ids (mr_output response))" and "distinct (claimed p)"
proof -
  note c = process_Inr [OF assms]
  have eq: "list_all2 classified_from (pr_new_items p) (mr_output response)" using c(1) by (simp add: classification_of_def)
  have d: "distinct (map ri_id (pr_new_items p))" using c(2) by (simp add: response_build_Inr)
  then show d': "distinct (map ri_id (mr_output response))" using classified_ids(1) [OF eq] by simp
  have "mset (map fst (map (map_prod id oa_call_id) (action_entries p))) = mset (map fst (binding_pairs (mr_output response)))"
    using c(1) unfolding classification_of_def by (metis mset_map)
  then show m: "mset (claimed p) = mset (binding_ids (mr_output response))"
    by (simp only: claimed_entries binding_pairs_fst map_map comp_def fst_map_prod id_apply)
  have "distinct (binding_ids (mr_output response))" using d' by (simp add: binding_ids_def distinct_map_filter)
  then show "distinct (claimed p)" using m mset_eq_imp_distinct_iff by blast
qed

text \<open>C10. Classifying a response loses nothing and answers everything: the recorded items are the response's
  items in order, up to the display metadata of calls; the bound actions claim exactly the items that
  need an answer, each once; and no two actions share a call id.\<close>

theorem every_call_is_claimed_once:
  assumes "process_model_response_with_history response surface existing = Inr p"
  shows "list_all2 classified_from (pr_new_items p) (mr_output response)
    \<and> mset (claimed p) = mset (binding_ids (mr_output response)) \<and> distinct (claimed p) \<and> distinct (claimed_calls p)
    \<and> (has_tools_or_approvals_to_run p \<longleftrightarrow> binding_ids (mr_output response) \<noteq> [])"
proof -
  note c = process_Inr [OF assms] and e = process_entries [OF assms]
  have "has_tools_or_approvals_to_run p \<longleftrightarrow> claimed p \<noteq> []"
    by (auto simp: has_tools_or_approvals_to_run_def claimed_def)
  also have "\<dots> \<longleftrightarrow> binding_ids (mr_output response) \<noteq> []" using e(2) by (metis mset_zero_iff)
  finally show ?thesis using c e(2,3) by (simp add: classification_of_def response_build_Inr)
qed

section \<open>Attempts in response order\<close>

text \<open>The id under which the call trail expects to see an item, if the item is an attempt at all.\<close>

definition attempt_id :: "'v run_item \<Rightarrow> ustring option" where
  "attempt_id item =
     (case ri_kind item of
        RHostedToolCall _ \<Rightarrow> Some (ri_id item)
      | RMcpCall call \<Rightarrow> Some (mc_id call)
      | kind \<Rightarrow> answer_id kind)"

lemma hosted_action_id:
  "hosted_action False item = Some a \<Longrightarrow> attempt_id item = Some (oa_call_id a)"
  "hosted_action False item = None \<Longrightarrow> attempt_id item = answer_id (ri_kind item)"
  by (auto simp: hosted_action_def attempt_id_def split: run_item_kind.splits)

lemma distinct_map_neq: "distinct (map f (x # xs)) \<Longrightarrow> y \<in> set xs \<Longrightarrow> f y \<noteq> f x"
  by (metis distinct.simps(2) image_eqI list.simps(9) set_map)

lemma walk_items_ids:
  assumes "distinct (map ri_id items)"
    and "\<forall>item \<in> set items. map_option oa_call_id (by_item (ri_id item)) = answer_id (ri_kind item)"
  shows "map oa_call_id (walk_items False items by_item) = List.map_filter attempt_id items"
  using assms
proof (induction items arbitrary: by_item)
  case (Cons item items)
  have rest: "\<forall>i \<in> set items. map_option oa_call_id ((by_item(ri_id item := None)) (ri_id i)) = answer_id (ri_kind i)"
  proof
    fix i assume i: "i \<in> set items"
    then have "ri_id i \<noteq> ri_id item" by (rule distinct_map_neq [OF Cons.prems(1)])
    then show "map_option oa_call_id ((by_item(ri_id item := None)) (ri_id i)) = answer_id (ri_kind i)" using Cons.prems(2) i by simp
  qed
  show ?case
  proof (cases "hosted_action False item")
    case None
    have "map_option oa_call_id (by_item (ri_id item)) = answer_id (ri_kind item)" using Cons.prems(2) by simp
    then have a: "attempt_id item = map_option oa_call_id (by_item (ri_id item))" using hosted_action_id(2) [OF None] by simp
    have d: "distinct (map ri_id items)" and p: "\<forall>i \<in> set items. map_option oa_call_id (by_item (ri_id i)) = answer_id (ri_kind i)"
      using Cons.prems by simp_all
    show ?thesis using None a Cons.IH [OF d rest] Cons.IH [OF d p]
      by (cases "by_item (ri_id item)") (simp_all add: List.map_filter_simps del: fun_upd_apply)
  next
    case (Some a)
    then show ?thesis using Cons.IH [of by_item] Cons.prems hosted_action_id(1) [OF Some] by (simp add: List.map_filter_simps)
  qed
qed simp

lemma entries_lookup:
  assumes "distinct (map fst es)" and "mset (map (map_prod id f) es) = mset ps"
  shows "map_option f (map_of (rev es) k) = map_of ps k"
proof -
  have d: "distinct (map fst ps)"
  proof -
    have "mset (map fst (map (map_prod id f) es)) = mset (map fst ps)" using assms(2) by (metis mset_map)
    then show ?thesis using assms(1) mset_eq_imp_distinct_iff by (fastforce simp: comp_def)
  qed
  have s: "set ps = map_prod id f ` set es" using arg_cong [OF assms(2), of set_mset] by simp
  show ?thesis
  proof (cases "map_of (rev es) k")
    case None
    then have "k \<notin> fst ` set ps" unfolding s by (force simp: map_of_eq_None_iff)
    then show ?thesis using None by (simp add: map_of_eq_None_iff [THEN iffD2])
  next
    case (Some v)
    then have "(k, f v) \<in> set ps" unfolding s by (force dest: map_of_SomeD)
    then show ?thesis using Some map_of_is_SomeI [OF d] by simp
  qed
qed

lemma binding_pairs_lookup:
  "distinct (map ri_id items) \<Longrightarrow> item \<in> set items \<Longrightarrow> map_of (binding_pairs items) (ri_id item) = answer_id (ri_kind item)"
proof (induction items)
  case (Cons x items)
  have none: "map_of (binding_pairs items) (ri_id x) = None" if "ri_id x \<notin> ri_id ` set items"
  proof -
    have "k \<in> ri_id ` set items" if "(k, v) \<in> set (binding_pairs items)" for k v
      using that by (auto simp: binding_pairs_def in_set_map_filter)
    then show ?thesis using that by (force simp: map_of_eq_None_iff)
  qed
  have "ri_id item \<noteq> ri_id x" if "item \<in> set items" using distinct_map_neq [OF Cons.prems(1) that] .
  then show ?case using Cons none by (auto simp: binding_pairs_def List.map_filter_simps split: option.splits)
qed simp

text \<open>C13. The call trail sees what the model did, in the order it did it: the attempts of a classified response
  carry exactly the call ids of its calls, transfers, approval requests and provider-executed calls,
  each once and in response order, whichever category settled them.\<close>

theorem attempts_follow_the_response:
  assumes "process_model_response_with_history response surface existing = Inr p"
  shows "map at_call_id (attempts sha render p) = List.map_filter attempt_id (mr_output response)"
proof -
  note c = process_Inr [OF assms] and e = process_entries [OF assms]
  have eq: "list_all2 classified_from (pr_new_items p) (mr_output response)" using c(1) by (simp add: classification_of_def)
  have d: "distinct (map ri_id (pr_new_items p))" using e(1) classified_ids(1) [OF eq] by simp
  have pairs: "binding_pairs (pr_new_items p) = binding_pairs (mr_output response)"
    unfolding binding_pairs_def using eq by (rule map_filter_rel) (simp add: classified_from_fields)
  have look: "map_option oa_call_id (map_of (rev (action_entries p)) k) = map_of (binding_pairs (pr_new_items p)) k" for k
    using e(3) c(1) pairs by (intro entries_lookup) (simp_all add: claimed_entries classification_of_def)
  have "map oa_call_id (ordered_actions False p) = List.map_filter attempt_id (pr_new_items p)"
    unfolding ordered_actions_def using d by (intro walk_items_ids) (auto simp: look binding_pairs_lookup)
  also have "\<dots> = List.map_filter attempt_id (mr_output response)"
    using eq by (rule map_filter_rel) (frule classified_from_fields, simp add: attempt_id_def split: run_item_kind.split)
  finally show ?thesis by (simp add: attempts_def tool_use_attempt_new_def comp_def)
qed

section \<open>What may be bound\<close>


section \<open>Naming something unknown is not an error\<close>

lemma find_tool_in_key:
  assumes "find_tool_in (s :: 'v turn_surface) ns name = Some tool" "routable s"
  obtains key tool_key :: "'v tool_lookup_key" where "result_bind (checked_namespace ns) (for_call name) = Inr key"
    "definition_lookup_key (routed_definition tool) = Inr tool_key" "lookup_eq key tool_key"
proof -
  obtain key where key: "result_bind (checked_namespace ns) (for_call name) = Inr key"
      "\<exists>k. (tool, k) \<in> set (zip (sf_tools s) (sf_tool_keys s)) \<and> lookup_eq k key"
    using assms(1) by (auto simp: find_tool_in_def dest!: find_in_set split: sum.splits) blast
  then obtain i where i: "i < length (sf_tools s)" "i < length (sf_tool_keys s)" "sf_tools s ! i = tool" "lookup_eq (sf_tool_keys s ! i) key"
    by (auto simp: set_zip)
  have "map (\<lambda>tool. definition_lookup_key (routed_definition tool)) (sf_tools s) = map Inr (sf_tool_keys s)"
    using assms(2) by (simp add: routable_def)
  from arg_cong [OF this, of "\<lambda>xs. xs ! i"] have "definition_lookup_key (routed_definition tool) = Inr (sf_tool_keys s ! i)"
    using i by simp
  then show ?thesis by (rule that [OF key(1)]) (use i(4) in \<open>simp add: lookup_eq_def\<close>)
qed

text \<open>An ordinary item: no typed handoff and no discovery call.\<close>

definition ordinary_item :: "'v run_item \<Rightarrow> bool" where
  "ordinary_item item \<longleftrightarrow>
     (case ri_kind item of RToolCall call \<Rightarrow> tc_kind call \<noteq> KToolSearch | RHandoffCall _ \<Rightarrow> False | _ \<Rightarrow> True)"

definition plain_surface :: "'v turn_surface \<Rightarrow> bool" where
  "plain_surface s \<longleftrightarrow> routable s \<and> list_all (\<lambda>tool. md_kind (tl_definition tool) \<noteq> SearchTool) (sf_tools s)"

lemma classify_item_total:
  assumes s: "plain_surface s" and i: "ordinary_item item"
  shows "\<exists>b'. classify_item s metadata item b = Inr b'"
proof (cases "ri_kind item")
  case (RToolCall call)
  have search: "tc_kind call \<noteq> KToolSearch" using i RToolCall by (simp add: ordinary_item_def)
  show ?thesis
  proof (cases "if tc_namespace call = None then find_handoff s (tc_name call) else None")
    case (Some h)
    then have "h \<in> set (sf_handoffs s)" by (auto dest: find_handoff_surface split: if_splits)
    then have "hs_target_agent (ph_spec h) = ph_target h" using s by (auto simp: plain_surface_def routable_def list_all_iff)
    then show ?thesis using RToolCall search Some by (simp add: classify_item_def builder_handoff_def handoff_call_of_def)
  next
    case none: None
    show ?thesis
    proof (cases "find_tool_in s (tc_namespace call) (tc_name call)")
      case None
      then show ?thesis using RToolCall search none
        by (simp add: classify_item_def builder_tool_not_found_def tool_call_of_def)
    next
      case (Some tool)
      obtain key tool_key where k: "call_key call = Inr key" "definition_lookup_key (routed_definition tool) = Inr tool_key"
          "lookup_eq key tool_key"
        using s find_tool_in_key [OF Some] unfolding call_key_def plain_surface_def by blast
      have "md_kind (routed_definition tool) \<noteq> SearchTool"
        using s find_tool_in_surface [OF Some] by (auto simp: plain_surface_def list_all_iff routed_definition_def)
      then show ?thesis using RToolCall search none Some k
        by (simp add: classify_item_def builder_function_def tool_call_of_def)
    qed
  qed
qed (use i in \<open>auto simp: ordinary_item_def classify_item_def builder_mcp_approval_def\<close>)

lemma classify_items_total:
  "plain_surface s \<Longrightarrow> list_all ordinary_item items \<Longrightarrow> \<exists>b'. classify_items s metadata items b = Inr b'"
proof (induction items arbitrary: b)
  case (Cons item items)
  then obtain b1 where "classify_item s metadata item b = Inr b1" using classify_item_total by fastforce
  then show ?case using Cons by simp
qed simp

lemma ordinary_response_total:
  assumes s: "plain_surface surface" and items: "list_all ordinary_item (mr_output response)"
    and ids: "distinct (map ri_id (mr_output response))" "distinct (call_ids_of (mr_output response))"
      "distinct (request_ids_of (mr_output response))"
  shows "\<exists>p. process_model_response_with_history response surface existing = Inr p"
proof -
  let ?items = "mr_output response"
  obtain b where b: "classify_items surface (collect_metadata existing ?items) ?items response_builder_new = Inr b"
    using classify_items_total [OF s items] by blast
  have c: "classification_of surface ?items b" using classify_items_step [OF classification_of_new b] by simp
  then have eq: "list_all2 classified_from (pr_new_items b) ?items" by (simp add: classification_of_def)
  have "mset (map fst (map (map_prod id oa_call_id) (action_entries b))) = mset (map fst (binding_pairs ?items))"
    using c unfolding classification_of_def by (metis mset_map)
  then have m: "set (claimed b) = set (binding_ids ?items)"
    by (simp only: claimed_entries binding_pairs_fst map_map comp_def fst_map_prod id_apply) (metis set_mset_mset)
  have "distinct (map ri_id (pr_new_items b))" using ids(1) classified_ids(1) [OF eq] by simp
  moreover have "\<forall>item \<in> set (pr_new_items b). requires_action_binding (ri_kind item) \<longrightarrow> ri_id item \<in> set (claimed b)"
  proof (intro ballI impI)
    fix item assume i: "item \<in> set (pr_new_items b)" "requires_action_binding (ri_kind item)"
    then obtain y where "y \<in> set ?items" "classified_from item y" using eq
      by (metis in_set_conv_nth list_all2_conv_all_nth)
    then show "ri_id item \<in> set (claimed b)"
      using i(2) m by (auto simp: binding_ids_def dest!: classified_from_fields)
  qed
  moreover have "distinct (claimed_calls b)" "distinct (map (\<lambda>a. ar_request_id (ra_request a)) (pr_mcp_approval_requests b))"
    using c ids(2,3) mset_eq_imp_distinct_iff unfolding classification_of_def by metis+
  ultimately have "response_build b = Inr b" by (simp add: response_build_Inr)
  then show ?thesis using b by (auto simp: process_model_response_with_history_def)
qed


section \<open>A classified response\<close>

definition sample_item :: "string \<Rightarrow> string \<Rightarrow> string \<Rightarrow> nat json run_item" where
  "sample_item i call name = run_item_new (lit i) (RToolCall (tool_call_new (lit call) (lit name) JNull))"

text \<open>A call of the tool, a transfer, a call of something unknown, and a hosted search.\<close>

definition sample_response :: "nat json model_response" where
  "sample_response = model_response_new
     [sample_item ''i1'' ''c1'' ''a'', sample_item ''i2'' ''c2'' ''t'', sample_item ''i3'' ''c3'' ''zz'',
      run_item_new (lit ''i4'') (RHostedToolCall (hosted_tool_call_new (lit ''web'') (raw_provider_item_new (lit ''p'') JNull)))]"

lemmas sample_defs = sample_response_def sample_item_def model_response_new_def run_item_new_def tool_call_new_def
  hosted_tool_call_new_def raw_provider_item_new_def

lemma sample_surface_plain: "plain_surface sample_surface"
  by (simp add: plain_surface_def routable_def sample_surface_def clash_keys) (simp add: clash_tool_def)

lemma sample_ids:
  "list_all ordinary_item (mr_output sample_response)" "distinct (map ri_id (mr_output sample_response))"
  "distinct (call_ids_of (mr_output sample_response))" "distinct (request_ids_of (mr_output sample_response))"
  "length (binding_ids (mr_output sample_response)) = 3"
  "List.map_filter attempt_id (mr_output sample_response) = [lit ''c1'', lit ''c2'', lit ''c3'', lit ''i4'']"
  by (simp_all add: sample_defs ordinary_item_def call_ids_of_def request_ids_of_def binding_ids_def attempt_id_def List.map_filter_simps)

lemma sample_processed: "\<exists>p. process_model_response_with_history sample_response sample_surface [] = Inr p"
  using sample_surface_plain sample_ids(1-4) by (rule ordinary_response_total)


theorem every_call_is_claimed_once_witness:
  "\<exists>p. process_model_response_with_history sample_response sample_surface [] = Inr p
     \<and> length (claimed p) = 3 \<and> has_tools_or_approvals_to_run p"
proof -
  obtain p where p: "process_model_response_with_history sample_response sample_surface [] = Inr p" using sample_processed by blast
  have "mset (claimed p) = mset (binding_ids (mr_output sample_response))" "has_tools_or_approvals_to_run p"
    using every_call_is_claimed_once [OF p] sample_ids(5) by auto
  then have "length (claimed p) = 3" using sample_ids(5) by (metis size_mset)
  then show ?thesis using p \<open>has_tools_or_approvals_to_run p\<close> by blast
qed

theorem attempts_follow_the_response_witness:
  "\<exists>p. process_model_response_with_history sample_response sample_surface [] = Inr p
     \<and> map at_call_id (attempts (\<lambda>_. []) (\<lambda>_. []) p) = [lit ''c1'', lit ''c2'', lit ''c3'', lit ''i4'']"
proof -
  obtain p where p: "process_model_response_with_history sample_response sample_surface [] = Inr p" using sample_processed by blast
  show ?thesis using attempts_follow_the_response [OF p] sample_ids(6) p by auto
qed

definition sample_env :: "(nat json, unit) surface_env" where
  "sample_env = \<lparr> se_enabled = (\<lambda>_. Inr True), se_enabled_for_protocol = (\<lambda>_. Inr True), se_handoff_enabled = (\<lambda>_. Inr True),
     se_registered = (\<lambda>_. True), se_resolver = None, se_requires_reserved_tool_names = False,
     se_build_search = (\<lambda>_. Inr None), se_table = sample_table_ops \<rparr>"

definition sample_agent :: "(nat json, unit) surface_agent" where
  "sample_agent = \<lparr> sa_tools = [clash_tool 0 None Advertised, clash_tool 1 None Hidden], sa_handoffs = [], sa_declared = [] \<rparr>"

definition sample_budget :: action_surface_budget where
  "sample_budget = \<lparr> sb_max_advertised = 4, sb_max_advertised_bytes = None \<rparr>"

definition prepared_sample :: "nat json turn_surface" where
  "prepared_sample = \<lparr> sf_declarations = [], sf_tools = [clash_tool 0 None Advertised], sf_tool_names = [lit ''a''],
     sf_tool_keys = [lookup_key Bare (lit ''a'') None], sf_handoffs = [], sf_tool_search = None \<rparr>"

lemma sample_prepared: "prepare_surface sample_env sample_agent WarnPolicy sample_budget = Inr prepared_sample"
proof -
  have inv: "resolve_enabled_inventory (se_enabled sample_env) Normal (sa_tools sample_agent)
      = Inr \<lparr> en_advertised = [clash_tool 0 None Advertised], en_protocol_tools = {} \<rparr>"
    by (simp add: sample_env_def sample_agent_def resolve_enabled_inventory_def availability_decision_def clash_tool_def
        is_advertised_def is_discoverable_def)
  have "(surface_new [clash_tool 0 None Advertised] [] WarnPolicy :: unit surface_error + _) = Inr prepared_sample"
    by (simp add: surface_eval prepared_sample_def)
  then show ?thesis
    using inv by (simp add: prepare_surface_def declared_inventory_def sample_env_def sample_agent_def resolve_handoffs_def local_surface_def
        into_surface_def resolve_hosted_declarations_def surface_budget_validate_def sample_budget_def prepared_sample_def advertised_count_def
        is_advertised_def clash_tool_def)
qed


end
