(* ===== verification/Turn_Batch.thy ===== *)
theory Turn_Batch
  imports Turn_Response Tool_Failure
begin

text \<open>
  Answering the bound actions of one response, \<^verbatim>\<open>ra-runtime/src/turn/batch.rs\<close>: the calls that were already started
  from stream items and those spawned at settlement, the collection of the tasks' results in whatever order
  they finish, the arbitration between failures, and the settlement into records, which happens once, in model
  order. What a dispatched call does is the concern of the tool chain; a task here is the result it ends with.
  A schedule is the sequence in which \<^verbatim>\<open>JoinSet\<close> hands results over, cut into the batches that were ready
  together; the run loop's cancellation checks, the hook of a transfer and its announcement are fields of
  \<open>batch_env\<close>.
\<close>

section \<open>Dispatches\<close>

record 'v tool_observation =
  ob_output :: "'v tool_call_output"
  ob_failure_code :: "ustring option"

record 'v tool_refusal =
  rfl_output :: "'v tool_call_output"
  rfl_code :: ustring

text \<open>A paused nested run, with the items it is waiting on.\<close>

record 'v nested_run_ref =
  nr_call_id :: ustring
  nr_pending :: "'v run_item list"

datatype 'v tool_dispatch =
  Observed "'v tool_observation" | DispatchRefused "'v tool_refusal"
| AwaitingApproval "'v tool_approval" | AwaitingNestedApproval "'v nested_run_ref"

record 'g guardrail_records =
  gr_input :: "'g list"
  gr_output :: "'g list"

record ('v, 'g) completed_dispatch =
  cd_order :: nat
  cd_call_id :: ustring
  cd_tool :: "'v tool_origin"
  cd_dispatch :: "'v tool_dispatch"
  cd_guardrails :: "'g guardrail_records"

record ('v, 'g, 's) task_result =
  tk_order :: nat
  tk_call_id :: ustring
  tk_tool :: "'v tool_origin"
  tk_result :: "'s core_error + 'v tool_dispatch \<times> 'g guardrail_records"
  tk_committed_output :: "('v tool_dispatch \<times> 'g guardrail_records) option"

text \<open>What \<^verbatim>\<open>JoinSet\<close> returns for a task: its result, or that it was aborted or panicked.\<close>

datatype ('v, 'g, 's) joined = Joined nat "('v, 'g, 's) task_result" | JoinFailed nat bool

section \<open>Failures\<close>

datatype failure_priority_class = PriorityOther | PriorityToolTimeout | PriorityGuardrailTripwire | PriorityUserError | PriorityCancelled

text \<open>The derived order is the order of declaration.\<close>

fun priority_rank :: "failure_priority_class \<Rightarrow> nat" where
  "priority_rank PriorityOther = 0"
| "priority_rank PriorityToolTimeout = 1"
| "priority_rank PriorityGuardrailTripwire = 2"
| "priority_rank PriorityUserError = 3"
| "priority_rank PriorityCancelled = 4"

record 's ranked_failure =
  rk_error :: "'s core_error"
  rk_order :: nat
  rk_priority :: failure_priority_class

fun failure_priority :: "'s core_error \<Rightarrow> failure_priority_class" where
  "failure_priority (RunError error _ _) = failure_priority error"
| "failure_priority error =
     (if error_is_cancelled error then PriorityCancelled
      else case error of
          CallerError _ _ \<Rightarrow> PriorityUserError
        | GuardrailError _ _ _ _ \<Rightarrow> PriorityGuardrailTripwire
        | ToolError kind _ _ _ \<Rightarrow> if kind = TTimeout then PriorityToolTimeout else PriorityOther
        | _ \<Rightarrow> PriorityOther)"

definition ranked_failure_new :: "'s core_error \<Rightarrow> nat \<Rightarrow> 's ranked_failure" where
  "ranked_failure_new error order = \<lparr> rk_error = error, rk_order = order, rk_priority = failure_priority error \<rparr>"

definition task_failure :: "nat \<Rightarrow> 's ranked_failure" where
  "task_failure order =
     \<lparr> rk_error = CallerError (lit ''a supervised function-tool task ended before producing a result'') (Some (BoxedOther None)),
       rk_order = order, rk_priority = PriorityOther \<rparr>"

definition merge_failure :: "'s ranked_failure \<Rightarrow> 's ranked_failure option \<Rightarrow> 's ranked_failure option" where
  "merge_failure incoming current =
     (case current of
        None \<Rightarrow> Some incoming
      | Some existing \<Rightarrow>
          if priority_rank (rk_priority incoming) > priority_rank (rk_priority existing)
             \<or> rk_priority incoming = rk_priority existing \<and> rk_order incoming < rk_order existing
          then Some incoming else Some existing)"

section \<open>Collection\<close>

definition UNBOUND_ORDER :: nat where "UNBOUND_ORDER = 2 ^ 64 - 1"

record ('v, 'g, 's) collected_dispatches =
  co_completed :: "('v, 'g) completed_dispatch list"
  co_failure :: "'s ranked_failure option"
  co_nested_runs :: "(nat \<times> 's) list"
  co_post_invoke_failure :: bool

definition collected_default :: "('v, 'g, 's) collected_dispatches" where
  "collected_default = \<lparr> co_completed = [], co_failure = None, co_nested_runs = [], co_post_invoke_failure = False \<rparr>"

fun error_nested_run :: "'s core_error \<Rightarrow> 's option" where
  "error_nested_run (RunError _ _ nested) = nested"
| "error_nested_run _ = None"

definition complete_task :: "nat \<Rightarrow> ('v, 'g, 's) task_result \<Rightarrow> 'v tool_dispatch \<times> 'g guardrail_records \<Rightarrow> ('v, 'g) completed_dispatch" where
  "complete_task order task outcome =
     \<lparr> cd_order = order, cd_call_id = tk_call_id task, cd_tool = tk_tool task, cd_dispatch = fst outcome, cd_guardrails = snd outcome \<rparr>"

definition note_nested :: "nat \<Rightarrow> 's core_error \<Rightarrow> ('v, 'g, 's) collected_dispatches \<Rightarrow> ('v, 'g, 's) collected_dispatches" where
  "note_nested order error co =
     (case error_nested_run error of
        Some nested \<Rightarrow> co \<lparr> co_nested_runs := co_nested_runs co @ [(order, nested)] \<rparr>
      | None \<Rightarrow> co)"

definition keep_committed ::
  "nat \<Rightarrow> ('v, 'g, 's) task_result \<Rightarrow> ('v, 'g, 's) collected_dispatches \<Rightarrow> ('v, 'g, 's) collected_dispatches" where
  "keep_committed order task co =
     (case tk_committed_output task of
        Some committed \<Rightarrow> co \<lparr> co_post_invoke_failure := True, co_completed := co_completed co @ [complete_task order task committed] \<rparr>
      | None \<Rightarrow> co)"

text \<open>The position a task answers under: the one recorded for its id when it started unbound.\<close>

definition bound_order :: "nat option \<Rightarrow> nat \<Rightarrow> nat" where
  "bound_order recorded order = (if order = UNBOUND_ORDER then (case recorded of Some o' \<Rightarrow> o' | None \<Rightarrow> order) else order)"

type_synonym ('v, 'g, 's) collection = "(nat \<rightharpoonup> nat) \<times> ('v, 'g, 's) collected_dispatches"

fun record_task_result :: "bool \<Rightarrow> ('v, 'g, 's) joined \<Rightarrow> ('v, 'g, 's) collection \<Rightarrow> ('v, 'g, 's) collection" where
  "record_task_result ignore_cancellation (Joined task_id task) (task_orders, co) =
     (let order = bound_order (task_orders task_id) (tk_order task) in
      (task_orders(task_id := None),
       case tk_result task of
         Inr outcome \<Rightarrow> co \<lparr> co_completed := co_completed co @ [complete_task order task outcome] \<rparr>
       | Inl error \<Rightarrow>
           let co = keep_committed order task (note_nested order error co) in
           if ignore_cancellation \<and> error_is_cancelled error then co
           else co \<lparr> co_failure := merge_failure (ranked_failure_new error order) (co_failure co) \<rparr>))"
| "record_task_result ignore_cancellation (JoinFailed task_id cancelled) (task_orders, co) =
     (let order = (case task_orders task_id of Some o' \<Rightarrow> o' | None \<Rightarrow> UNBOUND_ORDER) in
      (task_orders(task_id := None),
       if cancelled \<and> ignore_cancellation then co
       else co \<lparr> co_failure := merge_failure (task_failure order) (co_failure co) \<rparr>))"

definition drain_dispatches :: "('v, 'g, 's) joined list \<Rightarrow> ('v, 'g, 's) collection \<Rightarrow> ('v, 'g, 's) collection" where
  "drain_dispatches = fold (record_task_result True)"

text \<open>\<open>cancelled_after\<close> is the number of batches handled before the parent is seen cancelled, if it is.\<close>

fun collect_dispatches ::
  "nat option \<Rightarrow> ('v, 'g, 's) joined list list \<Rightarrow> ('v, 'g, 's) collection \<Rightarrow> ('v, 'g, 's) collection" where
  "collect_dispatches cancelled_after [] st = st"
| "collect_dispatches cancelled_after (ready # rest) st =
     (if cancelled_after = Some 0 then drain_dispatches (concat (ready # rest)) st
      else let st = fold (record_task_result False) ready st in
           if co_failure (snd st) \<noteq> None then drain_dispatches (concat rest) st
           else collect_dispatches (map_option (\<lambda>n. n - 1) cancelled_after) rest st)"

section \<open>Calls started from the stream\<close>

record 'v streamed_call =
  sc_tool :: "'v tool_origin"
  sc_arguments :: 'v
  sc_task_id :: nat

definition origin_eq :: "'v tool_origin \<Rightarrow> 'v tool_origin \<Rightarrow> bool" where
  "origin_eq a b \<longleftrightarrow> to_schema_version a = to_schema_version b \<and> to_namespace a = to_namespace b
     \<and> to_qualified_name a = to_qualified_name b \<and> lookup_eq (to_lookup_key a) (to_lookup_key b) \<and> to_unknown a = to_unknown b"

text \<open>Binding the terminal response's actions. \<open>fresh\<close> is the id of the task spawned for a position.\<close>

record 'v binding_state =
  bs_started :: "ustring \<rightharpoonup> 'v streamed_call"
  bs_task_orders :: "nat \<rightharpoonup> nat"
  bs_spawned :: "(nat \<times> nat) list"

datatype preflight_error = ChangedStreamedCall ustring | OmittedStreamedCall

fun bind_functions ::
  "(nat \<Rightarrow> nat) \<Rightarrow> nat \<Rightarrow> 'v tool_run_function list \<Rightarrow> 'v binding_state \<Rightarrow> 'v binding_state \<times> preflight_error option" where
  "bind_functions fresh order [] st = (st, None)"
| "bind_functions fresh order (action # actions) st =
     (case bs_started st (tc_call_id (rf_call action)) of
        Some started \<Rightarrow>
          let st = st \<lparr> bs_started := (bs_started st)(tc_call_id (rf_call action) := None) \<rparr> in
          if \<not> origin_eq (sc_tool started) (tl_origin (rf_tool action)) \<or> sc_arguments started \<noteq> tc_arguments (rf_call action)
          then (st, Some (ChangedStreamedCall (tc_call_id (rf_call action))))
          else bind_functions fresh (Suc order) actions (st \<lparr> bs_task_orders := (bs_task_orders st)(sc_task_id started \<mapsto> order) \<rparr>)
      | None \<Rightarrow>
          bind_functions fresh (Suc order) actions
            (st \<lparr> bs_task_orders := (bs_task_orders st)(fresh order \<mapsto> order), bs_spawned := bs_spawned st @ [(fresh order, order)] \<rparr>))"

definition spawn_function_dispatches ::
  "(nat \<Rightarrow> nat) \<Rightarrow> 'v tool_run_function list \<Rightarrow> 'v binding_state \<Rightarrow> 'v binding_state \<times> preflight_error option" where
  "spawn_function_dispatches fresh functions st =
     (let (st, failure) = bind_functions fresh 0 functions st in
      (st, case failure of
             Some e \<Rightarrow> Some e
           | None \<Rightarrow> if bs_started st \<noteq> Map.empty then Some OmittedStreamedCall else None))"

section \<open>Settlement\<close>

record 'v function_tool_result =
  ft_tool :: "'v tool_origin"
  ft_output :: "'v tool_call_output option"
  ft_run_item :: "'v run_item option"
  ft_interruptions :: "'v run_item list"
  ft_nested_run :: "'v nested_run_ref option"

datatype batch_error = NotAnOutput | NotAnApproval | NestedWithoutApprovals

definition result_completed :: "'v tool_origin \<Rightarrow> 'v tool_call_output \<Rightarrow> 'v run_item \<Rightarrow> batch_error + 'v function_tool_result" where
  "result_completed tool output item =
     (if (case ri_kind item of RToolCallOutput answer \<Rightarrow> tco_call_id answer = tco_call_id output | _ \<Rightarrow> False)
      then Inr \<lparr> ft_tool = tool, ft_output = Some output, ft_run_item = Some item, ft_interruptions = [], ft_nested_run = None \<rparr>
      else Inl NotAnOutput)"

definition result_awaiting :: "'v tool_origin \<Rightarrow> 'v run_item \<Rightarrow> batch_error + 'v function_tool_result" where
  "result_awaiting tool approval =
     (if (case ri_kind approval of RToolApproval _ \<Rightarrow> True | _ \<Rightarrow> False)
      then Inr \<lparr> ft_tool = tool, ft_output = None, ft_run_item = Some approval, ft_interruptions = [approval], ft_nested_run = None \<rparr>
      else Inl NotAnApproval)"

definition result_nested :: "'v tool_origin \<Rightarrow> 'v nested_run_ref \<Rightarrow> batch_error + 'v function_tool_result" where
  "result_nested tool nested =
     (if nr_pending nested = [] then Inl NestedWithoutApprovals
      else Inr \<lparr> ft_tool = tool, ft_output = None, ft_run_item = None, ft_interruptions = nr_pending nested,
                 ft_nested_run = Some nested \<rparr>)"

definition output_item_id :: "ustring \<Rightarrow> ustring" where
  "output_item_id call_id = call_id @ lit ''.output''"

definition approval_item_id :: "ustring \<Rightarrow> ustring" where
  "approval_item_id call_id = call_id @ lit ''.approval''"

definition output_item :: "ustring \<Rightarrow> 'v tool_call_output \<Rightarrow> 'v run_item" where
  "output_item call_id output = run_item_new (output_item_id call_id) (RToolCallOutput output)"

record ('v, 'g) turn_execution =
  ex_new_items :: "'v run_item list"
  ex_interruptions :: "'v run_item list"
  ex_nested_interruptions :: "'v run_item list"
  ex_function_results :: "'v function_tool_result list"
  ex_tool_results :: "('v tool_origin \<times> 'v tool_call_output) list"
  ex_outcomes :: "'v tool_outcome list"
  ex_tool_input_guardrail_results :: "'g list"
  ex_tool_output_guardrail_results :: "'g list"

definition execution_default :: "('v, 'g) turn_execution" where
  "execution_default = \<lparr> ex_new_items = [], ex_interruptions = [], ex_nested_interruptions = [], ex_function_results = [],
     ex_tool_results = [], ex_outcomes = [], ex_tool_input_guardrail_results = [], ex_tool_output_guardrail_results = [] \<rparr>"

definition execution_has_interruptions :: "('v, 'g) turn_execution \<Rightarrow> bool" where
  "execution_has_interruptions self \<longleftrightarrow> ex_interruptions self \<noteq> [] \<or> ex_nested_interruptions self \<noteq> []"

definition action_at :: "'v processed_response \<Rightarrow> nat \<Rightarrow> 'v tool_run_function option" where
  "action_at processed order = (if order < length (pr_functions processed) then Some (pr_functions processed ! order) else None)"

definition answer_kind :: "'v processed_response \<Rightarrow> nat \<Rightarrow> tool_call_kind" where
  "answer_kind processed order = (case action_at processed order of Some action \<Rightarrow> tc_kind (rf_call action) | None \<Rightarrow> KFunction)"

text \<open>The outcome recorders of \<^verbatim>\<open>ra-core/src/state/tool_failure.rs\<close>, over the hash and rendering they take.\<close>

record 'n outcome_ops =
  op_sha :: "nat list \<Rightarrow> ustring"
  op_render :: "'n json \<Rightarrow> ustring"

definition observation_outcome :: "'n outcome_ops \<Rightarrow> 'n json tool_run_function \<Rightarrow> 'n json tool_observation \<Rightarrow> 'n json tool_outcome" where
  "observation_outcome ops action observation =
     (case ob_failure_code observation of
        None \<Rightarrow> outcome_succeeded (op_sha ops) (op_render ops) (function_identity action) (tc_call_id (rf_call action))
                  (tc_arguments (rf_call action)) (tco_output (ob_output observation))
      | Some code \<Rightarrow> outcome_failed (op_sha ops) (op_render ops) (function_identity action) (tc_call_id (rf_call action))
                  (tc_arguments (rf_call action)) (tco_output (ob_output observation)) code)"

definition refusal_outcome :: "'n outcome_ops \<Rightarrow> 'n json tool_run_function \<Rightarrow> 'n json tool_refusal \<Rightarrow> 'n json tool_outcome" where
  "refusal_outcome ops action refusal =
     outcome_refused (op_sha ops) (op_render ops) (function_identity action) (tc_call_id (rf_call action))
       (tc_arguments (rf_call action)) (tco_output (rfl_output refusal))"

definition settle_output ::
  "('n json, 'g) completed_dispatch \<Rightarrow> 'n json tool_call_output \<Rightarrow> tool_call_kind \<Rightarrow> ('n json, 'g) turn_execution
   \<Rightarrow> batch_error + ('n json, 'g) turn_execution" where
  "settle_output completed output kind ex =
     (let output = output \<lparr> tco_kind := kind \<rparr>;
          item = output_item (cd_call_id completed) output
      in result_bind (result_completed (cd_tool completed) output item) (\<lambda>result.
           Inr (ex \<lparr> ex_function_results := ex_function_results ex @ [result],
                     ex_tool_results := ex_tool_results ex @ (if kind \<noteq> KToolSearch then [(cd_tool completed, output)] else []),
                     ex_new_items := ex_new_items ex @ [item] \<rparr>)))"

definition settle_completed ::
  "'n outcome_ops \<Rightarrow> 'n json processed_response \<Rightarrow> ('n json, 'g) completed_dispatch \<Rightarrow> ('n json, 'g) turn_execution
   \<Rightarrow> batch_error + ('n json, 'g) turn_execution" where
  "settle_completed ops processed completed ex =
     (let ex = ex \<lparr>
            ex_tool_input_guardrail_results := ex_tool_input_guardrail_results ex @ gr_input (cd_guardrails completed),
            ex_tool_output_guardrail_results := ex_tool_output_guardrail_results ex @ gr_output (cd_guardrails completed) \<rparr>;
          kind = answer_kind processed (cd_order completed);
          action = action_at processed (cd_order completed)
      in case cd_dispatch completed of
           Observed observation \<Rightarrow>
             settle_output completed (ob_output observation) kind (case action of
                    Some a \<Rightarrow> ex \<lparr> ex_outcomes := ex_outcomes ex @ [observation_outcome ops a observation] \<rparr>
                  | None \<Rightarrow> ex)
         | DispatchRefused refusal \<Rightarrow>
             settle_output completed (rfl_output refusal) kind (case action of
                    Some a \<Rightarrow> ex \<lparr> ex_outcomes := ex_outcomes ex @ [refusal_outcome ops a refusal] \<rparr>
                  | None \<Rightarrow> ex)
         | AwaitingApproval approval \<Rightarrow>
             let item = run_item_new (approval_item_id (cd_call_id completed)) (RToolApproval (approval \<lparr> ta_kind := kind \<rparr>)) in
             result_bind (result_awaiting (cd_tool completed) item) (\<lambda>result.
               Inr (ex \<lparr> ex_function_results := ex_function_results ex @ [result],
                         ex_interruptions := ex_interruptions ex @ [item],
                         ex_new_items := ex_new_items ex @ [item] \<rparr>))
         | AwaitingNestedApproval nested \<Rightarrow>
             result_bind (result_nested (cd_tool completed) nested) (\<lambda>result.
               Inr (ex \<lparr> ex_nested_interruptions := ex_nested_interruptions ex @ ft_interruptions result,
                         ex_function_results := ex_function_results ex @ [result] \<rparr>)))"

fun settle_all ::
  "'n outcome_ops \<Rightarrow> 'n json processed_response \<Rightarrow> ('n json, 'g) completed_dispatch list \<Rightarrow> ('n json, 'g) turn_execution
   \<Rightarrow> batch_error + ('n json, 'g) turn_execution" where
  "settle_all ops processed [] ex = Inr ex"
| "settle_all ops processed (c # cs) ex = result_bind (settle_completed ops processed c ex) (settle_all ops processed cs)"

datatype 's turn_error = BatchFailed "'s core_error" | BatchSettle batch_error | ZeroConcurrency | Preflight preflight_error | TurnCancelled "'s core_error" | MissingBatchFailure

definition settle_dispatches ::
  "'n outcome_ops \<Rightarrow> ('n json, 'g, 's) collected_dispatches \<Rightarrow> 'n json processed_response \<Rightarrow> ('n json, 'g) turn_execution
   \<Rightarrow> 's turn_error + ('n json, 'g) turn_execution" where
  "settle_dispatches ops collected processed ex =
     (case co_failure collected of
        Some failure \<Rightarrow> Inl (BatchFailed (rk_error failure))
      | None \<Rightarrow>
          (case settle_all ops processed (sort_key cd_order (co_completed collected)) ex of
             Inl e \<Rightarrow> Inl (BatchSettle e)
           | Inr ex \<Rightarrow> Inr ex))"

definition every_call_settled :: "('v, 'g, 's) collected_dispatches \<Rightarrow> 'v processed_response \<Rightarrow> bool" where
  "every_call_settled collected processed \<longleftrightarrow>
     pr_tools_not_found processed = []
     \<and> list_all (\<lambda>order. list_ex (\<lambda>c. cd_order c = order) (co_completed collected)
          \<or> list_ex (\<lambda>n. fst n = order) (co_nested_runs collected)) [0..<length (pr_functions processed)]"

section \<open>Executing the actions of a turn\<close>

record ('n, 's) batch_env =
  be_max_function_tool_concurrency :: "nat option"
  be_ops :: "'n outcome_ops"
  be_agent_id :: ustring
  be_agent_name :: "ustring \<Rightarrow> ustring"
  be_entry_check :: "'s core_error option"
  be_settle_check :: "'s core_error option"
  be_invoke :: "handoff_spec \<Rightarrow> 'n json \<Rightarrow> 's core_error option"
  be_invoked_check :: "'s core_error option"
  be_announce :: "ustring \<Rightarrow> 's core_error option"
  be_announced_check :: "'s core_error option"

record ('n, 'g, 's) turn_recovery =
  rc_execution :: "('n json, 'g) turn_execution"
  rc_nested_runs :: "'s list"
  rc_handoff_reached :: bool
  rc_post_invoke_failure :: bool

definition missing_output :: "'n json tool_not_found \<Rightarrow> 'n json run_item" where
  "missing_output missing =
     output_item (tc_call_id (nf_call missing))
       ((tool_call_output_new (tc_call_id (nf_call missing))
          (JObject [(lit ''error'', JObject [(lit ''code'', JString (tool_code TNotFound)), (lit ''tool'', JString (tc_name (nf_call missing)))])]))
        \<lparr> tco_is_error := True, tco_kind := tc_kind (nf_call missing) \<rparr>)"

definition answer_missing :: "'n json processed_response \<Rightarrow> ('n json, 'g) turn_execution \<Rightarrow> ('n json, 'g) turn_execution" where
  "answer_missing processed ex = ex \<lparr> ex_new_items := ex_new_items ex @ map missing_output (pr_tools_not_found processed) \<rparr>"

definition ignored_output :: "'n json tool_run_handoff \<Rightarrow> 'n json run_item" where
  "ignored_output ignored =
     output_item (hc_call_id (rh_call ignored))
       (tool_call_output_new (hc_call_id (rh_call ignored)) (JString (lit ''Multiple handoffs detected, ignoring this one.'')))"

definition transfer_message :: "('n, 's) batch_env \<Rightarrow> ustring \<Rightarrow> ustring" where
  "transfer_message env agent_name = op_render (be_ops env) (JObject [(lit ''assistant'', JString agent_name)])"

definition transfer_output :: "('n, 's) batch_env \<Rightarrow> 'n json tool_run_handoff \<Rightarrow> 'n json run_item" where
  "transfer_output env handoff =
     run_item_new (output_item_id (hc_call_id (rh_call handoff)))
       (RHandoffOutput ((handoff_output_new (hc_call_id (rh_call handoff)) (be_agent_id env) (rh_target handoff))
          \<lparr> ho_note := Some (transfer_message env (be_agent_name env (rh_target handoff))) \<rparr>))"

text \<open>The execution is updated in place, so an error leaves behind what was written before it.\<close>

definition execute_handoffs ::
  "('n, 's) batch_env \<Rightarrow> 'n json processed_response \<Rightarrow> ('n json, 'g) turn_execution
   \<Rightarrow> ('n json, 'g) turn_execution \<times> 's turn_error option" where
  "execute_handoffs env processed ex =
     (case pr_handoffs processed of
        [] \<Rightarrow> (ex, None)
      | handoff # ignored \<Rightarrow>
          if execution_has_interruptions ex then (ex, None)
          else
            let ex = ex \<lparr> ex_new_items := ex_new_items ex @ map ignored_output ignored \<rparr> in
            (case be_invoke env (rh_spec handoff) (hc_arguments (rh_call handoff)) of
               Some e \<Rightarrow> (ex, Some (BatchFailed e))
             | None \<Rightarrow>
                 (case be_invoked_check env of
                    Some e \<Rightarrow> (ex, Some (TurnCancelled e))
                  | None \<Rightarrow>
                      let ex = ex \<lparr> ex_new_items := ex_new_items ex @ [transfer_output env handoff] \<rparr> in
                      (case be_announce env (rh_target handoff) of
                         Some e \<Rightarrow> (ex, Some (BatchFailed e))
                       | None \<Rightarrow>
                           (case be_announced_check env of
                              Some e \<Rightarrow> (ex, Some (TurnCancelled e))
                            | None \<Rightarrow> (ex, None))))))"

definition retain_settled ::
  "('n json, 'g, 's) collected_dispatches \<Rightarrow> 'n json processed_response \<Rightarrow> ('n json, 'g, 's) collected_dispatches" where
  "retain_settled collected processed =
     (if co_post_invoke_failure collected \<and> \<not> every_call_settled collected processed
      then collected \<lparr> co_post_invoke_failure := False \<rparr> else collected)"

text \<open>A batch that has to keep nested checkpoints or committed outputs: the records are written for recovery and the
  failure is returned.\<close>

definition recover_batch ::
  "('n, 's) batch_env \<Rightarrow> 'n json processed_response \<Rightarrow> ('n json, 'g, 's) collected_dispatches \<Rightarrow> ('n json, 'g) turn_execution
   \<Rightarrow> ('n, 'g, 's) turn_recovery \<Rightarrow> ('n, 'g, 's) turn_recovery \<times> ('s turn_error + ('n json, 'g) turn_execution)" where
  "recover_batch env processed collected ex recovery =
     (case settle_dispatches (be_ops env) (collected \<lparr> co_nested_runs := [], co_failure := None \<rparr>) processed ex of
        Inl e \<Rightarrow> (recovery, Inl e)
      | Inr ex \<Rightarrow>
          (recovery \<lparr> rc_execution := ex, rc_nested_runs := map snd (sort_key fst (co_nested_runs collected)),
                      rc_post_invoke_failure := co_post_invoke_failure collected \<rparr>,
           Inl (case be_settle_check env of
                  Some c \<Rightarrow> TurnCancelled c
                | None \<Rightarrow> (case co_failure collected of Some failure \<Rightarrow> BatchFailed (rk_error failure) | None \<Rightarrow> MissingBatchFailure))))"

definition settle_batch ::
  "('n, 's) batch_env \<Rightarrow> 'n json processed_response \<Rightarrow> ('n json, 'g, 's) collected_dispatches \<Rightarrow> ('n json, 'g) turn_execution
   \<Rightarrow> ('n, 'g, 's) turn_recovery \<Rightarrow> ('n, 'g, 's) turn_recovery \<times> ('s turn_error + ('n json, 'g) turn_execution)" where
  "settle_batch env processed collected ex recovery =
     (case be_settle_check env of
        Some c \<Rightarrow> (recovery, Inl (TurnCancelled c))
      | None \<Rightarrow>
          (case settle_dispatches (be_ops env) collected processed ex of
             Inl e \<Rightarrow> (recovery, Inl e)
           | Inr ex \<Rightarrow>
               let (ex, failed) = execute_handoffs env processed (answer_missing processed ex);
                   recovery = (if pr_handoffs processed = [] then recovery
                               else recovery \<lparr> rc_handoff_reached := True, rc_execution := ex \<rparr>)
               in (recovery, case failed of Some e \<Rightarrow> Inl e | None \<Rightarrow> Inr ex)))"

definition execute_actions ::
  "('n, 's) batch_env \<Rightarrow> 'n json processed_response \<Rightarrow> 'n json binding_state \<Rightarrow> (nat \<Rightarrow> nat) \<Rightarrow> nat option
   \<Rightarrow> ('n json, 'g, 's) joined list list \<Rightarrow> ('n, 'g, 's) turn_recovery
   \<Rightarrow> ('n, 'g, 's) turn_recovery \<times> ('s turn_error + ('n json, 'g) turn_execution)" where
  "execute_actions env processed streamed fresh cancelled_after schedule recovery =
     (if be_max_function_tool_concurrency env = Some 0 then (recovery, Inl ZeroConcurrency)
      else case be_entry_check env of
          Some c \<Rightarrow> (recovery, Inl (TurnCancelled c))
        | None \<Rightarrow>
            let ex = execution_default \<lparr> ex_interruptions := interruptions processed \<rparr>;
                (bound, preflight) = spawn_function_dispatches fresh (pr_functions processed) streamed
            in case preflight of
                 Some e \<Rightarrow> (recovery, Inl (case be_settle_check env of Some c \<Rightarrow> TurnCancelled c | None \<Rightarrow> Preflight e))
               | None \<Rightarrow>
                   let collected = retain_settled
                         (snd (collect_dispatches cancelled_after schedule (bs_task_orders bound, collected_default))) processed
                   in if co_nested_runs collected \<noteq> [] \<or> co_post_invoke_failure collected
                      then recover_batch env processed collected ex recovery
                      else settle_batch env processed collected ex recovery)"

section \<open>Arbitration does not depend on timing\<close>

text \<open>The failure a batch reports is the first in model order among those of the highest class.\<close>

definition outranks :: "'s ranked_failure \<Rightarrow> 's ranked_failure \<Rightarrow> bool" where
  "outranks f g \<longleftrightarrow> priority_rank (rk_priority g) < priority_rank (rk_priority f)
     \<or> rk_priority g = rk_priority f \<and> rk_order f \<le> rk_order g"

lemma priority_rank_inj [simp]: "priority_rank a = priority_rank b \<longleftrightarrow> a = b"
  by (cases a; cases b) simp_all

lemma outranks_refl [simp]: "outranks f f" by (simp add: outranks_def)

lemma outranks_trans: "outranks f g \<Longrightarrow> outranks g h \<Longrightarrow> outranks f h"
  by (auto simp: outranks_def)

lemma merge_failure_spec:
  "\<exists>w. merge_failure f current = Some w \<and> (w = f \<or> current = Some w) \<and> outranks w f \<and> (\<forall>e. current = Some e \<longrightarrow> outranks w e)"
proof (cases current)
  case (Some e)
  show ?thesis
  proof (cases "priority_rank (rk_priority e) < priority_rank (rk_priority f) \<or> rk_priority f = rk_priority e \<and> rk_order f < rk_order e")
    case True
    then show ?thesis using Some by (auto simp: merge_failure_def outranks_def)
  next
    case False
    then have "priority_rank (rk_priority f) < priority_rank (rk_priority e) \<or> rk_priority f = rk_priority e \<and> rk_order e \<le> rk_order f"
      by (metis linorder_less_linear not_less priority_rank_inj)
    then have "outranks e f" by (simp add: outranks_def)
    then show ?thesis using Some False by (auto simp: merge_failure_def)
  qed
qed (simp add: merge_failure_def)

lemma fold_merge_failure:
  assumes "current = Some c \<or> fs \<noteq> []"
  shows "\<exists>w. fold merge_failure fs current = Some w \<and> (w \<in> set fs \<or> current = Some w)
     \<and> (\<forall>f \<in> set fs. outranks w f) \<and> (\<forall>e. current = Some e \<longrightarrow> outranks w e)"
  using assms
proof (induction fs arbitrary: current c)
  case (Cons f fs)
  obtain w where w: "merge_failure f current = Some w" "w = f \<or> current = Some w" "outranks w f"
      "\<forall>e. current = Some e \<longrightarrow> outranks w e" using merge_failure_spec [of f current] by (elim exE conjE)
  obtain w' where w': "fold merge_failure fs (Some w) = Some w'" "w' \<in> set fs \<or> Some w = Some w'"
      "\<forall>f \<in> set fs. outranks w' f" "outranks w' w" using Cons.IH [of "Some w" w] by auto
  have "outranks w' f" and "\<forall>e. current = Some e \<longrightarrow> outranks w' e" using w(3,4) w'(4) outranks_trans by blast+
  moreover have "w' \<in> set (f # fs) \<or> current = Some w'" using w(2) w'(2) by auto
  ultimately show ?case using w(1) w'(1,3) by (intro exI [of _ w']) simp
qed auto

lemma fold_merge_permuted:
  assumes "mset fs = mset gs" "distinct (map rk_order fs)"
  shows "fold merge_failure fs None = fold merge_failure gs None"
proof (cases "fs = []")
  case False
  then have g: "gs \<noteq> []" using assms(1) by auto
  have sets: "set fs = set gs" using assms(1) by (metis set_mset_mset)
  obtain w where w: "fold merge_failure fs None = Some w" "w \<in> set fs" "\<forall>f \<in> set fs. outranks w f"
    using fold_merge_failure [of None undefined fs] False by auto
  obtain v where v: "fold merge_failure gs None = Some v" "v \<in> set gs" "\<forall>f \<in> set gs. outranks v f"
    using fold_merge_failure [of None undefined gs] g by auto
  have "outranks w v" "outranks v w" using w v sets by auto
  then have "rk_order w = rk_order v" by (auto simp: outranks_def)
  then have "w = v" using assms(2) w(2) v(2) sets by (auto simp: distinct_map dest: inj_onD)
  then show ?thesis using w(1) v(1) by simp
qed (use assms in simp)

fun task_id_of :: "('v, 'g, 's) joined \<Rightarrow> nat" where
  "task_id_of (Joined i _) = i"
| "task_id_of (JoinFailed i _) = i"

fun answer_order :: "(nat \<rightharpoonup> nat) \<Rightarrow> ('v, 'g, 's) joined \<Rightarrow> nat" where
  "answer_order orders (Joined i task) = bound_order (orders i) (tk_order task)"
| "answer_order orders (JoinFailed i _) = (case orders i of Some k \<Rightarrow> k | None \<Rightarrow> UNBOUND_ORDER)"

text \<open>What one joined task contributes to each part of the collection.\<close>

fun completed_by :: "(nat \<rightharpoonup> nat) \<Rightarrow> ('v, 'g, 's) joined \<Rightarrow> ('v, 'g) completed_dispatch list" where
  "completed_by orders (Joined i task) =
     (case tk_result task of
        Inr outcome \<Rightarrow> [complete_task (answer_order orders (Joined i task)) task outcome]
      | Inl _ \<Rightarrow> (case tk_committed_output task of
          Some committed \<Rightarrow> [complete_task (answer_order orders (Joined i task)) task committed] | None \<Rightarrow> []))"
| "completed_by orders (JoinFailed _ _) = []"

fun failed_by :: "bool \<Rightarrow> (nat \<rightharpoonup> nat) \<Rightarrow> ('v, 'g, 's) joined \<Rightarrow> 's ranked_failure list" where
  "failed_by ignore orders (Joined i task) =
     (case tk_result task of
        Inr _ \<Rightarrow> []
      | Inl e \<Rightarrow> if ignore \<and> error_is_cancelled e then [] else [ranked_failure_new e (answer_order orders (Joined i task))])"
| "failed_by ignore orders (JoinFailed i cancelled) =
     (if cancelled \<and> ignore then [] else [task_failure (answer_order orders (JoinFailed i cancelled :: ('v, 'g, 's) joined))])"

fun nested_by :: "(nat \<rightharpoonup> nat) \<Rightarrow> ('v, 'g, 's) joined \<Rightarrow> (nat \<times> 's) list" where
  "nested_by orders (Joined i task) =
     (case tk_result task of
        Inr _ \<Rightarrow> []
      | Inl e \<Rightarrow> (case error_nested_run e of Some n \<Rightarrow> [(answer_order orders (Joined i task), n)] | None \<Rightarrow> []))"
| "nested_by orders (JoinFailed _ _) = []"

fun post_failed :: "('v, 'g, 's) joined \<Rightarrow> bool" where
  "post_failed (Joined _ task) \<longleftrightarrow> (\<exists>e. tk_result task = Inl e) \<and> tk_committed_output task \<noteq> None"
| "post_failed (JoinFailed _ _) \<longleftrightarrow> False"

fun cancel_result :: "('v, 'g, 's) joined \<Rightarrow> bool" where
  "cancel_result (Joined _ task) \<longleftrightarrow> (case tk_result task of Inl e \<Rightarrow> error_is_cancelled e | Inr _ \<Rightarrow> False)"
| "cancel_result (JoinFailed _ cancelled) \<longleftrightarrow> cancelled"

lemma record_task_result_parts:
  "snd (record_task_result ignore j (orders, co)) =
     \<lparr> co_completed = co_completed co @ completed_by orders j,
       co_failure = fold merge_failure (failed_by ignore orders j) (co_failure co),
       co_nested_runs = co_nested_runs co @ nested_by orders j,
       co_post_invoke_failure = (co_post_invoke_failure co \<or> post_failed j) \<rparr>"
  "fst (record_task_result ignore j (orders, co)) = orders(task_id_of j := None)"
  by (cases j; simp add: Let_def note_nested_def keep_committed_def split: sum.splits option.splits)+

lemma answer_order_upd: "task_id_of j \<noteq> i \<Longrightarrow> answer_order (orders(i := None)) j = answer_order orders j"
  by (cases j) simp_all

lemma parts_upd:
  assumes "task_id_of j \<noteq> i"
  shows "completed_by (orders(i := None)) j = completed_by orders j"
    "failed_by ignore (orders(i := None)) j = failed_by ignore orders j" "nested_by (orders(i := None)) j = nested_by orders j"
  using assms by (cases j; simp split: sum.splits option.splits)+

lemma map_parts_upd:
  assumes "i \<notin> task_id_of ` set es"
  shows "map (completed_by (orders(i := None))) es = map (completed_by orders) es"
    "map (failed_by ignore (orders(i := None))) es = map (failed_by ignore orders) es"
    "map (nested_by (orders(i := None))) es = map (nested_by orders) es"
  using assms by (intro map_cong refl parts_upd, force)+

lemma fold_record_parts:
  "distinct (map task_id_of es) \<Longrightarrow>
   snd (fold (record_task_result ignore) es (orders, co)) =
     \<lparr> co_completed = co_completed co @ concat (map (completed_by orders) es),
       co_failure = fold merge_failure (concat (map (failed_by ignore orders) es)) (co_failure co),
       co_nested_runs = co_nested_runs co @ concat (map (nested_by orders) es),
       co_post_invoke_failure = (co_post_invoke_failure co \<or> list_ex post_failed es) \<rparr>
   \<and> fst (fold (record_task_result ignore) es (orders, co)) = (\<lambda>i. if i \<in> task_id_of ` set es then None else orders i)"
proof (induction es arbitrary: orders co)
  case (Cons j es)
  let ?o = "orders(task_id_of j := None)"
  have n: "task_id_of j \<notin> task_id_of ` set es" and d: "distinct (map task_id_of es)" using Cons.prems by auto
  obtain co1 where st: "record_task_result ignore j (orders, co) = (?o, co1)" and co1: "co1 =
     \<lparr> co_completed = co_completed co @ completed_by orders j,
       co_failure = fold merge_failure (failed_by ignore orders j) (co_failure co),
       co_nested_runs = co_nested_runs co @ nested_by orders j,
       co_post_invoke_failure = (co_post_invoke_failure co \<or> post_failed j) \<rparr>"
    using record_task_result_parts [of ignore j orders co] by (metis prod.collapse)
  note ih = Cons.IH [OF d, of ?o co1] and upd = map_parts_upd [OF n, where orders = orders]
  have "snd (fold (record_task_result ignore) es (?o, co1)) =
      \<lparr> co_completed = co_completed co @ concat (map (completed_by orders) (j # es)),
        co_failure = fold merge_failure (concat (map (failed_by ignore orders) (j # es))) (co_failure co),
        co_nested_runs = co_nested_runs co @ concat (map (nested_by orders) (j # es)),
        co_post_invoke_failure = (co_post_invoke_failure co \<or> list_ex post_failed (j # es)) \<rparr>"
    using ih [THEN conjunct1] unfolding upd by (simp add: co1 disj_assoc del: fun_upd_apply)
  moreover have "fst (fold (record_task_result ignore) es (?o, co1)) = (\<lambda>i. if i \<in> task_id_of ` set (j # es) then None else orders i)"
    unfolding ih [THEN conjunct2] by (auto simp: fun_eq_iff)
  ultimately show ?case by (simp add: st)
qed auto


text \<open>When nothing was cancelled, collecting in batches and draining the rest amounts to recording every result.\<close>

definition collected_from :: "(nat \<rightharpoonup> nat) \<Rightarrow> ('v, 'g, 's) joined list \<Rightarrow> ('v, 'g, 's) collected_dispatches" where
  "collected_from orders es =
     \<lparr> co_completed = concat (map (completed_by orders) es),
       co_failure = fold merge_failure (concat (map (failed_by False orders) es)) None,
       co_nested_runs = concat (map (nested_by orders) es),
       co_post_invoke_failure = list_ex post_failed es \<rparr>"

lemma failed_by_uncancelled: "\<not> cancel_result j \<Longrightarrow> failed_by True orders j = failed_by False orders j"
  by (cases j) (auto split: sum.splits)

lemma fold_record_ignore:
  assumes "distinct (map task_id_of es)" "\<forall>j \<in> set es. \<not> cancel_result j"
  shows "fold (record_task_result True) es st = fold (record_task_result False) es st"
proof -
  obtain orders co where st: "st = (orders, co)" by (cases st)
  have c: "concat (map (failed_by True orders) es) = concat (map (failed_by False orders) es)"
    using assms(2) by (intro arg_cong [of _ _ concat] map_cong refl failed_by_uncancelled) blast
  show ?thesis
    unfolding st prod_eq_iff fold_record_parts [OF assms(1), THEN conjunct1] fold_record_parts [OF assms(1), THEN conjunct2] c
    by simp
qed

lemma collect_uncancelled:
  "distinct (map task_id_of (concat bs)) \<Longrightarrow> \<forall>j \<in> set (concat bs). \<not> cancel_result j \<Longrightarrow>
   collect_dispatches None bs st = fold (record_task_result False) (concat bs) st"
proof (induction bs arbitrary: st)
  case (Cons b bs)
  have d: "distinct (map task_id_of (concat bs))" "\<forall>j \<in> set (concat bs). \<not> cancel_result j" using Cons.prems by auto
  then show ?case using Cons.IH [OF d] fold_record_ignore [OF d] by (simp add: Let_def drain_dispatches_def)
qed simp

lemma collect_uncancelled_from:
  assumes "distinct (map task_id_of (concat bs))" "\<forall>j \<in> set (concat bs). \<not> cancel_result j"
  shows "snd (collect_dispatches None bs (orders, collected_default)) = collected_from orders (concat bs)"
  using fold_record_parts [OF assms(1), of False orders collected_default]
  by (simp add: collect_uncancelled [OF assms] collected_from_def collected_default_def)

lemma sort_key_permuted:
  assumes "mset xs = mset ys" "distinct (map f xs)"
  shows "sort_key f xs = sort_key (f :: 'a \<Rightarrow> 'b::linorder) ys"
proof (rule map_sorted_distinct_set_unique [of f])
  have sets: "set xs = set ys" using assms(1) by (metis set_mset_mset)
  have keys: "mset (map f xs) = mset (map f ys)" using assms(1) by (metis mset_map)
  show "inj_on f (set (sort_key f xs) \<union> set (sort_key f ys))" using assms(2) sets by (simp add: distinct_map)
  show "distinct (map f (sort_key f xs))" "distinct (map f (sort_key f ys))"
    using assms keys by (metis mset_eq_imp_distinct_iff mset_map mset_sort)+
  show "set (sort_key f xs) = set (sort_key f ys)" using sets by simp
qed simp_all

text \<open>Parts with at most one entry per task, filed under the task's position, have distinct positions.\<close>

lemma distinct_parts:
  assumes "distinct (map h es)" and "\<And>j. length (p j) \<le> 1 \<and> (\<forall>x \<in> set (p j). f x = h j)"
  shows "distinct (map f (concat (map p es)))"
  using assms(1)
proof (induction es)
  case (Cons j es)
  have "f ` set (p j) \<inter> f ` set (concat (map p es)) = {}"
  proof (rule ccontr)
    assume "\<not> ?thesis"
    then obtain x k y where "x \<in> set (p j)" "k \<in> set es" "y \<in> set (p k)" "f x = f y" by auto
    then have "h j = h k" using assms(2) by metis
    then show False using Cons.prems \<open>k \<in> set es\<close> by auto
  qed
  moreover have "distinct (map f (p j))" using assms(2) [of j] by (cases "p j") auto
  ultimately show ?case using Cons by (simp add: image_Un)
qed simp

lemma parts_shape:
  shows completed_shape: "length (completed_by orders j) \<le> 1 \<and> (\<forall>x \<in> set (completed_by orders j). cd_order x = answer_order orders j)"
    and failed_shape: "length (failed_by ignore orders j) \<le> 1 \<and> (\<forall>x \<in> set (failed_by ignore orders j). rk_order x = answer_order orders j)"
    and nested_shape: "length (nested_by orders j) \<le> 1 \<and> (\<forall>x \<in> set (nested_by orders j). fst x = answer_order orders j)"
proof -
  show "length (completed_by orders j) \<le> 1 \<and> (\<forall>x \<in> set (completed_by orders j). cd_order x = answer_order orders j)"
    by (cases j) (auto simp: complete_task_def simp del: answer_order.simps split: sum.splits option.splits)
  show "length (failed_by ignore orders j) \<le> 1 \<and> (\<forall>x \<in> set (failed_by ignore orders j). rk_order x = answer_order orders j)"
    by (cases j) (auto simp: ranked_failure_new_def task_failure_def split: sum.split)
  show "length (nested_by orders j) \<le> 1 \<and> (\<forall>x \<in> set (nested_by orders j). fst x = answer_order orders j)"
    by (cases j) (auto simp del: answer_order.simps split: sum.splits option.splits)
qed

lemma mset_concat_map: "mset es = mset es' \<Longrightarrow> mset (concat (map p es)) = mset (concat (map p es'))"
proof -
  assume e: "mset es = mset es'"
  have c: "mset (concat (map p xs)) = \<Sum>\<^sub># (image_mset (\<lambda>x. mset (p x)) (mset xs))" for xs by (induction xs) auto
  show ?thesis unfolding c e ..
qed

lemma collected_from_permuted:
  assumes "mset es = mset es'" "distinct (map (answer_order orders) es)"
  shows "sort_key cd_order (co_completed (collected_from orders es)) = sort_key cd_order (co_completed (collected_from orders es'))"
    "co_failure (collected_from orders es) = co_failure (collected_from orders es')"
    "sort_key fst (co_nested_runs (collected_from orders es)) = sort_key fst (co_nested_runs (collected_from orders es'))"
    "co_post_invoke_failure (collected_from orders es) = co_post_invoke_failure (collected_from orders es')"
proof -
  have sets: "set es = set es'" using assms(1) by (metis set_mset_mset)
  show "sort_key cd_order (co_completed (collected_from orders es)) = sort_key cd_order (co_completed (collected_from orders es'))"
    unfolding collected_from_def collected_dispatches.simps
    using mset_concat_map [OF assms(1)] distinct_parts [OF assms(2) completed_shape] by (rule sort_key_permuted)
  show "co_failure (collected_from orders es) = co_failure (collected_from orders es')"
    unfolding collected_from_def collected_dispatches.simps
    using mset_concat_map [OF assms(1)] distinct_parts [OF assms(2) failed_shape] by (rule fold_merge_permuted)
  show "sort_key fst (co_nested_runs (collected_from orders es)) = sort_key fst (co_nested_runs (collected_from orders es'))"
    unfolding collected_from_def collected_dispatches.simps
    using mset_concat_map [OF assms(1)] distinct_parts [OF assms(2) nested_shape] by (rule sort_key_permuted)
  show "co_post_invoke_failure (collected_from orders es) = co_post_invoke_failure (collected_from orders es')"
    using sets by (simp add: collected_from_def list_ex_iff)
qed

definition same_collection :: "('v, 'g, 's) collected_dispatches \<Rightarrow> ('v, 'g, 's) collected_dispatches \<Rightarrow> bool" where
  "same_collection c c' \<longleftrightarrow>
     sort_key cd_order (co_completed c) = sort_key cd_order (co_completed c') \<and> co_failure c = co_failure c'
     \<and> sort_key fst (co_nested_runs c) = sort_key fst (co_nested_runs c') \<and> co_post_invoke_failure c = co_post_invoke_failure c'"

lemma sort_key_set: "sort_key f xs = sort_key f ys \<Longrightarrow> set xs = set ys"
  by (metis set_sort)

lemma same_collection_retain:
  assumes "same_collection c c'"
  shows "same_collection (retain_settled c processed) (retain_settled c' processed)"
proof -
  have "set (co_completed c) = set (co_completed c')" "set (co_nested_runs c) = set (co_nested_runs c')"
    using assms by (auto simp: same_collection_def dest!: sort_key_set)
  then have "every_call_settled c processed = every_call_settled c' processed"
    by (simp add: every_call_settled_def list_ex_iff list_all_iff)
  then show ?thesis using assms by (simp add: retain_settled_def same_collection_def)
qed

lemma same_collection_batch:
  assumes "same_collection c c'"
  shows "recover_batch env processed c ex recovery = recover_batch env processed c' ex recovery"
    "settle_batch env processed c ex recovery = settle_batch env processed c' ex recovery"
    "co_nested_runs c = [] \<longleftrightarrow> co_nested_runs c' = []"
proof -
  have a: "sort_key cd_order (co_completed c) = sort_key cd_order (co_completed c')" "co_failure c = co_failure c'"
    "sort_key fst (co_nested_runs c) = sort_key fst (co_nested_runs c')" "co_post_invoke_failure c = co_post_invoke_failure c'"
    using assms by (simp_all add: same_collection_def)
  show "recover_batch env processed c ex recovery = recover_batch env processed c' ex recovery"
    "settle_batch env processed c ex recovery = settle_batch env processed c' ex recovery"
    unfolding recover_batch_def settle_batch_def settle_dispatches_def collected_dispatches.simps a by (simp_all add: a)
  show "co_nested_runs c = [] \<longleftrightarrow> co_nested_runs c' = []" using a(3) by (metis set_empty2 sort_key_set)
qed



section \<open>Every call is answered once\<close>

text \<open>The ids of the records one dispatch leaves. A paused nested run leaves none: its own records ask the question.\<close>

fun answer_ids :: "ustring \<Rightarrow> 'v tool_dispatch \<Rightarrow> ustring list" where
  "answer_ids call_id (Observed _) = [output_item_id call_id]"
| "answer_ids call_id (DispatchRefused _) = [output_item_id call_id]"
| "answer_ids call_id (AwaitingApproval _) = [approval_item_id call_id]"
| "answer_ids call_id (AwaitingNestedApproval _) = []"

definition dispatch_of :: "(nat \<rightharpoonup> nat) \<Rightarrow> ('v, 'g, 's) joined list \<Rightarrow> nat \<Rightarrow> 'v tool_dispatch option" where
  "dispatch_of orders es order =
     (case find (\<lambda>j. answer_order orders j = order) es of
        Some (Joined _ task) \<Rightarrow> (case tk_result task of Inr outcome \<Rightarrow> Some (fst outcome) | Inl _ \<Rightarrow> None)
      | _ \<Rightarrow> None)"

text \<open>Every spawned or streamed task is joined once and reports the call it was started for.\<close>

definition joins_each_task :: "(nat \<rightharpoonup> nat) \<Rightarrow> 'v tool_run_function list \<Rightarrow> ('v, 'g, 's) joined list \<Rightarrow> bool" where
  "joins_each_task orders functions es \<longleftrightarrow>
     distinct (map task_id_of es) \<and> task_id_of ` set es = dom orders
     \<and> list_all (\<lambda>j. case j of
          Joined i task \<Rightarrow> (tk_order task = UNBOUND_ORDER \<or> orders i = Some (tk_order task))
            \<and> tk_call_id task = tc_call_id (rf_call (functions ! the (orders i)))
        | JoinFailed _ _ \<Rightarrow> True) es"

text \<open>Ids name one task: those of streamed calls are apart from each other and from the ones still to be spawned.\<close>

definition streamed_apart :: "(nat \<Rightarrow> nat) \<Rightarrow> nat \<Rightarrow> (ustring \<rightharpoonup> 'v streamed_call) \<Rightarrow> bool" where
  "streamed_apart fresh order started \<longleftrightarrow>
     inj fresh \<and> (\<forall>c s. started c = Some s \<longrightarrow> (\<forall>k \<ge> order. sc_task_id s \<noteq> fresh k))
     \<and> (\<forall>c c' s s'. started c = Some s \<longrightarrow> started c' = Some s' \<longrightarrow> sc_task_id s = sc_task_id s' \<longrightarrow> c = c')"

lemma streamed_apart_Suc: "streamed_apart fresh order started \<Longrightarrow> streamed_apart fresh (Suc order) started"
  by (auto simp: streamed_apart_def)

lemma streamed_apart_upd: "streamed_apart fresh order started \<Longrightarrow> streamed_apart fresh order (started(c := None))"
  by (auto simp: streamed_apart_def split: if_splits)

text \<open>The positions handed out so far: a bijection between the tasks bound and the first positions.\<close>

definition orders_upto :: "(nat \<Rightarrow> nat) \<Rightarrow> nat \<Rightarrow> 'v binding_state \<Rightarrow> bool" where
  "orders_upto fresh order st \<longleftrightarrow>
     inj_on (bs_task_orders st) (dom (bs_task_orders st)) \<and> ran (bs_task_orders st) = {0..<order}
     \<and> (\<forall>k \<ge> order. fresh k \<notin> dom (bs_task_orders st))
     \<and> (\<forall>c s. bs_started st c = Some s \<longrightarrow> sc_task_id s \<notin> dom (bs_task_orders st))"

lemma inj_on_map_upd:
  assumes "inj_on m (dom m)" "i \<notin> dom m" "k \<notin> ran m"
  shows "inj_on (m(i \<mapsto> k)) (dom (m(i \<mapsto> k)))"
  using assms by (auto simp: inj_on_def ran_def dom_def)

lemma ran_map_upd_new: "i \<notin> dom m \<Longrightarrow> ran (m(i \<mapsto> k)) = insert k (ran m)"
  by (simp add: domIff)

lemma orders_upto_bind:
  assumes "orders_upto fresh order st" "i \<notin> dom (bs_task_orders st)" "\<forall>k \<ge> Suc order. fresh k \<noteq> i"
    "\<forall>c s. started c = Some s \<longrightarrow> bs_started st c = Some s \<and> sc_task_id s \<noteq> i"
  shows "orders_upto fresh (Suc order) (st \<lparr> bs_started := started, bs_task_orders := (bs_task_orders st)(i \<mapsto> order) \<rparr>)"
  using assms inj_on_map_upd [of "bs_task_orders st" i order] ran_map_upd_new [of i "bs_task_orders st" order]
  by (simp add: orders_upto_def atLeast0_lessThan_Suc) fastforce

lemma bind_functions_orders:
  "streamed_apart fresh order (bs_started st) \<Longrightarrow> orders_upto fresh order st \<Longrightarrow>
   bind_functions fresh order actions st = (st', None) \<Longrightarrow> orders_upto fresh (order + length actions) st'"
proof (induction actions arbitrary: order st)
  case (Cons action actions)
  let ?cid = "tc_call_id (rf_call action)"
  show ?case
  proof (cases "bs_started st ?cid")
    case None
    let ?st = "st \<lparr> bs_task_orders := (bs_task_orders st)(fresh order \<mapsto> order), bs_spawned := bs_spawned st @ [(fresh order, order)] \<rparr>"
    have "orders_upto fresh (Suc order) (st \<lparr> bs_started := bs_started st, bs_task_orders := (bs_task_orders st)(fresh order \<mapsto> order) \<rparr>)"
      using Cons.prems(1,2) by (intro orders_upto_bind) (auto simp: orders_upto_def streamed_apart_def inj_eq)
    then have "orders_upto fresh (Suc order) ?st" by (simp add: orders_upto_def)
    moreover have "streamed_apart fresh (Suc order) (bs_started ?st)" using Cons.prems(1) streamed_apart_Suc by simp
    ultimately show ?thesis using Cons.IH [of "Suc order" ?st] Cons.prems(3) None by simp
  next
    case (Some s)
    let ?st = "st \<lparr> bs_started := (bs_started st)(?cid := None), bs_task_orders := (bs_task_orders st)(sc_task_id s \<mapsto> order) \<rparr>"
    have o1: "orders_upto fresh (Suc order) ?st"
    proof (rule orders_upto_bind [OF Cons.prems(2)])
      show "sc_task_id s \<notin> dom (bs_task_orders st)" using Cons.prems(2) Some unfolding orders_upto_def by blast
      show "\<forall>k \<ge> Suc order. fresh k \<noteq> sc_task_id s" using Cons.prems(1) Some unfolding streamed_apart_def by (metis Suc_leD)
      show "\<forall>c s'. ((bs_started st)(?cid := None)) c = Some s' \<longrightarrow> bs_started st c = Some s' \<and> sc_task_id s' \<noteq> sc_task_id s"
        using Cons.prems(1) Some unfolding streamed_apart_def by (metis fun_upd_apply option.distinct(1))
    qed
    have s1: "streamed_apart fresh (Suc order) (bs_started ?st)"
      using streamed_apart_upd [OF streamed_apart_Suc [OF Cons.prems(1)]] by simp
    have "bind_functions fresh (Suc order) actions ?st = (st', None)"
      using Cons.prems(3) Some by (auto simp: Let_def split: if_splits)
    then show ?thesis using Cons.IH [OF s1 o1] by simp
  qed
qed simp

lemma spawned_orders:
  assumes "spawn_function_dispatches fresh functions streamed = (bound, None)"
    and "bs_task_orders streamed = Map.empty" "streamed_apart fresh 0 (bs_started streamed)"
  shows "orders_upto fresh (length functions) bound"
proof -
  have "bind_functions fresh 0 functions streamed = (bound, None)"
    using assms(1) by (auto simp: spawn_function_dispatches_def split: prod.splits option.splits)
  moreover have "orders_upto fresh 0 streamed" using assms(2) by (simp add: orders_upto_def)
  ultimately show ?thesis using bind_functions_orders [OF assms(3)] by fastforce
qed

lemma answer_order_bound:
  assumes "joins_each_task orders functions es" "j \<in> set es"
  shows "answer_order orders j = the (orders (task_id_of j))"
proof -
  have "task_id_of j \<in> dom orders" using assms unfolding joins_each_task_def by blast
  moreover have "\<forall>i task. j = Joined i task \<longrightarrow> tk_order task = UNBOUND_ORDER \<or> orders i = Some (tk_order task)"
    using assms unfolding joins_each_task_def list_all_iff by fastforce
  ultimately show ?thesis by (cases j) (auto simp: bound_order_def)
qed

lemma joined_orders:
  assumes "orders_upto fresh n bound" "joins_each_task (bs_task_orders bound) functions es"
  shows "mset (map (answer_order (bs_task_orders bound)) es) = mset [0..<n]"
proof -
  let ?o = "bs_task_orders bound"
  note a = answer_order_bound [OF assms(2)]
  have ids: "distinct (map task_id_of es)" "task_id_of ` set es = dom ?o" using assms(2) by (auto simp: joins_each_task_def)
  have "distinct (map (answer_order ?o) es)"
    using assms(1) ids a by (auto simp: distinct_map inj_on_def orders_upto_def domIff) (metis domIff image_eqI option.expand)
  moreover have "answer_order ?o ` set es = {0..<n}"
  proof -
    have "answer_order ?o ` set es = (the \<circ> ?o) ` dom ?o" unfolding ids(2) [symmetric] using a by force
    also have "\<dots> = ran ?o" by (force simp: ran_def dom_def image_iff)
    finally show ?thesis using assms(1) by (simp add: orders_upto_def)
  qed
  ultimately show ?thesis by (metis distinct_upt list.set_map set_eq_iff_mset_eq_distinct set_upt)
qed


lemma record_keeps_failure: "co_failure (snd st) \<noteq> None \<Longrightarrow> co_failure (snd (record_task_result ignore j st)) \<noteq> None"
proof -
  assume f: "co_failure (snd st) \<noteq> None"
  obtain orders co where st: "st = (orders, co)" by (cases st)
  obtain c where "co_failure co = Some c" using f st by auto
  then show ?thesis
    using fold_merge_failure [of "co_failure co" c "failed_by ignore orders j"] by (auto simp: st record_task_result_parts)
qed

lemma fold_record_keeps_failure:
  "co_failure (snd st) \<noteq> None \<Longrightarrow> co_failure (snd (fold (record_task_result ignore) es st)) \<noteq> None"
proof (induction es arbitrary: st)
  case (Cons j es)
  show ?case using Cons.IH [OF record_keeps_failure [OF Cons.prems]] by simp
qed simp

text \<open>A collection that ends without a failure never drained.\<close>

lemma collect_without_failure:
  "co_failure (snd (collect_dispatches None bs st)) = None \<Longrightarrow>
   collect_dispatches None bs st = fold (record_task_result False) (concat bs) st"
proof (induction bs arbitrary: st)
  case (Cons b bs)
  have "co_failure (snd (fold (record_task_result False) b st)) = None"
    using Cons.prems fold_record_keeps_failure [of "fold (record_task_result False) b st" True "concat bs"]
    by (auto simp: Let_def drain_dispatches_def split: if_splits)
  then show ?case using Cons by (simp add: Let_def)
qed simp

text \<open>Without a failure every task completed, with the dispatch it returned.\<close>

lemma collected_without_failure:
  assumes "distinct (map task_id_of es)" "co_failure (snd (fold (record_task_result False) es (orders, collected_default))) = None"
    "j \<in> set es"
  obtains i task outcome where "j = Joined i task" "tk_result task = Inr outcome"
    "completed_by orders j = [complete_task (answer_order orders j) task outcome]"
proof -
  have "fold merge_failure (concat (map (failed_by False orders) es)) None = None"
    using assms(2) fold_record_parts [OF assms(1), of False orders collected_default] by (simp add: collected_default_def)
  then have "concat (map (failed_by False orders) es) = []"
    using fold_merge_failure [of None undefined "concat (map (failed_by False orders) es)"] by (metis option.distinct(1))
  then have "failed_by False orders j = []" using assms(3) by simp
  then show thesis using that by (cases j) (auto split: sum.splits)
qed

lemma sort_key_upt:
  assumes "mset (map f xs) = mset [0..<n]"
  shows "map f (sort_key f xs) = [0..<n]"
proof -
  have "mset (map f (sort_key f xs)) = mset [0..<n]" using assms by (metis mset_map mset_sort)
  then show ?thesis by (metis properties_for_sort sorted_sort_key sorted_upt)
qed


lemma result_completed_output:
  "result_completed tool output (output_item call_id output)
   = Inr \<lparr> ft_tool = tool, ft_output = Some output, ft_run_item = Some (output_item call_id output), ft_interruptions = [],
           ft_nested_run = None \<rparr>"
  by (simp add: result_completed_def output_item_def run_item_new_def)

lemma output_item_id_of [simp]: "ri_id (output_item call_id output) = output_item_id call_id"
  by (simp add: output_item_def run_item_new_def)

lemma settle_completed_items:
  assumes "settle_completed ops processed c ex = Inr ex'"
  shows "map ri_id (ex_new_items ex') = map ri_id (ex_new_items ex) @ answer_ids (cd_call_id c) (cd_dispatch c)
     \<and> length (ex_function_results ex') = Suc (length (ex_function_results ex))"
proof (cases "cd_dispatch c")
  case (Observed ob)
  then show ?thesis using assms
    by (auto simp: settle_completed_def settle_output_def result_completed_output Let_def split: option.splits)
next
  case (DispatchRefused r)
  then show ?thesis using assms
    by (auto simp: settle_completed_def settle_output_def result_completed_output Let_def split: option.splits)
next
  case (AwaitingApproval a)
  then show ?thesis using assms by (auto simp: settle_completed_def result_awaiting_def run_item_new_def Let_def)
next
  case (AwaitingNestedApproval n)
  then obtain r where "result_nested (cd_tool c) n = Inr r" using assms
    unfolding settle_completed_def Let_def by (auto simp: result_bind_Inr_iff)
  then show ?thesis using assms AwaitingNestedApproval by (auto simp: settle_completed_def Let_def)
qed

lemma settle_all_items:
  "settle_all ops processed cs ex = Inr ex' \<Longrightarrow>
   map ri_id (ex_new_items ex') = map ri_id (ex_new_items ex) @ concat (map (\<lambda>c. answer_ids (cd_call_id c) (cd_dispatch c)) cs)
   \<and> length (ex_function_results ex') = length (ex_function_results ex) + length cs"
proof (induction cs arbitrary: ex)
  case (Cons c cs)
  then obtain ex1 where "settle_completed ops processed c ex = Inr ex1" "settle_all ops processed cs ex1 = Inr ex'"
    by (auto simp: result_bind_Inr_iff)
  then show ?case using settle_completed_items Cons.IH by fastforce
qed simp

text \<open>The records of a transfer: every other request is told it was ignored, then the first is answered.\<close>

fun transfer_ids :: "'v tool_run_handoff list \<Rightarrow> ustring list" where
  "transfer_ids [] = []"
| "transfer_ids (handoff # ignored) = map (\<lambda>h. output_item_id (hc_call_id (rh_call h))) (ignored @ [handoff])"

lemma execute_handoffs_items:
  assumes "execute_handoffs env processed ex = (ex', None)"
  shows "map ri_id (ex_new_items ex') = map ri_id (ex_new_items ex)
       @ (if execution_has_interruptions ex then [] else transfer_ids (pr_handoffs processed))
     \<and> ex_function_results ex' = ex_function_results ex \<and> execution_has_interruptions ex' = execution_has_interruptions ex"
proof (cases "pr_handoffs processed")
  case (Cons h hs)
  then show ?thesis using assms
    by (auto simp: execute_handoffs_def execution_has_interruptions_def ignored_output_def transfer_output_def output_item_def
        run_item_new_def Let_def comp_def split: if_splits option.splits)
qed (use assms in \<open>auto simp: execute_handoffs_def\<close>)

lemma sorted_completed:
  assumes "distinct (map task_id_of es)" "mset (map (answer_order orders) es) = mset [0..<n]"
    "co_failure (snd (fold (record_task_result False) es (orders, collected_default))) = None"
    "\<forall>i task. Joined i task \<in> set es \<longrightarrow> tk_call_id task = tc_call_id (rf_call (functions ! answer_order orders (Joined i task)))"
  shows "map (\<lambda>c. (cd_call_id c, Some (cd_dispatch c))) (sort_key cd_order (co_completed (collected_from orders es)))
    = map (\<lambda>order. (tc_call_id (rf_call (functions ! order)), dispatch_of orders es order)) [0..<n]" (is "?l = ?r")
proof -
  let ?cs = "sort_key cd_order (co_completed (collected_from orders es))"
  have one: "map cd_order (completed_by orders j) = [answer_order orders j]" if "j \<in> set es" for j
    using collected_without_failure [OF assms(1,3) that] by (fastforce simp: complete_task_def)
  then have "map cd_order (co_completed (collected_from orders es)) = map (answer_order orders) es"
    by (simp add: collected_from_def map_concat comp_def cong: map_cong)
  then have pos: "map cd_order ?cs = [0..<n]" using assms(2) by (intro sort_key_upt) simp
  have d: "distinct (map (answer_order orders) es)" using assms(2) by (metis distinct_upt mset_eq_imp_distinct_iff)
  have "(cd_call_id c, Some (cd_dispatch c)) = (tc_call_id (rf_call (functions ! cd_order c)), dispatch_of orders es (cd_order c))"
    if c: "c \<in> set ?cs" for c
  proof -
    obtain j where j: "j \<in> set es" "c \<in> set (completed_by orders j)" using c by (auto simp: collected_from_def)
    obtain i task outcome where t: "j = Joined i task" "tk_result task = Inr outcome"
        "c = complete_task (answer_order orders j) task outcome"
      using collected_without_failure [OF assms(1,3) j(1)] j(2) by (metis empty_iff list.set(1) set_ConsD)
    then have o: "cd_order c = answer_order orders j" by (simp add: complete_task_def)
    have "find (\<lambda>k. answer_order orders k = cd_order c) es = Some j"
      using d j(1) o by (induction es) auto
    then show ?thesis using t o assms(4) j(1) by (simp add: dispatch_of_def complete_task_def)
  qed
  then have "?l = map (\<lambda>c. (tc_call_id (rf_call (functions ! cd_order c)), dispatch_of orders es (cd_order c))) ?cs"
    by (intro map_cong refl)
  also have "\<dots> = ?r" unfolding pos [symmetric] by simp
  finally show ?thesis .
qed


lemma execute_actions_Inr:
  assumes "execute_actions env processed streamed fresh cancelled_after schedule recovery = (recovery', Inr ex)"
  obtains bound ex0 ex1 collected where
    "spawn_function_dispatches fresh (pr_functions processed) streamed = (bound, None)" "be_settle_check env = None"
    "collected = snd (collect_dispatches cancelled_after schedule (bs_task_orders bound, collected_default))"
    "co_failure collected = None"
    "settle_all (be_ops env) processed (sort_key cd_order (co_completed collected))
       (execution_default \<lparr> ex_interruptions := interruptions processed \<rparr>) = Inr ex0"
    "execute_handoffs env processed (answer_missing processed ex0) = (ex, None)"
  using assms
  by (auto simp: execute_actions_def settle_batch_def recover_batch_def settle_dispatches_def retain_settled_def Let_def
      split: if_splits option.splits sum.splits prod.splits)

lemma answers_in_order:
  assumes "snd (execute_actions env processed streamed fresh cancelled_after schedule recovery) = Inr ex"
    and "bs_task_orders streamed = Map.empty" and "streamed_apart fresh 0 (bs_started streamed)"
    and "orders = bs_task_orders (fst (spawn_function_dispatches fresh (pr_functions processed) streamed))"
    and "joins_each_task orders (pr_functions processed) (concat schedule)"
    and "cancelled_after = None \<or> be_settle_check env \<noteq> None"
  shows "list_all (\<lambda>order. dispatch_of orders (concat schedule) order \<noteq> None) [0..<length (pr_functions processed)]
    \<and> map ri_id (ex_new_items ex)
      = concat (map (\<lambda>order. answer_ids (tc_call_id (rf_call (pr_functions processed ! order)))
                  (the (dispatch_of orders (concat schedule) order))) [0..<length (pr_functions processed)])
        @ map (\<lambda>m. output_item_id (tc_call_id (nf_call m))) (pr_tools_not_found processed)
        @ (if execution_has_interruptions ex then [] else transfer_ids (pr_handoffs processed))
    \<and> length (ex_function_results ex) = length (pr_functions processed)"
proof -
  let ?n = "length (pr_functions processed)" and ?es = "concat schedule"
  obtain recovery' where run: "execute_actions env processed streamed fresh cancelled_after schedule recovery = (recovery', Inr ex)"
    using assms(1) by (metis prod.collapse)
  obtain bound ex0 collected where b: "spawn_function_dispatches fresh (pr_functions processed) streamed = (bound, None)"
      "be_settle_check env = None"
      "collected = snd (collect_dispatches cancelled_after schedule (bs_task_orders bound, collected_default))"
      "co_failure collected = None"
      "settle_all (be_ops env) processed (sort_key cd_order (co_completed collected))
         (execution_default \<lparr> ex_interruptions := interruptions processed \<rparr>) = Inr ex0"
      "execute_handoffs env processed (answer_missing processed ex0) = (ex, None)"
    by (rule execute_actions_Inr [OF run])
  have orders: "orders = bs_task_orders bound" using assms(4) b(1) by simp
  have ids: "distinct (map task_id_of ?es)" using assms(5) by (simp add: joins_each_task_def)
  have pos: "mset (map (answer_order orders) ?es) = mset [0..<?n]"
    unfolding orders using joined_orders [OF spawned_orders [OF b(1) assms(2,3)]] assms(5) orders by blast
  have none: "cancelled_after = None" using assms(6) b(2) by simp
  have col: "snd (fold (record_task_result False) ?es (orders, collected_default)) = collected"
    using collect_without_failure [of schedule "(orders, collected_default)"] b(3,4) none orders by simp
  then have coll: "collected = collected_from orders ?es"
    using fold_record_parts [OF ids, of False orders collected_default] by (simp add: collected_from_def collected_default_def)
  have "\<forall>i task. Joined i task \<in> set ?es \<longrightarrow>
      tk_call_id task = tc_call_id (rf_call (pr_functions processed ! answer_order orders (Joined i task)))"
    using assms(5) answer_order_bound [OF assms(5)] unfolding joins_each_task_def list_all_iff by fastforce
  note sorted = sorted_completed [OF ids pos _ this, unfolded col, OF b(4)]
  let ?cs = "sort_key cd_order (co_completed collected)"
  have cs: "map (\<lambda>c. (cd_call_id c, Some (cd_dispatch c))) ?cs
      = map (\<lambda>order. (tc_call_id (rf_call (pr_functions processed ! order)), dispatch_of orders ?es order)) [0..<?n]"
    using sorted coll by simp
  have "list_all (\<lambda>d. d \<noteq> None) (map snd (map (\<lambda>c. (cd_call_id c, Some (cd_dispatch c))) ?cs))" by (simp add: list_all_iff)
  then have answered: "list_all (\<lambda>order. dispatch_of orders ?es order \<noteq> None) [0..<?n]" unfolding cs by (simp add: list_all_iff)
  have "map (\<lambda>c. answer_ids (cd_call_id c) (cd_dispatch c)) ?cs
      = map (\<lambda>p. answer_ids (fst p) (the (snd p))) (map (\<lambda>c. (cd_call_id c, Some (cd_dispatch c))) ?cs)" by simp
  then have out: "map (\<lambda>c. answer_ids (cd_call_id c) (cd_dispatch c)) ?cs
      = map (\<lambda>order. answer_ids (tc_call_id (rf_call (pr_functions processed ! order))) (the (dispatch_of orders ?es order))) [0..<?n]"
    unfolding cs by simp
  have len: "length ?cs = ?n" using arg_cong [OF cs, of length] by simp
  show ?thesis
    using answered settle_all_items [OF b(5)] execute_handoffs_items [OF b(6)] unfolding out len
    by (simp add: answer_missing_def execution_default_def execution_has_interruptions_def missing_output_def output_item_def
        run_item_new_def comp_def)
qed



section \<open>A batch of two calls\<close>

definition batch_call :: "string \<Rightarrow> nat json tool_run_function" where
  "batch_call c = \<lparr> rf_item_id = lit c, rf_call = tool_call_new (lit c) (lit ''a'') JNull, rf_tool = clash_tool 0 None Advertised \<rparr>"

definition batch_response :: "nat json processed_response" where
  "batch_response = \<lparr> pr_new_items = [], pr_handoffs = [], pr_functions = [batch_call ''c1'', batch_call ''c2''],
     pr_mcp_approval_requests = [], pr_tools_not_found = [\<lparr> nf_item_id = lit ''i3'', nf_call = tool_call_new (lit ''c3'') (lit ''z'') JNull \<rparr>] \<rparr>"

definition batch_streamed :: "nat json binding_state" where
  "batch_streamed = \<lparr> bs_started = [lit ''c2'' \<mapsto> \<lparr> sc_tool = tl_origin (rf_tool (batch_call ''c2'')), sc_arguments = JNull, sc_task_id = 1 \<rparr>],
     bs_task_orders = Map.empty, bs_spawned = [] \<rparr>"

definition batch_task :: "nat \<Rightarrow> nat \<Rightarrow> string \<Rightarrow> (nat json, unit, unit) joined" where
  "batch_task i order c = Joined i \<lparr> tk_order = order, tk_call_id = lit c, tk_tool = tl_origin (rf_tool (batch_call c)),
     tk_result = Inr (Observed \<lparr> ob_output = tool_call_output_new (lit c) JNull, ob_failure_code = None \<rparr>, \<lparr> gr_input = [], gr_output = [] \<rparr>),
     tk_committed_output = None \<rparr>"

definition sample_batch_env :: "(nat, unit) batch_env" where
  "sample_batch_env = \<lparr> be_max_function_tool_concurrency = None, be_ops = \<lparr> op_sha = (\<lambda>_. []), op_render = (\<lambda>_. []) \<rparr>, be_agent_id = [],
     be_agent_name = (\<lambda>a. a), be_entry_check = None, be_settle_check = None, be_invoke = (\<lambda>_ _. None), be_invoked_check = None,
     be_announce = (\<lambda>_. None), be_announced_check = None \<rparr>"

definition empty_recovery :: "(nat, unit, unit) turn_recovery" where
  "empty_recovery = \<lparr> rc_execution = execution_default, rc_nested_runs = [], rc_handoff_reached = False, rc_post_invoke_failure = False \<rparr>"

text \<open>The second call was streamed and finishes first.\<close>

abbreviation batch_schedule :: "(nat json, unit, unit) joined list list" where
  "batch_schedule \<equiv> [[batch_task 1 UNBOUND_ORDER ''c2''], [batch_task 10 0 ''c1'']]"

abbreviation batch_fresh :: "nat \<Rightarrow> nat" where
  "batch_fresh \<equiv> (+) 10"

lemma batch_bound:
  "bs_task_orders (fst (spawn_function_dispatches batch_fresh (pr_functions batch_response) batch_streamed)) = [10 \<mapsto> 0, 1 \<mapsto> 1]"
  "snd (spawn_function_dispatches batch_fresh (pr_functions batch_response) batch_streamed) = None"
  by (simp_all add: spawn_function_dispatches_def batch_response_def batch_streamed_def batch_call_def tool_call_new_def origin_eq_def
      lookup_eq_def str_simps Let_def)

lemma batch_joins: "joins_each_task [10 \<mapsto> 0, 1 \<mapsto> 1] (pr_functions batch_response) (concat batch_schedule)"
  by (auto simp: joins_each_task_def batch_response_def batch_task_def batch_call_def tool_call_new_def)

lemma batch_dispatches:
  "answer_ids c (the (dispatch_of [10 \<mapsto> 0, 1 \<mapsto> 1] [batch_task 1 UNBOUND_ORDER ''c2'', batch_task 10 0 ''c1''] 0)) = [output_item_id c]"
  "answer_ids c (the (dispatch_of [10 \<mapsto> 0, 1 \<mapsto> 1] [batch_task 1 UNBOUND_ORDER ''c2'', batch_task 10 0 ''c1''] (Suc 0))) = [output_item_id c]"
  by (simp_all add: dispatch_of_def batch_task_def bound_order_def UNBOUND_ORDER_def)

lemma batch_parts:
  "length (pr_functions batch_response) = Suc (Suc 0)" "pr_handoffs batch_response = []"
  "tc_call_id (rf_call (pr_functions batch_response ! 0)) = lit ''c1''"
  "tc_call_id (rf_call (pr_functions batch_response ! Suc 0)) = lit ''c2''"
  "map (\<lambda>m. output_item_id (tc_call_id (nf_call m))) (pr_tools_not_found batch_response) = [output_item_id (lit ''c3'')]"
  by (simp_all add: batch_response_def batch_call_def tool_call_new_def)

lemma no_transfers: "(if b then [] else transfer_ids []) = []" by simp

lemma upt_two: "[0..<Suc (Suc 0)] = [0, Suc 0]" by simp

lemma batch_streamed_apart: "streamed_apart batch_fresh 0 (bs_started batch_streamed)"
  by (auto simp: streamed_apart_def batch_streamed_def split: if_splits)



end
