(* ===== verification/Turn_Step.thy ===== *)
theory Turn_Step
  imports Turn_Batch
begin

text \<open>
  How one turn ends: the reasons of \<^verbatim>\<open>ra-core/src/finish.rs\<close>, the four states of \<^verbatim>\<open>ra-core/src/step.rs\<close>, the rule for the
  output channel of assistant messages (\<^verbatim>\<open>step/phase.rs\<close>), the gate every settled turn passes
  (\<^verbatim>\<open>step/single.rs\<close>), and the decision between the states with the records it files (\<^verbatim>\<open>ra-runtime/src/turn/resolve.rs\<close>).
  The output type of a run and the custom stop policy are arguments; an index of records by id is a map, iterated in the
  order of its keys as the source's \<^verbatim>\<open>BTreeMap\<close> is.
\<close>

section \<open>Why a run stopped\<close>

datatype finish_reason = FinishFinal | FinishToolStop | FinishMaxTurns | FinishBudgetExhausted | FinishCancelled
  | FinishErrorHandled | FinishGuardrailTripped

fun from_budget_kind :: "budget_kind \<Rightarrow> finish_reason" where
  "from_budget_kind MaxTurns = FinishMaxTurns"
| "from_budget_kind Tokens = FinishBudgetExhausted"
| "from_budget_kind Cost = FinishBudgetExhausted"
| "from_budget_kind WallClock = FinishBudgetExhausted"

fun finish_code :: "finish_reason \<Rightarrow> ustring" where
  "finish_code FinishFinal = lit ''final''"
| "finish_code FinishToolStop = lit ''tool_stop''"
| "finish_code FinishMaxTurns = lit ''max_turns''"
| "finish_code FinishBudgetExhausted = lit ''budget_exhausted''"
| "finish_code FinishCancelled = lit ''cancelled''"
| "finish_code FinishErrorHandled = lit ''error_handled''"
| "finish_code FinishGuardrailTripped = lit ''guardrail_tripped''"

fun finish_is_complete :: "finish_reason \<Rightarrow> bool" where
  "finish_is_complete FinishFinal = True"
| "finish_is_complete FinishToolStop = True"
| "finish_is_complete _ = False"

fun finish_is_resumable :: "finish_reason \<Rightarrow> bool" where
  "finish_is_resumable FinishMaxTurns = True"
| "finish_is_resumable FinishBudgetExhausted = True"
| "finish_is_resumable FinishCancelled = True"
| "finish_is_resumable _ = False"

section \<open>The four states\<close>

text \<open>Of the agent that takes over, its identity.\<close>

datatype 'v next_step = RunAgain | TransferTo ustring | FinalOutput finish_reason | Interruption "'v run_item list"

datatype record_list = SessionItems | PreItems | NewItems

datatype step_error =
  EmptyInterruption | NotApprovable ustring ustring | MissingResponse | MissingClassification | MissingNextStep
| OutputWithoutFinalStep | MissingSessionItems | RepeatedRecord record_list ustring
| OtherResponse | RewrittenResponse | ResponseNotStored ustring | ModelPayloadDiffers ustring
| CarriedNotStored ustring | PayloadDiffers ustring | CarriedTwice ustring | StoredTwice ustring | NestedNotStored ustring
| PendingApprovals | NestedApprovals | InterruptionNotStored ustring | NestedNotAsked ustring | PendingNotAsked ustring
| WrongChannel ustring "output_phase option" output_phase | NotAFinalStep | PendingLost ustring

fun step_code :: "'v next_step \<Rightarrow> ustring" where
  "step_code RunAgain = lit ''run_again''"
| "step_code (TransferTo _) = lit ''handoff''"
| "step_code (FinalOutput _) = lit ''final_output''"
| "step_code (Interruption _) = lit ''interruption''"

fun check_each :: "('a \<Rightarrow> 'e option) \<Rightarrow> 'a list \<Rightarrow> 'e + unit" where
  "check_each f [] = Inr ()"
| "check_each f (x # xs) = (case f x of Some e \<Rightarrow> Inl e | None \<Rightarrow> check_each f xs)"

definition approvable :: "'v run_item \<Rightarrow> step_error option" where
  "approvable item = (if is_interruption (ri_kind item) then None else Some (NotApprovable (ri_id item) (run_kind_label (ri_kind item))))"

definition next_step_interruption :: "'v run_item list \<Rightarrow> step_error + 'v next_step" where
  "next_step_interruption items =
     (if items = [] then Inl EmptyInterruption
      else result_bind (check_each approvable items) (\<lambda>_. Inr (Interruption items)))"

fun is_transfer :: "'v next_step \<Rightarrow> bool" where
  "is_transfer (TransferTo _) = True"
| "is_transfer _ = False"

section \<open>Output channels\<close>

definition is_assistant_message :: "'v run_item \<Rightarrow> bool" where
  "is_assistant_message item \<longleftrightarrow> (case ri_kind item of RMessage m \<Rightarrow> msg_role m = RoleAssistant | _ \<Rightarrow> False)"

definition rposition :: "('a \<Rightarrow> bool) \<Rightarrow> 'a list \<Rightarrow> nat option" where
  "rposition p xs = (case filter (\<lambda>i. p (xs ! i)) [0..<length xs] of [] \<Rightarrow> None | is \<Rightarrow> Some (last is))"

fun delivery_index :: "'v run_item list \<Rightarrow> 'v next_step \<Rightarrow> nat option" where
  "delivery_index items (FinalOutput reason) = (if reason = FinishToolStop then None else rposition is_assistant_message items)"
| "delivery_index items _ = None"

definition phase_at :: "nat \<Rightarrow> nat option \<Rightarrow> output_phase" where
  "phase_at index delivery = (if delivery = Some index then Final else Commentary)"

definition resolve_output_phases :: "'v run_item list \<Rightarrow> 'v next_step \<Rightarrow> 'v run_item list" where
  "resolve_output_phases items next_step =
     map (\<lambda>(index, item). with_output_phase (phase_at index (delivery_index items next_step)) item) (enumerate 0 items)"

section \<open>Equality of records\<close>

text \<open>Records are compared structurally, except that a lookup key compares by its routing identity.\<close>

definition approval_eq :: "'v tool_approval \<Rightarrow> 'v tool_approval \<Rightarrow> bool" where
  "approval_eq a b \<longleftrightarrow>
     a \<lparr> ta_lookup_key := None \<rparr> = b \<lparr> ta_lookup_key := None \<rparr>
     \<and> (case (ta_lookup_key a, ta_lookup_key b) of (None, None) \<Rightarrow> True | (Some k, Some l) \<Rightarrow> lookup_eq k l | _ \<Rightarrow> False)"

definition kind_eq :: "'v run_item_kind \<Rightarrow> 'v run_item_kind \<Rightarrow> bool" where
  "kind_eq a b \<longleftrightarrow> (case (a, b) of (RToolApproval x, RToolApproval y) \<Rightarrow> approval_eq x y | _ \<Rightarrow> a = b)"

definition item_eq :: "'v run_item \<Rightarrow> 'v run_item \<Rightarrow> bool" where
  "item_eq a b \<longleftrightarrow> kind_eq (ri_kind a) (ri_kind b) \<and> a \<lparr> ri_kind := ri_kind b \<rparr> = b"

section \<open>The gate of a settled turn\<close>

record ('v, 'g, 'o) single_step_result =
  st_original_input :: "'v model_input_item list"
  st_model_response :: "'v model_response"
  st_pre_step_items :: "'v run_item list"
  st_new_step_items :: "'v run_item list"
  st_session_step_items :: "'v run_item list"
  st_nested_history_owned_items :: "ustring list"
  st_tool_input_guardrail_results :: "'g list"
  st_tool_output_guardrail_results :: "'g list"
  st_function_results :: "'v function_tool_result list"
  st_processed_response :: "'v processed_response"
  st_next_step :: "'v next_step"
  st_final_output :: "'o option"

record ('v, 'g, 'o) step_builder =
  sb_original_input :: "'v model_input_item list"
  sb_model_response :: "'v model_response option"
  sb_pre_step_items :: "'v run_item list"
  sb_new_step_items :: "'v run_item list"
  sb_session_step_items :: "'v run_item list option"
  sb_nested_history_owned_items :: "ustring list"
  sb_tool_input_guardrail_results :: "'g list"
  sb_tool_output_guardrail_results :: "'g list"
  sb_function_results :: "'v function_tool_result list"
  sb_processed_response :: "'v processed_response option"
  sb_next_step :: "'v next_step option"
  sb_final_output :: "'o option"

definition nested_interruptions :: "'v function_tool_result list \<Rightarrow> 'v run_item list" where
  "nested_interruptions results = concat (map ft_interruptions (filter (\<lambda>r. ft_nested_run r \<noteq> None) results))"

definition generated_items :: "('v, 'g, 'o) single_step_result \<Rightarrow> 'v run_item list" where
  "generated_items self = st_pre_step_items self @ st_new_step_items self"

type_synonym 'v items_by_id = "ustring \<rightharpoonup> 'v run_item"

definition items_by_id :: "'v run_item list \<Rightarrow> 'v items_by_id" where
  "items_by_id items = map_of (map (\<lambda>item. (ri_id item, item)) items)"

definition index_unique_items :: "'v run_item list \<Rightarrow> record_list \<Rightarrow> step_error + 'v items_by_id" where
  "index_unique_items items list_name =
     (case first_repeat {} (map ri_id items) of
        Some i \<Rightarrow> Inl (RepeatedRecord list_name i)
      | None \<Rightarrow> Inr (items_by_id items))"

text \<open>What classification may have changed of a recorded item: the display metadata of a call.\<close>

definition same_but_display :: "'v run_item \<Rightarrow> 'v run_item \<Rightarrow> bool" where
  "same_but_display classified original \<longleftrightarrow>
     item_eq classified original
     \<or> (case ri_kind original of RToolCall _ \<Rightarrow> True | RMcpCall _ \<Rightarrow> True | _ \<Rightarrow> False)
       \<and> item_eq (with_tool_call_metadata None None classified) (with_tool_call_metadata None None original)"

definition check_classifies_this_response :: "'v processed_response \<Rightarrow> 'v model_response \<Rightarrow> step_error + unit" where
  "check_classifies_this_response processed_response model_response =
     (if length (pr_new_items processed_response) = length (mr_output model_response)
         \<and> list_all (\<lambda>(classified, original). same_but_display classified original)
             (zip (pr_new_items processed_response) (mr_output model_response))
      then Inr ()
      else if map ri_id (pr_new_items processed_response) = map ri_id (mr_output model_response)
      then Inl RewrittenResponse else Inl OtherResponse)"

definition model_payload_matches :: "'v run_item_kind \<Rightarrow> 'v run_item_kind \<Rightarrow> bool" where
  "model_payload_matches expected stored \<longleftrightarrow>
     (case (expected, stored) of
        (RMessage e, RMessage s) \<Rightarrow> if msg_role e = RoleAssistant then matches_ignoring_phase s e else expected = stored
      | _ \<Rightarrow> kind_eq expected stored)"

definition check_response_reaches_the_session :: "'v model_response \<Rightarrow> 'v items_by_id \<Rightarrow> step_error + unit" where
  "check_response_reaches_the_session model_response session_items =
     check_each (\<lambda>item.
       case session_items (ri_id item) of
         None \<Rightarrow> Some (ResponseNotStored (ri_id item))
       | Some stored \<Rightarrow> if model_payload_matches (ri_kind item) (ri_kind stored) then None else Some (ModelPayloadDiffers (ri_id item)))
       (mr_output model_response)"

definition check_carried_items :: "'v run_item list \<Rightarrow> 'v items_by_id \<Rightarrow> 'v items_by_id \<Rightarrow> step_error + unit" where
  "check_carried_items new_step_items pre_step_items session_items =
     check_each (\<lambda>item.
       case session_items (ri_id item) of
         None \<Rightarrow> Some (CarriedNotStored (ri_id item))
       | Some stored \<Rightarrow>
           if \<not> kind_eq (ri_kind item) (ri_kind stored) then Some (PayloadDiffers (ri_id item))
           else if pre_step_items (ri_id item) \<noteq> None then Some (CarriedTwice (ri_id item)) else None)
       (sort_key ri_id new_step_items)"

definition check_session_items_are_new :: "'v run_item list \<Rightarrow> 'v items_by_id \<Rightarrow> step_error + unit" where
  "check_session_items_are_new session_step_items pre_step_items =
     check_each (\<lambda>i. if pre_step_items i \<noteq> None then Some (StoredTwice i) else None) (sort (map ri_id session_step_items))"

definition check_nested_ownership :: "ustring list \<Rightarrow> 'v items_by_id \<Rightarrow> step_error + unit" where
  "check_nested_ownership nested_history_owned_items session_items =
     check_each (\<lambda>i. if session_items i = None then Some (NestedNotStored i) else None) nested_history_owned_items"

definition check_interruption ::
  "'v run_item list \<Rightarrow> 'v processed_response \<Rightarrow> 'v items_by_id \<Rightarrow> 'v function_tool_result list \<Rightarrow> step_error + unit" where
  "check_interruption items processed_response session_items function_results =
     (if items = [] then Inl EmptyInterruption
      else result_bind (check_each (\<lambda>item.
             case approvable item of
               Some e \<Rightarrow> Some e
             | None \<Rightarrow>
                 if list_ex (\<lambda>nested. item_eq nested item) (nested_interruptions function_results) then None
                 else case session_items (ri_id item) of
                     None \<Rightarrow> Some (InterruptionNotStored (ri_id item))
                   | Some stored \<Rightarrow> if kind_eq (ri_kind item) (ri_kind stored) then None else Some (PayloadDiffers (ri_id item))) items) (\<lambda>_.
           result_bind (check_each (\<lambda>pending. if list_ex (item_eq pending) items then None else Some (NestedNotAsked (ri_id pending)))
             (nested_interruptions function_results)) (\<lambda>_.
           check_each (\<lambda>pending. if ri_id pending \<in> set (map ri_id items) then None else Some (PendingNotAsked (ri_id pending)))
             (interruptions processed_response))))"

fun check_next_step ::
  "'v next_step \<Rightarrow> 'v processed_response \<Rightarrow> 'v items_by_id \<Rightarrow> 'v function_tool_result list \<Rightarrow> step_error + unit" where
  "check_next_step (Interruption items) processed_response session_items function_results =
     check_interruption items processed_response session_items function_results"
| "check_next_step (FinalOutput _) processed_response session_items function_results = Inr ()"
| "check_next_step _ processed_response session_items function_results =
     (if has_interruptions processed_response then Inl PendingApprovals
      else if nested_interruptions function_results \<noteq> [] then Inl NestedApprovals else Inr ())"

definition item_phase :: "'v run_item \<Rightarrow> output_phase option" where
  "item_phase item = (case ri_kind item of RMessage m \<Rightarrow> msg_phase m | _ \<Rightarrow> None)"

definition check_resolved_output_phases :: "'v next_step \<Rightarrow> 'v run_item list \<Rightarrow> step_error + unit" where
  "check_resolved_output_phases next_step session_items =
     (let delivery = delivery_index session_items next_step in
      check_each (\<lambda>(index, item).
        if is_assistant_message item \<and> item_phase item \<noteq> Some (phase_at index delivery)
        then Some (WrongChannel (ri_id item) (item_phase item) (phase_at index delivery)) else None)
        (enumerate 0 session_items))"

definition required :: "'e \<Rightarrow> 'a option \<Rightarrow> 'e + 'a" where
  "required e v = (case v of Some a \<Rightarrow> Inr a | None \<Rightarrow> Inl e)"

fun is_final_step :: "'v next_step \<Rightarrow> bool" where
  "is_final_step (FinalOutput _) = True"
| "is_final_step _ = False"

text \<open>The checks that do not apply to a transfer, whose filter may rewrite what is shown and stored.\<close>

definition check_lists ::
  "('v, 'g, 'o) step_builder \<Rightarrow> 'v model_response \<Rightarrow> 'v run_item list \<Rightarrow> 'v items_by_id \<Rightarrow> step_error + unit" where
  "check_lists self model_response session_step_items session_items =
     result_bind (check_response_reaches_the_session model_response session_items) (\<lambda>_.
     result_bind (index_unique_items (sb_pre_step_items self) PreItems) (\<lambda>pre_items.
     result_bind (index_unique_items (sb_new_step_items self) NewItems) (\<lambda>new_items.
     result_bind (check_carried_items (sb_new_step_items self) pre_items session_items) (\<lambda>_.
     check_session_items_are_new session_step_items pre_items))))"

definition step_build :: "('v, 'g, 'o) step_builder \<Rightarrow> step_error + ('v, 'g, 'o) single_step_result" where
  "step_build self =
     result_bind (required MissingResponse (sb_model_response self)) (\<lambda>model_response.
     result_bind (required MissingClassification (sb_processed_response self)) (\<lambda>processed_response.
     result_bind (required MissingNextStep (sb_next_step self)) (\<lambda>next_step.
     if sb_final_output self \<noteq> None \<and> \<not> is_final_step next_step then Inl OutputWithoutFinalStep
     else result_bind (required MissingSessionItems (sb_session_step_items self)) (\<lambda>session_step_items.
     result_bind (index_unique_items session_step_items SessionItems) (\<lambda>session_items.
     result_bind (check_classifies_this_response processed_response model_response) (\<lambda>_.
     result_bind (if is_transfer next_step then Inr () else check_lists self model_response session_step_items session_items) (\<lambda>_.
     result_bind (check_nested_ownership (sb_nested_history_owned_items self) session_items) (\<lambda>_.
     result_bind (check_next_step next_step processed_response session_items (sb_function_results self)) (\<lambda>_.
     result_bind (check_resolved_output_phases next_step session_step_items) (\<lambda>_.
     Inr \<lparr> st_original_input = sb_original_input self, st_model_response = model_response, st_pre_step_items = sb_pre_step_items self,
           st_new_step_items = sb_new_step_items self, st_session_step_items = session_step_items,
           st_nested_history_owned_items = sb_nested_history_owned_items self,
           st_tool_input_guardrail_results = sb_tool_input_guardrail_results self,
           st_tool_output_guardrail_results = sb_tool_output_guardrail_results self, st_function_results = sb_function_results self,
           st_processed_response = processed_response, st_next_step = next_step, st_final_output = sb_final_output self \<rparr>))))))))))"

definition continue_empty_output :: "('v, 'g, 'o) single_step_result \<Rightarrow> step_error + ('v, 'g, 'o) single_step_result" where
  "continue_empty_output self =
     (if st_next_step self \<noteq> FinalOutput FinishFinal then Inl NotAFinalStep
      else Inr (self \<lparr> st_next_step := RunAgain, st_final_output := None,
                       st_new_step_items := resolve_output_phases (st_new_step_items self) RunAgain,
                       st_session_step_items := resolve_output_phases (st_session_step_items self) RunAgain \<rparr>))"

section \<open>Deciding how the turn ends\<close>

datatype ('v, 'e, 'o) tool_use_behavior =
  RunLlmAgain | StopOnFirstTool | StopAtTools "ustring set"
| CustomBehavior "('v tool_origin \<times> 'v tool_call_output) list \<Rightarrow> 'e + 'o option"

datatype 'e resolve_error = PolicyFailed 'e | StepRejected step_error

definition origin_name :: "'v tool_origin \<Rightarrow> ustring" where
  "origin_name self = lk_name (to_lookup_key self)"

text \<open>\<open>promote\<close> reads a tool's output as the output of the run. A custom policy is run under the turn's cancellation,
  which is asked again once the policy has answered.\<close>

record ('v, 'e, 'o) resolve_env =
  re_promote :: "'v tool_call_output \<Rightarrow> 'e + 'o"
  re_policy_check :: "'e option"

definition promoted :: "('v, 'e, 'o) resolve_env \<Rightarrow> ('v tool_origin \<times> 'v tool_call_output) option \<Rightarrow> 'e resolve_error + 'o option" where
  "promoted env result =
     (case result of
        None \<Rightarrow> Inr None
      | Some (_, output) \<Rightarrow> (case re_promote env output of Inl e \<Rightarrow> Inl (PolicyFailed e) | Inr v \<Rightarrow> Inr (Some v)))"

fun check_for_final_output_from_tools ::
  "('v, 'e, 'o) resolve_env \<Rightarrow> ('v, 'e, 'o) tool_use_behavior \<Rightarrow> ('v tool_origin \<times> 'v tool_call_output) list
   \<Rightarrow> 'e resolve_error + 'o option" where
  "check_for_final_output_from_tools env RunLlmAgain tool_results = Inr None"
| "check_for_final_output_from_tools env StopOnFirstTool tool_results =
     promoted env (if tool_results = [] then None else Some (hd tool_results))"
| "check_for_final_output_from_tools env (StopAtTools names) tool_results =
     promoted env (find (\<lambda>(tool, _). origin_name tool \<in> names \<or> to_qualified_name tool \<in> names) tool_results)"
| "check_for_final_output_from_tools env (CustomBehavior handler) tool_results =
     (if tool_results = [] then Inr None
      else case handler tool_results of
          Inl e \<Rightarrow> Inl (PolicyFailed e)
        | Inr selection \<Rightarrow> (case re_policy_check env of Some e \<Rightarrow> Inl (PolicyFailed e) | None \<Rightarrow> Inr selection))"

definition has_message :: "'v processed_response \<Rightarrow> bool" where
  "has_message processed \<longleftrightarrow> list_ex (\<lambda>item. case ri_kind item of RMessage _ \<Rightarrow> True | _ \<Rightarrow> False) (pr_new_items processed)"

definition resolve_next_step_with_output ::
  "('n json, 'e, 'o) resolve_env \<Rightarrow> ('n json, 'e, 'o) tool_use_behavior \<Rightarrow> 'n json processed_response \<Rightarrow> ('n json, 'g) turn_execution
   \<Rightarrow> 'e resolve_error + 'n json next_step \<times> 'o option" where
  "resolve_next_step_with_output env behavior processed ex =
     (if execution_has_interruptions ex then
        (case next_step_interruption (ex_interruptions ex @ ex_nested_interruptions ex) of
           Inl e \<Rightarrow> Inl (StepRejected e)
         | Inr step \<Rightarrow> Inr (step, None))
      else case pr_handoffs processed of
          handoff # _ \<Rightarrow> Inr (TransferTo (rh_target handoff), None)
        | [] \<Rightarrow>
            result_bind (check_for_final_output_from_tools env behavior (ex_tool_results ex)) (\<lambda>output.
              case output of
                Some v \<Rightarrow> Inr (FinalOutput FinishToolStop, Some v)
              | None \<Rightarrow>
                  Inr (if has_tools_or_approvals_to_run processed then RunAgain
                       else if \<not> has_message processed \<and> tools_used processed \<noteq> [] then RunAgain
                       else FinalOutput FinishFinal, None)))"

definition resolve_next_step ::
  "('n json, 'e, 'o) resolve_env \<Rightarrow> ('n json, 'e, 'o) tool_use_behavior \<Rightarrow> 'n json processed_response \<Rightarrow> ('n json, 'g) turn_execution
   \<Rightarrow> 'e resolve_error + 'n json next_step" where
  "resolve_next_step env behavior processed ex =
     result_bind (resolve_next_step_with_output env behavior processed ex) (\<lambda>(step, _). Inr step)"

section \<open>Filing the records\<close>

record public_agent =
  pa_id :: ustring
  pa_name :: ustring

definition attribute :: "public_agent \<Rightarrow> 'v run_item \<Rightarrow> 'v run_item" where
  "attribute public item =
     (if ri_provenance item \<noteq> None then item
      else with_provenance \<lparr> ip_schema_version = 1, ip_agent_id = pa_id public, ip_agent_name = Some (pa_name public),
                             ip_unknown = Map.empty \<rparr> item)"

definition step_items ::
  "'v processed_response \<Rightarrow> ('v, 'g) turn_execution \<Rightarrow> public_agent \<Rightarrow> 'v next_step \<Rightarrow> 'v run_item list" where
  "step_items processed ex public next_step =
     resolve_output_phases (map (attribute public) (pr_new_items processed @ ex_new_items ex)) next_step"

definition rebind_item :: "'v run_item list \<Rightarrow> 'v run_item list \<Rightarrow> 'v run_item \<Rightarrow> step_error + 'v run_item" where
  "rebind_item items nested item =
     (if list_ex (\<lambda>n. item_eq n item) nested then Inr item
      else case map_of (rev (map (\<lambda>item. (ri_id item, item)) items)) (ri_id item) of
          Some stored \<Rightarrow> Inr stored
        | None \<Rightarrow> Inl (PendingLost (ri_id item)))"

fun rebind_interruption :: "'v next_step \<Rightarrow> 'v run_item list \<Rightarrow> 'v run_item list \<Rightarrow> step_error + 'v next_step" where
  "rebind_interruption (Interruption pending) items nested =
     result_bind (collect_results (map (rebind_item items nested) pending)) next_step_interruption"
| "rebind_interruption step items nested = Inr step"


section \<open>What the gate guarantees\<close>

lemma check_each_Inr [simp]: "check_each f xs = Inr u \<longleftrightarrow> (\<forall>x \<in> set xs. f x = None)"
  by (induction xs) (auto split: option.splits)

lemma first_repeat_distinct: "first_repeat {} xs = None \<longleftrightarrow> distinct xs"
  using first_repeat_None [of "{}" xs] by auto

lemma index_unique_items_Inr:
  "index_unique_items items list_name = Inr m \<longleftrightarrow> distinct (map ri_id items) \<and> m = items_by_id items"
  by (auto simp: index_unique_items_def first_repeat_distinct [symmetric] split: option.splits)

lemma items_by_id_Some: "items_by_id items i = Some item \<Longrightarrow> item \<in> set items \<and> ri_id item = i"
  by (auto simp: items_by_id_def dest!: map_of_SomeD)

lemma items_by_id_None: "items_by_id items i = None \<longleftrightarrow> i \<notin> ri_id ` set items"
  by (auto simp: items_by_id_def map_of_eq_None_iff image_image)

lemma items_by_id_unique: "distinct (map ri_id items) \<Longrightarrow> item \<in> set items \<Longrightarrow> items_by_id items (ri_id item) = Some item"
  unfolding items_by_id_def by (rule map_of_is_SomeI) (auto simp: comp_def)

lemma required_Inr [simp]: "required e v = Inr a \<longleftrightarrow> v = Some a"
  by (cases v) (auto simp: required_def)

lemma filter_nths: "filter p xs = map ((!) xs) (filter (\<lambda>i. p (xs ! i)) [0..<length xs])"
  by (subst (1) map_nth [symmetric]) (simp only: filter_map comp_def)

lemma rposition_Some:
  assumes "rposition p xs = Some i"
  shows "i < length xs \<and> p (xs ! i) \<and> filter p xs \<noteq> [] \<and> xs ! i = last (filter p xs)"
proof -
  let ?is = "filter (\<lambda>i. p (xs ! i)) [0..<length xs]"
  have i: "?is \<noteq> []" "i = last ?is" using assms by (auto simp: rposition_def split: list.splits)
  have "i \<in> set ?is" unfolding i(2) using i(1) by (rule last_in_set)
  then have m: "i < length xs" "p (xs ! i)" by auto
  have f: "filter p xs = map ((!) xs) ?is" by (rule filter_nths)
  have l: "last (filter p xs) = xs ! i" unfolding f i(2) using i(1) by (rule last_map)
  have ne: "filter p xs \<noteq> []" unfolding f using i(1) by (simp only: list.map_disc_iff not_False_eq_True)
  from m l [symmetric] ne show ?thesis by (intro conjI)
qed

lemma rposition_None: "rposition p xs = None \<longleftrightarrow> filter p xs = []"
  by (auto simp: rposition_def filter_nths [of p xs] split: list.splits)

lemma filter_upt_single: "d < n \<Longrightarrow> filter (\<lambda>i. i = d) [0..<n] = [d]"
  by (induction n) (auto simp: less_Suc_eq filter_empty_conv)

text \<open>The delivery of a turn: the last assistant message when the model concluded, nothing otherwise.\<close>

definition deliveries :: "'v run_item list \<Rightarrow> 'v next_step \<Rightarrow> 'v run_item list" where
  "deliveries items step =
     (if is_final_step step \<and> step \<noteq> FinalOutput FinishToolStop then
        (case filter is_assistant_message items of [] \<Rightarrow> [] | ms \<Rightarrow> [last ms])
      else [])"

lemma delivery_index_eq:
  "delivery_index items step = (if is_final_step step \<and> step \<noteq> FinalOutput FinishToolStop then rposition is_assistant_message items else None)"
  by (cases step) auto

lemma final_channel:
  assumes "\<forall>i < length items. is_assistant_message (items ! i) \<longrightarrow> item_phase (items ! i) = Some (phase_at i (delivery_index items step))"
  shows "filter (\<lambda>item. is_assistant_message item \<and> item_phase item = Some Final) items = deliveries items step"
proof -
  let ?d = "delivery_index items step" and ?p = "\<lambda>item. is_assistant_message item \<and> item_phase item = Some Final"
  have "filter (\<lambda>i. ?p (items ! i)) [0..<length items] = filter (\<lambda>i. is_assistant_message (items ! i) \<and> ?d = Some i) [0..<length items]"
    using assms by (intro filter_cong refl) (auto simp: phase_at_def split: if_splits)
  then have f: "filter ?p items = map ((!) items) (filter (\<lambda>i. is_assistant_message (items ! i) \<and> ?d = Some i) [0..<length items])"
    by (subst filter_nths) (rule arg_cong)
  show ?thesis
  proof (cases ?d)
    case None
    then show ?thesis using f by (auto simp: deliveries_def delivery_index_eq rposition_None split: if_splits)
  next
    case (Some d)
    then have step: "is_final_step step \<and> step \<noteq> FinalOutput FinishToolStop" "rposition is_assistant_message items = Some d"
      by (auto simp: delivery_index_eq split: if_splits)
    note r = rposition_Some [OF step(2)]
    have "filter (\<lambda>i. is_assistant_message (items ! i) \<and> ?d = Some i) [0..<length items] = filter (\<lambda>i. i = d) [0..<length items]"
      using r Some by (intro filter_cong refl) auto
    also have "\<dots> = [d]" using r by (simp add: filter_upt_single)
    finally show ?thesis using f r step(1) by (auto simp: deliveries_def split: list.split)
  qed
qed


text \<open>Whether the answers a step waits for are asked: none is left behind by a step that continues, and an
  interruption asks each of them, its own and those of nested runs, and nothing that cannot be approved.\<close>

definition questions_asked :: "'v next_step \<Rightarrow> 'v processed_response \<Rightarrow> 'v function_tool_result list \<Rightarrow> bool" where
  "questions_asked step processed results \<longleftrightarrow>
     (case step of
        Interruption items \<Rightarrow>
          items \<noteq> [] \<and> list_all (\<lambda>item. is_interruption (ri_kind item)) items
          \<and> list_all (\<lambda>pending. list_ex (item_eq pending) items) (nested_interruptions results)
          \<and> list_all (\<lambda>pending. ri_id pending \<in> set (map ri_id items)) (interruptions processed)
      | FinalOutput _ \<Rightarrow> True
      | _ \<Rightarrow> interruptions processed = [] \<and> nested_interruptions results = [])"

definition stored_in :: "'v run_item list \<Rightarrow> 'v run_item \<Rightarrow> bool" where
  "stored_in items item \<longleftrightarrow> list_ex (\<lambda>stored. ri_id stored = ri_id item \<and> model_payload_matches (ri_kind item) (ri_kind stored)) items"

lemma approvable_None: "approvable item = None \<longleftrightarrow> is_interruption (ri_kind item)"
  by (simp add: approvable_def)

lemma check_next_step_asked:
  assumes "check_next_step step processed m results = Inr u"
  shows "questions_asked step processed results"
proof (cases step)
  case (Interruption items)
  have "is_interruption (ri_kind item)" if "item \<in> set items" for item
    using assms Interruption that
    by (force simp: check_interruption_def result_bind_Inr_iff approvable_None split: if_splits option.splits)
  then show ?thesis using assms Interruption
    by (auto simp: questions_asked_def check_interruption_def result_bind_Inr_iff list_all_iff split: if_splits)
qed (use assms in \<open>auto simp: questions_asked_def has_interruptions_def split: if_splits\<close>)

lemma check_response_stored:
  assumes "check_response_reaches_the_session response (items_by_id items) = Inr u"
  shows "list_all (stored_in items) (mr_output response)"
  unfolding list_all_iff
proof
  fix item assume "item \<in> set (mr_output response)"
  then obtain stored where "items_by_id items (ri_id item) = Some stored" "model_payload_matches (ri_kind item) (ri_kind stored)"
    using assms by (auto simp: check_response_reaches_the_session_def split: option.splits if_splits dest!: bspec)
  then show "stored_in items item" using items_by_id_Some [of items "ri_id item"] by (auto simp: stored_in_def list_ex_iff)
qed

lemma check_lists_Inr:
  assumes "check_lists b response session (items_by_id session) = Inr u"
  shows "list_all (stored_in session) (mr_output response)
    \<and> set (map ri_id (sb_new_step_items b)) \<subseteq> set (map ri_id session)
    \<and> set (map ri_id (sb_pre_step_items b)) \<inter> set (map ri_id session) = {}
    \<and> distinct (map ri_id (sb_pre_step_items b @ sb_new_step_items b))"
proof -
  have a: "check_response_reaches_the_session response (items_by_id session) = Inr ()"
    "distinct (map ri_id (sb_pre_step_items b))" "distinct (map ri_id (sb_new_step_items b))"
    "check_carried_items (sb_new_step_items b) (items_by_id (sb_pre_step_items b)) (items_by_id session) = Inr ()"
    "check_session_items_are_new session (items_by_id (sb_pre_step_items b)) = Inr u"
    using assms by (auto simp: check_lists_def result_bind_Inr_iff index_unique_items_Inr)
  have c: "items_by_id session (ri_id item) \<noteq> None" if "item \<in> set (sb_new_step_items b)" for item
    using a(4) that by (auto simp: check_carried_items_def split: option.splits)
  have new: "set (map ri_id (sb_new_step_items b)) \<subseteq> set (map ri_id session)" using c by (auto simp: items_by_id_None)
  have pre: "set (map ri_id (sb_pre_step_items b)) \<inter> set (map ri_id session) = {}"
    using a(5) by (auto simp: check_session_items_are_new_def items_by_id_None disjoint_iff image_iff split: if_splits) metis
  show ?thesis using check_response_stored [OF a(1)] new pre a(2,3) by auto
qed

lemma step_build_Inr:
  assumes "step_build b = Inr r"
  shows "distinct (map ri_id (st_session_step_items r))"
    and "is_transfer (st_next_step r)
      \<or> check_lists b (st_model_response r) (st_session_step_items r) (items_by_id (st_session_step_items r)) = Inr ()"
    and "check_next_step (st_next_step r) (st_processed_response r) (items_by_id (st_session_step_items r)) (st_function_results r) = Inr ()"
    and "check_resolved_output_phases (st_next_step r) (st_session_step_items r) = Inr ()"
    and "st_pre_step_items r = sb_pre_step_items b" "st_new_step_items r = sb_new_step_items b"
    and "st_final_output r = None \<or> is_final_step (st_next_step r)"
    and "check_classifies_this_response (st_processed_response r) (st_model_response r) = Inr ()"
  using assms
  by (auto simp: step_build_def result_bind_Inr_iff index_unique_items_Inr split: if_splits)


section \<open>A turn that ends with an answer\<close>

text \<open>The model answers twice; the second message is the delivery.\<close>

definition answer_item :: "string \<Rightarrow> nat json run_item" where
  "answer_item i = run_item_new (lit i) (RMessage (message_new RoleAssistant []))"

abbreviation answer_records :: "nat json run_item list" where
  "answer_records \<equiv> [with_output_phase Commentary (answer_item ''m1''), with_output_phase Final (answer_item ''m2'')]"

definition answer_builder :: "(nat json, unit, unit) step_builder" where
  "answer_builder =
     \<lparr> sb_original_input = [], sb_model_response = Some (model_response_new [answer_item ''m1'', answer_item ''m2'']), sb_pre_step_items = [],
       sb_new_step_items = answer_records, sb_session_step_items = Some answer_records, sb_nested_history_owned_items = [],
       sb_tool_input_guardrail_results = [], sb_tool_output_guardrail_results = [], sb_function_results = [],
       sb_processed_response = Some (response_builder_new \<lparr> pr_new_items := [answer_item ''m1'', answer_item ''m2''] \<rparr>),
       sb_next_step = Some (FinalOutput FinishFinal), sb_final_output = Some () \<rparr>"

lemma answer_item_parts:
  "ri_id (answer_item i) = lit i" "is_assistant_message (answer_item i)"
  "ri_id (with_output_phase phase (answer_item i)) = lit i" "is_assistant_message (with_output_phase phase (answer_item i))"
  "item_phase (with_output_phase phase (answer_item i)) = Some phase"
  "same_but_display (answer_item i) (answer_item i)" "kind_eq (ri_kind (with_output_phase phase (answer_item i))) (ri_kind (with_output_phase phase (answer_item i)))"
  "model_payload_matches (ri_kind (answer_item i)) (ri_kind (with_output_phase phase (answer_item i)))"
  by (simp_all add: answer_item_def run_item_new_def message_new_def is_assistant_message_def with_output_phase_def item_phase_def set_phase_def
      same_but_display_def item_eq_def kind_eq_def model_payload_matches_def matches_ignoring_phase_def)

lemma check_each_pass: "\<forall>x \<in> set xs. f x = None \<Longrightarrow> check_each f xs = Inr ()"
  by simp

lemma answer_checks:
  "index_unique_items answer_records l = Inr (items_by_id answer_records)" "index_unique_items [] l = Inr Map.empty"
  "items_by_id answer_records (lit ''m1'') = Some (with_output_phase Commentary (answer_item ''m1''))"
  "items_by_id answer_records (lit ''m2'') = Some (with_output_phase Final (answer_item ''m2''))"
  "rposition is_assistant_message answer_records = Some (Suc 0)"
  by (simp_all add: index_unique_items_def items_by_id_def answer_item_parts rposition_def upt_conv_Cons str_simps)


end
