(* ===== verification/Turn_Handoff.thy ===== *)
theory Turn_Handoff
  imports Turn_Step "HOL-Library.Sublist"
begin

text \<open>
  What a transfer hands over to the next agent, \<^verbatim>\<open>ra-core/src/agent/handoff.rs\<close>, and what a turn stores when a host's
  filter rewrote it, \<^verbatim>\<open>ra-runtime/src/turn.rs\<close> (\<^verbatim>\<open>filtered_turn_records\<close>). Shown: the window of a projection, the
  pairing of what is handed over, and that a filter leaves no half of an exchange behind.
\<close>

section \<open>What a transfer hands over\<close>

record 'v handoff_input_data =
  hd_input_history :: "'v model_input_item list"
  hd_pre_handoff_items :: "'v run_item list"
  hd_new_items :: "'v run_item list"
  hd_input_items :: "'v run_item list option"

definition handoff_input_data_new ::
  "'v model_input_item list \<Rightarrow> 'v run_item list \<Rightarrow> 'v run_item list \<Rightarrow> 'v handoff_input_data" where
  "handoff_input_data_new input_history pre_handoff_items new_items =
     \<lparr> hd_input_history = input_history, hd_pre_handoff_items = pre_handoff_items, hd_new_items = new_items, hd_input_items = None \<rparr>"

definition into_parts :: "'v handoff_input_data \<Rightarrow> 'v model_input_item list \<times> 'v run_item list \<times> 'v run_item list" where
  "into_parts self =
     (hd_input_history self, hd_pre_handoff_items self, case hd_input_items self of Some items \<Rightarrow> items | None \<Rightarrow> hd_new_items self)"

text \<open>The scan from the most recent item, with what is left of the window.\<close>

fun take_recent :: "('a \<Rightarrow> bool) \<Rightarrow> nat \<Rightarrow> 'a list \<Rightarrow> 'a list \<times> nat" where
  "take_recent always remaining [] = ([], remaining)"
| "take_recent always remaining (item # items) =
     (if always item then map_prod ((#) item) id (take_recent always remaining items)
      else if remaining = 0 then take_recent always remaining items
      else map_prod ((#) item) id (take_recent always (remaining - 1) items))"

definition take_last_by :: "'a list \<Rightarrow> nat \<Rightarrow> ('a \<Rightarrow> bool) \<Rightarrow> 'a list \<times> nat" where
  "take_last_by items remaining always = map_prod rev id (take_recent always remaining (rev items))"

datatype 's transfer_error = SummaryNotAvailable | FilterWithServerConversation | FilterFailed 's | NoBoundHandoff

fun project :: "'v handoff_input_data \<Rightarrow> history_projection \<Rightarrow> ustring \<Rightarrow> 's transfer_error + 'v handoff_input_data" where
  "project self ProjectFull transfer = Inr self"
| "project self ProjectNone transfer =
     Inr \<lparr> hd_input_history = [], hd_pre_handoff_items = [],
           hd_new_items = filter (\<lambda>item. run_item_call_id item = Some transfer) (hd_new_items self), hd_input_items = None \<rparr>"
| "project self (ProjectLastItems keep) transfer =
     (let (new_items, remaining) = take_last_by (hd_new_items self) keep (\<lambda>item. run_item_call_id item = Some transfer);
          (pre_handoff_items, remaining) = take_last_by (hd_pre_handoff_items self) remaining (\<lambda>_. False);
          start = length (hd_input_history self) - remaining
      in Inr \<lparr> hd_input_history = drop start (hd_input_history self), hd_pre_handoff_items = pre_handoff_items,
               hd_new_items = new_items, hd_input_items = None \<rparr>)"
| "project self ProjectSummary transfer = Inl SummaryNotAvailable"

fun pairing_id :: "'v model_input_item \<Rightarrow> (bool \<times> ustring) option" where
  "pairing_id (ToolCall call) = Some (True, tc_call_id call)"
| "pairing_id (HandoffCall call) = Some (True, hc_call_id call)"
| "pairing_id (McpApprovalRequest request) = Some (True, ar_request_id request)"
| "pairing_id (ToolCallOutput output) = Some (False, tco_call_id output)"
| "pairing_id (HandoffOutput output) = Some (False, ho_call_id output)"
| "pairing_id (McpApprovalResponse response) = Some (False, as_request_id response)"
| "pairing_id _ = None"

definition paired_ids :: "bool \<Rightarrow> 'v model_input_item list \<Rightarrow> ustring list" where
  "paired_ids asks items =
     List.map_filter (\<lambda>item. case pairing_id item of Some (side, i) \<Rightarrow> if side = asks then Some i else None | None \<Rightarrow> None) items"

definition repair_pairing :: "'v model_input_item list \<Rightarrow> 'v model_input_item list" where
  "repair_pairing items =
     (let asked = set (paired_ids True items); answered = set (paired_ids False items)
      in filter (\<lambda>item. case pairing_id item of
           Some (asks, i) \<Rightarrow> if asks then i \<in> answered else i \<in> asked | None \<Rightarrow> True) items)"

definition into_model_input :: "'v handoff_input_data \<Rightarrow> 'v model_input_item list" where
  "into_model_input self =
     repair_pairing (hd_input_history self
       @ List.map_filter to_model_input (hd_pre_handoff_items self
           @ (case hd_input_items self of Some items \<Rightarrow> items | None \<Rightarrow> hd_new_items self)))"

section \<open>What a turn stores when a filter ran\<close>

fun call_side :: "'v run_item_kind \<Rightarrow> (ustring \<times> bool) option" where
  "call_side (RToolCall call) = Some (tc_call_id call, False)"
| "call_side (RHandoffCall call) = Some (hc_call_id call, False)"
| "call_side (RToolCallOutput output) = Some (tco_call_id output, True)"
| "call_side (RHandoffOutput output) = Some (ho_call_id output, True)"
| "call_side _ = None"

definition governed :: "nat \<Rightarrow> ustring list \<Rightarrow> nat \<times> 'v run_item \<Rightarrow> bool" where
  "governed locked handed = (\<lambda>(index, item). index \<ge> locked \<and> is_model_input item \<and> ri_id item \<in> set handed)"

text \<open>Keeping the records whose id is not taken yet.\<close>

fun keep_present :: "ustring set \<Rightarrow> 'v run_item list \<Rightarrow> 'v run_item list" where
  "keep_present present [] = []"
| "keep_present present (item # items) =
     (if ri_id item \<in> present then keep_present present items
      else item # keep_present (insert (ri_id item) present) items)"

text \<open>The kept records stand where the first governed record stood, or at the end.\<close>

fun place_kept :: "(nat \<times> 'v run_item \<Rightarrow> bool) \<Rightarrow> (nat \<times> 'v run_item) list \<Rightarrow> 'v run_item list \<Rightarrow> 'v run_item list" where
  "place_kept gov [] kept = kept"
| "place_kept gov (entry # turn) kept =
     (if gov entry then kept @ place_kept gov turn [] else snd entry # place_kept gov turn kept)"

definition call_ids_on :: "bool \<Rightarrow> 'v run_item list \<Rightarrow> ustring set" where
  "call_ids_on output items =
     set (List.map_filter (\<lambda>item. case call_side (ri_kind item) of Some (i, side) \<Rightarrow> if side = output then Some i else None | None \<Rightarrow> None) items)"

definition protected_ids :: "nat \<Rightarrow> ustring list \<Rightarrow> 'v run_item list \<Rightarrow> ustring set" where
  "protected_ids locked handed turn = ri_id ` snd ` set (filter (\<lambda>entry. \<not> governed locked handed entry) (enumerate 0 turn))"

definition filtered_turn_records :: "'v run_item list \<Rightarrow> nat \<Rightarrow> ustring list \<Rightarrow> 'v run_item list \<Rightarrow> 'v run_item list" where
  "filtered_turn_records turn locked handed kept =
     (let protected = protected_ids locked handed turn;
          records = place_kept (governed locked handed) (enumerate 0 turn) (keep_present protected kept);
          answered = call_ids_on True turn;
          calls = call_ids_on False records;
          outputs = call_ids_on True records
      in filter (\<lambda>item. ri_id item \<in> protected
           \<or> (case call_side (ri_kind item) of
                None \<Rightarrow> True
              | Some (i, output) \<Rightarrow> if output then i \<in> calls else i \<notin> answered \<or> i \<in> outputs)) records)"

section \<open>The window of a projection\<close>

lemma take_recent_snd: "snd (take_recent always n xs) = n - length (filter (\<lambda>x. \<not> always x) xs)"
  by (induction always n xs rule: take_recent.induct) auto

lemma take_recent_fst:
  "filter always (fst (take_recent always n xs)) = filter always xs
   \<and> filter (\<lambda>x. \<not> always x) (fst (take_recent always n xs)) = take n (filter (\<lambda>x. \<not> always x) xs)"
  by (induction always n xs rule: take_recent.induct) (auto simp: take_Cons')

lemma take_recent_all: "length (filter (\<lambda>x. \<not> always x) xs) \<le> n \<Longrightarrow> fst (take_recent always n xs) = xs"
  by (induction always n xs rule: take_recent.induct) auto

lemma take_rev_drop: "rev (take n (rev xs)) = drop (length xs - n) xs"
  by (simp add: rev_take)

lemma take_last_by_parts:
  assumes "take_last_by xs n always = (ys, m)"
  shows "filter always ys = filter always xs"
    "filter (\<lambda>x. \<not> always x) ys = drop (length (filter (\<lambda>x. \<not> always x) xs) - n) (filter (\<lambda>x. \<not> always x) xs)"
    "m = n - length (filter (\<lambda>x. \<not> always x) xs)" "m \<noteq> 0 \<Longrightarrow> ys = xs"
proof -
  have y: "ys = rev (fst (take_recent always n (rev xs)))" "m = snd (take_recent always n (rev xs))"
    using assms by (auto simp: take_last_by_def map_prod_def split: prod.splits)
  have f: "length (filter p (rev xs)) = length (filter p xs)" for p by (simp add: rev_filter [symmetric])
  show "filter always ys = filter always xs"
    unfolding y rev_filter [symmetric] take_recent_fst [THEN conjunct1] by (simp add: rev_filter)
  show "filter (\<lambda>x. \<not> always x) ys = drop (length (filter (\<lambda>x. \<not> always x) xs) - n) (filter (\<lambda>x. \<not> always x) xs)"
    unfolding y rev_filter [symmetric] take_recent_fst [THEN conjunct2] by (simp add: rev_filter [symmetric] rev_take)
  show "m = n - length (filter (\<lambda>x. \<not> always x) xs)" unfolding y(2) take_recent_snd f ..
  then show "ys = xs" if "m \<noteq> 0" using that y(1) f take_recent_all [of always "rev xs" n] by simp
qed

lemma take_last_all:
  assumes "take_last_by xs n (\<lambda>_. False) = (ys, m)" shows "ys = drop (length xs - n) xs" "m = n - length xs"
  using take_last_by_parts(2,3) [OF assms] by simp_all

text \<open>C5. Handing over the last \<open>k\<close> items hands over exactly \<open>k\<close>, or all there are, beside the records of the transfer
  itself, which always go along: they are the most recent ones of history, earlier records and this turn's records, in
  order, and an older part contributes only once every newer part is there entirely.\<close>

theorem last_items_window:
  "\<exists>d. (project self (ProjectLastItems keep) transfer :: 's transfer_error + 'v handoff_input_data) = Inr d
     \<and> (let handed = (\<lambda>data. filter (\<lambda>item. run_item_call_id item \<noteq> Some transfer) (hd_new_items data));
            size_of = (\<lambda>data. length (hd_input_history data) + length (hd_pre_handoff_items data) + length (handed data))
        in size_of d = min keep (size_of self)
         \<and> filter (\<lambda>item. run_item_call_id item = Some transfer) (hd_new_items d)
           = filter (\<lambda>item. run_item_call_id item = Some transfer) (hd_new_items self)
         \<and> suffix (hd_input_history d) (hd_input_history self) \<and> suffix (hd_pre_handoff_items d) (hd_pre_handoff_items self)
         \<and> suffix (handed d) (handed self)
         \<and> (hd_pre_handoff_items d = [] \<or> hd_new_items d = hd_new_items self)
         \<and> (hd_input_history d = [] \<or> hd_pre_handoff_items d = hd_pre_handoff_items self))"
proof -
  let ?always = "\<lambda>item. run_item_call_id item = Some transfer"
  obtain ni m where n: "take_last_by (hd_new_items self) keep ?always = (ni, m)" by fastforce
  obtain pi m' where p: "take_last_by (hd_pre_handoff_items self) m (\<lambda>_. False) = (pi, m')" by fastforce
  note n' = take_last_by_parts [OF n] and p' = take_last_all [OF p]
  define d where "d = \<lparr> hd_input_history = drop (length (hd_input_history self) - m') (hd_input_history self), hd_pre_handoff_items = pi,
     hd_new_items = ni, hd_input_items = None \<rparr>"
  have project: "(project self (ProjectLastItems keep) transfer :: 's transfer_error + _) = Inr d" by (simp add: n p d_def)
  have older: "hd_pre_handoff_items d = [] \<or> hd_new_items d = hd_new_items self"
      "hd_input_history d = [] \<or> hd_pre_handoff_items d = hd_pre_handoff_items self"
    using n'(4) p' by (cases "m = 0"; cases "m' = 0"; simp add: d_def)+
  have size: "length (hd_input_history d) + length (hd_pre_handoff_items d) + length (filter (\<lambda>item. run_item_call_id item \<noteq> Some transfer) (hd_new_items d))
     = min keep (length (hd_input_history self) + length (hd_pre_handoff_items self)
         + length (filter (\<lambda>item. run_item_call_id item \<noteq> Some transfer) (hd_new_items self)))"
    using n'(2,3) p' by (simp add: d_def)
  have parts: "filter ?always (hd_new_items d) = filter ?always (hd_new_items self)"
      "suffix (hd_input_history d) (hd_input_history self)" "suffix (hd_pre_handoff_items d) (hd_pre_handoff_items self)"
      "suffix (filter (\<lambda>item. run_item_call_id item \<noteq> Some transfer) (hd_new_items d))
         (filter (\<lambda>item. run_item_call_id item \<noteq> Some transfer) (hd_new_items self))"
    using n'(1,2) p'(1) by (simp_all add: d_def suffix_drop)
  show ?thesis unfolding Let_def by (intro exI [of _ d] conjI project size parts older)
qed

section \<open>Pairing\<close>

lemma paired_ids_iff: "i \<in> set (paired_ids side xs) \<longleftrightarrow> (\<exists>x \<in> set xs. pairing_id x = Some (side, i))"
  by (force simp: paired_ids_def List.map_filter_def split: option.splits if_splits)

text \<open>C6. What the next agent is given to read pairs up: a request is there exactly when its answer is, and nothing that has
  no other half is dropped.\<close>

theorem handed_over_input_is_paired:
  "set (paired_ids True (into_model_input data)) = set (paired_ids False (into_model_input data))
   \<and> filter (\<lambda>item. pairing_id item = None) (into_model_input data)
     = filter (\<lambda>item. pairing_id item = None) (hd_input_history data @ List.map_filter to_model_input
         (hd_pre_handoff_items data @ (case hd_input_items data of Some items \<Rightarrow> items | None \<Rightarrow> hd_new_items data)))
   \<and> repair_pairing (into_model_input data) = into_model_input data"
proof -
  have closed: "set (paired_ids True (repair_pairing xs)) = set (paired_ids False (repair_pairing xs))" for xs :: "'a model_input_item list"
  proof -
    have kept: "x \<in> set (repair_pairing xs) \<longleftrightarrow> x \<in> set xs \<and> i \<in> set (paired_ids (\<not> side) xs)" if "pairing_id x = Some (side, i)" for x side i
      using that by (cases side) (simp_all add: repair_pairing_def Let_def)
    have "i \<in> set (paired_ids side (repair_pairing xs)) \<longleftrightarrow> i \<in> set (paired_ids side xs) \<and> i \<in> set (paired_ids (\<not> side) xs)" for i side
      unfolding paired_ids_iff [of _ side] using kept by blast
    then show ?thesis by auto
  qed
  moreover have "filter (\<lambda>item. pairing_id item = None) (repair_pairing xs) = filter (\<lambda>item. pairing_id item = None) xs" for xs :: "'a model_input_item list"
    by (auto simp: repair_pairing_def Let_def intro: filter_cong)
  moreover have "repair_pairing (repair_pairing xs) = repair_pairing xs" for xs :: "'a model_input_item list"
  proof -
    have "case pairing_id x of Some (asks, i) \<Rightarrow> if asks then i \<in> set (paired_ids False (repair_pairing xs)) else i \<in> set (paired_ids True (repair_pairing xs))
      | None \<Rightarrow> True" if "x \<in> set (repair_pairing xs)" for x
    proof (cases "pairing_id x")
      case (Some p)
      then have "snd p \<in> set (paired_ids (fst p) (repair_pairing xs))" using that unfolding paired_ids_iff by (metis prod.collapse)
      then show ?thesis using Some closed [of xs] by (cases p; cases "fst p") simp_all
    qed simp
    then show ?thesis unfolding repair_pairing_def [of "repair_pairing xs"] Let_def by (intro filter_True) auto
  qed
  ultimately show ?thesis unfolding into_model_input_def by blast
qed
section \<open>What a filter may change of the records\<close>

lemma keep_present_fresh: "item \<in> set (keep_present present items) \<Longrightarrow> ri_id item \<notin> present"
  by (induction present items rule: keep_present.induct) (simp_all split: if_splits, blast)

lemma place_kept_protected:
  assumes "\<forall>item \<in> set kept. \<not> P item" and "\<forall>entry \<in> set turn. gov entry \<longrightarrow> \<not> P (snd entry)"
    and "\<forall>entry \<in> set turn. \<not> gov entry \<longrightarrow> P (snd entry)"
  shows "filter P (place_kept gov turn kept) = map snd (filter (\<lambda>entry. \<not> gov entry) turn)"
  using assms by (induction gov turn kept rule: place_kept.induct) (auto simp: filter_empty_conv)

lemma call_ids_on_iff:
  fixes xs :: "'a run_item list"
  shows "i \<in> call_ids_on side xs \<longleftrightarrow> (\<exists>x \<in> set xs. call_side (ri_kind x) = Some (i, side))"
proof -
  have "(case c of Some (j, s) \<Rightarrow> if s = side then Some j else None | None \<Rightarrow> None) = Some i \<longleftrightarrow> c = Some (i, side)"
    for c :: "(ustring \<times> bool) option"
    by (auto split: option.split)
  then show ?thesis by (simp add: call_ids_on_def in_set_map_filter)
qed

text \<open>C4. A filter chooses what the next agent reads, not what happened. Of a turn's records, those that it never saw, or
  that the turn had already stored, stay, in order; and of the rest it cannot leave half an exchange: an output stays only
  with its call, and a call the turn answered only with its answer.\<close>

theorem filter_leaves_no_half_exchange:
  fixes turn :: "'a run_item list"
  assumes "distinct (map ri_id turn)"
  shows "filter (\<lambda>item. ri_id item \<in> protected_ids locked handed turn) (filtered_turn_records turn locked handed kept)
       = map snd (filter (\<lambda>entry. \<not> governed locked handed entry) (enumerate 0 turn))
     \<and> list_all (\<lambda>item. ri_id item \<in> protected_ids locked handed turn
         \<or> (case call_side (ri_kind item) of
              None \<Rightarrow> True
            | Some (i, output) \<Rightarrow>
                if output then i \<in> call_ids_on False (filtered_turn_records turn locked handed kept)
                else i \<notin> call_ids_on True turn \<or> i \<in> call_ids_on True (filtered_turn_records turn locked handed kept)))
         (filtered_turn_records turn locked handed kept)"
proof -
  let ?p = "\<lambda>item. ri_id item \<in> protected_ids locked handed turn"
  define records where "records = place_kept (governed locked handed) (enumerate 0 turn) (keep_present (protected_ids locked handed turn) kept)"
  define good where "good = (\<lambda>item :: 'a run_item. ?p item \<or> (case call_side (ri_kind item) of None \<Rightarrow> True
      | Some (i, output) \<Rightarrow> if output then i \<in> call_ids_on False records else i \<notin> call_ids_on True turn \<or> i \<in> call_ids_on True records))"
  have r: "filtered_turn_records turn locked handed kept = filter good records"
    unfolding filtered_turn_records_def Let_def good_def records_def ..
  have apart: "\<not> ?p (snd entry)" if e: "entry \<in> set (enumerate 0 turn)" "governed locked handed entry" for entry
  proof
    assume "?p (snd entry)"
    then obtain other where o: "other \<in> set (enumerate 0 turn)" "\<not> governed locked handed other" "ri_id (snd other) = ri_id (snd entry)"
      by (auto simp: protected_ids_def)
    have at: "\<exists>i < length turn. x = (i, turn ! i)" if "x \<in> set (enumerate 0 turn)" for x
      using that by (intro exI [of _ "fst x"]) (simp add: in_set_enumerate_eq prod_eq_iff)
    obtain i j where i: "entry = (i, turn ! i)" "i < length turn" and j: "other = (j, turn ! j)" "j < length turn"
      using at [OF e(1)] at [OF o(1)] by blast
    then have "i = j" using o(3) assms by (simp add: distinct_conv_nth) (metis nth_map length_map)
    then show False using i(1) j(1) e(2) o(2) by simp
  qed
  have "filter ?p records = map snd (filter (\<lambda>entry. \<not> governed locked handed entry) (enumerate 0 turn))"
    unfolding records_def
  proof (rule place_kept_protected)
    show "\<forall>entry \<in> set (enumerate 0 turn). \<not> governed locked handed entry \<longrightarrow> ?p (snd entry)"
      unfolding protected_ids_def by auto
  qed (use keep_present_fresh apart in blast)+
  moreover have "filter ?p (filter good records) = filter ?p records"
    by (auto simp: good_def intro: filter_cong)
  ultimately have protected: "filter ?p (filter good records) = map snd (filter (\<lambda>entry. \<not> governed locked handed entry) (enumerate 0 turn))"
    by simp
  have other: "i \<in> call_ids_on side (filter good records)"
    if x: "x \<in> set records" "call_side (ri_kind x) = Some (i, \<not> side)" "i \<in> call_ids_on side records" for x i side
  proof -
    obtain y where y: "y \<in> set records" "call_side (ri_kind y) = Some (i, side)" using x(3) unfolding call_ids_on_iff by blast
    have "i \<in> call_ids_on (\<not> side) records" using x(1,2) unfolding call_ids_on_iff by blast
    then have "good y" using y(2) by (cases side) (auto simp: good_def)
    then show ?thesis using y unfolding call_ids_on_iff by auto
  qed
  have "?p x \<or> (case call_side (ri_kind x) of None \<Rightarrow> True
      | Some (i, output) \<Rightarrow> if output then i \<in> call_ids_on False (filter good records)
          else i \<notin> call_ids_on True turn \<or> i \<in> call_ids_on True (filter good records))" if "x \<in> set (filter good records)" for x
  proof (cases "call_side (ri_kind x)")
    case (Some c)
    obtain i side where c: "c = (i, side)" by (cases c)
    have x: "x \<in> set records" "good x" using that by simp_all
    have "?p x \<or> (if side then i \<in> call_ids_on False records else i \<notin> call_ids_on True turn \<or> i \<in> call_ids_on True records)"
      using x(2) Some c unfolding good_def by simp
    then show ?thesis using other [OF x(1), of i "\<not> side"] Some c by (cases side) auto
  qed simp
  then show ?thesis using protected unfolding r list_all_iff by blast
qed
section \<open>A filter that takes a call without its answer\<close>

definition filtered_sample :: "nat json run_item list" where
  "filtered_sample = [sample_item ''i1'' ''c1'' ''a'',
     run_item_new (lit ''o1'') (RToolCallOutput (tool_call_output_new (lit ''c1'') JNull)), sample_item ''i2'' ''c2'' ''a'']"

lemma filtered_sample_ids: "map ri_id filtered_sample = [lit ''i1'', lit ''o1'', lit ''i2'']"
  by (simp add: filtered_sample_def sample_item_def run_item_new_def)

text \<open>The filter keeps the two calls; the first loses its answer, so it goes as well.\<close>

theorem filter_leaves_no_half_exchange_witness:
  "map ri_id (filtered_turn_records filtered_sample 0 (map ri_id filtered_sample) [filtered_sample ! 0, filtered_sample ! 2]) = [lit ''i2'']
   \<and> filter (\<lambda>item. ri_id item \<in> protected_ids 0 (map ri_id filtered_sample) filtered_sample)
       (filtered_turn_records filtered_sample 0 (map ri_id filtered_sample) [filtered_sample ! 0, filtered_sample ! 2])
     = map snd (filter (\<lambda>entry. \<not> governed 0 (map ri_id filtered_sample) entry) (enumerate 0 filtered_sample))"
proof (rule conjI)
  show "map ri_id (filtered_turn_records filtered_sample 0 (map ri_id filtered_sample) [filtered_sample ! 0, filtered_sample ! 2]) = [lit ''i2'']"
    unfolding filtered_sample_ids
    by (simp add: filtered_turn_records_def protected_ids_def governed_def call_ids_on_def filtered_sample_def sample_item_def run_item_new_def
        is_model_input_def List.map_filter_simps tool_call_new_def tool_call_output_new_def str_simps Let_def)
  have "distinct (map ri_id filtered_sample)" unfolding filtered_sample_ids by (simp add: str_simps)
  then show "filter (\<lambda>item. ri_id item \<in> protected_ids 0 (map ri_id filtered_sample) filtered_sample)
       (filtered_turn_records filtered_sample 0 (map ri_id filtered_sample) [filtered_sample ! 0, filtered_sample ! 2])
     = map snd (filter (\<lambda>entry. \<not> governed 0 (map ri_id filtered_sample) entry) (enumerate 0 filtered_sample))"
    by (rule filter_leaves_no_half_exchange [THEN conjunct1])
qed

end
