(* ===== verification/Turn_Settle.thy ===== *)
theory Turn_Settle
  imports Turn_Handoff
begin

text \<open>
  Settling one turn, \<^verbatim>\<open>ra-runtime/src/turn.rs\<close>: classify, record the attempts, execute, record the outcomes, decide, file
  the records, project what a transfer hands over (\<^verbatim>\<open>ra-core/src/agent/handoff.rs\<close>), and pass the gate. A host's handoff
  filter is an argument.
\<close>

section \<open>Settling\<close>

type_synonym ('v, 's) handoff_filter = "'v handoff_input_data \<Rightarrow> 's core_error + 'v handoff_input_data"

record ('n, 's, 'o) settle_env =
  sv_batch :: "('n, 's) batch_env"
  sv_public :: public_agent
  sv_sha :: "nat list \<Rightarrow> ustring"
  sv_render :: "'n json \<Rightarrow> ustring"
  sv_resolve :: "('n json, 's core_error, 'o) resolve_env"
  sv_behavior :: "('n json, 's core_error, 'o) tool_use_behavior"
  sv_filter_of :: "handoff_spec \<Rightarrow> ('n json, 's) handoff_filter option"
  sv_default_filter :: "('n json, 's) handoff_filter option"
  sv_server_manages_conversation :: bool
  sv_filter_check :: "'s core_error option"

record 'v projected_handoff =
  pj_input :: "'v handoff_input_data"
  pj_session :: "(ustring list \<times> 'v run_item list) option"

definition filter_handoff_input ::
  "('n, 's, 'o) settle_env \<Rightarrow> 'n json handoff_input_data \<Rightarrow> handoff_spec \<Rightarrow> ustring \<Rightarrow> 's core_error transfer_error + 'n json projected_handoff" where
  "filter_handoff_input env complete spec call_id =
     result_bind (project complete (hs_history_projection spec) call_id) (\<lambda>projected.
       let selected = (case sv_filter_of env spec of Some f \<Rightarrow> Some f | None \<Rightarrow> sv_default_filter env) in
       if sv_server_manages_conversation env \<and> selected \<noteq> None then Inl FilterWithServerConversation
       else case selected of
           None \<Rightarrow> Inr \<lparr> pj_input = projected, pj_session = None \<rparr>
         | Some f \<Rightarrow>
             (case f projected of
                Inl e \<Rightarrow> Inl (FilterFailed e)
              | Inr data \<Rightarrow>
                  (case sv_filter_check env of
                     Some e \<Rightarrow> Inl (FilterFailed e)
                   | None \<Rightarrow> Inr \<lparr> pj_input = data, pj_session = Some (map ri_id (hd_new_items projected), hd_new_items data) \<rparr>)))"

definition project_handoff_input ::
  "('n, 's, 'o) settle_env \<Rightarrow> 'n json model_input_item list \<Rightarrow> 'n json run_item list \<Rightarrow> 'n json processed_response
   \<Rightarrow> 'n json next_step \<Rightarrow> 'n json run_item list \<Rightarrow> 's core_error transfer_error + 'n json projected_handoff" where
  "project_handoff_input env original_input pre_step_items processed next_step items =
     (let complete = handoff_input_data_new original_input pre_step_items items in
      if \<not> is_transfer next_step then Inr \<lparr> pj_input = complete, pj_session = None \<rparr>
      else case pr_handoffs processed of
          [] \<Rightarrow> Inl NoBoundHandoff
        | handoff # _ \<Rightarrow> filter_handoff_input env complete (rh_spec handoff) (hc_call_id (rh_call handoff)))"

datatype 's settle_error =
  ClassificationFailed response_error | ActionsFailed "'s turn_error" | DecisionFailed "'s core_error resolve_error"
| RebindFailed step_error | TransferFailed "'s core_error transfer_error" | GateRejected step_error

text \<open>\<open>sr_handoff\<close> and \<open>sr_unfiltered_records\<close> are the two fields of \<^verbatim>\<open>TurnRecovery\<close> settlement itself writes.\<close>

record ('n, 'g, 's) settle_state =
  sr_tool_use :: "'n json tool_use_tracker"
  sr_tool_failure :: "'n json tool_failure_tracker"
  sr_recovery :: "('n, 'g, 's) turn_recovery"
  sr_handoff :: "('n json processed_response \<times> 'n json handoff_input_data) option"
  sr_unfiltered_records :: "'n json run_item list option"

record 'n settle_request =
  rq_response :: "'n json model_response"
  rq_surface :: "'n json turn_surface"
  rq_original_input :: "'n json model_input_item list"
  rq_pre_step_items :: "'n json run_item list"

text \<open>The last stage: the projection of a transfer, the records its filter leaves, and the gate.\<close>

definition record_turn_result ::
  "('n, 's, 'o) settle_env \<Rightarrow> 'n settle_request \<Rightarrow> 'n json processed_response \<Rightarrow> ('n json, 'g) turn_execution \<Rightarrow> 'n json next_step
   \<Rightarrow> 'o option \<Rightarrow> 'n json run_item list \<Rightarrow> ('n, 'g, 's) settle_state
   \<Rightarrow> ('n, 'g, 's) settle_state \<times> ('s settle_error + ('n json, 'g, 'o) single_step_result)" where
  "record_turn_result env rq processed ex next_step final_output items st =
     (case project_handoff_input env (rq_original_input rq) (rq_pre_step_items rq) processed next_step items of
        Inl e \<Rightarrow> (st, Inl (TransferFailed e))
      | Inr projected \<Rightarrow>
          let (stored, st) = (case pj_session projected of
                Some (handed, kept) \<Rightarrow>
                  (resolve_output_phases (filtered_turn_records items 0 handed kept) next_step, st \<lparr> sr_unfiltered_records := Some items \<rparr>)
              | None \<Rightarrow> (items, st));
              (input_history, pre_handoff_items, new_items) = into_parts (pj_input projected)
          in (st, case step_build \<lparr> sb_original_input = input_history, sb_model_response = Some (rq_response rq),
                sb_pre_step_items = pre_handoff_items, sb_new_step_items = new_items, sb_session_step_items = Some stored,
                sb_nested_history_owned_items = [], sb_tool_input_guardrail_results = ex_tool_input_guardrail_results ex,
                sb_tool_output_guardrail_results = ex_tool_output_guardrail_results ex, sb_function_results = ex_function_results ex,
                sb_processed_response = Some processed, sb_next_step = Some next_step, sb_final_output = final_output \<rparr> of
              Inl e \<Rightarrow> Inl (GateRejected e) | Inr r \<Rightarrow> Inr r))"

definition conclude_turn ::
  "('n, 's, 'o) settle_env \<Rightarrow> 'n settle_request \<Rightarrow> 'n json processed_response \<Rightarrow> ('n json, 'g) turn_execution
   \<Rightarrow> ('n, 'g, 's) settle_state \<Rightarrow> ('n, 'g, 's) settle_state \<times> ('s settle_error + ('n json, 'g, 'o) single_step_result)" where
  "conclude_turn env rq processed ex st =
     (case resolve_next_step_with_output (sv_resolve env) (sv_behavior env) processed ex of
        Inl e \<Rightarrow> (st, Inl (DecisionFailed e))
      | Inr (next_step, final_output) \<Rightarrow>
          let items = step_items processed ex (sv_public env) next_step in
          (case rebind_interruption next_step items (ex_nested_interruptions ex) of
             Inl e \<Rightarrow> (st, Inl (RebindFailed e))
           | Inr next_step \<Rightarrow> record_turn_result env rq processed ex next_step final_output items st))"

text \<open>\<open>run\<close> is the schedule of the turn's tasks, which may depend on what the trackers hold when they start.\<close>

definition settle_turn ::
  "('n, 's, 'o) settle_env \<Rightarrow> 'n settle_request \<Rightarrow> 'n json binding_state \<Rightarrow> (nat \<Rightarrow> nat) \<Rightarrow> nat option
   \<Rightarrow> ('n json tool_use_tracker \<Rightarrow> 'n json tool_failure_tracker \<Rightarrow> ('n json, 'g, 's) joined list list) \<Rightarrow> ('n, 'g, 's) settle_state
   \<Rightarrow> ('n, 'g, 's) settle_state \<times> ('s settle_error + ('n json, 'g, 'o) single_step_result)" where
  "settle_turn env rq streamed fresh cancelled_after run st =
     (case process_model_response_with_history (rq_response rq) (rq_surface rq) (rq_pre_step_items rq) of
        Inl e \<Rightarrow> (st, Inl (ClassificationFailed e))
      | Inr processed \<Rightarrow>
          let st = st \<lparr> sr_tool_use := record_turn (sv_sha env) (sr_tool_use st) (pa_id (sv_public env))
                          (attempts (sv_sha env) (sv_render env) processed) \<rparr>;
              st = (if pr_handoffs processed = [] then st
                    else st \<lparr> sr_handoff := Some (processed, handoff_input_data_new (rq_original_input rq) (rq_pre_step_items rq) []) \<rparr>);
              (recovery, executed) = execute_actions (sv_batch env) processed streamed fresh cancelled_after
                (run (sr_tool_use st) (sr_tool_failure st)) (sr_recovery st);
              st = st \<lparr> sr_recovery := recovery \<rparr>
          in case executed of
               Inl e \<Rightarrow> (st, Inl (ActionsFailed e))
             | Inr ex \<Rightarrow>
                 conclude_turn env rq processed ex
                   (st \<lparr> sr_tool_failure := failures_record_turn (sv_sha env) (sr_tool_failure st) (pa_id (sv_public env)) (ex_outcomes ex) \<rparr>))"


section \<open>A settled turn passes its gate\<close>

lemma kind_eq_refl [simp]: "kind_eq k k"
  by (cases k) (auto simp: kind_eq_def approval_eq_def lookup_eq_def split: option.split)

lemma item_eq_refl [simp]: "item_eq item item" by (simp add: item_eq_def)

lemma item_eq_kind: "item_eq a b \<Longrightarrow> kind_eq (ri_kind a) (ri_kind b) \<and> ri_id a = ri_id b"
  unfolding item_eq_def by (cases a; cases b) simp

text \<open>What settlement does to a record: it is attributed and put on a channel.\<close>

lemma with_output_phase_fields [simp]:
  "ri_id (with_output_phase phase item) = ri_id item"
  "is_assistant_message (with_output_phase phase item) = is_assistant_message item"
  "is_interruption (ri_kind (with_output_phase phase item)) = is_interruption (ri_kind item)"
  by (simp_all add: with_output_phase_def is_assistant_message_def set_phase_def split: run_item_kind.split)

lemma with_output_phase_payload: "model_payload_matches (ri_kind item) (ri_kind (with_output_phase phase item))"
  by (cases "ri_kind item") (auto simp: with_output_phase_def model_payload_matches_def matches_ignoring_phase_def set_phase_def)

lemma attribute_fields [simp]: "ri_id (attribute public item) = ri_id item" "ri_kind (attribute public item) = ri_kind item"
  by (simp_all add: attribute_def with_provenance_def)

lemma resolve_output_phases_nth:
  "i < length items \<Longrightarrow> resolve_output_phases items step ! i = with_output_phase (phase_at i (delivery_index items step)) (items ! i)"
  by (simp add: resolve_output_phases_def nth_enumerate_eq)

lemma resolve_output_phases_length [simp]: "length (resolve_output_phases items step) = length items"
  by (simp add: resolve_output_phases_def)

lemma resolve_output_phases_ids [simp]: "map ri_id (resolve_output_phases items step) = map ri_id items"
  by (rule nth_equalityI) (simp_all add: resolve_output_phases_nth)

lemma resolve_output_phases_assistants:
  "map is_assistant_message (resolve_output_phases items step) = map is_assistant_message items"
  by (rule nth_equalityI) (simp_all add: resolve_output_phases_nth)

lemma rposition_cong:
  assumes "map p xs = map p ys" shows "rposition p xs = rposition p ys"
proof -
  have l: "length xs = length ys" using assms map_eq_imp_length_eq by blast
  have "p (xs ! i) = p (ys ! i)" if "i < length xs" for i using assms that l by (metis nth_map)
  then have "filter (\<lambda>i. p (xs ! i)) [0..<length xs] = filter (\<lambda>i. p (ys ! i)) [0..<length ys]"
    unfolding l by (intro filter_cong refl) (simp add: l)
  then show ?thesis by (simp add: rposition_def)
qed

lemma resolved_phases_pass: "check_resolved_output_phases step (resolve_output_phases items step) = Inr ()"
proof -
  let ?r = "resolve_output_phases items step"
  have d: "delivery_index ?r step = delivery_index items step"
    unfolding delivery_index_eq using rposition_cong [OF resolve_output_phases_assistants] by metis
  have "item_phase (?r ! i) = Some (phase_at i (delivery_index items step))"
    if "i < length items" "is_assistant_message (?r ! i)" for i
    using that by (auto simp: resolve_output_phases_nth is_assistant_message_def item_phase_def with_output_phase_def set_phase_def
        split: run_item_kind.splits if_splits)
  then show ?thesis
    unfolding check_resolved_output_phases_def Let_def check_each_Inr d by (auto simp: in_set_enumerate_eq)
qed

text \<open>Positions of a turn's records agree with those of what the model said and what answered it.\<close>

lemma step_items_nth:
  assumes "i < length (pr_new_items processed @ ex_new_items ex)"
  shows "ri_id (step_items processed ex public step ! i) = ri_id ((pr_new_items processed @ ex_new_items ex) ! i)
    \<and> model_payload_matches (ri_kind ((pr_new_items processed @ ex_new_items ex) ! i)) (ri_kind (step_items processed ex public step ! i))
    \<and> is_interruption (ri_kind (step_items processed ex public step ! i)) = is_interruption (ri_kind ((pr_new_items processed @ ex_new_items ex) ! i))"
  using assms with_output_phase_payload [of "attribute public ((pr_new_items processed @ ex_new_items ex) ! i)"]
  by (simp add: step_items_def resolve_output_phases_nth del: map_append)

lemma step_items_ids [simp]:
  "map ri_id (step_items processed ex public step) = map ri_id (pr_new_items processed) @ map ri_id (ex_new_items ex)"
  by (simp add: step_items_def comp_def del: map_map add: map_map [symmetric]) (simp add: comp_def)

lemma step_items_copy:
  assumes "item \<in> set (pr_new_items processed @ ex_new_items ex)"
  obtains stored where "stored \<in> set (step_items processed ex public step)" "ri_id stored = ri_id item"
    "model_payload_matches (ri_kind item) (ri_kind stored)" "is_interruption (ri_kind stored) = is_interruption (ri_kind item)"
proof -
  obtain i where i: "i < length (pr_new_items processed @ ex_new_items ex)" "item = (pr_new_items processed @ ex_new_items ex) ! i"
    using assms by (metis in_set_conv_nth)
  have "length (step_items processed ex public step) = length (pr_new_items processed @ ex_new_items ex)" by (simp add: step_items_def)
  then have "step_items processed ex public step ! i \<in> set (step_items processed ex public step)" using i(1) by simp
  then show thesis using that step_items_nth [OF i(1), of public step] i(2) by blast
qed


text \<open>The questions of an execution: those of the response, those its own calls filed, and those of nested runs.\<close>

definition questions_filed :: "'v processed_response \<Rightarrow> ('v, 'g) turn_execution \<Rightarrow> bool" where
  "questions_filed processed ex \<longleftrightarrow>
     set (interruptions processed) \<subseteq> set (ex_interruptions ex)
     \<and> set (ex_interruptions ex) \<subseteq> set (pr_new_items processed @ ex_new_items ex)
     \<and> ex_nested_interruptions ex = nested_interruptions (ex_function_results ex)"

lemma nested_interruptions_append [simp]:
  "nested_interruptions (rs @ rs') = nested_interruptions rs @ nested_interruptions rs'" "nested_interruptions [] = []"
  by (simp_all add: nested_interruptions_def)

lemma settle_completed_questions:
  assumes "settle_completed ops processed c ex = Inr ex'" "questions_filed processed' ex"
  shows "questions_filed processed' ex'"
proof (cases "cd_dispatch c")
  case (Observed ob)
  then show ?thesis using assms
    by (auto simp: settle_completed_def settle_output_def result_completed_output questions_filed_def nested_interruptions_def Let_def split: option.splits)
next
  case (DispatchRefused r)
  then show ?thesis using assms
    by (auto simp: settle_completed_def settle_output_def result_completed_output questions_filed_def nested_interruptions_def Let_def split: option.splits)
next
  case (AwaitingApproval a)
  then show ?thesis using assms
    by (auto simp: settle_completed_def result_awaiting_def run_item_new_def questions_filed_def nested_interruptions_def Let_def)
next
  case (AwaitingNestedApproval n)
  then obtain r where r: "result_nested (cd_tool c) n = Inr r" using assms
    unfolding settle_completed_def Let_def by (auto simp: result_bind_Inr_iff)
  then have "ft_nested_run r \<noteq> None" by (auto simp: result_nested_def split: if_splits)
  then show ?thesis using assms AwaitingNestedApproval r
    by (auto simp: settle_completed_def questions_filed_def nested_interruptions_def Let_def)
qed

lemma settle_all_questions:
  "settle_all ops processed cs ex = Inr ex' \<Longrightarrow> questions_filed processed' ex \<Longrightarrow> questions_filed processed' ex'"
  by (induction cs arbitrary: ex) (auto simp: result_bind_Inr_iff dest: settle_completed_questions)

lemma execute_handoffs_questions:
  assumes "execute_handoffs env processed ex = (ex', None)" "questions_filed processed ex"
  shows "questions_filed processed ex'"
proof (cases "pr_handoffs processed")
  case (Cons h hs)
  then show ?thesis using assms
    by (auto simp: execute_handoffs_def questions_filed_def Let_def split: if_splits option.splits)
qed (use assms in \<open>auto simp: execute_handoffs_def\<close>)

lemma executed_questions:
  assumes "execute_actions env processed streamed fresh cancelled_after schedule recovery = (recovery', Inr ex)"
  shows "questions_filed processed ex"
proof -
  obtain ex0 cs where b: "settle_all (be_ops env) processed cs (execution_default \<lparr> ex_interruptions := interruptions processed \<rparr>) = Inr ex0"
      "execute_handoffs env processed (answer_missing processed ex0) = (ex, None)"
    by (rule execute_actions_Inr [OF assms])
  have "questions_filed processed (execution_default \<lparr> ex_interruptions := interruptions processed \<rparr>)"
    by (auto simp: questions_filed_def execution_default_def interruptions_def)
  from settle_all_questions [OF b(1) this] have "questions_filed processed (answer_missing processed ex0)"
    by (auto simp: questions_filed_def answer_missing_def)
  then show ?thesis by (rule execute_handoffs_questions [OF b(2)])
qed

text \<open>Rebinding keeps the questions and finds each of the turn's own among its records.\<close>

lemma next_step_interruption_Inr:
  "next_step_interruption items = Inr step \<longleftrightarrow> items \<noteq> [] \<and> (\<forall>item \<in> set items. is_interruption (ri_kind item)) \<and> step = Interruption items"
  by (auto simp: next_step_interruption_def result_bind_Inr_iff approvable_None)

lemma distinct_ids_same:
  "distinct (map ri_id items) \<Longrightarrow> a \<in> set items \<Longrightarrow> b \<in> set items \<Longrightarrow> ri_id a = ri_id b \<Longrightarrow> a = b"
  by (auto simp: distinct_map inj_on_def)

lemma rebind_item_found:
  assumes "distinct (map ri_id items)" "list_ex (\<lambda>n. item_eq n item) nested \<or> (\<exists>stored \<in> set items. ri_id stored = ri_id item)"
  obtains bound where "rebind_item items nested item = Inr bound" "ri_id bound = ri_id item"
    "list_ex (\<lambda>n. item_eq n item) nested \<and> bound = item \<or> bound \<in> set items"
proof (cases "list_ex (\<lambda>n. item_eq n item) nested")
  case False
  then obtain stored where s: "stored \<in> set items" "ri_id stored = ri_id item" using assms(2) by blast
  have "map_of (rev (map (\<lambda>item. (ri_id item, item)) items)) (ri_id item) = Some stored"
  proof (rule map_of_is_SomeI)
    have "map fst (rev (map (\<lambda>item. (ri_id item, item)) items)) = rev (map ri_id items)" by (simp add: rev_map comp_def)
    then show "distinct (map fst (rev (map (\<lambda>item. (ri_id item, item)) items)))" using assms(1) by (simp only: distinct_rev)
    show "(ri_id item, stored) \<in> set (rev (map (\<lambda>item. (ri_id item, item)) items))"
      unfolding s(2) [symmetric] set_rev list.set_map using s(1) by (rule imageI)
  qed
  then show thesis using that [of stored] s False by (simp add: rebind_item_def)
qed (use that in \<open>simp add: rebind_item_def\<close>)


lemma step_items_interruption:
  assumes "distinct (map ri_id (step_items processed ex public step))" "item \<in> set (pr_new_items processed @ ex_new_items ex)"
    "stored \<in> set (step_items processed ex public step)" "ri_id stored = ri_id item"
  shows "is_interruption (ri_kind stored) = is_interruption (ri_kind item)"
proof -
  obtain copy where c: "copy \<in> set (step_items processed ex public step)" "ri_id copy = ri_id item"
      "is_interruption (ri_kind copy) = is_interruption (ri_kind item)"
    by (rule step_items_copy [OF assms(2)])
  have "copy = stored" using distinct_ids_same [OF assms(1) c(1) assms(3)] c(2) assms(4) by simp
  then show ?thesis using c(3) by simp
qed

lemma check_interruption_Inr:
  "check_interruption items processed m results = Inr u \<longleftrightarrow>
     items \<noteq> []
     \<and> (\<forall>x \<in> set items. (case approvable x of Some e \<Rightarrow> Some e | None \<Rightarrow> if list_ex (\<lambda>n. item_eq n x) (nested_interruptions results) then None
          else case m (ri_id x) of None \<Rightarrow> Some (InterruptionNotStored (ri_id x))
            | Some stored \<Rightarrow> if kind_eq (ri_kind x) (ri_kind stored) then None else Some (PayloadDiffers (ri_id x))) = None)
     \<and> (\<forall>p \<in> set (nested_interruptions results). list_ex (item_eq p) items)
     \<and> (\<forall>p \<in> set (interruptions processed). ri_id p \<in> set (map ri_id items))"
  unfolding check_interruption_def by (simp add: result_bind_Inr_iff)

lemma rebind_settled_interruption:
  fixes processed :: "'v processed_response" and ex :: "('v, 'g) turn_execution" and public step
  defines "items \<equiv> step_items processed ex public step" and "nested \<equiv> ex_nested_interruptions ex"
  assumes filed: "questions_filed processed ex" and ids: "distinct (map ri_id items)"
    and pending: "pending = ex_interruptions ex @ nested" "pending \<noteq> []" "\<forall>item \<in> set pending. is_interruption (ri_kind item)"
  obtains bound where "rebind_interruption (Interruption pending) items nested = Inr (Interruption bound)"
    and "check_interruption bound processed (items_by_id items) (ex_function_results ex) = Inr ()"
proof -
  have own: "item \<in> set (pr_new_items processed @ ex_new_items ex)" if "item \<in> set (ex_interruptions ex)" for item
    using filed that by (auto simp: questions_filed_def)
  have found: "list_ex (\<lambda>n. item_eq n item) nested \<or> (\<exists>stored \<in> set items. ri_id stored = ri_id item)" if "item \<in> set pending" for item
  proof (cases "item \<in> set nested")
    case False
    then have i: "item \<in> set (pr_new_items processed @ ex_new_items ex)" using that pending(1) own by auto
    show ?thesis unfolding items_def by (rule step_items_copy [OF i, of public step]) blast
  qed (auto simp: list_ex_iff intro: bexI [of _ item])
  define f where "f item = (case rebind_item items nested item of Inr b \<Rightarrow> b | Inl _ \<Rightarrow> item)" for item
  have f: "rebind_item items nested item = Inr (f item) \<and> ri_id (f item) = ri_id item
      \<and> (list_ex (\<lambda>n. item_eq n item) nested \<and> f item = item \<or> f item \<in> set items)" if i: "item \<in> set pending" for item
  proof -
    obtain bound where "rebind_item items nested item = Inr bound" "ri_id bound = ri_id item"
        "list_ex (\<lambda>n. item_eq n item) nested \<and> bound = item \<or> bound \<in> set items"
      by (rule rebind_item_found [OF ids found [OF i]])
    then show ?thesis by (simp add: f_def)
  qed
  let ?b = "map f pending"
  have "map (rebind_item items nested) pending = map Inr ?b" using f by simp
  then have collected: "collect_results (map (rebind_item items nested) pending) = Inr ?b" by (simp only: collect_results_Inr)
  have kinds: "is_interruption (ri_kind (f item))" if "item \<in> set pending" for item
  proof (cases "f item = item")
    case False
    then have s: "f item \<in> set items" "ri_id (f item) = ri_id item" using f [OF that] by auto
    show ?thesis
    proof (cases "item \<in> set nested")
      case True
      then have "list_ex (\<lambda>n. item_eq n item) nested" by (auto simp: list_ex_iff intro: bexI [of _ item])
      then have "rebind_item items nested item = Inr item" by (simp add: rebind_item_def)
      then show ?thesis using f [OF that] False by simp
    next
      case False
      then have "item \<in> set (pr_new_items processed @ ex_new_items ex)" using that pending(1) own by auto
      from step_items_interruption [OF ids [unfolded items_def] this] s show ?thesis
        using pending(3) that unfolding items_def by blast
    qed
  qed (use pending(3) that in simp)
  have r: "rebind_interruption (Interruption pending) items nested = Inr (Interruption ?b)"
    using collected pending(2) kinds by (simp add: next_step_interruption_Inr)
  have nested: "nested_interruptions (ex_function_results ex) = nested" using filed by (simp add: questions_filed_def nested_def)
  have keep: "f item = item" if "item \<in> set nested" for item
  proof -
    have "list_ex (\<lambda>n. item_eq n item) nested" using that by (auto simp: list_ex_iff intro: bexI [of _ item])
    then show ?thesis using f [of item] that pending(1) by (simp add: rebind_item_def)
  qed
  have "check_interruption ?b processed (items_by_id items) (ex_function_results ex) = Inr ()"
  proof -
    have "(case approvable x of Some e \<Rightarrow> Some e | None \<Rightarrow> if list_ex (\<lambda>n. item_eq n x) nested then None
        else case items_by_id items (ri_id x) of None \<Rightarrow> Some (InterruptionNotStored (ri_id x))
          | Some stored \<Rightarrow> if kind_eq (ri_kind x) (ri_kind stored) then None else Some (PayloadDiffers (ri_id x))) = None"
      if x: "x \<in> set ?b" for x
    proof -
      obtain item where item: "item \<in> set pending" "x = f item" using x by auto
      then have "items_by_id items (ri_id x) = Some x \<or> list_ex (\<lambda>n. item_eq n x) nested"
        using f [OF item(1)] items_by_id_unique [OF ids] by metis
      moreover have "approvable x = None" using kinds [OF item(1)] item(2) by (simp add: approvable_None)
      ultimately show ?thesis by (cases "list_ex (\<lambda>n. item_eq n x) nested") simp_all
    qed
    moreover have "list_ex (item_eq p) ?b" if "p \<in> set nested" for p
    proof -
      have "p \<in> set pending" using that pending(1) by simp
      then have "f p \<in> set ?b" by simp
      then show ?thesis unfolding keep [OF that] list_ex_iff by (intro bexI [of _ p]) simp_all
    qed
    moreover have "ri_id p \<in> set (map ri_id ?b)" if "p \<in> set (interruptions processed)" for p
    proof -
      have "p \<in> set pending" using that filed pending(1) by (auto simp: questions_filed_def)
      then show ?thesis using f [of p] by (metis image_eqI list.set_map)
    qed
    ultimately show ?thesis
      unfolding check_interruption_Inr nested using pending(2) by (intro conjI ballI) (blast | simp)+
  qed
  with r show thesis by (rule that)
qed


text \<open>The stored records have distinct ids, whatever a filter kept.\<close>

lemma keep_present_spec:
  "distinct (map ri_id (keep_present present kept)) \<and> ri_id ` set (keep_present present kept) \<inter> present = {}"
  by (induction present kept rule: keep_present.induct) auto

lemma place_kept_mset:
  "mset (place_kept gov entries kept) = mset (map snd (filter (\<lambda>e. \<not> gov e) entries)) + mset kept"
  by (induction gov entries kept rule: place_kept.induct) auto

lemma filtered_turn_records_distinct:
  assumes "distinct (map ri_id turn)"
  shows "distinct (map ri_id (filtered_turn_records turn locked handed kept))"
proof -
  let ?g = "governed locked handed" and ?P = "protected_ids locked handed turn"
  let ?ps = "map snd (filter (\<lambda>e. \<not> ?g e) (enumerate 0 turn))" and ?ks = "keep_present ?P kept"
  have "distinct (map (ri_id \<circ> snd) (filter (\<lambda>e. \<not> ?g e) (enumerate 0 turn)))"
    using assms by (intro distinct_map_filter) (simp add: map_map [symmetric] del: map_map)
  then have "distinct (map ri_id ?ps)" by simp
  moreover have "ri_id ` set ?ps = ?P" by (simp add: protected_ids_def image_image)
  ultimately have "distinct (map ri_id (?ps @ ?ks))" using keep_present_spec [of ?P kept] by auto
  moreover have "mset (map ri_id (place_kept ?g (enumerate 0 turn) ?ks)) = mset (map ri_id (?ps @ ?ks))"
    using place_kept_mset [of ?g "enumerate 0 turn" ?ks] by (metis mset_append mset_map)
  ultimately have "distinct (map ri_id (place_kept ?g (enumerate 0 turn) ?ks))" by (metis mset_eq_imp_distinct_iff)
  then show ?thesis by (simp add: filtered_turn_records_def Let_def distinct_map_filter)
qed

lemma classified_response_passes:
  assumes "list_all2 classified_from (pr_new_items processed) (mr_output response)"
  shows "check_classifies_this_response processed response = Inr ()"
proof -
  have same: "\<And>a b. classified_from a b \<Longrightarrow> same_but_display a b"
    by (auto simp: classified_from_def same_but_display_def)
  have "list_all2 same_but_display (pr_new_items processed) (mr_output response)"
    using assms by (rule list_all2_mono) (rule same)
  then have "list_all (\<lambda>(a, b). same_but_display a b) (zip (pr_new_items processed) (mr_output response))"
    by (simp add: list_all2_iff list_all_iff)
  then show ?thesis using assms by (simp add: check_classifies_this_response_def list_all2_lengthD)
qed

lemma response_reaches_passes:
  assumes "list_all2 classified_from (pr_new_items processed) (mr_output response)"
    and "distinct (map ri_id (step_items processed ex public step))"
  shows "check_response_reaches_the_session response (items_by_id (step_items processed ex public step)) = Inr ()"
  unfolding check_response_reaches_the_session_def check_each_Inr
proof
  fix item assume "item \<in> set (mr_output response)"
  then obtain i where i: "i < length (mr_output response)" "item = mr_output response ! i" by (metis in_set_conv_nth)
  have "classified_from (pr_new_items processed ! i) item" using assms(1) i by (simp add: list_all2_conv_all_nth)
  note same = classified_from_fields [OF this]
  have "pr_new_items processed ! i \<in> set (pr_new_items processed @ ex_new_items ex)"
    using i assms(1) by (simp add: list_all2_lengthD)
  then obtain stored where "stored \<in> set (step_items processed ex public step)" "ri_id stored = ri_id item"
      "model_payload_matches (ri_kind item) (ri_kind stored)"
    using step_items_copy [of _ processed ex public step] same by metis
  then show "(case items_by_id (step_items processed ex public step) (ri_id item) of None \<Rightarrow> Some (ResponseNotStored (ri_id item))
      | Some stored \<Rightarrow> if model_payload_matches (ri_kind item) (ri_kind stored) then None else Some (ModelPayloadDiffers (ri_id item))) = None"
    using items_by_id_unique [OF assms(2)] by fastforce
qed

lemma carried_passes:
  assumes "distinct (map ri_id items)" "set (map ri_id pre) \<inter> set (map ri_id items) = {}"
  shows "check_carried_items items (items_by_id pre) (items_by_id items) = Inr ()"
    and "check_session_items_are_new items (items_by_id pre) = Inr ()"
  using assms items_by_id_unique [OF assms(1)] items_by_id_None [of pre]
  by (auto simp: check_carried_items_def check_session_items_are_new_def disjoint_iff image_iff split: option.split)


text \<open>What the stages before the gate establish of a turn.\<close>

definition turn_filed ::
  "'n settle_request \<Rightarrow> 'n json processed_response \<Rightarrow> ('n json, 'g) turn_execution \<Rightarrow> bool" where
  "turn_filed rq processed ex \<longleftrightarrow>
     list_all2 classified_from (pr_new_items processed) (mr_output (rq_response rq)) \<and> questions_filed processed ex
     \<and> distinct (map ri_id (rq_pre_step_items rq) @ map ri_id (pr_new_items processed) @ map ri_id (ex_new_items ex))"

lemma step_build_passes:
  assumes "distinct (map ri_id stored)" "check_classifies_this_response processed response = Inr ()"
    "\<not> is_transfer step \<Longrightarrow> check_lists b response stored (items_by_id stored) = Inr ()"
    "check_next_step step processed (items_by_id stored) (sb_function_results b) = Inr ()"
    "check_resolved_output_phases step stored = Inr ()" "sb_final_output b = None \<or> is_final_step step"
    "sb_model_response b = Some response" "sb_processed_response b = Some processed" "sb_next_step b = Some step"
    "sb_session_step_items b = Some stored" "sb_nested_history_owned_items b = []"
  shows "\<exists>r. step_build b = Inr r"
proof -
  have "index_unique_items stored SessionItems = Inr (items_by_id stored)" using assms(1) by (simp add: index_unique_items_Inr)
  then show ?thesis using assms by (auto simp: step_build_def required_def check_nested_ownership_def)
qed

lemma resolved_step:
  assumes "resolve_next_step_with_output renv behavior processed ex = Inr (step, final_output)"
  shows "(execution_has_interruptions ex \<and> step = Interruption (ex_interruptions ex @ ex_nested_interruptions ex) \<and> final_output = None
      \<and> (\<forall>item \<in> set (ex_interruptions ex @ ex_nested_interruptions ex). is_interruption (ri_kind item)))
    \<or> (\<not> execution_has_interruptions ex \<and> (\<forall>items. step \<noteq> Interruption items) \<and> (final_output = None \<or> is_final_step step)
      \<and> (is_transfer step \<longrightarrow> pr_handoffs processed \<noteq> []))"
  using assms
  by (auto simp: resolve_next_step_with_output_def result_bind_Inr_iff next_step_interruption_Inr split: if_splits sum.splits list.splits option.splits)

lemma rebound_step:
  assumes filed: "turn_filed rq processed ex"
    and resolved: "resolve_next_step_with_output renv behavior processed ex = Inr (step, final_output)"
  obtains bound where "rebind_interruption step (step_items processed ex public step) (ex_nested_interruptions ex) = Inr bound"
    and "check_next_step bound processed (items_by_id (step_items processed ex public step)) (ex_function_results ex) = Inr ()"
    and "is_transfer bound \<Longrightarrow> check_next_step bound processed m (ex_function_results ex) = Inr ()"
    and "final_output = None \<or> is_final_step bound" and "is_transfer bound = is_transfer step"
    and "check_resolved_output_phases bound (step_items processed ex public step) = Inr ()"
proof -
  let ?items = "step_items processed ex public step"
  have q: "questions_filed processed ex" and ids: "distinct (map ri_id ?items)" using filed by (auto simp: turn_filed_def)
  have phases: "check_resolved_output_phases step ?items = Inr ()" by (simp add: step_items_def resolved_phases_pass)
  show thesis
  proof (cases "execution_has_interruptions ex")
    case True
    then have s: "step = Interruption (ex_interruptions ex @ ex_nested_interruptions ex)" "final_output = None"
        "\<forall>item \<in> set (ex_interruptions ex @ ex_nested_interruptions ex). is_interruption (ri_kind item)"
      using resolved_step [OF resolved] by auto
    have ne: "ex_interruptions ex @ ex_nested_interruptions ex \<noteq> []" using True by (simp add: execution_has_interruptions_def)
    obtain b where b: "rebind_interruption step ?items (ex_nested_interruptions ex) = Inr (Interruption b)"
        "check_interruption b processed (items_by_id ?items) (ex_function_results ex) = Inr ()"
      using rebind_settled_interruption [OF q ids refl ne s(3)] s(1) by metis
    have "check_resolved_output_phases (Interruption b) ?items = Inr ()"
      using phases s(1) by (simp add: check_resolved_output_phases_def)
    then show thesis using that [OF b(1)] b(2) s by simp
  next
    case False
    then have s: "\<forall>items. step \<noteq> Interruption items" "final_output = None \<or> is_final_step step"
      using resolved_step [OF resolved] by auto
    have none: "interruptions processed = []" "nested_interruptions (ex_function_results ex) = []"
      using False q by (auto simp: execution_has_interruptions_def questions_filed_def)
    have "rebind_interruption step ?items (ex_nested_interruptions ex) = Inr step" using s(1) by (cases step) simp_all
    moreover have "check_next_step step processed m' (ex_function_results ex) = Inr ()" for m'
      using s(1) none by (cases step) (simp_all add: has_interruptions_def)
    ultimately show thesis using that s(2) phases by blast
  qed
qed

lemma record_turn_result_passes:
  assumes "turn_filed rq processed ex"
    and "resolve_next_step_with_output renv behavior processed ex = Inr (step, final_output)"
    and "rebind_interruption step (step_items processed ex public step) (ex_nested_interruptions ex) = Inr bound"
    and "record_turn_result env rq processed ex bound final_output (step_items processed ex public step) st = (st', r)"
  shows "r \<noteq> Inl (GateRejected e)"
proof -
  let ?items = "step_items processed ex public step"
  have c: "list_all2 classified_from (pr_new_items processed) (mr_output (rq_response rq))" and ids: "distinct (map ri_id ?items)"
      and pre: "distinct (map ri_id (rq_pre_step_items rq))" "set (map ri_id (rq_pre_step_items rq)) \<inter> set (map ri_id ?items) = {}"
    using assms(1) by (auto simp: turn_filed_def)
  have b: "check_next_step bound processed (items_by_id ?items) (ex_function_results ex) = Inr ()"
      "\<And>m. is_transfer bound \<Longrightarrow> check_next_step bound processed m (ex_function_results ex) = Inr ()"
      "final_output = None \<or> is_final_step bound" "check_resolved_output_phases bound ?items = Inr ()"
    using rebound_step [OF assms(1,2), of public] assms(3) by (metis sum.inject(2))+
  show ?thesis
  proof (cases "project_handoff_input env (rq_original_input rq) (rq_pre_step_items rq) processed bound ?items")
    case (Inl e')
    then show ?thesis using assms(4) by (auto simp: record_turn_result_def)
  next
    case (Inr projected)
    define stored where "stored = (case pj_session projected of
        Some (handed, kept) \<Rightarrow> resolve_output_phases (filtered_turn_records ?items 0 handed kept) bound | None \<Rightarrow> ?items)"
    obtain ih pi ni where parts: "into_parts (pj_input projected) = (ih, pi, ni)" by (metis prod_cases3)
    have stored_ids: "distinct (map ri_id stored)" and phases: "check_resolved_output_phases bound stored = Inr ()"
      using ids b(4) filtered_turn_records_distinct [OF ids] by (auto simp: stored_def resolved_phases_pass split: option.split)
    have plain: "stored = ?items \<and> pi = rq_pre_step_items rq \<and> ni = ?items" if "\<not> is_transfer bound"
      using Inr that parts by (auto simp: project_handoff_input_def stored_def into_parts_def handoff_input_data_new_def Let_def)
    have nxt: "check_next_step bound processed (items_by_id stored) (ex_function_results ex) = Inr ()"
      using b(1,2) plain by (cases "is_transfer bound") auto
    define bld where "bld = \<lparr> sb_original_input = ih, sb_model_response = Some (rq_response rq), sb_pre_step_items = pi,
        sb_new_step_items = ni, sb_session_step_items = Some stored, sb_nested_history_owned_items = [],
        sb_tool_input_guardrail_results = ex_tool_input_guardrail_results ex,
        sb_tool_output_guardrail_results = ex_tool_output_guardrail_results ex, sb_function_results = ex_function_results ex,
        sb_processed_response = Some processed, sb_next_step = Some bound, sb_final_output = final_output \<rparr>"
    have lists: "check_lists bld (rq_response rq) stored (items_by_id stored) = Inr ()" if "\<not> is_transfer bound"
      using plain [OF that] ids pre response_reaches_passes [OF c ids] carried_passes [OF ids pre(2)]
      by (simp add: check_lists_def bld_def index_unique_items_def first_repeat_distinct [THEN iffD2])
    have "\<exists>s. step_build bld = Inr s"
      by (rule step_build_passes [OF stored_ids classified_response_passes [OF c] lists _ phases]) (simp_all add: bld_def nxt b(3))
    then show ?thesis using assms(4) Inr parts
      by (auto simp: record_turn_result_def bld_def stored_def Let_def split: option.splits prod.splits)
  qed
qed


text \<open>The ids an execution's records may take: one for the output and one for the approval request of each call.\<close>

definition call_record_ids :: "ustring list \<Rightarrow> ustring list" where
  "call_record_ids calls = concat (map (\<lambda>c. [output_item_id c, approval_item_id c]) calls)"

lemma distinct_submset: "distinct ys \<Longrightarrow> mset xs \<subseteq># mset ys \<Longrightarrow> distinct xs \<and> set xs \<subseteq> set ys"
proof -
  assume d: "distinct ys" and s: "mset xs \<subseteq># mset ys"
  then obtain zs where "mset ys = mset (xs @ zs)" by (metis ex_mset mset_append mset_subset_eq_exists_conv)
  then have "distinct (xs @ zs)" "set ys = set (xs @ zs)" using d by (metis mset_eq_imp_distinct_iff, metis set_mset_mset)
  then show ?thesis by auto
qed

lemma call_record_ids_append: "call_record_ids (xs @ ys) = call_record_ids xs @ call_record_ids ys"
  by (simp add: call_record_ids_def)

lemma call_record_ids_mset: "mset xs = mset ys \<Longrightarrow> mset (call_record_ids xs) = mset (call_record_ids ys)"
  unfolding call_record_ids_def by (rule mset_concat_map)

lemma answer_ids_submset: "mset (answer_ids c d) \<subseteq># mset [output_item_id c, approval_item_id c]"
  by (cases d) auto

lemma answers_submset:
  "mset (concat (map (\<lambda>x. answer_ids (f x) (d x)) xs)) \<subseteq># mset (call_record_ids (map f xs))"
proof (induction xs)
  case (Cons x xs)
  have "mset (answer_ids (f x) (d x)) + mset (concat (map (\<lambda>x. answer_ids (f x) (d x)) xs))
      \<subseteq># mset [output_item_id (f x), approval_item_id (f x)] + mset (call_record_ids (map f xs))"
    by (rule subset_mset.add_mono [OF answer_ids_submset Cons])
  then show ?case by (simp add: call_record_ids_def del: answer_ids.simps)
qed (simp add: call_record_ids_def)

lemma outputs_submset: "mset (map output_item_id cs) \<subseteq># mset (call_record_ids cs)"
  by (induction cs) (auto simp: call_record_ids_def intro: subset_mset.order_trans)

lemma transfer_ids_submset: "mset (transfer_ids hs) \<subseteq># mset (call_record_ids (map (\<lambda>h. hc_call_id (rh_call h)) hs))"
proof (cases hs)
  case (Cons h ignored)
  have "transfer_ids hs = map output_item_id (map (\<lambda>h. hc_call_id (rh_call h)) (ignored @ [h]))" using Cons by simp
  moreover have "mset (call_record_ids (map (\<lambda>h. hc_call_id (rh_call h)) (ignored @ [h])))
      = mset (call_record_ids (map (\<lambda>h. hc_call_id (rh_call h)) hs))"
    using Cons by (intro call_record_ids_mset) simp
  ultimately show ?thesis using outputs_submset by metis
qed simp

lemma executed_ids:
  assumes "snd (execute_actions env processed streamed fresh cancelled_after schedule recovery) = Inr ex"
    and "bs_task_orders streamed = Map.empty" "streamed_apart fresh 0 (bs_started streamed)"
    and "joins_each_task (bs_task_orders (fst (spawn_function_dispatches fresh (pr_functions processed) streamed))) (pr_functions processed)
      (concat schedule)"
    and "cancelled_after = None \<or> be_settle_check env \<noteq> None"
  shows "mset (map ri_id (ex_new_items ex)) \<subseteq># mset (call_record_ids (claimed_calls processed))"
proof -
  let ?o = "bs_task_orders (fst (spawn_function_dispatches fresh (pr_functions processed) streamed))" and ?fs = "pr_functions processed"
  have "map (\<lambda>order. tc_call_id (rf_call (?fs ! order))) [0..<length ?fs] = map (\<lambda>f. tc_call_id (rf_call f)) ?fs"
    by (rule nth_equalityI) simp_all
  then have "mset (concat (map (\<lambda>order. answer_ids (tc_call_id (rf_call (?fs ! order))) (the (dispatch_of ?o (concat schedule) order))) [0..<length ?fs]))
      \<subseteq># mset (call_record_ids (map (\<lambda>f. tc_call_id (rf_call f)) ?fs))" (is "mset ?answers \<subseteq># mset ?a")
    using answers_submset [of "\<lambda>order. tc_call_id (rf_call (?fs ! order))" _ "[0..<length ?fs]"] by metis
  moreover have "mset (map (\<lambda>m. output_item_id (tc_call_id (nf_call m))) (pr_tools_not_found processed))
      \<subseteq># mset (call_record_ids (map (\<lambda>m. tc_call_id (nf_call m)) (pr_tools_not_found processed)))" (is "mset ?missing \<subseteq># mset ?b")
    using outputs_submset [of "map (\<lambda>m. tc_call_id (nf_call m)) (pr_tools_not_found processed)"] by (simp add: comp_def)
  moreover have "mset (if execution_has_interruptions ex then [] else transfer_ids (pr_handoffs processed))
      \<subseteq># mset (call_record_ids (map (\<lambda>h. hc_call_id (rh_call h)) (pr_handoffs processed)))" (is "mset ?moves \<subseteq># mset ?c")
    using transfer_ids_submset [of "pr_handoffs processed"] by (simp del: transfer_ids.simps)
  ultimately have "mset ?answers + (mset ?missing + mset ?moves) \<subseteq># mset ?a + (mset ?b + mset ?c)"
    by (intro subset_mset.add_mono)
  moreover have "mset (call_record_ids (claimed_calls processed)) = mset ?a + (mset ?b + mset ?c)"
    by (simp add: claimed_calls_def call_record_ids_append ac_simps)
  moreover have "map ri_id (ex_new_items ex) = ?answers @ ?missing @ ?moves"
    using answers_in_order [OF assms(1-3) refl assms(4,5)] by (elim conjE)
  ultimately show ?thesis by (simp only: mset_append)
qed


section \<open>A settled turn\<close>

text \<open>The model says something, calls the tool twice and asks for one there is not.\<close>

definition settled_items :: "nat json run_item list" where
  "settled_items = [run_item_new (lit ''m1'') (RMessage (message_new RoleAssistant [])), sample_item ''i1'' ''c1'' ''a'',
     sample_item ''i2'' ''c2'' ''a'', sample_item ''i3'' ''c3'' ''z'']"

abbreviation settled_function :: "string \<Rightarrow> string \<Rightarrow> nat json tool_run_function" where
  "settled_function i c \<equiv> \<lparr> rf_item_id = lit i, rf_call = tool_call_new (lit c) (lit ''a'') JNull, rf_tool = clash_tool 0 None Advertised \<rparr>"

definition settled_processed :: "nat json processed_response" where
  "settled_processed = \<lparr> pr_new_items = settled_items, pr_handoffs = [],
     pr_functions = [settled_function ''i1'' ''c1'', settled_function ''i2'' ''c2''], pr_mcp_approval_requests = [],
     pr_tools_not_found = [\<lparr> nf_item_id = lit ''i3'', nf_call = tool_call_new (lit ''c3'') (lit ''z'') JNull \<rparr>] \<rparr>"

lemma settled_call:
  "tc_namespace (tool_call_new c n v) = None" "tc_kind (tool_call_new c n v) = KFunction" "tc_name (tool_call_new c n v) = n"
  "tc_call_id (tool_call_new c n v) = c" "bare (lit ''a'') = Inr (lookup_key Bare (lit ''a'') None)"
  "bare (lit ''z'') = Inr (lookup_key Bare (lit ''z'') None)"
  by (simp_all add: tool_call_new_def bare_def validate_tool_name_def str_simps)

lemma settled_lookups:
  "find_handoff prepared_sample name = None" "sf_tool_search prepared_sample = None"
  "find_tool_in prepared_sample None (lit ''a'') = Some (clash_tool 0 None Advertised)"
  "find_tool_in prepared_sample None (lit ''z'') = None"
  "call_key (tool_call_new c (lit ''a'') JNull) = Inr (lookup_key Bare (lit ''a'') None)"
  by (simp_all add: find_handoff_def find_tool_in_def checked_namespace_def for_call_def call_key_def settled_call lookup_eq_def lookup_identity_def)
    (simp_all add: prepared_sample_def lookup_key_def str_simps)

lemma settled_classified: "process_model_response_with_history (model_response_new settled_items) prepared_sample [] = Inr settled_processed"
proof -
  have "classify_items prepared_sample m settled_items response_builder_new = Inr settled_processed" for m
    by (simp add: settled_items_def settled_processed_def settled_lookups settled_call
      classify_item_def sample_item_def builder_function_def clash_keys lookup_eq_def
      builder_tool_not_found_def builder_item_def enrich_def run_item_new_def with_tool_call_metadata_def
      response_builder_new_def tool_call_of_def with_display_metadata_def)
   (simp_all add: clash_tool_def routed_definition_def)
  moreover have "response_build settled_processed = Inr settled_processed"
    by (simp add: response_build_def settled_processed_def claimed_def claimed_calls_def settled_items_def sample_item_def run_item_new_def settled_call str_simps)
  ultimately show ?thesis by (simp add: process_model_response_with_history_def model_response_new_def)
qed

definition settled_env :: "(nat, unit, unit) settle_env" where
  "settled_env = \<lparr> sv_batch = sample_batch_env, sv_public = \<lparr> pa_id = lit ''b'', pa_name = lit ''b'' \<rparr>, sv_sha = (\<lambda>_. []), sv_render = (\<lambda>_. []),
     sv_resolve = \<lparr> re_promote = (\<lambda>_. Inr ()), re_policy_check = None \<rparr>, sv_behavior = RunLlmAgain, sv_filter_of = (\<lambda>_. None),
     sv_default_filter = None, sv_server_manages_conversation = False, sv_filter_check = None \<rparr>"

definition settled_request :: "nat settle_request" where
  "settled_request = \<lparr> rq_response = model_response_new settled_items, rq_surface = prepared_sample, rq_original_input = [], rq_pre_step_items = [] \<rparr>"

definition unstreamed :: "nat json binding_state" where
  "unstreamed = \<lparr> bs_started = Map.empty, bs_task_orders = Map.empty, bs_spawned = [] \<rparr>"

text \<open>The second call finishes first.\<close>

abbreviation settled_schedule :: "(nat json, unit, unit) joined list list" where
  "settled_schedule \<equiv> [[batch_task 11 1 ''c2''], [batch_task 10 0 ''c1'']]"

definition settled_state :: "(nat, unit, unit) settle_state" where
  "settled_state = \<lparr> sr_tool_use = tool_use_tracker_new, sr_tool_failure = tool_failure_tracker_new, sr_recovery = empty_recovery,
     sr_handoff = None, sr_unfiltered_records = None \<rparr>"

lemma settled_bound:
  "bs_task_orders (fst (spawn_function_dispatches batch_fresh (pr_functions settled_processed) unstreamed)) = [10 \<mapsto> 0, 11 \<mapsto> 1]"
  "snd (spawn_function_dispatches batch_fresh (pr_functions settled_processed) unstreamed) = None"
  by (simp_all add: spawn_function_dispatches_def settled_processed_def unstreamed_def Let_def settled_call)

lemma settled_joins: "joins_each_task [10 \<mapsto> 0, 11 \<mapsto> 1] (pr_functions settled_processed) (concat settled_schedule)"
  by (auto simp: joins_each_task_def settled_processed_def batch_task_def settled_call)

lemma settled_orders: "(0 = UNBOUND_ORDER) = False" "(1 = UNBOUND_ORDER) = False" "(Suc 0 = UNBOUND_ORDER) = False"
  by (simp_all add: UNBOUND_ORDER_def)

lemma settled_executed:
  "\<exists>ex. snd (execute_actions sample_batch_env settled_processed unstreamed batch_fresh None settled_schedule empty_recovery) = Inr ex
     \<and> \<not> execution_has_interruptions ex"
proof -
  obtain bound where b: "spawn_function_dispatches batch_fresh (pr_functions settled_processed) unstreamed = (bound, None)"
      "bs_task_orders bound = [10 \<mapsto> 0, 11 \<mapsto> 1]"
    using settled_bound by (metis prod.collapse)
  have p: "pr_handoffs settled_processed = []" "interruptions settled_processed = []"
    by (simp_all add: settled_processed_def interruptions_def settled_items_def run_item_new_def sample_item_def)
  show ?thesis
    by (cases "action_at settled_processed 0"; cases "action_at settled_processed (Suc 0)")
     (simp_all add: execute_actions_def b p sample_batch_env_def retain_settled_def settle_batch_def settle_dispatches_def execute_handoffs_def
        collected_default_def batch_task_def bound_order_def complete_task_def settle_completed_def settle_output_def result_completed_output
        Let_def settled_orders answer_missing_def execution_has_interruptions_def execution_default_def)
qed

end
