(* ===== verification/Spec2Isabelle.thy ===== *)
theory Spec2Isabelle
  imports Run_Spend Tool_Use Tool_Failure Output_Reference Permissions
    Patch_Tool Patch_Print Apply_Diff Exec_Policy_Parser Policy_Amend
    Archive_Ref Input_Normalization Cancel_Tree Model_Retry Admission_Gate
    Turn_Surface Turn_Response Turn_Batch Turn_Step Turn_Handoff
    Turn_Settle
begin

text \<open>
  A verification development for the agent framework under \<^verbatim>\<open>src/crates\<close>.

  The framework runs language-model agents. A run loop (\<^verbatim>\<open>ra-runtime\<close>) calls a model, dispatches the tool
  calls it asks for, and keeps a durable run state (\<^verbatim>\<open>ra-core/src/state\<close>) from which an interrupted run is
  resumed. Around that loop stand the parts that keep a run within bounds, and those are what is
  modelled here: what a run may spend, which tool calls are admitted, what is remembered of them, and what the
  editing and command tools may do to the machine.

  \<^bold>\<open>Spending.\<close>
  \<^item> \<^verbatim>\<open>Usage_Ledger\<close>: token usage and the ledgers of a run (\<^verbatim>\<open>ra-core/src/usage.rs\<close>, \<^verbatim>\<open>compat.rs\<close>). Counters are
    64-bit words with saturating addition; the locale \<open>spend_ledger\<close> states what folding requests into a
    ledger promises and is interpreted on the ledger and on single records.
  \<^item> \<^verbatim>\<open>Budget\<close>: turn, token and deadline budgets (\<^verbatim>\<open>ra-core/src/budget.rs\<close>), the accounting part of the run state
    (\<^verbatim>\<open>ra-core/src/state/run.rs\<close>) and the rollout budget (\<^verbatim>\<open>ra-runtime/src/agent/control/budget.rs\<close>; its floating point
    operations are an argument).
  \<^item> \<^verbatim>\<open>Run_Spend\<close>: the spend store shared by a run and the runs nested in it (\<^verbatim>\<open>ra-runtime/src/budget.rs\<close>,
    \<^verbatim>\<open>runner.rs\<close>). Its references are addresses in an explicit store; the steps of the loop are a step relation.
    Shown: the live total is the ledger plus the nested spend not yet absorbed in every reachable state; a call is
    charged to exactly the runs above it; the verdict of the loop is one priority list.

  \<^bold>\<open>Talking to the model.\<close>
  \<^item> \<^verbatim>\<open>Run_Item\<close>: the records of a session (\<^verbatim>\<open>ra-core/src/item\<close>) and their projection to model input. A JSON value is a
    type variable.
  \<^item> \<^verbatim>\<open>Archive_Ref\<close>: the percent-encoded address of a compaction archive (\<^verbatim>\<open>item/compaction.rs\<close>) and its round trip.
  \<^item> \<^verbatim>\<open>Input_Normalization\<close>: the preparation of a history for a request (\<^verbatim>\<open>item/normalization.rs\<close>). The two-pass
    deduplication is shown equal to its direct description (locale \<open>keyed_items\<close>); no kept call lacks its
    answer, no reasoning item lacks its follower, preparing twice changes nothing.
  \<^item> \<^verbatim>\<open>Cancel_Tree\<close>: cancellation scopes (\<^verbatim>\<open>ra-core/src/cancel.rs\<close>) over an explicit store of reason slots; the token of
    tokio-util is an argument with the laws of the locale \<open>cancellation_tokens\<close>, interpreted on a tree. Two step
    relations: whole calls, and their atomic actions interleaved.
  \<^item> \<^verbatim>\<open>Error_Taxonomy\<close>: the framework's errors (\<^verbatim>\<open>ra-core/src/error.rs\<close>) and the provider facts in their source chain.
  \<^item> \<^verbatim>\<open>Model_Retry\<close>: retry settings, policies, backoff, the gate and the loop around a model call (\<^verbatim>\<open>model/retry\<close>,
    \<^verbatim>\<open>ra-runtime/src/runner.rs\<close>). One physical request is an argument: attempt and world to result and world. Shown: the number of
    attempts is bounded and none is repeated that let anything out of the runtime.

  \<^bold>\<open>Admission and memory of tool calls.\<close>
  \<^item> \<^verbatim>\<open>Tool_Identity\<close>: lookup keys, namespaces and their wire form (\<^verbatim>\<open>ra-core/src/tool\<close>), with the round trip.
  \<^item> \<^verbatim>\<open>Turn_Digest\<close>, \<^verbatim>\<open>Replay_Table\<close>: the bytes hashed for a turn and their injectivity; the table keyed by
    identity that both trackers share, as the locale \<open>replay_table\<close>.
  \<^item> \<^verbatim>\<open>Tool_Use\<close>, \<^verbatim>\<open>Tool_Failure\<close>: the trackers of calls and of failures (\<^verbatim>\<open>ra-core/src/state/tool_use.rs\<close>,
    \<^verbatim>\<open>tool_failure.rs\<close>) and the circuit breakers (\<^verbatim>\<open>ra-runtime/src/circuit.rs\<close>). Shown: one entry per identity,
    recording a replayed turn changes nothing, counters and streaks are functions of the history of calls, the breaker fires
    exactly at its limit. SHA-256 is an argument, assumed injective where a property needs it.
  \<^item> \<^verbatim>\<open>Output_Reference\<close>: the ledger of which tool outputs are still referenced
    (\<^verbatim>\<open>ra-core/src/state/tool_output_reference.rs\<close>): its invariant, when an update is accepted and what it changes.
  \<^item> \<^verbatim>\<open>Permissions\<close>: permission rules and the engine that evaluates them (\<^verbatim>\<open>ra-core/src/permission.rs\<close>,
    \<^verbatim>\<open>ra-runtime/src/permission.rs\<close>), with the locale \<open>last_match\<close>: the class boundary is hard, the last matching rule
    decides, a rule minted from an answer does not widen.

  \<^item> \<^verbatim>\<open>Admission_Gate\<close>: resource claims, the gate that admits concurrent calls and the phases of their tasks
    (\<^verbatim>\<open>ra-core/src/tool/resource.rs\<close>, \<^verbatim>\<open>ra-runtime/src/turn/batch.rs\<close>, \<^verbatim>\<open>tool/dispatch.rs\<close>) as a step relation. The locks and the
    semaphore are an argument with the laws of the locale \<open>admission_primitives\<close>, interpreted on first-come-first-served
    locks. Shown: calls that run together do not conflict, and the tasks of a turn never deadlock.

  \<^bold>\<open>One turn.\<close>
  \<^item> \<^verbatim>\<open>Turn_Surface\<close>: what a turn offers the model (\<^verbatim>\<open>ra-runtime/src/turn/prepare.rs\<close>): which tools and transfers are
    available, how clashing names are resolved, the table that is sent and its budget, the lookups that route a call
    back. Shown: the names on a prepared surface are unambiguous, and the table sent respects the budget.
  \<^item> \<^verbatim>\<open>Turn_Response\<close>: the response bound to actions (\<^verbatim>\<open>turn/process.rs\<close>, \<^verbatim>\<open>ra-core/src/step/processed.rs\<close>). Shown: every
    item that needs an answer is claimed by exactly one action, only what was enabled is bound, ordinary responses are
    always classified, and the attempts handed to \<^verbatim>\<open>Tool_Use\<close> follow the response.
  \<^item> \<^verbatim>\<open>Turn_Batch\<close>: the actions answered (\<^verbatim>\<open>turn/batch.rs\<close>). Calls run concurrently; a schedule is the order in which their
    tasks are joined, cut into the batches that were ready together. Shown: every call is answered once, in model order,
    and the outcome, failures included, does not depend on the schedule.
  \<^item> \<^verbatim>\<open>Turn_Step\<close>: the four ways a turn ends (\<^verbatim>\<open>ra-core/src/finish.rs\<close>, \<^verbatim>\<open>step.rs\<close>, \<^verbatim>\<open>step/phase.rs\<close>), how one is chosen
    (\<^verbatim>\<open>turn/resolve.rs\<close>) and the gate of a settled turn (\<^verbatim>\<open>step/single.rs\<close>). Shown: what passes the gate is consistent.
  \<^item> \<^verbatim>\<open>Turn_Handoff\<close>: what a transfer hands over (\<^verbatim>\<open>ra-core/src/agent/handoff.rs\<close>) and what is stored after a host's filter.
    Shown: a window of \<open>k\<close> items holds exactly the \<open>k\<close> most recent; handed-over exchanges are whole, and so are stored ones.
  \<^item> \<^verbatim>\<open>Turn_Settle\<close>: the stages of \<^verbatim>\<open>settle_turn\<close> (\<^verbatim>\<open>ra-runtime/src/turn.rs\<close>), composed from all of the above and the two
    trackers. Shown: with fresh ids settlement never fails at its own gate, on any schedule.

  \<^bold>\<open>Editing files.\<close>
  \<^item> \<^verbatim>\<open>Unix_Path\<close>, \<^verbatim>\<open>Absolute_Path\<close>: what is used of \<^verbatim>\<open>std::path\<close>, and \<^verbatim>\<open>AbsolutePathBuf\<close>
    (\<^verbatim>\<open>ra-paths/src/absolute_path.rs\<close>): normal form, and joining stays below the base.
  \<^item> \<^verbatim>\<open>Patch_Match\<close>, \<^verbatim>\<open>Patch_Apply\<close>, \<^verbatim>\<open>Patch_Parse\<close>, \<^verbatim>\<open>Patch_Print\<close>: the V4A patch format (\<^verbatim>\<open>ra-patch/src/fuzz.rs\<close>,
    \<^verbatim>\<open>apply.rs\<close>, \<^verbatim>\<open>parse.rs\<close>). Matching levels are linearly ordered, each interpreted as coarser than the one before
    (locale \<open>coarser_matcher\<close>). Shown: the strictest matching level is used, a hunk changes only what it matches
    and never an arbitrary one of several places, a parsed plan stays below the workspace, and
    parsing inverts the canonical printing of a plan.
  \<^item> \<^verbatim>\<open>Apply_Diff\<close>: the reference diff applier of the sandbox tools (\<^verbatim>\<open>ra-patch/src/apply_diff.rs\<close>): a successful update
    replaces exactly the matched blocks; placement errors need an end-of-file hunk; creation round trips.
  \<^item> \<^verbatim>\<open>Patch_Tool\<close>: the tool that commits a plan action by action (\<^verbatim>\<open>ra-tools/src/apply_patch.rs\<close>), over a file system
    that is an argument with stated laws: only named files change, and the report is what was committed.

  \<^bold>\<open>Running commands.\<close>
  \<^item> \<^verbatim>\<open>Exec_Policy\<close>: prefix rules, network rules and their evaluation (\<^verbatim>\<open>ra-execpolicy/src/policy.rs\<close>, \<^verbatim>\<open>rule.rs\<close>): the strictest
    match decides, overlays only tighten, host lists follow the last rule, host executables are confined.
  \<^item> \<^verbatim>\<open>Exec_Policy_Parser\<close>: rules files (\<^verbatim>\<open>parser.rs\<close>): examples of accepted files hold, the policy stays well formed in
    every reachable state of the builder, lookup by program is complete. The Starlark evaluator is an argument.
  \<^item> \<^verbatim>\<open>Policy_Amend\<close>: appending rules (\<^verbatim>\<open>amend.rs\<close>) with every I/O failure as a branch.

  \<^bold>\<open>Conventions.\<close> \<^verbatim>\<open>Prelude\<close> holds the shared vocabulary. \<^verbatim>\<open>u32\<close> and \<^verbatim>\<open>u64\<close> values are words and keep their width;
  \<^verbatim>\<open>usize\<close> values that index or count things held in memory are natural numbers. A \<^verbatim>\<open>str\<close> is the list of its scalar
  values. \<^verbatim>\<open>Result\<close> is a sum with the error on the left; error constructors carry what the message quotes, not its
  wording. No definition uses fuel: every loop is structural or has a termination proof whose measure is
  the number of lines, tokens or list elements left, so every function is total. A panic of the source is
  the value \<open>None\<close> of an option (\<open>from_matches\<close>), or is shown unreachable. Platform-dependent code is that of Unix.

  \<^bold>\<open>Third-party code\<close> is an argument: the multimap (\<open>multimap_laws\<close>), SHA-256, JSON quoting, Starlark, the shell splitter,
  floating point, and the operating system's answers. Each property that assumes laws of such an argument has
  a witness with a concrete instance.

  \<^bold>\<open>Not modelled:\<close> asynchronous orchestration of model calls and tools, transports, processes, sandbox backends, session logs
  on disk, configuration and prompts, and serialization other than the checks made on loading. Planned next: the context
  budget and eviction order (\<^verbatim>\<open>ra-context\<close>) and the session event log (\<^verbatim>\<open>ra-session\<close>).
\<close>

end
